(* ===== verification/Prelude.thy ===== *)
theory Prelude
  imports Main "HOL-Library.Word" "HOL-Library.Char_ord" "HOL-Library.List_Lexorder"
    "HOL-Library.Signed_Division"
begin

text \<open>
  Shared vocabulary of the development: the C++ integer and string types, the parts of the C++
  standard library that the sources call (string search, decimal conversion, byte order), and the
  generic lemmas on words and lists that the component theories rely on.

  A C++ \<open>std::string\<close> is a list of HOL characters, which are bytes; its comparison operators
  compare unsigned bytes lexicographically, which is the order that \<open>Char_ord\<close> and
  \<open>List_Lexorder\<close> give to \<^typ>\<open>string\<close>. Unsigned integers keep their width as words.
\<close>

named_theorems wire_simps \<open>byte-level encoding and decoding\<close>
named_theorems node_simps \<open>projections of the updated state of a Raft node\<close>

type_synonym uint64 = "64 word"
type_synonym uint32 = "32 word"
type_synonym uint16 = "16 word"

subsection \<open>Exceptions of the C++ standard library\<close>

datatype std_exn = Invalid_argument | Out_of_range

subsection \<open>Strings\<close>

text \<open>\<open>std::string::find\<close> of one character; \<open>None\<close> is \<open>npos\<close>.\<close>

definition str_find :: "char \<Rightarrow> string \<Rightarrow> nat option" where
  "str_find c s = (if c \<in> set s then Some (length (takeWhile (\<lambda>x. x \<noteq> c) s)) else None)"

lemma str_find_None: "str_find c s = None \<longleftrightarrow> c \<notin> set s"
  by (simp add: str_find_def)

lemma str_find_append: "c \<notin> set a \<Longrightarrow> str_find c (a @ c # b) = Some (length a)"
proof -
  assume "c \<notin> set a"
  then have "takeWhile (\<lambda>x. x \<noteq> c) (a @ c # b) = a @ takeWhile (\<lambda>x. x \<noteq> c) (c # b)"
    by (intro takeWhile_append2) auto
  then show ?thesis by (simp add: str_find_def)
qed

lemma str_find_split:
  assumes "str_find c s = Some p"
  shows "s = take p s @ c # drop (Suc p) s" and "c \<notin> set (take p s)"
proof -
  from assms have "c \<in> set s" by (auto simp: str_find_def split: if_splits)
  then obtain a b where s: "s = a @ c # b" and a: "c \<notin> set a"
    by (metis split_list_first)
  with assms have "p = length a" by (simp add: str_find_append)
  with s a show "s = take p s @ c # drop (Suc p) s" and "c \<notin> set (take p s)" by auto
qed

text \<open>\<open>s.erase(0, s.find_first_not_of(cs))\<close> and
  \<open>s.erase(s.find_last_not_of(cs) + 1)\<close>. When every character is in \<open>cs\<close>, the first search
  gives \<open>npos\<close> and the first call erases everything; the second search gives \<open>npos\<close>, whose
  successor wraps to 0, and the second call erases everything too.\<close>

definition erase_leading :: "char set \<Rightarrow> string \<Rightarrow> string" where
  "erase_leading cs s = dropWhile (\<lambda>c. c \<in> cs) s"

definition erase_trailing :: "char set \<Rightarrow> string \<Rightarrow> string" where
  "erase_trailing cs s = rev (dropWhile (\<lambda>c. c \<in> cs) (rev s))"

subsection \<open>Decimal conversion\<close>

definition digit_char :: "nat \<Rightarrow> char" where
  "digit_char d = char_of (48 + d)"

definition is_digit_char :: "char \<Rightarrow> bool" where
  "is_digit_char c \<longleftrightarrow> 48 \<le> (of_char c :: nat) \<and> (of_char c :: nat) \<le> 57"

definition digit_val :: "char \<Rightarrow> nat" where
  "digit_val c = of_char c - 48"

text \<open>\<open>std::to_string\<close> of an unsigned value.\<close>

fun dec_string :: "nat \<Rightarrow> string" where
  "dec_string n = (if n < 10 then [digit_char n] else dec_string (n div 10) @ [digit_char (n mod 10)])"

declare dec_string.simps [simp del]

definition dec_value :: "string \<Rightarrow> nat" where
  "dec_value ds = foldl (\<lambda>a c. 10 * a + digit_val c) 0 ds"

lemma digit_char_simps [simp]:
  "d < 10 \<Longrightarrow> is_digit_char (digit_char d)"
  "d < 10 \<Longrightarrow> digit_val (digit_char d) = d"
  by (simp_all add: digit_char_def is_digit_char_def digit_val_def)

lemma dec_string_digits: "list_all is_digit_char (dec_string n)"
proof (induction n rule: dec_string.induct)
  case (1 n)
  then show ?case by (subst dec_string.simps) simp
qed

lemma dec_string_nonempty: "dec_string n \<noteq> []"
  by (subst dec_string.simps) simp

lemma dec_value_dec_string: "dec_value (dec_string n) = n"
proof (induction n rule: dec_string.induct)
  case (1 n)
  then show ?case
    by (subst dec_string.simps) (auto simp: dec_value_def)
qed

definition is_space_char :: "char \<Rightarrow> bool" where
  "is_space_char c \<longleftrightarrow> (of_char c :: nat) = 32 \<or> (9 \<le> (of_char c :: nat) \<and> (of_char c :: nat) \<le> 13)"

text \<open>
  The common part of \<open>std::stoi\<close> and \<open>std::stoull\<close> (base 10): white space is skipped, one sign is
  accepted, the longest run of digits is read and the rest of the string is ignored; no digit at
  all raises \<open>std::invalid_argument\<close>. The result is the sign and the magnitude.
\<close>

definition scan_decimal :: "string \<Rightarrow> std_exn + bool \<times> nat" where
  "scan_decimal s =
     (let t = dropWhile is_space_char s;
          neg = (t \<noteq> [] \<and> hd t = CHR ''-'');
          u = (if t \<noteq> [] \<and> (hd t = CHR ''-'' \<or> hd t = CHR ''+'') then tl t else t);
          ds = takeWhile is_digit_char u
      in if ds = [] then Inl Invalid_argument else Inr (neg, dec_value ds))"

definition stoi :: "string \<Rightarrow> std_exn + int" where
  "stoi s = (case scan_decimal s of Inl e \<Rightarrow> Inl e
     | Inr (neg, n) \<Rightarrow> (let v = (if neg then - int n else int n)
        in if - (2 ^ 31) \<le> v \<and> v < 2 ^ 31 then Inr v else Inl Out_of_range))"

definition stoull :: "string \<Rightarrow> std_exn + uint64" where
  "stoull s = (case scan_decimal s of Inl e \<Rightarrow> Inl e
     | Inr (neg, n) \<Rightarrow> (if n < 2 ^ 64
          then Inr (if neg then - word_of_nat n else word_of_nat n) else Inl Out_of_range))"

lemma scan_decimal_dec_string: "scan_decimal (dec_string n) = Inr (False, n)"
proof -
  obtain c cs where d: "dec_string n = c # cs"
    using dec_string_nonempty by (cases "dec_string n") auto
  with dec_string_digits [of n] have c: "is_digit_char c" and all: "list_all is_digit_char (c # cs)"
    by auto
  from c have sp: "\<not> is_space_char c" and sg: "c \<noteq> CHR ''-''" "c \<noteq> CHR ''+''"
    by (auto simp: is_digit_char_def is_space_char_def)
  have tw: "takeWhile is_digit_char (c # cs) = c # cs"
    using all by (simp only: takeWhile_eq_all_conv list_all_iff)
  have "dec_value (c # cs) = n" using dec_value_dec_string [of n] d by simp
  with sp sg tw show ?thesis by (simp only: scan_decimal_def d Let_def dropWhile.simps) simp
qed

lemma stoull_dec_string: "stoull (dec_string (unat x)) = Inr x"
  using unsigned_less [of x] by (simp add: stoull_def scan_decimal_dec_string)

lemma stoi_dec_string: "n < 2 ^ 31 \<Longrightarrow> stoi (dec_string n) = Inr (int n)"
  by (simp add: stoi_def scan_decimal_dec_string)

text \<open>\<open>static_cast<uint16_t>\<close> of an \<open>int\<close>.\<close>

definition to_uint16 :: "int \<Rightarrow> uint16" where
  "to_uint16 n = word_of_int n"

subsection \<open>Network byte order\<close>

text \<open>
  The \<open>k\<close> low-order bytes of a number, most significant byte first: what the four bytes of a
  \<open>uint32_t\<close> hold after \<open>htonl\<close>, and the eight bytes that \<open>encodeLogKey\<close> appends.
\<close>

fun be_encode :: "nat \<Rightarrow> nat \<Rightarrow> string" where
  "be_encode 0 n = []"
| "be_encode (Suc k) n = be_encode k (n div 256) @ [char_of (n mod 256)]"

definition be_decode :: "string \<Rightarrow> nat" where
  "be_decode bs = foldl (\<lambda>a c. 256 * a + of_char c) 0 bs"

lemma length_be_encode [simp, wire_simps]: "length (be_encode k n) = k"
  by (induction k arbitrary: n) auto

lemma be_decode_be_encode: "be_decode (be_encode k n) = n mod 256 ^ k"
proof (induction k arbitrary: n)
  case 0
  then show ?case by (simp add: be_decode_def)
next
  case (Suc k)
  have "be_decode (be_encode (Suc k) n) = 256 * (n div 256 mod 256 ^ k) + n mod 256"
    using Suc [of "n div 256"] by (simp add: be_decode_def)
  also have "\<dots> = n mod (256 * 256 ^ k)"
    by (metis mod_mult2_eq add.commute)
  finally show ?case by simp
qed

lemma snoc_less_snoc:
  "length xs = length ys \<Longrightarrow>
     xs @ [a] < ys @ [b] \<longleftrightarrow> xs < ys \<or> (xs = ys \<and> (a::'a::linorder) < b)"
  by (induction xs ys rule: list_induct2) auto

lemma be_encode_less:
  "m < n \<Longrightarrow> n < 256 ^ k \<Longrightarrow> be_encode k m < be_encode k n"
proof (induction k arbitrary: m n)
  case 0
  then show ?case by simp
next
  case (Suc k)
  from Suc.prems have bnd: "n div 256 < 256 ^ k" and le: "m div 256 \<le> n div 256"
    by (auto simp: less_mult_imp_div_less mult.commute div_le_mono)
  show ?case
  proof (cases "m div 256 = n div 256")
    case True
    with Suc.prems(1) have "m mod 256 < n mod 256"
      by (metis div_mult_mod_eq nat_add_left_cancel_less)
    then show ?thesis using True by (simp add: snoc_less_snoc less_char_def)
  next
    case False
    with le have "m div 256 < n div 256" by simp
    from Suc.IH [OF this bnd] show ?thesis by (simp add: snoc_less_snoc)
  qed
qed

lemma be_encode_inject:
  "m < 256 ^ k \<Longrightarrow> n < 256 ^ k \<Longrightarrow> be_encode k m = be_encode k n \<longleftrightarrow> m = n"
  using be_encode_less [of m n k] be_encode_less [of n m k] by (metis less_irrefl linorder_neqE_nat)

definition htonl_bytes :: "uint32 \<Rightarrow> string" where
  "htonl_bytes w = be_encode 4 (unat w)"

definition ntohl_bytes :: "string \<Rightarrow> uint32" where
  "ntohl_bytes bs = word_of_nat (be_decode bs)"

lemma length_htonl_bytes [simp, wire_simps]: "length (htonl_bytes w) = 4"
  by (simp add: htonl_bytes_def)

lemma ntohl_htonl [simp, wire_simps]: "ntohl_bytes (htonl_bytes w) = w"
proof -
  have "unat w < 256 ^ 4" using unsigned_less [of w, where ?'a = nat] by simp
  then show ?thesis by (simp only: htonl_bytes_def ntohl_bytes_def be_decode_be_encode mod_less unat_eq_nat_uint) simp
qed

subsection \<open>Words used as list positions\<close>

text \<open>
  A \<open>size_t\<close> computed from a container is \<^term>\<open>word_of_nat n\<close> for a length below \<open>2\<^sup>6\<^sup>4\<close>; comparing
  it with a \<open>uint64_t\<close> is then the comparison of naturals.
\<close>

lemma unat_word_of_nat64: "n < 2 ^ 64 \<Longrightarrow> unat (word_of_nat n :: uint64) = n"
  by (simp add: unat_of_nat)

lemma word_le_of_nat64: "n < 2 ^ 64 \<Longrightarrow> x \<le> (word_of_nat n :: uint64) \<longleftrightarrow> unat x \<le> n"
  by (simp add: word_le_nat_alt unat_word_of_nat64)

lemma of_nat64_less_word: "n < 2 ^ 64 \<Longrightarrow> (word_of_nat n :: uint64) < x \<longleftrightarrow> n < unat x"
  by (simp add: word_less_nat_alt unat_word_of_nat64)

lemma word_less_of_nat64: "n < 2 ^ 64 \<Longrightarrow> x < (word_of_nat n :: uint64) \<longleftrightarrow> unat x < n"
  by (simp add: word_less_nat_alt unat_word_of_nat64)

lemma of_nat64_le_word: "n < 2 ^ 64 \<Longrightarrow> (word_of_nat n :: uint64) \<le> x \<longleftrightarrow> n \<le> unat x"
  by (simp add: word_le_nat_alt unat_word_of_nat64)

lemmas word_nat64 = unat_word_of_nat64 word_le_of_nat64 of_nat64_less_word word_less_of_nat64
  of_nat64_le_word

lemma unat_plus_one64: "unat x < 2 ^ 64 - 1 \<Longrightarrow> unat (x + 1 :: uint64) = unat x + 1"
  by (simp add: unat_word_ariths)

lemma unat_minus_one64: "x \<noteq> 0 \<Longrightarrow> unat (x - 1 :: uint64) = unat x - 1"
  by (simp add: unat_minus_one)

lemma unat_Suc_less64: "(x :: uint64) < y \<Longrightarrow> unat (x + 1) = unat x + 1"
proof -
  assume "x < y"
  then have "unat x < unat y" by (simp add: word_less_nat_alt)
  moreover have "unat y < 2 ^ 64" using unsigned_less [of y, where ?'a = nat] by simp
  ultimately show ?thesis by (intro unat_plus_one64) simp
qed

lemma word_less_plus_one: "x \<noteq> - 1 \<Longrightarrow> (x :: uint64) < x + 1"
proof -
  assume "x \<noteq> - 1"
  then have "x < - 1" using max_word_max [of x] by (simp add: order.not_eq_order_implies_strict)
  then have "unat (x + 1) = unat x + 1" by (rule unat_Suc_less64)
  then show ?thesis by (simp add: word_less_nat_alt)
qed

lemma unat_Suc_less32: "(x :: uint32) < y \<Longrightarrow> unat (x + 1) = unat x + 1"
proof -
  assume "x < y"
  then have "unat x < unat y" by (simp add: word_less_nat_alt)
  moreover have "unat y < 2 ^ 32" using unsigned_less [of y, where ?'a = nat] by simp
  ultimately show ?thesis by (simp add: unat_word_ariths)
qed

end
