(* ===== verification/Proto.thy ===== *)
theory Proto
  imports Prelude
begin

text \<open>
  The messages of the key-value store, from its protocol definitions (\<open>proto/common.proto\<close>,
  \<open>proto/kv_rpc.proto\<close>, \<open>proto/raft_rpc.proto\<close>, \<open>proto/pd_rpc.proto\<close>). A message is a record; a
  sub-message field is an option, and its accessor gives the default message when it is unset, as
  the generated C++ accessors do. Serialisation is generated code and stays a parameter of the
  definitions that use it: a pair of functions with the round-trip law of the locale \<open>wire_format\<close>.
\<close>

subsection \<open>common.proto\<close>

datatype error_code = OK | KEY_NOT_FOUND | WRONG_LEADER | SHARD_NOT_FOUND | TIMEOUT | NOT_LEADER
  | INTERNAL_ERROR

record node_info =
  ni_node_id :: uint64
  ni_ip :: string
  ni_port :: uint32
  ni_shard_count :: uint32
  ni_leader_count :: uint32

record shard_meta =
  sm_shard_id :: uint64
  sm_start_key :: string
  sm_end_key :: string
  sm_epoch :: uint64
  sm_leader_node_id :: uint64
  sm_peer_node_ids :: "uint64 list"

record shard_map =
  map_shards :: "shard_meta list"
  map_version :: uint64

definition default_node_info :: node_info where
  "default_node_info = \<lparr>ni_node_id = 0, ni_ip = [], ni_port = 0, ni_shard_count = 0,
     ni_leader_count = 0\<rparr>"

definition default_shard_map :: shard_map where
  "default_shard_map = \<lparr>map_shards = [], map_version = 0\<rparr>"

subsection \<open>kv\_rpc.proto\<close>

record get_request =
  gq_key :: string
  gq_allow_stale :: bool
  gq_call_id :: uint64

record get_response =
  gr_error_code :: error_code
  gr_key :: string
  gr_value :: string
  gr_call_id :: uint64
  gr_correct_leader_node_id :: uint64
  gr_correct_leader_addr :: string

record put_request =
  pq_key :: string
  pq_value :: string
  pq_call_id :: uint64

record put_response =
  pr_error_code :: error_code
  pr_call_id :: uint64
  pr_correct_leader_node_id :: uint64
  pr_correct_leader_addr :: string

record delete_request =
  dq_key :: string
  dq_call_id :: uint64

record delete_response =
  dr_error_code :: error_code
  dr_call_id :: uint64
  dr_correct_leader_node_id :: uint64
  dr_correct_leader_addr :: string

record scan_request =
  sq_start_key :: string
  sq_end_key :: string
  sq_limit :: uint32
  sq_allow_stale :: bool
  sq_call_id :: uint64

record scan_response =
  sr_error_code :: error_code
  sr_kvs :: "(string \<times> string) list"
  sr_has_more :: bool
  sr_next_start_key :: string
  sr_call_id :: uint64
  sr_correct_leader_node_id :: uint64
  sr_correct_leader_addr :: string

datatype rpc_type = GET_REQUEST | GET_RESPONSE | PUT_REQUEST | PUT_RESPONSE | DELETE_REQUEST
  | DELETE_RESPONSE | SCAN_REQUEST | SCAN_RESPONSE

record rpc_message =
  rm_type :: rpc_type
  rm_get_request :: "get_request option"
  rm_get_response :: "get_response option"
  rm_put_request :: "put_request option"
  rm_put_response :: "put_response option"
  rm_delete_request :: "delete_request option"
  rm_delete_response :: "delete_response option"
  rm_scan_request :: "scan_request option"
  rm_scan_response :: "scan_response option"

definition default_get_request :: get_request where
  "default_get_request = \<lparr>gq_key = [], gq_allow_stale = False, gq_call_id = 0\<rparr>"

definition default_get_response :: get_response where
  "default_get_response = \<lparr>gr_error_code = OK, gr_key = [], gr_value = [], gr_call_id = 0,
     gr_correct_leader_node_id = 0, gr_correct_leader_addr = []\<rparr>"

definition default_put_request :: put_request where
  "default_put_request = \<lparr>pq_key = [], pq_value = [], pq_call_id = 0\<rparr>"

definition default_put_response :: put_response where
  "default_put_response = \<lparr>pr_error_code = OK, pr_call_id = 0, pr_correct_leader_node_id = 0,
     pr_correct_leader_addr = []\<rparr>"

definition default_delete_request :: delete_request where
  "default_delete_request = \<lparr>dq_key = [], dq_call_id = 0\<rparr>"

definition default_delete_response :: delete_response where
  "default_delete_response = \<lparr>dr_error_code = OK, dr_call_id = 0, dr_correct_leader_node_id = 0,
     dr_correct_leader_addr = []\<rparr>"

definition default_scan_request :: scan_request where
  "default_scan_request = \<lparr>sq_start_key = [], sq_end_key = [], sq_limit = 0,
     sq_allow_stale = False, sq_call_id = 0\<rparr>"

definition default_scan_response :: scan_response where
  "default_scan_response = \<lparr>sr_error_code = OK, sr_kvs = [], sr_has_more = False,
     sr_next_start_key = [], sr_call_id = 0, sr_correct_leader_node_id = 0,
     sr_correct_leader_addr = []\<rparr>"

definition default_rpc_message :: rpc_message where
  "default_rpc_message = \<lparr>rm_type = GET_REQUEST, rm_get_request = None, rm_get_response = None,
     rm_put_request = None, rm_put_response = None, rm_delete_request = None,
     rm_delete_response = None, rm_scan_request = None, rm_scan_response = None\<rparr>"

text \<open>The accessor of a sub-message field: the default message when the field is unset.\<close>

definition field_or :: "'a \<Rightarrow> 'a option \<Rightarrow> 'a" where
  "field_or d f = (case f of None \<Rightarrow> d | Some x \<Rightarrow> x)"

lemma field_or_simps [simp]: "field_or d None = d" "field_or d (Some x) = x"
  by (simp_all add: field_or_def)

abbreviation get_request_of :: "rpc_message \<Rightarrow> get_request" where
  "get_request_of m \<equiv> field_or default_get_request (rm_get_request m)"

abbreviation get_response_of :: "rpc_message \<Rightarrow> get_response" where
  "get_response_of m \<equiv> field_or default_get_response (rm_get_response m)"

abbreviation put_request_of :: "rpc_message \<Rightarrow> put_request" where
  "put_request_of m \<equiv> field_or default_put_request (rm_put_request m)"

abbreviation put_response_of :: "rpc_message \<Rightarrow> put_response" where
  "put_response_of m \<equiv> field_or default_put_response (rm_put_response m)"

abbreviation delete_request_of :: "rpc_message \<Rightarrow> delete_request" where
  "delete_request_of m \<equiv> field_or default_delete_request (rm_delete_request m)"

abbreviation delete_response_of :: "rpc_message \<Rightarrow> delete_response" where
  "delete_response_of m \<equiv> field_or default_delete_response (rm_delete_response m)"

abbreviation scan_request_of :: "rpc_message \<Rightarrow> scan_request" where
  "scan_request_of m \<equiv> field_or default_scan_request (rm_scan_request m)"

abbreviation scan_response_of :: "rpc_message \<Rightarrow> scan_response" where
  "scan_response_of m \<equiv> field_or default_scan_response (rm_scan_response m)"

subsection \<open>raft\_rpc.proto\<close>

record log_entry =
  le_term :: uint64
  le_index :: uint64
  le_command :: string

record request_vote_request =
  rv_term :: uint64
  rv_candidate_id :: uint64
  rv_last_log_index :: uint64
  rv_last_log_term :: uint64

record request_vote_response =
  rvr_term :: uint64
  rvr_vote_granted :: bool

record append_entries_request =
  ae_term :: uint64
  ae_leader_id :: uint64
  ae_prev_log_index :: uint64
  ae_prev_log_term :: uint64
  ae_leader_commit :: uint64
  ae_entries :: "log_entry list"

record append_entries_response =
  aer_term :: uint64
  aer_success :: bool
  aer_match_index :: uint64

record install_snapshot_request =
  is_term :: uint64
  is_leader_id :: uint64
  is_last_included_index :: uint64
  is_last_included_term :: uint64
  is_data :: string

record install_snapshot_response =
  isr_term :: uint64
  isr_success :: bool

datatype raft_type = REQUEST_VOTE | REQUEST_VOTE_RESP | APPEND_ENTRIES | APPEND_ENTRIES_RESP
  | INSTALL_SNAPSHOT | INSTALL_SNAPSHOT_RESP

record raft_message =
  rf_type :: raft_type
  rf_request_vote :: "request_vote_request option"
  rf_request_vote_resp :: "request_vote_response option"
  rf_append_entries :: "append_entries_request option"
  rf_append_entries_resp :: "append_entries_response option"
  rf_install_snapshot :: "install_snapshot_request option"
  rf_install_snapshot_resp :: "install_snapshot_response option"

definition default_log_entry :: log_entry where
  "default_log_entry = \<lparr>le_term = 0, le_index = 0, le_command = []\<rparr>"

definition default_request_vote :: request_vote_request where
  "default_request_vote = \<lparr>rv_term = 0, rv_candidate_id = 0, rv_last_log_index = 0,
     rv_last_log_term = 0\<rparr>"

definition default_request_vote_resp :: request_vote_response where
  "default_request_vote_resp = \<lparr>rvr_term = 0, rvr_vote_granted = False\<rparr>"

definition default_append_entries :: append_entries_request where
  "default_append_entries = \<lparr>ae_term = 0, ae_leader_id = 0, ae_prev_log_index = 0,
     ae_prev_log_term = 0, ae_leader_commit = 0, ae_entries = []\<rparr>"

definition default_append_entries_resp :: append_entries_response where
  "default_append_entries_resp = \<lparr>aer_term = 0, aer_success = False, aer_match_index = 0\<rparr>"

definition empty_raft_message :: raft_message where
  "empty_raft_message = \<lparr>rf_type = REQUEST_VOTE, rf_request_vote = None,
     rf_request_vote_resp = None, rf_append_entries = None, rf_append_entries_resp = None,
     rf_install_snapshot = None, rf_install_snapshot_resp = None\<rparr>"

abbreviation request_vote_of :: "raft_message \<Rightarrow> request_vote_request" where
  "request_vote_of m \<equiv> field_or default_request_vote (rf_request_vote m)"

abbreviation request_vote_resp_of :: "raft_message \<Rightarrow> request_vote_response" where
  "request_vote_resp_of m \<equiv> field_or default_request_vote_resp (rf_request_vote_resp m)"

abbreviation append_entries_of :: "raft_message \<Rightarrow> append_entries_request" where
  "append_entries_of m \<equiv> field_or default_append_entries (rf_append_entries m)"

abbreviation append_entries_resp_of :: "raft_message \<Rightarrow> append_entries_response" where
  "append_entries_resp_of m \<equiv> field_or default_append_entries_resp (rf_append_entries_resp m)"

subsection \<open>pd\_rpc.proto\<close>

record register_node_request =
  rn_node :: "node_info option"

record register_node_response =
  rnr_error_code :: error_code
  rnr_assigned_node_id :: uint64

record hb_shard_state =
  hs_shard_id :: uint64
  hs_term :: uint64
  hs_committed_index :: uint64
  hs_applied_index :: uint64
  hs_is_leader :: bool

record heartbeat_request =
  hb_node_id :: uint64
  hb_node_stats :: "node_info option"
  hb_shard_states :: "hb_shard_state list"

datatype shard_action = NO_OP | ADD_REPLICA | REMOVE_REPLICA | TRANSFER_LEADER

record shard_command =
  sc_action :: shard_action
  sc_shard_id :: uint64
  sc_peer_node_ids :: "uint64 list"
  sc_new_leader_node_id :: uint64

record heartbeat_response =
  hbr_error_code :: error_code
  hbr_commands :: "shard_command list"

record get_shard_map_response =
  gsm_error_code :: error_code
  gsm_shard_map :: "shard_map option"

subsection \<open>Serialisation\<close>

text \<open>
  What the code relies on of \<open>SerializeToString\<close> and \<open>ParseFromString\<close> of one message type: parsing
  what was serialised gives the message back.
\<close>

locale wire_format =
  fixes ser :: "'m \<Rightarrow> string"
    and parse :: "string \<Rightarrow> 'm option"
  assumes parse_ser: "parse (ser m) = Some m"
begin

lemma ser_inject: "ser m = ser m' \<longleftrightarrow> m = m'"
  by (metis option.inject parse_ser)

lemma parse_all: "those (map (parse \<circ> ser) ms) = Some ms"
  by (induction ms) (simp_all add: parse_ser)

end

end
