(* ===== verification/Codec.thy ===== *)
theory Codec
  imports Proto
begin

text \<open>
  The frame layer (\<open>common/codec.cpp\<close>) and the receive loop that the data node and the placement
  driver share (\<open>data_node/data_server.cpp\<close>, \<open>data_node/raft_service.cpp\<close>,
  \<open>pd_server/pd_server.cpp\<close>). A frame is a four-byte big-endian payload length, one type byte and
  the payload.

  muduo's \<open>Buffer\<close> is third-party code: the definitions take its operations as a record, and the
  locale \<open>net_buffer\<close> states the documented behaviour they rely on, in terms of the readable
  bytes. The list of bytes itself is the reference instance.
\<close>

subsection \<open>The buffer interface\<close>

text \<open>\<open>retrieveAsString\<close> asserts that the requested length is readable; \<open>None\<close> is the failed assertion.\<close>

record 'b buffer_ops =
  buf_new :: 'b
  buf_readableBytes :: "'b \<Rightarrow> nat"
  buf_peek :: "'b \<Rightarrow> string"
  buf_retrieve :: "nat \<Rightarrow> 'b \<Rightarrow> 'b"
  buf_retrieveAsString :: "nat \<Rightarrow> 'b \<Rightarrow> (string \<times> 'b) option"
  buf_append :: "string \<Rightarrow> 'b \<Rightarrow> 'b"

definition list_buffer :: "string buffer_ops" where
  "list_buffer = \<lparr>buf_new = [], buf_readableBytes = length, buf_peek = (\<lambda>b. b),
     buf_retrieve = drop,
     buf_retrieveAsString = (\<lambda>n b. if n \<le> length b then Some (take n b, drop n b) else None),
     buf_append = (\<lambda>s b. b @ s)\<rparr>"

subsection \<open>Sending a frame\<close>

text \<open>The bytes that \<open>conn->send(&buf)\<close> writes after the length, the type and the data were appended.\<close>

definition frame_bytes :: "'b buffer_ops \<Rightarrow> char \<Rightarrow> string \<Rightarrow> string" where
  "frame_bytes ops ty data =
     (let len = (word_of_nat (length data) :: uint32);
          buf = buf_new ops;
          buf = buf_append ops (htonl_bytes len) buf;
          buf = buf_append ops [ty] buf;
          buf = buf_append ops data buf
      in buf_peek ops buf)"

definition CLIENT_MSG :: char where "CLIENT_MSG = CHR 0x00"
definition RAFT_MSG :: char where "RAFT_MSG = CHR 0x01"

definition sendRaw :: "'b buffer_ops \<Rightarrow> string \<Rightarrow> string" where
  "sendRaw ops data = frame_bytes ops CLIENT_MSG data"

definition send_message :: "'b buffer_ops \<Rightarrow> ('m \<Rightarrow> string) \<Rightarrow> 'm \<Rightarrow> string" where
  "send_message ops ser msg = (let data = ser msg in sendRaw ops data)"

subsection \<open>Receiving\<close>

datatype 'b frame_result = Wait | Abort | Frame char string 'b

text \<open>
  One round of the loop \<open>while (buf->readableBytes() >= 5)\<close> of the servers. The sum \<open>5 + len\<close> is
  a 32-bit sum and wraps; \<open>Abort\<close> is the failed assertion of \<open>retrieveAsString\<close>.
\<close>

definition next_frame :: "'b buffer_ops \<Rightarrow> 'b \<Rightarrow> 'b frame_result" where
  "next_frame ops buf =
     (if \<not> (buf_readableBytes ops buf \<ge> 5) then Wait
      else let len = ntohl_bytes (take 4 (buf_peek ops buf)) in
      if buf_readableBytes ops buf < unat (5 + len) then Wait
      else let buf = buf_retrieve ops 4 buf;
               msgType = hd (buf_peek ops buf);
               buf = buf_retrieve ops 1 buf
      in (case buf_retrieveAsString ops (unat len) buf of
            None \<Rightarrow> Abort
          | Some (payload, buf') \<Rightarrow> Frame msgType payload buf'))"

text \<open>
  The loop, over the work \<open>h\<close> that each server does with a frame. The result is the buffer that is
  left, the state, and whether the process aborted; \<open>None\<close> would be a loop that never returns.
\<close>

partial_function (option) frame_loop ::
  "'b buffer_ops \<Rightarrow> (char \<Rightarrow> string \<Rightarrow> 's \<Rightarrow> 's) \<Rightarrow> 'b \<Rightarrow> 's \<Rightarrow> ('b \<times> 's \<times> bool) option" where
  "frame_loop ops h buf st =
     (case next_frame ops buf of
        Wait \<Rightarrow> Some (buf, st, False)
      | Abort \<Rightarrow> Some (buf, st, True)
      | Frame ty payload buf' \<Rightarrow> frame_loop ops h buf' (h ty payload st))"

text \<open>
  \<open>LengthPrefixedCodec::onMessage\<close>: its frames have no type byte, and the payload is dropped.
  The flag again says whether the assertion of \<open>retrieveAsString\<close> failed.
\<close>

partial_function (option) codec_onMessage :: "'b buffer_ops \<Rightarrow> 'b \<Rightarrow> ('b \<times> bool) option" where
  "codec_onMessage ops buf =
     (if \<not> (buf_readableBytes ops buf \<ge> 4) then Some (buf, False)
      else let len = ntohl_bytes (take 4 (buf_peek ops buf)) in
      if buf_readableBytes ops buf < unat (4 + len) then Some (buf, False)
      else let buf = buf_retrieve ops 4 buf
      in (case buf_retrieveAsString ops (unat len) buf of
            None \<Rightarrow> Some (buf, True)
          | Some (payload, buf') \<Rightarrow> codec_onMessage ops buf'))"

subsection \<open>The stream a frame layer is meant to implement\<close>

text \<open>
  The reference parser reads the length without overflow. \<open>frames_of\<close> splits a byte stream into its
  complete frames and the bytes of an incomplete one.
\<close>

definition split_frame :: "string \<Rightarrow> (char \<times> string \<times> string) option" where
  "split_frame bs =
     (if length bs < 5 then None
      else let len = unat (ntohl_bytes (take 4 bs)) in
      if length bs < 5 + len then None
      else Some (bs ! 4, take len (drop 5 bs), drop (5 + len) bs))"

lemma split_frame_shorter: "split_frame bs = Some (ty, p, r) \<Longrightarrow> length r < length bs"
  by (auto simp: split_frame_def Let_def split: if_splits)

function frames_of :: "string \<Rightarrow> (char \<times> string) list \<times> string" where
  "frames_of bs = (case split_frame bs of None \<Rightarrow> ([], bs)
     | Some (ty, p, r) \<Rightarrow> (case frames_of r of (fs, rest) \<Rightarrow> ((ty, p) # fs, rest)))"
  by pat_completeness auto
termination
  by (relation "measure length") (auto dest: split_frame_shorter)

declare frames_of.simps [simp del]

definition encode_frame :: "char \<times> string \<Rightarrow> string" where
  "encode_frame f = htonl_bytes (word_of_nat (length (snd f))) @ fst f # snd f"

text \<open>
  The lengths the receive loop handles: every frame header in the stream announces less than
  \<open>2\<^sup>3\<^sup>2 - 5\<close> bytes.
\<close>

definition header_fits :: "string \<Rightarrow> bool" where
  "header_fits bs \<longleftrightarrow> (5 \<le> length bs \<longrightarrow> unat (ntohl_bytes (take 4 bs)) < 2 ^ 32 - 5)"

function headers_fit :: "string \<Rightarrow> bool" where
  "headers_fit bs = (header_fits bs \<and>
     (case split_frame bs of None \<Rightarrow> True | Some (ty, p, r) \<Rightarrow> headers_fit r))"
  by pat_completeness auto
termination
  by (relation "measure length") (auto dest: split_frame_shorter)

declare headers_fit.simps [simp del]

subsection \<open>The reference parser\<close>

lemma split_frame_encode:
  "length (snd f) < 2 ^ 32 \<Longrightarrow> split_frame (encode_frame f @ bs) = Some (fst f, snd f, bs)"
  by (simp add: split_frame_def encode_frame_def nth_append unat_of_nat)

lemma frames_of_encode:
  "length (snd f) < 2 ^ 32 \<Longrightarrow>
     frames_of (encode_frame f @ bs) = (f # fst (frames_of bs), snd (frames_of bs))"
  by (subst frames_of.simps) (simp add: split_frame_encode split: prod.split)

lemma split_frame_append:
  assumes "split_frame a = Some (ty, p, r)"
  shows "split_frame (a @ b) = Some (ty, p, r @ b)"
  using assms by (auto simp: split_frame_def Let_def nth_append split: if_splits)

lemma frames_of_append:
  "frames_of (a @ b) =
     (case frames_of a of (fs, r) \<Rightarrow> (fs @ fst (frames_of (r @ b)), snd (frames_of (r @ b))))"
proof (induction a rule: frames_of.induct)
  case (1 a)
  show ?case
  proof (cases "split_frame a")
    case None
    then have "frames_of a = ([], a)" by (subst frames_of.simps) simp
    then show ?thesis by simp
  next
    case (Some q)
    obtain ty p r where q: "q = (ty, p, r)" by (cases q) auto
    with Some have a: "split_frame a = Some (ty, p, r)" by simp
    obtain fs rest where r: "frames_of r = (fs, rest)" by (cases "frames_of r") auto
    have fa: "frames_of a = ((ty, p) # fs, rest)" by (subst frames_of.simps) (simp add: a r)
    have "frames_of (a @ b) = ((ty, p) # fst (frames_of (r @ b)), snd (frames_of (r @ b)))"
      by (subst frames_of.simps) (simp add: split_frame_append [OF a] split: prod.split)
    also have "frames_of (r @ b) = (fs @ fst (frames_of (rest @ b)), snd (frames_of (rest @ b)))"
      using "1.IH" [OF Some] q r by simp
    finally show ?thesis by (simp add: fa)
  qed
qed

lemma frames_of_concat:
  "\<forall>f \<in> set fs. length (snd f) < 2 ^ 32 \<Longrightarrow>
     frames_of (concat (map encode_frame fs) @ bs) = (fs @ fst (frames_of bs), snd (frames_of bs))"
  by (induction fs) (simp_all add: frames_of_encode)

lemma headers_fit_encode:
  "length (snd f) < 2 ^ 32 - 5 \<Longrightarrow> headers_fit bs \<Longrightarrow> headers_fit (encode_frame f @ bs)"
proof -
  assume len: "length (snd f) < 2 ^ 32 - 5" and bs: "headers_fit bs"
  have "header_fits (encode_frame f @ bs)"
    using len by (simp add: header_fits_def encode_frame_def unat_of_nat)
  with len bs show ?thesis by (subst headers_fit.simps) (simp add: split_frame_encode)
qed

lemma headers_fit_concat:
  "\<forall>f \<in> set fs. length (snd f) < 2 ^ 32 - 5 \<Longrightarrow> headers_fit bs \<Longrightarrow>
     headers_fit (concat (map encode_frame fs) @ bs)"
  by (induction fs) (simp_all add: headers_fit_encode)

lemma headers_fit_short: "length bs < 5 \<Longrightarrow> headers_fit bs"
  by (subst headers_fit.simps) (simp add: header_fits_def split_frame_def)

lemma unat_add_small32: "unat (len :: uint32) < 2 ^ 32 - k \<Longrightarrow> k < 2 ^ 32 \<Longrightarrow>
    unat (word_of_nat k + len) = k + unat len"
  by (simp add: unat_word_ariths unat_of_nat)

lemma unat_add5: "unat (len :: uint32) < 2 ^ 32 - 5 \<Longrightarrow> unat (5 + len) = 5 + unat len"
  using unat_add_small32 [of len 5] by simp

lemma unat_add4: "unat (len :: uint32) < 2 ^ 32 - 4 \<Longrightarrow> unat (4 + len) = 4 + unat len"
  using unat_add_small32 [of len 4] by simp

lemma unat_add5_wraps:
  assumes "2 ^ 32 - 5 \<le> unat (len :: uint32)"
  shows "unat (5 + len) < 5"
proof -
  have "unat len < 2 ^ 32" using unsigned_less [of len, where ?'a = nat] by simp
  with assms show ?thesis by (simp add: unat_word_ariths le_mod_geq)
qed

subsection \<open>Buffers that behave as documented\<close>

locale net_buffer =
  fixes ops :: "'b buffer_ops"
    and bytes :: "'b \<Rightarrow> string"
  assumes new_bytes: "bytes (buf_new ops) = []"
    and readable_bytes: "buf_readableBytes ops b = length (bytes b)"
    and peek_bytes: "buf_peek ops b = bytes b"
    and retrieve_bytes: "n \<le> length (bytes b) \<Longrightarrow> bytes (buf_retrieve ops n b) = drop n (bytes b)"
    and retrieveAsString_bytes: "n \<le> length (bytes b) \<Longrightarrow>
        \<exists>b'. buf_retrieveAsString ops n b = Some (take n (bytes b), b') \<and> bytes b' = drop n (bytes b)"
    and retrieveAsString_assert: "length (bytes b) < n \<Longrightarrow> buf_retrieveAsString ops n b = None"
    and append_bytes: "bytes (buf_append ops s b) = bytes b @ s"
begin

lemma frame_bytes_encode: "frame_bytes ops ty data = encode_frame (ty, data)"
  by (simp add: frame_bytes_def Let_def peek_bytes append_bytes new_bytes encode_frame_def)

lemma next_frame_none:
  assumes "header_fits (bytes b)" and "split_frame (bytes b) = None"
  shows "next_frame ops b = Wait"
  using assms unat_add5
  by (auto simp: next_frame_def split_frame_def header_fits_def Let_def readable_bytes peek_bytes
      split: if_splits)

lemma next_frame_some:
  assumes fit: "header_fits (bytes b)" and fr: "split_frame (bytes b) = Some (ty, p, r)"
  shows "\<exists>b'. next_frame ops b = Frame ty p b' \<and> bytes b' = r"
proof -
  let ?bs = "bytes b" and ?len = "unat (ntohl_bytes (take 4 (bytes b)))"
  from fr have l: "5 + ?len \<le> length ?bs" and ty: "ty = ?bs ! 4" and p: "p = take ?len (drop 5 ?bs)"
    and r: "r = drop (5 + ?len) ?bs"
    by (auto simp: split_frame_def Let_def split: if_splits)
  from fit l have w: "unat (5 + ntohl_bytes (take 4 ?bs)) = 5 + ?len"
    by (simp add: header_fits_def unat_add5)
  define b1 where "b1 = buf_retrieve ops 4 b"
  define b2 where "b2 = buf_retrieve ops (Suc 0) b1"
  have b1: "bytes b1 = drop 4 ?bs" using l by (simp add: b1_def retrieve_bytes)
  have b2: "bytes b2 = drop 5 ?bs" using l b1 by (simp add: b2_def retrieve_bytes)
  have ln: "?len \<le> length (bytes b2)" using l b2 by simp
  then obtain b' where b': "buf_retrieveAsString ops ?len b2 = Some (take ?len (bytes b2), b')"
    "bytes b' = drop ?len (bytes b2)"
    using retrieveAsString_bytes by blast
  have "hd (bytes b1) = ty" using b1 l ty by (simp add: hd_drop_conv_nth)
  with l w b' b2 p have "next_frame ops b = Frame ty p b'"
    by (simp add: next_frame_def readable_bytes peek_bytes Let_def b1_def [symmetric] b2_def [symmetric])
  moreover have "bytes b' = r" using b' b2 r by (simp add: add.commute)
  ultimately show ?thesis by blast
qed

lemma frame_loop_frames:
  assumes "headers_fit (bytes b)"
  shows "\<exists>b'. frame_loop ops h b st =
      Some (b', fold (\<lambda>(ty, p). h ty p) (fst (frames_of (bytes b))) st, False)
    \<and> bytes b' = snd (frames_of (bytes b))"
  using assms
proof (induction "length (bytes b)" arbitrary: b st rule: less_induct)
  case less
  from less.prems have fit: "header_fits (bytes b)" by (subst (asm) headers_fit.simps) simp
  show ?case
  proof (cases "split_frame (bytes b)")
    case None
    with next_frame_none [OF fit] show ?thesis
      by (simp add: frame_loop.simps [of ops h b st] frames_of.simps [of "bytes b"])
  next
    case (Some q)
    obtain ty p r where q: "split_frame (bytes b) = Some (ty, p, r)" using Some by (cases q) auto
    from next_frame_some [OF fit q] obtain b1 where b1: "next_frame ops b = Frame ty p b1"
      and r: "bytes b1 = r" by blast
    from less.prems q have "headers_fit r" by (subst (asm) headers_fit.simps) simp
    with less.hyps [of b1 "h ty p st"] split_frame_shorter [OF q] r
    show ?thesis
      by (simp add: frame_loop.simps [of ops h b st] b1 frames_of.simps [of "bytes b"] q
          case_prod_unfold)
  qed
qed

lemma next_frame_abort:
  assumes "5 \<le> length (bytes b)" and "2 ^ 32 - 5 \<le> unat (ntohl_bytes (take 4 (bytes b)))"
    and "length (bytes b) - 5 < unat (ntohl_bytes (take 4 (bytes b)))"
  shows "next_frame ops b = Abort"
  using assms unat_add5_wraps [OF assms(2)]
  by (simp add: next_frame_def Let_def readable_bytes peek_bytes retrieve_bytes
      retrieveAsString_assert)

lemma codec_residue:
  assumes len: "length data < 2 ^ 32 - 4" and b: "bytes b = encode_frame (ty, data)"
  shows "\<exists>b'. codec_onMessage ops b = Some (b', False) \<and> bytes b' = [last (ty # data)]"
proof -
  let ?n = "length data"
  have rd: "length (bytes b) = 5 + ?n" using b by (simp add: encode_frame_def)
  have hd: "ntohl_bytes (take 4 (bytes b)) = word_of_nat ?n" using b by (simp add: encode_frame_def)
  have un: "unat (word_of_nat ?n :: uint32) = ?n" using len by (simp add: unat_of_nat)
  define b1 where "b1 = buf_retrieve ops 4 b"
  have b1: "bytes b1 = ty # data" using b by (simp add: b1_def retrieve_bytes encode_frame_def)
  then obtain b2 where b2: "buf_retrieveAsString ops ?n b1 = Some (take ?n (ty # data), b2)"
    "bytes b2 = drop ?n (ty # data)"
    using retrieveAsString_bytes [of ?n b1] by auto
  have "ty # data = butlast (ty # data) @ [last (ty # data)]" by (simp del: butlast.simps last.simps)
  then have l2: "bytes b2 = [last (ty # data)]" unfolding b2(2)
    by (metis append_eq_conv_conj diff_Suc_1 length_Cons length_butlast)
  have "codec_onMessage ops b2 = Some (b2, False)"
    by (subst codec_onMessage.simps) (simp add: readable_bytes l2)
  with rd hd un b2 len have "codec_onMessage ops b = Some (b2, False)"
    by (subst codec_onMessage.simps)
      (simp add: readable_bytes peek_bytes Let_def unat_add4 b1_def [symmetric])
  with l2 show ?thesis by blast
qed

end

interpretation lb: net_buffer list_buffer "\<lambda>b. b"
  by unfold_locales (simp_all add: list_buffer_def)

subsection \<open>Properties of the receive loop\<close>

lemma headers_fit_append:
  "headers_fit (a @ b) \<Longrightarrow> headers_fit a \<and> headers_fit (snd (frames_of a) @ b)"
proof (induction a rule: headers_fit.induct)
  case (1 a)
  from "1.prems" have "header_fits (a @ b)" by (subst (asm) headers_fit.simps) simp
  then have fa: "header_fits a" by (cases "length a < 5") (simp_all add: header_fits_def)
  show ?case
  proof (cases "split_frame a")
    case None
    then have "frames_of a = ([], a)" by (subst frames_of.simps) simp
    with "1.prems" fa None show ?thesis by (subst headers_fit.simps) simp
  next
    case (Some q)
    obtain ty p r where q: "q = (ty, p, r)" by (cases q) auto
    from "1.prems" have "headers_fit (r @ b)"
      by (subst (asm) headers_fit.simps) (simp add: split_frame_append [OF Some [unfolded q]])
    from "1.IH" [OF Some q [symmetric] refl this] have "headers_fit r" "headers_fit (snd (frames_of r) @ b)" by auto
    with fa Some q show ?thesis
      by (subst headers_fit.simps, subst frames_of.simps) (simp add: case_prod_unfold)
  qed
qed

lemma frame_loop_stream:
  assumes "net_buffer ops bytes"
    and "bytes b = concat (map encode_frame fs) @ rest"
    and "\<forall>f \<in> set fs. length (snd f) < 2 ^ 32 - 5"
    and "headers_fit rest" and "split_frame rest = None"
  shows "\<exists>b'. frame_loop ops h b st = Some (b', fold (\<lambda>(ty, p). h ty p) fs st, False) \<and> bytes b' = rest"
proof -
  have "frames_of rest = ([], rest)" using assms(5) by (subst frames_of.simps) simp
  moreover have "frames_of (bytes b) = (fs @ fst (frames_of rest), snd (frames_of rest))"
    unfolding assms(2) using assms(3) by (intro frames_of_concat) auto
  moreover have "headers_fit (bytes b)"
    unfolding assms(2) using assms(3,4) by (intro headers_fit_concat)
  ultimately show ?thesis
    using net_buffer.frame_loop_frames [OF assms(1), of b h st] by simp
qed

text \<open>
  C7. Sticky and split packets: a buffer that holds any number of frames written by the senders and
  then the beginning of another one makes the receive loop run its handler on exactly these frames,
  in order, and leaves the incomplete bytes in the buffer. The loop returns and does not abort.
\<close>

theorem frame_loop_roundtrip:
  assumes "net_buffer ops bytes"
    and "bytes b = concat (map encode_frame fs) @ rest"
    and "\<forall>f \<in> set fs. length (snd f) < 2 ^ 32 - 5"
    and "headers_fit rest" and "split_frame rest = None"
  shows "\<exists>b'. frame_loop ops h b st = Some (b', fold (\<lambda>(ty, p). h ty p) fs st, False) \<and> bytes b' = rest"
  by (rule frame_loop_stream [OF assms])

theorem frame_loop_roundtrip_witness:
  "\<exists>b'. frame_loop list_buffer (\<lambda>ty p st. st @ [p])
       (frame_bytes list_buffer CLIENT_MSG ''ab'' @ frame_bytes list_buffer RAFT_MSG [] @ ''xyz'') []
     = Some (b', [''ab'', []], False) \<and> b' = ''xyz''"
  using frame_loop_roundtrip [OF lb.net_buffer_axioms,
      of "frame_bytes list_buffer CLIENT_MSG ''ab'' @ frame_bytes list_buffer RAFT_MSG [] @ ''xyz''"
         "[(CLIENT_MSG, ''ab''), (RAFT_MSG, [])]" "''xyz''" "\<lambda>ty p st. st @ [p]" "[]"]
  by (simp add: lb.frame_bytes_encode headers_fit_short split_frame_def)

text \<open>
  C33. The result does not depend on how the network cuts the byte stream: handling one chunk and
  then the next gives the same state and the same left-over bytes as handling both at once.
\<close>

theorem frame_loop_chunks:
  assumes "net_buffer ops bytes" and "headers_fit (bytes b @ c1 @ c2)"
  shows "\<exists>b1 st1 b2 st2 b3.
      frame_loop ops h (buf_append ops c1 b) st = Some (b1, st1, False)
    \<and> frame_loop ops h (buf_append ops c2 b1) st1 = Some (b2, st2, False)
    \<and> frame_loop ops h (buf_append ops (c1 @ c2) b) st = Some (b3, st2, False)
    \<and> bytes b2 = bytes b3"
proof -
  note ab = net_buffer.append_bytes [OF assms(1)]
  note loop = net_buffer.frame_loop_frames [OF assms(1)]
  let ?a = "bytes b @ c1" and ?H = "fold (\<lambda>(ty, p). h ty p)"
  from headers_fit_append [of ?a c2] assms(2)
  have f: "headers_fit ?a" "headers_fit (snd (frames_of ?a) @ c2)" by simp_all
  from loop [of "buf_append ops c1 b" h st] f(1) obtain b1 where
    r1: "frame_loop ops h (buf_append ops c1 b) st = Some (b1, ?H (fst (frames_of ?a)) st, False)"
    and b1: "bytes b1 = snd (frames_of ?a)" by (auto simp: ab)
  define st1 where "st1 = ?H (fst (frames_of ?a)) st"
  let ?c = "snd (frames_of ?a) @ c2"
  from loop [of "buf_append ops c2 b1" h st1] f(2) obtain b2 where
    r2: "frame_loop ops h (buf_append ops c2 b1) st1 = Some (b2, ?H (fst (frames_of ?c)) st1, False)"
    and b2: "bytes b2 = snd (frames_of ?c)" by (auto simp: ab b1)
  from loop [of "buf_append ops (c1 @ c2) b" h st] assms(2) obtain b3 where
    r3: "frame_loop ops h (buf_append ops (c1 @ c2) b) st =
      Some (b3, ?H (fst (frames_of (?a @ c2))) st, False)"
    and b3: "bytes b3 = snd (frames_of (?a @ c2))" by (auto simp: ab)
  have e: "frames_of (?a @ c2) = (fst (frames_of ?a) @ fst (frames_of ?c), snd (frames_of ?c))"
    by (subst frames_of_append) (simp add: case_prod_unfold)
  have "?H (fst (frames_of (?a @ c2))) st = ?H (fst (frames_of ?c)) st1"
    unfolding e st1_def by simp
  moreover have "bytes b2 = bytes b3" unfolding b2 b3 e by simp
  ultimately show ?thesis using r1 r2 r3 unfolding st1_def by metis
qed

theorem frame_loop_chunks_witness:
  "\<exists>b1 st1 b2 st2 b3.
      frame_loop list_buffer (\<lambda>ty p st. st @ [p]) (htonl_bytes 2) [] = Some (b1, st1, False)
    \<and> frame_loop list_buffer (\<lambda>ty p st. st @ [p]) (b1 @ CLIENT_MSG # ''ab'') st1 = Some (b2, st2, False)
    \<and> frame_loop list_buffer (\<lambda>ty p st. st @ [p]) (htonl_bytes 2 @ CLIENT_MSG # ''ab'') []
        = Some (b3, st2, False)
    \<and> b2 = b3"
proof -
  have "headers_fit (encode_frame (CLIENT_MSG, ''ab'') @ [])"
    by (rule headers_fit_encode) (simp_all add: headers_fit_short)
  then have "headers_fit ([] @ htonl_bytes 2 @ CLIENT_MSG # ''ab'')" by (simp add: encode_frame_def)
  from frame_loop_chunks [OF lb.net_buffer_axioms this, of "\<lambda>ty p st. st @ [p]" "[]"]
  show ?thesis by (simp add: list_buffer_def)
qed

text \<open>
  A header that announces at least \<open>2\<^sup>3\<^sup>2 - 5\<close> bytes makes the bound of the loop wrap around: the
  five header bytes are enough to pass the completeness check, and the assertion of
  \<open>retrieveAsString\<close> fails. One five-byte packet ends the process.
\<close>

theorem oversized_header_aborts:
  assumes "net_buffer ops bytes"
    and "5 \<le> length (bytes b)"
    and "2 ^ 32 - 5 \<le> unat (ntohl_bytes (take 4 (bytes b)))"
    and "length (bytes b) - 5 < unat (ntohl_bytes (take 4 (bytes b)))"
  shows "frame_loop ops h b st = Some (b, st, True)"
  using net_buffer.next_frame_abort [OF assms] by (simp add: frame_loop.simps)

theorem oversized_header_aborts_witness:
  "frame_loop list_buffer (\<lambda>ty p (n::nat). n + 1) (htonl_bytes 4294967295 @ [CLIENT_MSG]) 0
     = Some (htonl_bytes 4294967295 @ [CLIENT_MSG], 0, True)"
  by (rule oversized_header_aborts [OF lb.net_buffer_axioms]) simp_all

text \<open>
  The receiver of \<open>LengthPrefixedCodec\<close> does not read what its own sender writes: the sender adds
  a type byte that the receiver does not count, so after one frame the last byte of the payload
  stays in the buffer and is taken for the beginning of the next length.
\<close>

theorem codec_not_inverse:
  assumes "net_buffer ops bytes"
    and "length data < 2 ^ 32 - 4"
    and "bytes b = sendRaw ops data"
  shows "\<exists>b'. codec_onMessage ops b = Some (b', False) \<and> bytes b' = [last (CLIENT_MSG # data)]"
  using net_buffer.codec_residue [OF assms(1,2)] assms(3)
  by (simp add: sendRaw_def net_buffer.frame_bytes_encode [OF assms(1)])

theorem codec_not_inverse_witness:
  "\<exists>b'. codec_onMessage list_buffer (sendRaw list_buffer ''put'') = Some (b', False) \<and> b' = ''t''"
  using codec_not_inverse [OF lb.net_buffer_axioms, of "''put''" "sendRaw list_buffer ''put''"]
  by simp

end
