(* ===== verification/Raft_Node.thy ===== *)
theory Raft_Node
  imports Proto
begin

text \<open>
  The Raft node (\<open>data_node/raft_node.h\<close> and \<open>data_node/raft_node.cpp\<close>). The class is a record, and
  each method a function on it that also returns, in order, what the node did to the outside
  through its three callbacks: persisting its state, applying a committed command, sending a
  message. The callbacks are set when the node is built, so the null checks on them always pass.

  Every reading of the clock and every random timeout is an argument: \<open>now\<close>, \<open>now'\<close> are successive
  readings of \<open>steady_clock\<close> in nanoseconds and \<open>rnd\<close> a value of \<open>randomTimeout\<close>. The mutex makes
  each public method one atomic step. The unordered maps \<open>nextIndex_\<close> and \<open>matchIndex_\<close> are only
  ever used through \<open>operator[]\<close>, which gives 0 for an absent key, so they are total functions.
\<close>

datatype raft_state = FOLLOWER | CANDIDATE | LEADER

record raft_node =
  currentTerm :: uint64
  votedFor :: uint64
  raftLog :: "log_entry list"
  nodeState :: raft_state
  commitIndex :: uint64
  lastApplied :: uint64
  leaderId :: uint64
  nextIndex :: "uint64 \<Rightarrow> uint64"
  matchIndex :: "uint64 \<Rightarrow> uint64"
  lastHeartbeat :: int
  electionTimeoutMs :: int
  votesReceived :: int
  nodeId :: uint64
  peerIds :: "uint64 list"

text \<open>
  What a method does to the outside. \<open>OutOfRange\<close> marks a read of \<open>log_\<close> beyond its end, which is
  undefined behaviour in the source.
\<close>

datatype raft_effect = Persist uint64 uint64 "log_entry list" | Apply uint64 string
  | Send uint64 raft_message | OutOfRange uint64

subsection \<open>Helpers\<close>

definition sentinel :: log_entry where
  "sentinel = \<lparr>le_term = 0, le_index = 0, le_command = []\<rparr>"

definition log_at :: "log_entry list \<Rightarrow> uint64 \<Rightarrow> log_entry" where
  "log_at l index = (if unat index < length l then l ! unat index else default_log_entry)"

definition getLogEntry :: "uint64 \<Rightarrow> raft_node \<Rightarrow> log_entry" where
  "getLogEntry index n = log_at (raftLog n) index"

definition last_index :: "log_entry list \<Rightarrow> uint64" where
  "last_index l = (if l = [] then 0 else word_of_nat (length l - 1))"

definition getLastLogIndex :: "raft_node \<Rightarrow> uint64" where
  "getLastLogIndex n = last_index (raftLog n)"

definition getLastLogTerm :: "raft_node \<Rightarrow> uint64" where
  "getLastLogTerm n = (if raftLog n = [] then 0 else le_term (last (raftLog n)))"

definition persist :: "raft_node \<Rightarrow> raft_effect list" where
  "persist n = [Persist (currentTerm n) (votedFor n) (raftLog n)]"

text \<open>\<open>randomTimeout\<close> draws from this range; \<open>(int)\<close> of a container size; the elapsed milliseconds.\<close>

definition valid_timeout :: "int \<Rightarrow> bool" where
  "valid_timeout rnd \<longleftrightarrow> 150 \<le> rnd \<and> rnd \<le> 300"

definition int_of_size :: "nat \<Rightarrow> int" where
  "int_of_size k = sint (word_of_nat k :: 32 word)"

definition elapsed_ms :: "int \<Rightarrow> int \<Rightarrow> int" where
  "elapsed_ms now since = (now - since) sdiv 1000000"

definition new_node :: "uint64 \<Rightarrow> uint64 list \<Rightarrow> int \<Rightarrow> int \<Rightarrow> raft_node" where
  "new_node nid pids now rnd = \<lparr>currentTerm = 0, votedFor = 0, raftLog = [sentinel],
     nodeState = FOLLOWER, commitIndex = 0, lastApplied = 0, leaderId = 0,
     nextIndex = (\<lambda>_. 0), matchIndex = (\<lambda>_. 0), lastHeartbeat = now, electionTimeoutMs = rnd,
     votesReceived = 0, nodeId = nid, peerIds = pids\<rparr>"

definition loadPersistedState :: "uint64 \<Rightarrow> uint64 \<Rightarrow> log_entry list \<Rightarrow> raft_node \<Rightarrow> raft_node" where
  "loadPersistedState trm vote l n =
     n\<lparr>currentTerm := trm, votedFor := vote, raftLog := sentinel # l\<rparr>"

definition resetElectionTimer :: "int \<Rightarrow> raft_node \<Rightarrow> raft_node" where
  "resetElectionTimer now n = n\<lparr>lastHeartbeat := now\<rparr>"

subsection \<open>Leader heartbeats and replication\<close>

definition append_entries_msg :: "raft_node \<Rightarrow> bool \<Rightarrow> uint64 \<Rightarrow> raft_message" where
  "append_entries_msg n heartbeatOnly pid =
     (let nextIdx = nextIndex n pid;
          entries = (if \<not> heartbeatOnly \<and> nextIdx \<le> getLastLogIndex n
                     then drop (unat nextIdx) (raftLog n) else [])
      in empty_raft_message\<lparr>rf_type := APPEND_ENTRIES, rf_append_entries := Some
           \<lparr>ae_term = currentTerm n, ae_leader_id = nodeId n, ae_prev_log_index = nextIdx - 1,
            ae_prev_log_term = le_term (getLogEntry (nextIdx - 1) n),
            ae_leader_commit = commitIndex n, ae_entries = entries\<rparr>\<rparr>)"

definition sendAppendEntries :: "bool \<Rightarrow> raft_node \<Rightarrow> raft_effect list" where
  "sendAppendEntries heartbeatOnly n =
     map (\<lambda>pid. Send pid (append_entries_msg n heartbeatOnly pid)) (peerIds n)"

text \<open>The number of nodes known to hold entry \<open>k\<close>, the leader included.\<close>

definition replica_count :: "raft_node \<Rightarrow> nat \<Rightarrow> int" where
  "replica_count n k =
     1 + int (length (filter (\<lambda>pid. matchIndex n pid \<ge> word_of_nat k) (peerIds n)))"

fun commit_search :: "raft_node \<Rightarrow> nat \<Rightarrow> uint64 option" where
  "commit_search n 0 = None"
| "commit_search n (Suc k) =
     (if word_of_nat (Suc k) > commitIndex n then
        if le_term (raftLog n ! Suc k) \<noteq> currentTerm n then commit_search n k
        else if replica_count n (Suc k) > int_of_size (length (peerIds n) + 1) sdiv 2
        then Some (word_of_nat (Suc k))
        else commit_search n k
      else None)"

definition advanceCommitIndex :: "raft_node \<Rightarrow> raft_node" where
  "advanceCommitIndex n =
     (if nodeState n \<noteq> LEADER then n
      else case commit_search n (unat (getLastLogIndex n)) of
             None \<Rightarrow> n
           | Some k \<Rightarrow> n\<lparr>commitIndex := k\<rparr>)"

function applyEntries :: "raft_node \<Rightarrow> raft_node \<times> raft_effect list" where
  "applyEntries n =
     (if lastApplied n < commitIndex n then
        let i = lastApplied n + 1;
            eff = (if i > 0 then
                     if unat i < length (raftLog n) then [Apply i (le_command (raftLog n ! unat i))]
                     else [OutOfRange i]
                   else []);
            (n', effs) = applyEntries (n\<lparr>lastApplied := i\<rparr>)
        in (n', eff @ effs)
      else (n, []))"
  by pat_completeness auto
termination
  by (relation "measure (\<lambda>n. unat (commitIndex n) - unat (lastApplied n))")
    (auto simp: unat_Suc_less64 word_less_nat_alt)

declare applyEntries.simps [simp del]

subsection \<open>State transitions\<close>

definition becomeFollower :: "uint64 \<Rightarrow> int \<Rightarrow> int \<Rightarrow> raft_node \<Rightarrow> raft_node \<times> raft_effect list" where
  "becomeFollower trm now rnd n =
     (let n = n\<lparr>nodeState := FOLLOWER, currentTerm := trm, votedFor := 0, lastHeartbeat := now,
                electionTimeoutMs := rnd\<rparr>
      in (n, persist n))"

definition startElection :: "raft_node \<Rightarrow> raft_node \<times> raft_effect list" where
  "startElection n =
     (let n = n\<lparr>votesReceived := 1\<rparr>;
          msg = empty_raft_message\<lparr>rf_type := REQUEST_VOTE, rf_request_vote := Some
            \<lparr>rv_term = currentTerm n, rv_candidate_id = nodeId n,
             rv_last_log_index = getLastLogIndex n, rv_last_log_term = getLastLogTerm n\<rparr>\<rparr>
      in (n, map (\<lambda>pid. Send pid msg) (peerIds n)))"

definition becomeCandidate :: "int \<Rightarrow> int \<Rightarrow> raft_node \<Rightarrow> raft_node \<times> raft_effect list" where
  "becomeCandidate now rnd n =
     (let n = n\<lparr>nodeState := CANDIDATE, currentTerm := currentTerm n + 1, votedFor := nodeId n,
                leaderId := 0, votesReceived := 1, lastHeartbeat := now, electionTimeoutMs := rnd\<rparr>;
          e1 = persist n;
          (n, e2) = startElection n
      in (n, e1 @ e2))"

definition becomeLeader :: "int \<Rightarrow> raft_node \<Rightarrow> raft_node \<times> raft_effect list" where
  "becomeLeader now n =
     (let n = n\<lparr>nodeState := LEADER, leaderId := nodeId n\<rparr>;
          lastIdx = getLastLogIndex n;
          n = n\<lparr>nextIndex := (fold (\<lambda>pid m. m(pid := lastIdx + 1)) (peerIds n) (nextIndex n))
                  (nodeId n := lastIdx + 1),
                matchIndex := (fold (\<lambda>pid m. m(pid := 0)) (peerIds n) (matchIndex n))
                  (nodeId n := lastIdx)\<rparr>;
          n = n\<lparr>lastHeartbeat := now\<rparr>
      in (n, sendAppendEntries True n))"

subsection \<open>Public interface\<close>

definition propose :: "string \<Rightarrow> raft_node \<Rightarrow> bool \<times> raft_node \<times> raft_effect list" where
  "propose command n =
     (if nodeState n \<noteq> LEADER then (False, n, [])
      else let entry = \<lparr>le_term = currentTerm n, le_index = getLastLogIndex n + 1,
                        le_command = command\<rparr>;
               n = n\<lparr>raftLog := raftLog n @ [entry]\<rparr>;
               n = n\<lparr>matchIndex := (matchIndex n)(nodeId n := le_index entry),
                     nextIndex := (nextIndex n)(nodeId n := le_index entry + 1)\<rparr>
           in (True, n, persist n @ sendAppendEntries False n))"

definition handleRequestVote ::
  "request_vote_request \<Rightarrow> int \<Rightarrow> int \<Rightarrow> int \<Rightarrow> raft_node
     \<Rightarrow> request_vote_response \<times> raft_node \<times> raft_effect list" where
  "handleRequestVote req now now' rnd n =
     (let (n, e1) = (if rv_term req > currentTerm n then becomeFollower (rv_term req) now rnd n
                     else (n, []));
          respTerm = currentTerm n
      in if rv_term req \<ge> currentTerm n
            \<and> (votedFor n = 0 \<or> votedFor n = rv_candidate_id req)
            \<and> (rv_last_log_term req > getLastLogTerm n
               \<or> (rv_last_log_term req = getLastLogTerm n
                  \<and> rv_last_log_index req \<ge> getLastLogIndex n))
         then let n = n\<lparr>votedFor := rv_candidate_id req, lastHeartbeat := now'\<rparr>
              in (\<lparr>rvr_term = respTerm, rvr_vote_granted = True\<rparr>, n, e1 @ persist n)
         else (\<lparr>rvr_term = respTerm, rvr_vote_granted = False\<rparr>, n, e1))"

definition processRequestVoteResponse ::
  "uint64 \<Rightarrow> uint64 \<Rightarrow> bool \<Rightarrow> int \<Rightarrow> int \<Rightarrow> raft_node \<Rightarrow> raft_node \<times> raft_effect list" where
  "processRequestVoteResponse fromPeer respTerm voteGranted now rnd n =
     (if respTerm > currentTerm n then becomeFollower respTerm now rnd n
      else if respTerm \<noteq> currentTerm n \<or> nodeState n \<noteq> CANDIDATE then (n, [])
      else let n = (if voteGranted then n\<lparr>votesReceived := votesReceived n + 1\<rparr> else n);
               majority = int_of_size (length (peerIds n) + 1) sdiv 2 + 1
           in if votesReceived n \<ge> majority then becomeLeader now n else (n, []))"

definition processAppendEntriesResponse ::
  "uint64 \<Rightarrow> uint64 \<Rightarrow> bool \<Rightarrow> uint64 \<Rightarrow> raft_node \<Rightarrow> raft_node \<times> raft_effect list" where
  "processAppendEntriesResponse fromPeer trm success mIndex n =
     (if nodeState n \<noteq> LEADER \<or> trm \<noteq> currentTerm n then (n, [])
      else if success then
        (if mIndex > matchIndex n fromPeer
         then (n\<lparr>matchIndex := (matchIndex n)(fromPeer := mIndex),
                 nextIndex := (nextIndex n)(fromPeer := mIndex + 1)\<rparr>, [])
         else (n, []))
      else
        let n = (if nextIndex n fromPeer > 1
                 then n\<lparr>nextIndex := (nextIndex n)(fromPeer := nextIndex n fromPeer - 1)\<rparr>
                 else n)
        in (n, sendAppendEntries False n))"

text \<open>The loop over the received entries: a conflicting suffix is cut, a missing entry appended.\<close>

fun append_loop :: "uint64 \<Rightarrow> log_entry list \<Rightarrow> log_entry list \<Rightarrow> log_entry list" where
  "append_loop idx [] l = l"
| "append_loop idx (e # es) l =
     (let idx = idx + 1;
          l = (if idx \<le> last_index l \<and> le_term (log_at l idx) \<noteq> le_term e
               then take (unat idx) l else l);
          l = (if idx > last_index l then l @ [e] else l)
      in append_loop idx es l)"

text \<open>
  \<open>handleAppendEntries\<close> in its three parts: the reaction to a request that is not stale, the
  replacement of the log suffix with the commit and apply that follow, and the method itself.
\<close>

definition ae_receive ::
  "append_entries_request \<Rightarrow> int \<Rightarrow> int \<Rightarrow> int \<Rightarrow> raft_node \<Rightarrow> raft_node \<times> raft_effect list" where
  "ae_receive req now now' rnd n =
     (let n = n\<lparr>lastHeartbeat := now\<rparr>;
          (n, e1) = (if ae_term req > currentTerm n then becomeFollower (ae_term req) now' rnd n
                     else (n, []))
      in (n\<lparr>leaderId := ae_leader_id req\<rparr>, e1))"

definition ae_store :: "append_entries_request \<Rightarrow> raft_node \<Rightarrow> raft_node \<times> raft_effect list" where
  "ae_store req n =
     (let n = n\<lparr>raftLog := append_loop (ae_prev_log_index req) (ae_entries req) (raftLog n)\<rparr>;
          n = (if ae_leader_commit req > commitIndex n
               then n\<lparr>commitIndex := min (ae_leader_commit req) (getLastLogIndex n)\<rparr>
               else n);
          e2 = persist n;
          (n, e3) = applyEntries n
      in (n, e2 @ e3))"

definition handleAppendEntries ::
  "append_entries_request \<Rightarrow> int \<Rightarrow> int \<Rightarrow> int \<Rightarrow> raft_node
     \<Rightarrow> append_entries_response \<times> raft_node \<times> raft_effect list" where
  "handleAppendEntries req now now' rnd n =
     (if ae_term req < currentTerm n
      then (\<lparr>aer_term = currentTerm n, aer_success = False, aer_match_index = 0\<rparr>, n, [])
      else
        let (n, e1) = ae_receive req now now' rnd n
        in if ae_prev_log_index req > getLastLogIndex n
           then (\<lparr>aer_term = currentTerm n, aer_success = False,
                  aer_match_index = getLastLogIndex n\<rparr>, n, e1)
           else if ae_prev_log_index req > 0
                   \<and> le_term (getLogEntry (ae_prev_log_index req) n) \<noteq> ae_prev_log_term req
           then (\<lparr>aer_term = currentTerm n, aer_success = False,
                  aer_match_index = ae_prev_log_index req - 1\<rparr>, n, e1)
           else
             let (n, e2) = ae_store req n
             in (\<lparr>aer_term = currentTerm n, aer_success = True,
                  aer_match_index = getLastLogIndex n\<rparr>, n, e1 @ e2))"

definition tick :: "int \<Rightarrow> int \<Rightarrow> int \<Rightarrow> raft_node \<Rightarrow> raft_node \<times> raft_effect list" where
  "tick now now' rnd n =
     (let elapsed = elapsed_ms now (lastHeartbeat n);
          (n, e1) = (if (nodeState n = FOLLOWER \<or> nodeState n = CANDIDATE)
                        \<and> elapsed \<ge> electionTimeoutMs n
                     then becomeCandidate now' rnd n else (n, []))
      in if nodeState n = LEADER then
           let (n, e2) = (if elapsed \<ge> 50
                          then let n = n\<lparr>lastHeartbeat := now\<rparr> in (n, sendAppendEntries True n)
                          else (n, []));
               n = advanceCommitIndex n;
               (n, e3) = applyEntries n
           in (n, e1 @ e2 @ e3)
         else (n, e1))"

definition isLeader :: "raft_node \<Rightarrow> bool" where
  "isLeader n \<longleftrightarrow> nodeState n = LEADER"

end
