(* ===== verification/Raft_Log.thy ===== *)
theory Raft_Log
  imports Raft_Node
begin

text \<open>
  The log operations of the Raft node: the loop of \<open>handleAppendEntries\<close> against the receiver rule of
  the Raft paper, the search of \<open>advanceCommitIndex\<close>, and the loop of \<open>applyEntries\<close>. Lengths of
  \<open>log_\<close> are below \<open>2\<^sup>6\<^sup>4\<close>, as \<open>std::vector\<close> guarantees.
\<close>

subsection \<open>The receiver rule for a list of entries\<close>

text \<open>
  \<open>match_count p es l\<close> is the number of leading entries of \<open>es\<close> that the log already holds after
  position \<open>p\<close> with the same term. The rule keeps the log when it holds all of them, and otherwise
  replaces everything from the first missing or conflicting one on.
\<close>

fun match_count :: "nat \<Rightarrow> log_entry list \<Rightarrow> log_entry list \<Rightarrow> nat" where
  "match_count p [] l = 0"
| "match_count p (e # es) l =
     (if Suc p < length l \<and> le_term (l ! Suc p) = le_term e then Suc (match_count (Suc p) es l)
      else 0)"

definition raft_append :: "nat \<Rightarrow> log_entry list \<Rightarrow> log_entry list \<Rightarrow> log_entry list" where
  "raft_append p es l =
     (let k = match_count p es l
      in if k = length es then l else take (Suc p + k) l @ drop k es)"

lemma match_count_le: "match_count p es l \<le> length es"
  by (induction p es l rule: match_count.induct) auto

lemma match_count_bound: "p < length l \<Longrightarrow> p + match_count p es l < length l"
  by (induction p es l rule: match_count.induct) auto

lemma match_count_terms:
  "i < match_count p es l \<Longrightarrow> le_term (l ! (Suc p + i)) = le_term (es ! i)"
proof (induction p es l arbitrary: i rule: match_count.induct)
  case (2 p e es l)
  then show ?case by (cases i) (auto split: if_splits)
qed simp

lemma last_index_eq: "l \<noteq> [] \<Longrightarrow> last_index l = word_of_nat (length l - 1)"
  by (simp add: last_index_def)

lemma unat_last_index: "l \<noteq> [] \<Longrightarrow> length l < 2 ^ 64 \<Longrightarrow> unat (last_index l) = length l - 1"
  by (simp add: last_index_def unat_word_of_nat64)

lemma le_last_index:
  "l \<noteq> [] \<Longrightarrow> length l < 2 ^ 64 \<Longrightarrow> i \<le> last_index l \<longleftrightarrow> unat i < length l"
  by (cases l) (auto simp: last_index_def word_nat64)

lemma append_loop_at_end:
  assumes "Suc (unat idx) = length l" and "length l + length es < 2 ^ 64"
  shows "append_loop idx es l = l @ es"
  using assms
proof (induction es arbitrary: idx l)
  case (Cons e es)
  from Cons.prems have l: "l \<noteq> []" "length l < 2 ^ 64" by auto
  have u: "unat (idx + 1) = length l" using Cons.prems by (simp add: unat_plus_one64)
  then have "\<not> idx + 1 \<le> last_index l" using l by (simp add: le_last_index)
  with Cons.IH [of "idx + 1" "l @ [e]"] Cons.prems u show ?case by (simp add: Let_def not_le)
qed simp

lemma append_loop_raft_append:
  assumes "unat idx < length l" and "length l + length es < 2 ^ 64"
  shows "append_loop idx es l = raft_append (unat idx) es l"
  using assms
proof (induction es arbitrary: idx)
  case Nil
  then show ?case by (simp add: raft_append_def)
next
  case (Cons e es)
  from Cons.prems have l: "l \<noteq> []" "length l < 2 ^ 64" by auto
  have u: "unat (idx + 1) = Suc (unat idx)" using Cons.prems by (simp add: unat_plus_one64)
  show ?case
  proof (cases "Suc (unat idx) < length l \<and> le_term (l ! Suc (unat idx)) = le_term e")
    case True
    then have "idx + 1 \<le> last_index l" "\<not> idx + 1 > last_index l"
      using l u by (auto simp: le_last_index not_less)
    with True u Cons.IH [of "idx + 1"] Cons.prems show ?thesis
      by (simp add: log_at_def raft_append_def Let_def)
  next
    case False
    let ?t = "take (Suc (unat idx)) l"
    have t: "length ?t = Suc (unat idx)" "?t \<noteq> []" using Cons.prems l by auto
    have cut: "(if idx + 1 \<le> last_index l \<and> le_term (log_at l (idx + 1)) \<noteq> le_term e
        then take (unat (idx + 1)) l else l) = ?t"
      using False u l Cons.prems by (auto simp: le_last_index log_at_def)
    have "\<not> idx + 1 \<le> last_index ?t"
      using t u Cons.prems by (subst le_last_index) auto
    then have "append_loop idx (e # es) l = append_loop (idx + 1) es (?t @ [e])"
      using cut by (simp add: Let_def not_le)
    also have "\<dots> = (?t @ [e]) @ es"
      using u t Cons.prems by (intro append_loop_at_end) auto
    also have "\<dots> = raft_append (unat idx) (e # es) l"
      using False by (auto simp: raft_append_def)
    finally show ?thesis .
  qed
qed

lemma raft_append_prefix:
  "p < length l \<Longrightarrow> take (Suc p) (raft_append p es l) = take (Suc p) l"
  by (simp add: raft_append_def Let_def min_def)

lemma length_raft_append: "p < length l \<Longrightarrow> Suc p + length es \<le> length (raft_append p es l)"
  using match_count_bound [of p l es] match_count_le [of p es l]
  by (auto simp: raft_append_def Let_def min_def)

lemma length_raft_append_le: "length (raft_append p es l) \<le> length l + length es"
  by (auto simp: raft_append_def Let_def)

lemma raft_append_nonempty: "p < length l \<Longrightarrow> raft_append p es l \<noteq> []"
  using length_raft_append [of p l es] by auto

lemma raft_append_terms:
  assumes "p < length l" and "i < length es"
  shows "le_term (raft_append p es l ! (Suc p + i)) = le_term (es ! i)"
proof -
  let ?k = "match_count p es l"
  note b = match_count_bound [OF assms(1), of es]
  show ?thesis
  proof (cases "i < ?k")
    case True
    with b show ?thesis
      using match_count_terms [of i p es l] by (auto simp: raft_append_def Let_def nth_append)
  next
    case False
    with assms(2) have "?k \<noteq> length es" by simp
    moreover have "length (take (Suc p + ?k) l) = Suc p + ?k" using b by simp
    ultimately show ?thesis
      using False b assms(2) by (simp add: raft_append_def Let_def nth_append del: length_take)
  qed
qed

lemma match_count_all:
  "(\<And>i. i < length es \<Longrightarrow> Suc p + i < length l \<and> le_term (l ! (Suc p + i)) = le_term (es ! i)) \<Longrightarrow>
     match_count p es l = length es"
proof (induction p es l rule: match_count.induct)
  case (2 p e es l)
  have "Suc p < length l \<and> le_term (l ! Suc p) = le_term e" using "2.prems" [of 0] by simp
  moreover have "match_count (Suc p) es l = length es"
    using "2.prems" [of "Suc _"] by (intro "2.IH" calculation) auto
  ultimately show ?case by simp
qed simp

lemma raft_append_id:
  assumes "p < length l" and "Suc p + length es \<le> length l"
    and "\<And>i. i < length es \<Longrightarrow> le_term (l ! (Suc p + i)) = le_term (es ! i)"
  shows "raft_append p es l = l"
  using match_count_all [of es p l] assms by (simp add: raft_append_def)

lemma raft_append_idem:
  assumes "p < length l"
  shows "raft_append p es (raft_append p es l) = raft_append p es l"
proof (rule raft_append_id)
  show "p < length (raft_append p es l)"
    using length_raft_append [OF assms, of es] by simp
  show "Suc p + length es \<le> length (raft_append p es l)"
    by (rule length_raft_append [OF assms])
  show "\<And>i. i < length es \<Longrightarrow> le_term (raft_append p es l ! (Suc p + i)) = le_term (es ! i)"
    by (rule raft_append_terms [OF assms])
qed

subsection \<open>Applying committed entries\<close>

lemma applyEntries_node:
  "fst (applyEntries n) = n\<lparr>lastApplied := max (lastApplied n) (commitIndex n)\<rparr>"
proof (induction n rule: applyEntries.induct)
  case (1 n)
  show ?case
  proof (cases "lastApplied n < commitIndex n")
    case True
    then have "max (lastApplied n + 1) (commitIndex n) = commitIndex n"
      by (simp add: max_def word_le_nat_alt word_less_nat_alt unat_Suc_less64)
    with "1.IH" [OF True refl refl] True show ?thesis
      by (subst applyEntries.simps) (simp add: Let_def case_prod_unfold max_def)
  next
    case False
    then have "max (lastApplied n) (commitIndex n) = lastApplied n" by (simp add: max_def)
    with False show ?thesis by (subst applyEntries.simps) simp
  qed
qed

lemma upt_split_first: "Suc i \<le> j \<Longrightarrow> [Suc i..<Suc j] = Suc i # [Suc (Suc i)..<Suc j]"
  by (simp add: upt_rec)

lemma applyEntries_effects:
  assumes "unat (commitIndex n) < length (raftLog n) \<or> commitIndex n \<le> lastApplied n"
  shows "snd (applyEntries n) = map (\<lambda>i. Apply (word_of_nat i) (le_command (raftLog n ! i)))
     [Suc (unat (lastApplied n))..<Suc (unat (commitIndex n))]"
  using assms
proof (induction n rule: applyEntries.induct)
  case (1 n)
  show ?case
  proof (cases "lastApplied n < commitIndex n")
    case True
    let ?i = "lastApplied n + 1"
    have u: "unat ?i = Suc (unat (lastApplied n))" using True by (simp add: unat_Suc_less64)
    have lt: "unat (lastApplied n) < unat (commitIndex n)" using True by (simp add: word_less_nat_alt)
    from True "1.prems" have len: "unat (commitIndex n) < length (raftLog n)" by auto
    have w: "word_of_nat (Suc (unat (lastApplied n))) = ?i" by (metis u word_nat_cases word_unat_eq_iff unat_of_nat unsigned_less mod_less)
    have IH: "snd (applyEntries (n\<lparr>lastApplied := ?i\<rparr>)) =
        map (\<lambda>i. Apply (word_of_nat i) (le_command (raftLog n ! i)))
          [Suc (Suc (unat (lastApplied n)))..<Suc (unat (commitIndex n))]"
      using "1.IH" [OF True refl refl] len u by simp
    have "?i > 0" using u by (simp add: word_less_nat_alt)
    with True u len lt have "snd (applyEntries n) =
        Apply ?i (le_command (raftLog n ! Suc (unat (lastApplied n))))
        # snd (applyEntries (n\<lparr>lastApplied := ?i\<rparr>))"
      by (subst applyEntries.simps) (simp add: Let_def case_prod_unfold)
    with IH lt w show ?thesis by (simp add: upt_split_first del: upt_Suc)
  next
    case False
    then have "unat (commitIndex n) \<le> unat (lastApplied n)" by (simp add: not_less word_le_nat_alt)
    with False show ?thesis by (simp add: applyEntries.simps [of n])
  qed
qed

subsection \<open>Advancing the commit index\<close>

lemma commit_search_Some:
  assumes "commit_search n k = Some c" and "k < 2 ^ 64"
  shows "\<exists>j \<le> k. c = word_of_nat j \<and> 0 < j \<and> commitIndex n < c
    \<and> le_term (raftLog n ! j) = currentTerm n
    \<and> replica_count n j > int_of_size (length (peerIds n) + 1) sdiv 2"
  using assms
proof (induction k)
  case (Suc k)
  then show ?case by (auto split: if_splits intro: exI [of _ "Suc k"] dest: le_SucI)
qed simp

lemma commit_search_maximal:
  assumes "commit_search n k = None \<or> commit_search n k = Some (word_of_nat c)"
    and "commit_search n k \<noteq> None \<Longrightarrow> c < j"
    and "j \<le> k" and "k < 2 ^ 64" and "unat (commitIndex n) < j"
    and "le_term (raftLog n ! j) = currentTerm n"
  shows "\<not> replica_count n j > int_of_size (length (peerIds n) + 1) sdiv 2"
  using assms
proof (induction k)
  case 0
  then show ?case by simp
next
  case (Suc k)
  have gt: "word_of_nat (Suc k) > commitIndex n"
    using Suc.prems by (simp add: word_less_of_nat64 del: of_nat_Suc)
  show ?case
  proof (cases "j = Suc k")
    case True
    show ?thesis
    proof
      assume q: "replica_count n j > int_of_size (length (peerIds n) + 1) sdiv 2"
      with True gt Suc.prems(6) have s: "commit_search n (Suc k) = Some (word_of_nat (Suc k))" by simp
      with Suc.prems(1) have "(word_of_nat c :: uint64) = word_of_nat (Suc k)" by auto
      moreover have "c < Suc k" using Suc.prems(2) s True by simp
      ultimately show False using Suc.prems(4)
        by (metis less_trans nat_neq_iff unat_word_of_nat64)
    qed
  next
    case False
    with Suc.prems(3) have j: "j \<le> k" by simp
    have step: "commit_search n (Suc k) = commit_search n k \<or>
        commit_search n (Suc k) = Some (word_of_nat (Suc k))" using gt by simp
    show ?thesis
    proof (cases "commit_search n (Suc k) = commit_search n k")
      case True
      with Suc.IH Suc.prems j show ?thesis by simp
    next
      case f: False
      with step have s: "commit_search n (Suc k) = Some (word_of_nat (Suc k))" by blast
      with Suc.prems(1,2,4) j show ?thesis
        by (metis less_trans linorder_not_less option.distinct(1) option.inject order.strict_trans2
            unat_word_of_nat64 le_Suc_eq)
    qed
  qed
qed

end
