(* ===== verification/Raft_Inv.thy ===== *)
theory Raft_Inv
  imports Raft_Log
begin

text \<open>
  What every public method of the Raft node does to each field (the collection \<open>node_simps\<close>), the
  node's own invariant, and the properties of one node on its own: safety of its log accesses,
  monotone terms, one vote per term, the order in which commands are applied.
\<close>

subsection \<open>Inputs of a node\<close>

datatype raft_input =
    Tick int int int
  | Propose string
  | RecvRequestVote request_vote_request int int int
  | RecvVoteResponse uint64 uint64 bool int int
  | RecvAppendEntries append_entries_request int int int
  | RecvAppendResponse uint64 uint64 bool uint64
  | ResetTimer int

fun node_step :: "raft_input \<Rightarrow> raft_node \<Rightarrow> raft_node \<times> raft_effect list" where
  "node_step (Tick now now' rnd) n = tick now now' rnd n"
| "node_step (Propose c) n = snd (propose c n)"
| "node_step (RecvRequestVote req now now' rnd) n = snd (handleRequestVote req now now' rnd n)"
| "node_step (RecvVoteResponse p t g now rnd) n = processRequestVoteResponse p t g now rnd n"
| "node_step (RecvAppendEntries req now now' rnd) n = snd (handleAppendEntries req now now' rnd n)"
| "node_step (RecvAppendResponse p t s m) n = processAppendEntriesResponse p t s m n"
| "node_step (ResetTimer now) n = (resetElectionTimer now n, [])"

fun node_run :: "raft_input list \<Rightarrow> raft_node \<Rightarrow> raft_node \<times> raft_effect list" where
  "node_run [] n = (n, [])"
| "node_run (i # is) n =
     (let (n, e1) = node_step i n; (n, e2) = node_run is n in (n, e1 @ e2))"

subsection \<open>Fields after each method\<close>

definition ae_accepts :: "append_entries_request \<Rightarrow> raft_node \<Rightarrow> bool" where
  "ae_accepts req n \<longleftrightarrow> ae_term req \<ge> currentTerm n \<and> ae_prev_log_index req \<le> getLastLogIndex n
     \<and> (ae_prev_log_index req > 0 \<longrightarrow>
          le_term (getLogEntry (ae_prev_log_index req) n) = ae_prev_log_term req)"

definition vote_granted :: "request_vote_request \<Rightarrow> raft_node \<Rightarrow> bool" where
  "vote_granted req n \<longleftrightarrow>
     (rv_term req > currentTerm n \<or> rv_term req = currentTerm n
        \<and> (votedFor n = 0 \<or> votedFor n = rv_candidate_id req))
     \<and> (rv_last_log_term req > getLastLogTerm n
        \<or> (rv_last_log_term req = getLastLogTerm n \<and> rv_last_log_index req \<ge> getLastLogIndex n))"

lemma log_helpers_update [simp]:
  "getLastLogIndex (n\<lparr>nodeState := s\<rparr>) = getLastLogIndex n"
  "getLastLogIndex (n\<lparr>currentTerm := t\<rparr>) = getLastLogIndex n"
  "getLastLogIndex (n\<lparr>votedFor := v\<rparr>) = getLastLogIndex n"
  "getLastLogIndex (n\<lparr>lastHeartbeat := h\<rparr>) = getLastLogIndex n"
  "getLastLogIndex (n\<lparr>electionTimeoutMs := r\<rparr>) = getLastLogIndex n"
  "getLastLogIndex (n\<lparr>leaderId := d\<rparr>) = getLastLogIndex n"
  "getLastLogIndex (n\<lparr>commitIndex := c\<rparr>) = getLastLogIndex n"
  "getLastLogIndex (n\<lparr>votesReceived := c'\<rparr>) = getLastLogIndex n"
  "getLastLogTerm (n\<lparr>nodeState := s\<rparr>) = getLastLogTerm n"
  "getLastLogTerm (n\<lparr>currentTerm := t\<rparr>) = getLastLogTerm n"
  "getLastLogTerm (n\<lparr>votedFor := v\<rparr>) = getLastLogTerm n"
  "getLastLogTerm (n\<lparr>lastHeartbeat := h\<rparr>) = getLastLogTerm n"
  "getLastLogTerm (n\<lparr>electionTimeoutMs := r\<rparr>) = getLastLogTerm n"
  "getLogEntry i (n\<lparr>nodeState := s\<rparr>) = getLogEntry i n"
  "getLogEntry i (n\<lparr>currentTerm := t\<rparr>) = getLogEntry i n"
  "getLogEntry i (n\<lparr>votedFor := v\<rparr>) = getLogEntry i n"
  "getLogEntry i (n\<lparr>lastHeartbeat := h\<rparr>) = getLogEntry i n"
  "getLogEntry i (n\<lparr>electionTimeoutMs := r\<rparr>) = getLogEntry i n"
  "getLogEntry i (n\<lparr>leaderId := d\<rparr>) = getLogEntry i n"
  by (simp_all add: getLastLogIndex_def getLastLogTerm_def getLogEntry_def)

lemmas raft_defs = becomeFollower_def becomeCandidate_def becomeLeader_def startElection_def
  propose_def handleRequestVote_def processRequestVoteResponse_def
  processAppendEntriesResponse_def handleAppendEntries_def tick_def advanceCommitIndex_def
  resetElectionTimer_def Let_def case_prod_unfold

lemma becomeFollower_fields [node_simps]:
  "fst (becomeFollower trm now rnd n) = n\<lparr>nodeState := FOLLOWER, currentTerm := trm, votedFor := 0,
     lastHeartbeat := now, electionTimeoutMs := rnd\<rparr>"
  by (simp add: becomeFollower_def Let_def)

lemma becomeCandidate_fields [node_simps]:
  "fst (becomeCandidate now rnd n) = n\<lparr>nodeState := CANDIDATE, currentTerm := currentTerm n + 1,
     votedFor := nodeId n, leaderId := 0, votesReceived := 1, lastHeartbeat := now,
     electionTimeoutMs := rnd\<rparr>"
  by (simp add: becomeCandidate_def startElection_def Let_def)

lemma becomeLeader_fields [node_simps]:
  "currentTerm (fst (becomeLeader now n)) = currentTerm n"
  "votedFor (fst (becomeLeader now n)) = votedFor n"
  "nodeState (fst (becomeLeader now n)) = LEADER"
  "raftLog (fst (becomeLeader now n)) = raftLog n"
  "commitIndex (fst (becomeLeader now n)) = commitIndex n"
  "lastApplied (fst (becomeLeader now n)) = lastApplied n"
  "nodeId (fst (becomeLeader now n)) = nodeId n"
  "peerIds (fst (becomeLeader now n)) = peerIds n"
  "votesReceived (fst (becomeLeader now n)) = votesReceived n"
  by (simp_all add: becomeLeader_def Let_def)

lemma advanceCommitIndex_fields [node_simps]:
  "currentTerm (advanceCommitIndex n) = currentTerm n"
  "votedFor (advanceCommitIndex n) = votedFor n"
  "nodeState (advanceCommitIndex n) = nodeState n"
  "raftLog (advanceCommitIndex n) = raftLog n"
  "lastApplied (advanceCommitIndex n) = lastApplied n"
  "nodeId (advanceCommitIndex n) = nodeId n"
  "peerIds (advanceCommitIndex n) = peerIds n"
  "votesReceived (advanceCommitIndex n) = votesReceived n"
  "nextIndex (advanceCommitIndex n) = nextIndex n"
  "matchIndex (advanceCommitIndex n) = matchIndex n"
  by (simp_all add: advanceCommitIndex_def split: option.split)

lemma propose_fields [node_simps]:
  "fst (propose c n) \<longleftrightarrow> nodeState n = LEADER"
  "currentTerm (fst (snd (propose c n))) = currentTerm n"
  "votedFor (fst (snd (propose c n))) = votedFor n"
  "nodeState (fst (snd (propose c n))) = nodeState n"
  "commitIndex (fst (snd (propose c n))) = commitIndex n"
  "lastApplied (fst (snd (propose c n))) = lastApplied n"
  "nodeId (fst (snd (propose c n))) = nodeId n"
  "peerIds (fst (snd (propose c n))) = peerIds n"
  "votesReceived (fst (snd (propose c n))) = votesReceived n"
  "raftLog (fst (snd (propose c n))) =
     (if nodeState n = LEADER then raftLog n @ [\<lparr>le_term = currentTerm n,
        le_index = getLastLogIndex n + 1, le_command = c\<rparr>] else raftLog n)"
  by (simp_all add: propose_def Let_def)

lemma handleRequestVote_fields [node_simps]:
  "currentTerm (fst (snd (handleRequestVote req now now' rnd n))) = max (rv_term req) (currentTerm n)"
  "votedFor (fst (snd (handleRequestVote req now now' rnd n))) =
     (if vote_granted req n then rv_candidate_id req
      else if rv_term req > currentTerm n then 0 else votedFor n)"
  "nodeState (fst (snd (handleRequestVote req now now' rnd n))) =
     (if rv_term req > currentTerm n then FOLLOWER else nodeState n)"
  "raftLog (fst (snd (handleRequestVote req now now' rnd n))) = raftLog n"
  "commitIndex (fst (snd (handleRequestVote req now now' rnd n))) = commitIndex n"
  "lastApplied (fst (snd (handleRequestVote req now now' rnd n))) = lastApplied n"
  "nodeId (fst (snd (handleRequestVote req now now' rnd n))) = nodeId n"
  "peerIds (fst (snd (handleRequestVote req now now' rnd n))) = peerIds n"
  "votesReceived (fst (snd (handleRequestVote req now now' rnd n))) = votesReceived n"
  "nextIndex (fst (snd (handleRequestVote req now now' rnd n))) = nextIndex n"
  "matchIndex (fst (snd (handleRequestVote req now now' rnd n))) = matchIndex n"
  "rvr_term (fst (handleRequestVote req now now' rnd n)) = max (rv_term req) (currentTerm n)"
  "rvr_vote_granted (fst (handleRequestVote req now now' rnd n)) \<longleftrightarrow> vote_granted req n"
  by (auto simp: handleRequestVote_def becomeFollower_def Let_def case_prod_unfold vote_granted_def
      max_def)

lemma processRequestVoteResponse_fields [node_simps]:
  "currentTerm (fst (processRequestVoteResponse p t g now rnd n)) = max t (currentTerm n)"
  "votedFor (fst (processRequestVoteResponse p t g now rnd n)) =
     (if t > currentTerm n then 0 else votedFor n)"
  "raftLog (fst (processRequestVoteResponse p t g now rnd n)) = raftLog n"
  "commitIndex (fst (processRequestVoteResponse p t g now rnd n)) = commitIndex n"
  "lastApplied (fst (processRequestVoteResponse p t g now rnd n)) = lastApplied n"
  "nodeId (fst (processRequestVoteResponse p t g now rnd n)) = nodeId n"
  "peerIds (fst (processRequestVoteResponse p t g now rnd n)) = peerIds n"
  by (auto simp: processRequestVoteResponse_def node_simps Let_def case_prod_unfold max_def)

lemma processRequestVoteResponse_votes [node_simps]:
  "votesReceived (fst (processRequestVoteResponse p t g now rnd n)) =
     (if t = currentTerm n \<and> nodeState n = CANDIDATE \<and> g then votesReceived n + 1
      else votesReceived n)"
  "nodeState (fst (processRequestVoteResponse p t g now rnd n)) =
     (if t > currentTerm n then FOLLOWER
      else if t = currentTerm n \<and> nodeState n = CANDIDATE
        \<and> (if g then votesReceived n + 1 else votesReceived n)
            \<ge> int_of_size (length (peerIds n) + 1) sdiv 2 + 1
      then LEADER else nodeState n)"
  by (auto simp: processRequestVoteResponse_def node_simps Let_def case_prod_unfold)

lemma processAppendEntriesResponse_fields [node_simps]:
  "currentTerm (fst (processAppendEntriesResponse p t s m n)) = currentTerm n"
  "votedFor (fst (processAppendEntriesResponse p t s m n)) = votedFor n"
  "nodeState (fst (processAppendEntriesResponse p t s m n)) = nodeState n"
  "raftLog (fst (processAppendEntriesResponse p t s m n)) = raftLog n"
  "commitIndex (fst (processAppendEntriesResponse p t s m n)) = commitIndex n"
  "lastApplied (fst (processAppendEntriesResponse p t s m n)) = lastApplied n"
  "nodeId (fst (processAppendEntriesResponse p t s m n)) = nodeId n"
  "peerIds (fst (processAppendEntriesResponse p t s m n)) = peerIds n"
  "votesReceived (fst (processAppendEntriesResponse p t s m n)) = votesReceived n"
  by (simp_all add: processAppendEntriesResponse_def Let_def)

lemma ae_receive_fields:
  "currentTerm (fst (ae_receive req now now' rnd n)) = max (ae_term req) (currentTerm n)"
  "votedFor (fst (ae_receive req now now' rnd n)) =
     (if ae_term req > currentTerm n then 0 else votedFor n)"
  "nodeState (fst (ae_receive req now now' rnd n)) =
     (if ae_term req > currentTerm n then FOLLOWER else nodeState n)"
  "ae_term req \<ge> currentTerm n \<Longrightarrow> currentTerm (fst (ae_receive req now now' rnd n)) = ae_term req"
  "raftLog (fst (ae_receive req now now' rnd n)) = raftLog n"
  "commitIndex (fst (ae_receive req now now' rnd n)) = commitIndex n"
  "lastApplied (fst (ae_receive req now now' rnd n)) = lastApplied n"
  "nodeId (fst (ae_receive req now now' rnd n)) = nodeId n"
  "peerIds (fst (ae_receive req now now' rnd n)) = peerIds n"
  "votesReceived (fst (ae_receive req now now' rnd n)) = votesReceived n"
  "nextIndex (fst (ae_receive req now now' rnd n)) = nextIndex n"
  "matchIndex (fst (ae_receive req now now' rnd n)) = matchIndex n"
  "getLastLogIndex (fst (ae_receive req now now' rnd n)) = getLastLogIndex n"
  "getLogEntry k (fst (ae_receive req now now' rnd n)) = getLogEntry k n"
  by (auto simp: ae_receive_def becomeFollower_def Let_def max_def)

lemma ae_store_node:
  fixes req n
  defines "l \<equiv> append_loop (ae_prev_log_index req) (ae_entries req) (raftLog n)"
  defines "c \<equiv> (if ae_leader_commit req > commitIndex n
      then min (ae_leader_commit req) (last_index l) else commitIndex n)"
  shows "fst (ae_store req n) =
    n\<lparr>raftLog := l, commitIndex := c, lastApplied := max (lastApplied n) c\<rparr>"
  by (simp add: ae_store_def Let_def case_prod_unfold applyEntries_node getLastLogIndex_def l_def c_def)

lemma handleAppendEntries_cases:
  "snd (handleAppendEntries req now now' rnd n) =
     (if ae_term req < currentTerm n then (n, [])
      else let (m, e1) = ae_receive req now now' rnd n
           in if ae_accepts req n then (fst (ae_store req m), e1 @ snd (ae_store req m)) else (m, e1))"
  by (simp add: handleAppendEntries_def ae_accepts_def Let_def case_prod_unfold ae_receive_fields)
     (auto simp: not_less)

lemma handleAppendEntries_fields [node_simps]:
  "currentTerm (fst (snd (handleAppendEntries req now now' rnd n))) = max (ae_term req) (currentTerm n)"
  "votedFor (fst (snd (handleAppendEntries req now now' rnd n))) =
     (if ae_term req > currentTerm n then 0 else votedFor n)"
  "nodeState (fst (snd (handleAppendEntries req now now' rnd n))) =
     (if ae_term req > currentTerm n then FOLLOWER else nodeState n)"
  "nodeId (fst (snd (handleAppendEntries req now now' rnd n))) = nodeId n"
  "peerIds (fst (snd (handleAppendEntries req now now' rnd n))) = peerIds n"
  "votesReceived (fst (snd (handleAppendEntries req now now' rnd n))) = votesReceived n"
  "nextIndex (fst (snd (handleAppendEntries req now now' rnd n))) = nextIndex n"
  "matchIndex (fst (snd (handleAppendEntries req now now' rnd n))) = matchIndex n"
  by (auto simp: handleAppendEntries_cases Let_def case_prod_unfold ae_store_node ae_receive_fields
      max_def)

lemma handleAppendEntries_log [node_simps]:
  "raftLog (fst (snd (handleAppendEntries req now now' rnd n))) =
     (if ae_accepts req n then append_loop (ae_prev_log_index req) (ae_entries req) (raftLog n)
      else raftLog n)"
  by (auto simp: handleAppendEntries_cases Let_def case_prod_unfold ae_store_node ae_receive_fields
      ae_accepts_def)

lemma handleAppendEntries_response [node_simps]:
  "aer_success (fst (handleAppendEntries req now now' rnd n)) \<longleftrightarrow> ae_accepts req n"
  "aer_term (fst (handleAppendEntries req now now' rnd n)) = max (ae_term req) (currentTerm n)"
  by (auto simp: handleAppendEntries_def ae_accepts_def Let_def case_prod_unfold ae_store_node
      ae_receive_fields max_def)

lemma handleAppendEntries_match:
  "ae_accepts req n \<Longrightarrow> aer_match_index (fst (handleAppendEntries req now now' rnd n)) =
     last_index (raftLog (fst (snd (handleAppendEntries req now now' rnd n))))"
  by (auto simp: handleAppendEntries_def ae_accepts_def Let_def case_prod_unfold ae_store_node
      ae_receive_fields getLastLogIndex_def)

lemma handleAppendEntries_commit [node_simps]:
  fixes req now now' rnd n
  defines "n' \<equiv> fst (snd (handleAppendEntries req now now' rnd n))"
  shows "commitIndex n' =
     (if ae_accepts req n \<and> ae_leader_commit req > commitIndex n
      then min (ae_leader_commit req) (last_index (raftLog n')) else commitIndex n)"
    and "lastApplied n' =
     (if ae_accepts req n then max (lastApplied n) (commitIndex n') else lastApplied n)"
  unfolding n'_def
  by (auto simp: handleAppendEntries_cases Let_def case_prod_unfold ae_store_node ae_receive_fields
      ae_accepts_def)

lemma tick_fields [node_simps]:
  "nodeId (fst (tick now now' rnd n)) = nodeId n"
  "peerIds (fst (tick now now' rnd n)) = peerIds n"
  "raftLog (fst (tick now now' rnd n)) = raftLog n"
  by (auto simp: tick_def node_simps Let_def case_prod_unfold applyEntries_node)

definition election_due :: "int \<Rightarrow> raft_node \<Rightarrow> bool" where
  "election_due now n \<longleftrightarrow> nodeState n \<noteq> LEADER \<and> elapsed_ms now (lastHeartbeat n) \<ge> electionTimeoutMs n"

lemma tick_election [node_simps]:
  "currentTerm (fst (tick now now' rnd n)) =
     (if election_due now n then currentTerm n + 1 else currentTerm n)"
  "votedFor (fst (tick now now' rnd n)) = (if election_due now n then nodeId n else votedFor n)"
  "nodeState (fst (tick now now' rnd n)) = (if election_due now n then CANDIDATE else nodeState n)"
  "votesReceived (fst (tick now now' rnd n)) = (if election_due now n then 1 else votesReceived n)"
  by (cases "nodeState n"; auto simp: tick_def election_due_def node_simps Let_def case_prod_unfold
      applyEntries_node)+

subsection \<open>The invariant of one node\<close>

definition no_ub :: "raft_effect list \<Rightarrow> bool" where
  "no_ub effs = list_all (\<lambda>e. case e of OutOfRange i \<Rightarrow> False | _ \<Rightarrow> True) effs"

definition node_ok :: "raft_node \<Rightarrow> bool" where
  "node_ok n \<longleftrightarrow> raftLog n \<noteq> [] \<and> length (raftLog n) < 2 ^ 64 \<and> commitIndex n \<le> lastApplied n"

text \<open>The vector has room for what the input appends: a \<open>std::vector\<close> never outgrows \<open>size_t\<close>.\<close>

fun input_fits :: "raft_input \<Rightarrow> raft_node \<Rightarrow> bool" where
  "input_fits (Propose c) n = (length (raftLog n) + 1 < 2 ^ 64)"
| "input_fits (RecvAppendEntries req now now' rnd) n =
     (length (raftLog n) + length (ae_entries req) < 2 ^ 64)"
| "input_fits _ n = True"

fun run_fits :: "raft_input list \<Rightarrow> raft_node \<Rightarrow> bool" where
  "run_fits [] n = True"
| "run_fits (i # is) n = (input_fits i n \<and> run_fits is (fst (node_step i n)))"

lemma no_ub_simps [simp]:
  "no_ub []" "no_ub (es @ fs) \<longleftrightarrow> no_ub es \<and> no_ub fs" "no_ub (persist n)"
  "no_ub (sendAppendEntries b n)" "no_ub (map (\<lambda>p. Send p m) ps)"
  "no_ub (map (\<lambda>i. Apply (f i) (g i)) is)"
  by (auto simp: no_ub_def persist_def sendAppendEntries_def list_all_iff)

lemma applyEntries_no_ub:
  "unat (commitIndex n) < length (raftLog n) \<or> commitIndex n \<le> lastApplied n \<Longrightarrow>
     no_ub (snd (applyEntries n))"
  by (simp add: applyEntries_effects)

lemma becomeFollower_no_ub [simp]: "no_ub (snd (becomeFollower t now rnd n))"
  by (simp add: becomeFollower_def Let_def)

lemma becomeCandidate_no_ub [simp]: "no_ub (snd (becomeCandidate now rnd n))"
  by (simp add: becomeCandidate_def startElection_def Let_def)

lemma becomeLeader_no_ub [simp]: "no_ub (snd (becomeLeader now n))"
  by (simp add: becomeLeader_def Let_def)

lemma accepted_prev:
  assumes "ae_accepts req n" and "node_ok n"
  shows "unat (ae_prev_log_index req) < length (raftLog n)"
  using assms by (simp add: ae_accepts_def node_ok_def getLastLogIndex_def le_last_index)

lemma accepted_log:
  assumes "ae_accepts req n" and "node_ok n"
    and "length (raftLog n) + length (ae_entries req) < 2 ^ 64"
  shows "append_loop (ae_prev_log_index req) (ae_entries req) (raftLog n) =
    raft_append (unat (ae_prev_log_index req)) (ae_entries req) (raftLog n)"
  using append_loop_raft_append accepted_prev assms by blast

lemma accepted_log_ok:
  assumes "ae_accepts req n" and "node_ok n"
    and "length (raftLog n) + length (ae_entries req) < 2 ^ 64"
  shows "append_loop (ae_prev_log_index req) (ae_entries req) (raftLog n) \<noteq> []"
    and "length (append_loop (ae_prev_log_index req) (ae_entries req) (raftLog n)) < 2 ^ 64"
  using accepted_log [OF assms] accepted_prev [OF assms(1,2)] assms(3)
    raft_append_nonempty length_raft_append_le order.strict_trans1
  by (metis, metis)

lemma handleAppendEntries_no_ub:
  assumes ok: "node_ok n" and fits: "length (raftLog n) + length (ae_entries req) < 2 ^ 64"
  shows "no_ub (snd (snd (handleAppendEntries req now now' rnd n)))"
proof (cases "ae_accepts req n")
  case True
  let ?l = "append_loop (ae_prev_log_index req) (ae_entries req) (raftLog n)"
  note l = accepted_log_ok [OF True ok fits]
  have "unat (min (ae_leader_commit req) (last_index ?l)) < length ?l"
    using l by (auto simp: min_def unat_last_index le_last_index)
  with True ok show ?thesis
    by (auto simp: handleAppendEntries_def ae_receive_def ae_store_def becomeFollower_def Let_def case_prod_unfold ae_accepts_def
        getLastLogIndex_def node_ok_def intro!: applyEntries_no_ub)
next
  case False
  then show ?thesis
    by (auto simp: handleAppendEntries_def ae_receive_def ae_store_def becomeFollower_def Let_def case_prod_unfold ae_accepts_def)
qed

lemma handleAppendEntries_ok:
  assumes ok: "node_ok n" and fits: "length (raftLog n) + length (ae_entries req) < 2 ^ 64"
  shows "node_ok (fst (snd (handleAppendEntries req now now' rnd n)))"
proof -
  let ?m = "fst (snd (handleAppendEntries req now now' rnd n))"
  have "commitIndex ?m \<le> lastApplied ?m"
    using ok by (simp add: node_ok_def handleAppendEntries_commit)
  then show ?thesis
    using accepted_log_ok [OF _ ok fits] ok by (simp add: node_ok_def handleAppendEntries_log)
qed

lemma advanceCommitIndex_in_log:
  assumes "node_ok n"
  shows "unat (commitIndex (advanceCommitIndex n)) < length (raftLog n)
    \<or> commitIndex (advanceCommitIndex n) \<le> lastApplied n"
proof (cases "nodeState n = LEADER")
  case True
  have u: "unat (getLastLogIndex n) = length (raftLog n) - 1"
    using assms by (simp add: node_ok_def getLastLogIndex_def unat_last_index)
  show ?thesis
  proof (cases "commit_search n (unat (getLastLogIndex n))")
    case None
    with True assms show ?thesis by (simp add: advanceCommitIndex_def node_ok_def)
  next
    case (Some c)
    have "length (raftLog n) - 1 < 2 ^ 64" using assms by (auto simp: node_ok_def)
    from commit_search_Some [OF Some [unfolded u] this] obtain j where
      "j \<le> length (raftLog n) - 1" "c = word_of_nat j" "0 < j" by blast
    moreover from this assms have "unat c = j" by (auto simp: node_ok_def intro!: unat_word_of_nat64)
    moreover have "0 < length (raftLog n)" using assms by (simp add: node_ok_def)
    ultimately have "unat c < length (raftLog n)" by linarith
    then show ?thesis using True Some by (simp add: advanceCommitIndex_def)
  qed
next
  case False
  with assms show ?thesis by (simp add: advanceCommitIndex_def node_ok_def)
qed

lemma tick_ok:
  assumes ok: "node_ok n"
  shows "node_ok (fst (tick now now' rnd n)) \<and> no_ub (snd (tick now now' rnd n))"
proof (cases "nodeState n = LEADER")
  case True
  let ?m = "if elapsed_ms now (lastHeartbeat n) \<ge> 50 then n\<lparr>lastHeartbeat := now\<rparr> else n"
  have m: "node_ok ?m" "nodeState ?m = LEADER" using ok True by (auto simp: node_ok_def)
  from True have t: "fst (tick now now' rnd n) = fst (applyEntries (advanceCommitIndex ?m))"
    "no_ub (snd (tick now now' rnd n)) = no_ub (snd (applyEntries (advanceCommitIndex ?m)))"
    by (simp_all add: tick_def Let_def case_prod_unfold)
  have "no_ub (snd (applyEntries (advanceCommitIndex ?m)))"
    using advanceCommitIndex_in_log [OF m(1)] by (intro applyEntries_no_ub) (simp add: node_simps)
  moreover have "node_ok (fst (applyEntries (advanceCommitIndex ?m)))"
    using m by (simp add: applyEntries_node node_ok_def node_simps)
  ultimately show ?thesis using t by simp
next
  case False
  then have f: "nodeState n = FOLLOWER \<or> nodeState n = CANDIDATE" by (cases "nodeState n") auto
  then show ?thesis using ok
    by (auto simp: tick_def Let_def case_prod_unfold node_simps node_ok_def)
qed

lemma node_step_ok:
  assumes "node_ok n" and "input_fits i n"
  shows "node_ok (fst (node_step i n)) \<and> no_ub (snd (node_step i n))"
proof (cases i)
  case (Tick now now' rnd)
  with tick_ok [OF assms(1)] show ?thesis by simp
next
  case (RecvAppendEntries req now now' rnd)
  with handleAppendEntries_ok handleAppendEntries_no_ub assms show ?thesis by simp
next
  case (Propose c)
  with assms show ?thesis by (auto simp: propose_def node_ok_def Let_def)
next
  case (RecvRequestVote req now now' rnd)
  with assms show ?thesis
    by (auto simp: node_ok_def node_simps) (auto simp: handleRequestVote_def Let_def case_prod_unfold)
next
  case (RecvVoteResponse p t g now rnd)
  with assms show ?thesis
    by (auto simp: node_ok_def node_simps) (auto simp: processRequestVoteResponse_def Let_def)
next
  case (RecvAppendResponse p t s m)
  with assms show ?thesis by (auto simp: node_ok_def processAppendEntriesResponse_def Let_def)
next
  case (ResetTimer now)
  with assms show ?thesis by (simp add: node_ok_def resetElectionTimer_def)
qed

lemma node_run_ok:
  "node_ok n \<Longrightarrow> run_fits is n \<Longrightarrow> node_ok (fst (node_run is n)) \<and> no_ub (snd (node_run is n))"
proof (induction "is" arbitrary: n)
  case (Cons i "is")
  with node_step_ok [of n i] show ?case by (simp add: Let_def case_prod_unfold)
qed simp

lemma new_node_ok: "node_ok (new_node nid pids now rnd)"
  by (simp add: node_ok_def new_node_def)

lemma loadPersistedState_ok:
  "length l + 1 < 2 ^ 64 \<Longrightarrow> node_ok (loadPersistedState t v l (new_node nid pids now rnd))"
  by (simp add: node_ok_def new_node_def loadPersistedState_def)

text \<open>
  C10. The node never reads its log out of range: whatever messages and timer events arrive, in
  whatever order, after a fresh start or a recovery from disk, no access to \<open>log_\<close> in
  \<open>applyEntries\<close> is beyond its end, although a truncation may leave the log shorter than the
  commit index.
\<close>

theorem node_memory_safe:
  assumes "run_fits is (loadPersistedState t v l (new_node nid pids now rnd))" and "length l + 1 < 2 ^ 64"
  shows "no_ub (snd (node_run is (loadPersistedState t v l (new_node nid pids now rnd))))"
  using node_run_ok [OF loadPersistedState_ok [OF assms(2)] assms(1)] by blast

theorem node_memory_safe_witness:
  "no_ub (snd (node_run [Tick 400000000 400000000 150, Propose ''x''] (loadPersistedState 3 0
      [\<lparr>le_term = 3, le_index = 1, le_command = ''a''\<rparr>] (new_node 1 [2, 3] 0 200))))"
  by (rule node_memory_safe) (simp_all add: node_simps loadPersistedState_def new_node_def)

subsection \<open>Terms and votes\<close>

fun term_fits :: "raft_input \<Rightarrow> raft_node \<Rightarrow> bool" where
  "term_fits (Tick now now' rnd) n = (currentTerm n \<noteq> - 1)"
| "term_fits _ n = True"

fun run_terms_fit :: "raft_input list \<Rightarrow> raft_node \<Rightarrow> bool" where
  "run_terms_fit [] n = True"
| "run_terms_fit (i # is) n = (term_fits i n \<and> run_terms_fit is (fst (node_step i n)))"

definition vote_order :: "raft_node \<Rightarrow> raft_node \<Rightarrow> bool" where
  "vote_order n n' \<longleftrightarrow> currentTerm n < currentTerm n'
     \<or> currentTerm n = currentTerm n' \<and> (votedFor n = 0 \<or> votedFor n' = votedFor n)"

lemma vote_order_refl [simp]: "vote_order n n"
  by (simp add: vote_order_def)

lemma vote_order_trans: "vote_order a b \<Longrightarrow> vote_order b c \<Longrightarrow> vote_order a c"
  unfolding vote_order_def by (metis order.strict_trans)

lemma node_step_vote_order:
  assumes "term_fits i n"
  shows "vote_order n (fst (node_step i n))"
  using assms word_less_plus_one [of "currentTerm n"]
  by (cases i) (auto simp: vote_order_def node_simps vote_granted_def resetElectionTimer_def max_def)

lemma node_run_vote_order:
  "run_terms_fit is n \<Longrightarrow> vote_order n (fst (node_run is n))"
proof (induction "is" arbitrary: n)
  case (Cons i "is")
  then have "vote_order n (fst (node_step i n))"
    and "vote_order (fst (node_step i n)) (fst (node_run is (fst (node_step i n))))"
    using node_step_vote_order by auto
  then show ?case by (simp add: Let_def case_prod_unfold vote_order_trans)
qed simp

text \<open>
  C11. The term of a node never decreases, and a node votes for at most one candidate per term: along
  any run of events, a vote once given in a term is the same as long as the term is.
\<close>

theorem one_vote_per_term:
  assumes "run_terms_fit is n"
  shows "currentTerm n \<le> currentTerm (fst (node_run is n))
    \<and> (currentTerm (fst (node_run is n)) = currentTerm n \<and> votedFor n \<noteq> 0
         \<longrightarrow> votedFor (fst (node_run is n)) = votedFor n)"
  using node_run_vote_order [OF assms] by (auto simp: vote_order_def)

theorem one_vote_per_term_witness:
  "votedFor (fst (node_run [RecvRequestVote \<lparr>rv_term = 5, rv_candidate_id = 3, rv_last_log_index = 9,
      rv_last_log_term = 4\<rparr> 0 0 150] ((new_node 1 [2, 3] 0 200)\<lparr>currentTerm := 5, votedFor := 2\<rparr>))) = 2"
  using one_vote_per_term [of "[RecvRequestVote \<lparr>rv_term = 5, rv_candidate_id = 3,
      rv_last_log_index = 9, rv_last_log_term = 4\<rparr> 0 0 150]"
      "(new_node 1 [2, 3] 0 200)\<lparr>currentTerm := 5, votedFor := 2\<rparr>"]
  by (simp add: node_simps new_node_def case_prod_unfold)

subsection \<open>Persistence\<close>

definition is_send :: "raft_effect \<Rightarrow> bool" where
  "is_send e = (case e of Send p m \<Rightarrow> True | _ \<Rightarrow> False)"

definition is_persist :: "raft_effect \<Rightarrow> bool" where
  "is_persist e = (case e of Persist t v l \<Rightarrow> True | _ \<Rightarrow> False)"

definition persistent :: "raft_node \<Rightarrow> uint64 \<times> uint64 \<times> log_entry list" where
  "persistent n = (currentTerm n, votedFor n, raftLog n)"

text \<open>The last persisted state in \<open>effs\<close> is that of \<open>n\<close>, and nothing was sent before it.\<close>

definition persisted_first :: "raft_node \<Rightarrow> raft_effect list \<Rightarrow> bool" where
  "persisted_first n effs \<longleftrightarrow> (\<exists>pre post. effs = pre @ persist n @ post
     \<and> list_all (\<lambda>e. \<not> is_send e) pre \<and> list_all (\<lambda>e. \<not> is_persist e) post)"

lemma persisted_firstI:
  "effs = pre @ persist n @ post \<Longrightarrow> list_all (\<lambda>e. \<not> is_send e) pre \<Longrightarrow>
     list_all (\<lambda>e. \<not> is_persist e) post \<Longrightarrow> persisted_first n effs"
  unfolding persisted_first_def by blast

lemma effect_kinds [simp]:
  "list_all (\<lambda>e. \<not> is_send e) (persist n)"
  "list_all (\<lambda>e. \<not> is_persist e) (sendAppendEntries b n)"
  "list_all (\<lambda>e. \<not> is_persist e) (map (\<lambda>p. Send p m) ps)"
  by (auto simp: persist_def sendAppendEntries_def is_send_def is_persist_def list_all_iff)

lemma applyEntries_no_persist [simp]: "list_all (\<lambda>e. \<not> is_persist e) (snd (applyEntries n))"
proof (induction n rule: applyEntries.induct)
  case (1 n)
  show ?case
    by (subst applyEntries.simps) (auto simp: Let_def case_prod_unfold is_persist_def dest: "1.IH")
qed

lemma persist_update [simp]:
  "persist (n\<lparr>lastApplied := a\<rparr>) = persist n" "persist (n\<lparr>leaderId := d\<rparr>) = persist n"
  "persist (n\<lparr>votesReceived := c\<rparr>) = persist n" "persist (n\<lparr>commitIndex := k\<rparr>) = persist n"
  "persist (n\<lparr>lastHeartbeat := h\<rparr>) = persist n"
  by (simp_all add: persist_def)

lemma becomeFollower_persists:
  "persisted_first (fst (becomeFollower t now rnd n)) (snd (becomeFollower t now rnd n))"
  by (rule persisted_firstI [of _ "[]" _ "[]"]) (simp_all add: becomeFollower_def Let_def)

lemma becomeCandidate_persists:
  "persisted_first (fst (becomeCandidate now rnd n)) (snd (becomeCandidate now rnd n))"
  by (rule persisted_firstI [of _ "[]" _ "tl (snd (becomeCandidate now rnd n))"])
    (simp_all add: becomeCandidate_def startElection_def Let_def persist_def)

lemma persisted_first_cong:
  "persistent m = persistent n \<Longrightarrow> persisted_first m effs = persisted_first n effs"
  by (simp add: persisted_first_def persist_def persistent_def)

lemma becomeFollower_no_send [simp]:
  "list_all (\<lambda>e. \<not> is_send e) (snd (becomeFollower t now rnd n))"
  by (simp add: becomeFollower_def Let_def)

lemma handleRequestVote_effs:
  "snd (snd (handleRequestVote req now now' rnd n)) =
     (if rv_term req > currentTerm n then snd (becomeFollower (rv_term req) now rnd n) else [])
     @ (if vote_granted req n then persist (fst (snd (handleRequestVote req now now' rnd n))) else [])"
  by (auto simp: handleRequestVote_def Let_def case_prod_unfold becomeFollower_def vote_granted_def)

lemma handleRequestVote_persists:
  fixes req now now' rnd n
  defines "r \<equiv> snd (handleRequestVote req now now' rnd n)"
  assumes ch: "persistent (fst r) \<noteq> persistent n"
  shows "persisted_first (fst r) (snd r)"
proof (cases "vote_granted req n")
  case True
  let ?e = "if rv_term req > currentTerm n then snd (becomeFollower (rv_term req) now rnd n) else []"
  have "snd r = ?e @ persist (fst r) @ []"
    unfolding r_def by (subst handleRequestVote_effs) (simp add: True)
  then show ?thesis by (rule persisted_firstI) simp_all
next
  case False
  with ch have gt: "rv_term req > currentTerm n"
    by (auto simp: r_def persistent_def node_simps max_def split: if_splits)
  have e: "snd r = snd (becomeFollower (rv_term req) now rnd n)"
    unfolding r_def by (subst handleRequestVote_effs) (simp add: gt False)
  have "persistent (fst r) = persistent (fst (becomeFollower (rv_term req) now rnd n))"
    using gt False by (auto simp: r_def persistent_def node_simps max_def)
  with becomeFollower_persists e show ?thesis by (metis persisted_first_cong)
qed

lemma ae_store_effs:
  "\<exists>post. snd (ae_store req n) = persist (fst (ae_store req n)) @ post
     \<and> list_all (\<lambda>e. \<not> is_persist e) post"
  by (simp add: ae_store_def Let_def case_prod_unfold applyEntries_node)

lemma ae_receive_effs:
  "list_all (\<lambda>e. \<not> is_send e) (snd (ae_receive req now now' rnd n))"
  "persistent (fst (ae_receive req now now' rnd n)) \<noteq> persistent n \<Longrightarrow>
     persisted_first (fst (ae_receive req now now' rnd n)) (snd (ae_receive req now now' rnd n))"
  by (auto simp: ae_receive_def Let_def case_prod_unfold becomeFollower_def persistent_def
      intro: persisted_firstI [of _ "[]" _ "[]"])

lemma handleAppendEntries_split:
  fixes req now now' rnd n
  defines "r \<equiv> snd (handleAppendEntries req now now' rnd n)"
    and "q \<equiv> ae_receive req now now' rnd n"
  shows "r = (n, []) \<or> r = q \<or>
    r = (fst (ae_store req (fst q)), snd q @ snd (ae_store req (fst q)))"
  unfolding r_def q_def by (simp add: handleAppendEntries_def Let_def case_prod_unfold)

lemma handleAppendEntries_persists:
  fixes req now now' rnd n
  defines "r \<equiv> snd (handleAppendEntries req now now' rnd n)"
  assumes ch: "persistent (fst r) \<noteq> persistent n"
  shows "persisted_first (fst r) (snd r)"
proof -
  let ?q = "ae_receive req now now' rnd n"
  from handleAppendEntries_split [of req now now' rnd n] ch
  consider "r = ?q"
    | "r = (fst (ae_store req (fst ?q)), snd ?q @ snd (ae_store req (fst ?q)))"
    by (auto simp: r_def)
  then show ?thesis
  proof cases
    case 1
    with ch show ?thesis using ae_receive_effs(2) by metis
  next
    case 2
    obtain post where post: "snd (ae_store req (fst ?q)) = persist (fst (ae_store req (fst ?q))) @ post"
      "list_all (\<lambda>e. \<not> is_persist e) post"
      using ae_store_effs by blast
    with 2 have "snd r = snd ?q @ persist (fst r) @ post" by simp
    then show ?thesis by (rule persisted_firstI) (simp_all add: ae_receive_effs post)
  qed
qed

lemma tick_persists:
  "persistent (fst (tick now now' rnd n)) \<noteq> persistent n \<Longrightarrow>
     persisted_first (fst (tick now now' rnd n)) (snd (tick now now' rnd n))"
  using becomeCandidate_persists [of now' rnd n]
  by (cases "election_due now n"; cases "nodeState n")
    (auto simp: tick_def election_due_def Let_def case_prod_unfold persistent_def node_simps
      applyEntries_node)

text \<open>
  C12. Raft's persistence rule: whenever an event changes the term, the vote or the log of a node, the
  new values are handed to the persistence callback, no other values after them, and no message is
  sent before. (A reply is only built from the result, after the method has returned.)
\<close>

theorem persists_before_sending:
  assumes "node_step i n = (n', effs)"
    and "(currentTerm n', votedFor n', raftLog n') \<noteq> (currentTerm n, votedFor n, raftLog n)"
  shows "persisted_first n' effs"
proof -
  have n': "n' = fst (node_step i n)" "effs = snd (node_step i n)" using assms(1) by simp_all
  have ch: "persistent n' \<noteq> persistent n" using assms(2) by (simp add: persistent_def)
  show ?thesis
  proof (cases i)
    case (Tick now now' rnd)
    with tick_persists ch n' show ?thesis by simp
  next
    case (Propose c)
    with ch n' show ?thesis
      by (auto simp: propose_def persistent_def Let_def intro!: persisted_firstI [of _ "[]"])
  next
    case (RecvRequestVote req now now' rnd)
    with handleRequestVote_persists ch n' show ?thesis by simp
  next
    case (RecvVoteResponse p t g now rnd)
    with ch n' becomeFollower_persists [of t now rnd n] show ?thesis
      by (auto simp: processRequestVoteResponse_def persistent_def node_simps Let_def split: if_splits)
  next
    case (RecvAppendEntries req now now' rnd)
    with handleAppendEntries_persists ch n' show ?thesis by simp
  next
    case (RecvAppendResponse p t s m)
    with ch n' show ?thesis by (simp add: persistent_def node_simps)
  next
    case (ResetTimer now)
    with ch n' show ?thesis by (simp add: persistent_def resetElectionTimer_def)
  qed
qed

theorem persists_before_sending_witness:
  "persisted_first (fst (becomeCandidate 400000000 150 (new_node 1 [2] 0 200)))
     (snd (tick 400000000 400000000 150 (new_node 1 [2] 0 200)))"
proof -
  have t: "tick 400000000 400000000 150 (new_node 1 [2] 0 200)
      = becomeCandidate 400000000 150 (new_node 1 [2] 0 200)"
    by (simp add: tick_def Let_def case_prod_unfold new_node_def elapsed_ms_def node_simps
        prod_eq_iff)
  have "currentTerm (fst (becomeCandidate 400000000 150 (new_node 1 [2] 0 200)))
      \<noteq> currentTerm (new_node 1 [2] 0 200)"
    by (simp add: becomeCandidate_fields new_node_def)
  with persists_before_sending [of "Tick 400000000 400000000 150" "new_node 1 [2] 0 200"
        "fst (becomeCandidate 400000000 150 (new_node 1 [2] 0 200))"
        "snd (becomeCandidate 400000000 150 (new_node 1 [2] 0 200))"]
  show ?thesis unfolding t node_step.simps by simp
qed

subsection \<open>Applied commands\<close>

definition applied_indices :: "raft_effect list \<Rightarrow> uint64 list" where
  "applied_indices effs = concat (map (\<lambda>e. case e of Apply i c \<Rightarrow> [i] | _ \<Rightarrow> []) effs)"

lemma applied_indices_simps [simp]:
  "applied_indices [] = []"
  "applied_indices (es @ fs) = applied_indices es @ applied_indices fs"
  "applied_indices (persist n) = []"
  "applied_indices (sendAppendEntries b n) = []"
  "applied_indices (map (\<lambda>p. Send p m) ps) = []"
  "applied_indices (map (\<lambda>i. Apply (f i) (g i)) is) = map f is"
  by (simp_all add: applied_indices_def persist_def sendAppendEntries_def comp_def)

lemma transitions_apply_nothing [simp]:
  "applied_indices (snd (becomeFollower t now rnd n)) = []"
  "applied_indices (snd (becomeCandidate now rnd n)) = []"
  "applied_indices (snd (becomeLeader now n)) = []"
  by (simp_all add: becomeFollower_def becomeCandidate_def startElection_def becomeLeader_def Let_def)

definition applied_upto :: "raft_node \<Rightarrow> raft_node \<Rightarrow> uint64 list" where
  "applied_upto n n' = map word_of_nat [Suc (unat (lastApplied n))..<Suc (unat (lastApplied n'))]"

lemma applied_upto_same [simp]: "lastApplied n = lastApplied n' \<Longrightarrow> applied_upto n n' = []"
  by (simp add: applied_upto_def)

lemma unat_max: "unat (max a b :: uint64) = max (unat a) (unat b)"
  by (simp add: max_def word_le_nat_alt)

lemma upt_max: "[Suc a..<Suc (max a b)] = [Suc a..<Suc b]"
  by (simp add: max_def)

lemma applyEntries_applied:
  assumes "unat (commitIndex n) < length (raftLog n) \<or> commitIndex n \<le> lastApplied n"
  shows "applied_indices (snd (applyEntries n)) = applied_upto n (fst (applyEntries n))"
  by (simp add: applyEntries_effects [OF assms] applyEntries_node applied_upto_def unat_max upt_max
      del: upt_Suc)

lemma tick_leader:
  fixes now now' rnd n
  assumes "nodeState n = LEADER"
  defines "m \<equiv> (if elapsed_ms now (lastHeartbeat n) \<ge> 50 then n\<lparr>lastHeartbeat := now\<rparr> else n)"
  shows "fst (tick now now' rnd n) = fst (applyEntries (advanceCommitIndex m))"
    and "\<exists>sends. snd (tick now now' rnd n) = sends @ snd (applyEntries (advanceCommitIndex m))
      \<and> applied_indices sends = []"
  using assms(1) unfolding m_def by (simp_all add: tick_def Let_def case_prod_unfold)

lemma tick_lastApplied: "lastApplied n \<le> lastApplied (fst (tick now now' rnd n))"
  by (cases "nodeState n")
    (auto simp: tick_def Let_def case_prod_unfold node_simps applyEntries_node)

lemma tick_applied:
  assumes "node_ok n"
  shows "applied_indices (snd (tick now now' rnd n)) = applied_upto n (fst (tick now now' rnd n))"
proof (cases "nodeState n = LEADER")
  case True
  let ?m = "if elapsed_ms now (lastHeartbeat n) \<ge> 50 then n\<lparr>lastHeartbeat := now\<rparr> else n"
  have m: "node_ok ?m" "lastApplied ?m = lastApplied n" using assms by (auto simp: node_ok_def)
  from tick_leader [OF True] obtain sends where
    s: "snd (tick now now' rnd n) = sends @ snd (applyEntries (advanceCommitIndex ?m))"
    "applied_indices sends = []" by blast
  have "applied_indices (snd (applyEntries (advanceCommitIndex ?m)))
      = applied_upto (advanceCommitIndex ?m) (fst (applyEntries (advanceCommitIndex ?m)))"
    using advanceCommitIndex_in_log [OF m(1)]
    by (intro applyEntries_applied) (simp only: advanceCommitIndex_fields)
  then show ?thesis
    using s m(2) by (simp add: tick_leader(1) [OF True] applied_upto_def advanceCommitIndex_fields)
next
  case False
  then show ?thesis
    by (cases "nodeState n") (auto simp: tick_def Let_def case_prod_unfold node_simps)
qed

lemma ae_receive_applied [simp]: "applied_indices (snd (ae_receive req now now' rnd n)) = []"
  by (simp add: ae_receive_def Let_def case_prod_unfold)

lemma ae_store_applied:
  assumes ok: "node_ok n" and acc: "ae_accepts req n"
    and fits: "length (raftLog n) + length (ae_entries req) < 2 ^ 64"
  shows "applied_indices (snd (ae_store req n)) = applied_upto n (fst (ae_store req n))"
proof -
  let ?l = "append_loop (ae_prev_log_index req) (ae_entries req) (raftLog n)"
  let ?c = "if ae_leader_commit req > commitIndex n
      then min (ae_leader_commit req) (last_index ?l) else commitIndex n"
  let ?m = "n\<lparr>raftLog := ?l, commitIndex := ?c\<rparr>"
  have s: "snd (ae_store req n) = persist ?m @ snd (applyEntries ?m)"
      "fst (ae_store req n) = fst (applyEntries ?m)"
    by (simp_all add: ae_store_def Let_def case_prod_unfold getLastLogIndex_def)
  note l = accepted_log_ok [OF acc ok fits]
  have "unat (min (ae_leader_commit req) (last_index ?l)) < length ?l"
    using l by (auto simp: min_def unat_last_index le_last_index)
  then have "unat (commitIndex ?m) < length (raftLog ?m) \<or> commitIndex ?m \<le> lastApplied ?m"
    using ok by (simp add: node_ok_def)
  from applyEntries_applied [OF this] show ?thesis
    unfolding s by (simp add: applied_upto_def)
qed

lemma handleAppendEntries_applied:
  assumes ok: "node_ok n" and fits: "length (raftLog n) + length (ae_entries req) < 2 ^ 64"
  shows "applied_indices (snd (snd (handleAppendEntries req now now' rnd n)))
    = applied_upto n (fst (snd (handleAppendEntries req now now' rnd n)))"
proof -
  let ?m = "fst (ae_receive req now now' rnd n)"
  have m: "node_ok ?m" "applied_upto ?m x = applied_upto n x" for x
    using ok by (simp_all add: node_ok_def ae_receive_fields applied_upto_def)
  have "ae_accepts req n \<Longrightarrow> ae_accepts req ?m" by (simp add: ae_accepts_def ae_receive_fields)
  with ae_store_applied [OF m(1)] fits show ?thesis
    by (simp add: handleAppendEntries_cases Let_def case_prod_unfold m ae_receive_fields)
qed

lemma lastApplied_step:
  assumes "node_ok n" and "input_fits i n"
  shows "applied_indices (snd (node_step i n)) = applied_upto n (fst (node_step i n))"
proof (cases i)
  case (Tick now now' rnd)
  with tick_applied [OF assms(1)] show ?thesis by simp
next
  case (RecvAppendEntries req now now' rnd)
  with handleAppendEntries_applied assms show ?thesis by simp
next
  case (Propose c)
  then show ?thesis by (simp add: propose_def Let_def)
next
  case (RecvRequestVote req now now' rnd)
  then show ?thesis by (simp add: node_simps handleRequestVote_effs)
next
  case (RecvVoteResponse p t g now rnd)
  then show ?thesis by (simp add: node_simps) (simp add: processRequestVoteResponse_def Let_def)
next
  case (RecvAppendResponse p t s m)
  then show ?thesis by (simp add: node_simps) (simp add: processAppendEntriesResponse_def Let_def)
next
  case (ResetTimer now)
  then show ?thesis by (simp add: resetElectionTimer_def)
qed

lemma lastApplied_mono:
  "lastApplied n \<le> lastApplied (fst (node_step i n))"
  by (cases i) (simp_all add: node_simps tick_lastApplied resetElectionTimer_def)

lemma applied_upto_append:
  assumes "lastApplied a \<le> lastApplied b" and "lastApplied b \<le> lastApplied c"
  shows "applied_upto a b @ applied_upto b c = applied_upto a c"
proof -
  have "Suc (unat (lastApplied a)) \<le> Suc (unat (lastApplied b))" using assms(1) by (simp add: word_le_nat_alt)
  moreover have "Suc (unat (lastApplied b)) \<le> Suc (unat (lastApplied c))"
    using assms(2) by (simp add: word_le_nat_alt)
  ultimately have "[Suc (unat (lastApplied a))..<Suc (unat (lastApplied c))]
      = [Suc (unat (lastApplied a))..<Suc (unat (lastApplied b))]
        @ [Suc (unat (lastApplied b))..<Suc (unat (lastApplied c))]"
    by (metis le_Suc_ex upt_add_eq_append)
  then show ?thesis by (simp add: applied_upto_def del: upt_Suc)
qed

lemma lastApplied_run_mono: "lastApplied n \<le> lastApplied (fst (node_run is n))"
proof (induction "is" arbitrary: n)
  case (Cons i "is")
  from order_trans [OF lastApplied_mono this] show ?case by (simp add: Let_def case_prod_unfold)
qed simp

text \<open>
  C14. The state machine sees the log in order: whatever happens to a node, the indices passed to its
  apply callback are exactly those after the last applied one, in increasing order, with no gap and
  no repetition.
\<close>

theorem apply_order:
  assumes "node_ok n" and "run_fits is n"
  shows "applied_indices (snd (node_run is n)) =
    map word_of_nat [Suc (unat (lastApplied n)) ..< Suc (unat (lastApplied (fst (node_run is n))))]"
proof -
  have "applied_indices (snd (node_run is n)) = applied_upto n (fst (node_run is n))"
    using assms
  proof (induction "is" arbitrary: n)
    case (Cons i "is")
    let ?m = "fst (node_step i n)"
    from Cons have "applied_indices (snd (node_run is ?m)) = applied_upto ?m (fst (node_run is ?m))"
      using node_step_ok [of n i] by simp
    moreover have "applied_indices (snd (node_step i n)) = applied_upto n ?m"
      using Cons.prems by (intro lastApplied_step) simp_all
    ultimately show ?case
      by (simp add: Let_def case_prod_unfold applied_upto_append lastApplied_mono lastApplied_run_mono)
  qed simp
  then show ?thesis by (simp add: applied_upto_def)
qed

theorem apply_order_witness:
  "applied_indices (snd (node_run [RecvAppendEntries \<lparr>ae_term = 1, ae_leader_id = 2,
      ae_prev_log_index = 0, ae_prev_log_term = 0, ae_leader_commit = 2,
      ae_entries = [\<lparr>le_term = 1, le_index = 1, le_command = ''a''\<rparr>,
                    \<lparr>le_term = 1, le_index = 2, le_command = ''b''\<rparr>]\<rparr> 0 0 150] (new_node 1 [2, 3] 0 200)))
    = [1, 2]"
proof -
  let ?i = "RecvAppendEntries \<lparr>ae_term = 1, ae_leader_id = 2,
      ae_prev_log_index = 0, ae_prev_log_term = 0, ae_leader_commit = 2,
      ae_entries = [\<lparr>le_term = 1, le_index = 1, le_command = ''a''\<rparr>,
                    \<lparr>le_term = 1, le_index = 2, le_command = ''b''\<rparr>]\<rparr> 0 0 150"
  let ?n = "new_node 1 [2, 3] 0 200"
  have "run_fits [?i] ?n" by (simp add: new_node_def)
  from apply_order [OF new_node_ok this]
  have "applied_indices (snd (node_run [?i] ?n)) = map word_of_nat
      [Suc (unat (lastApplied ?n)) ..< Suc (unat (lastApplied (fst (node_run [?i] ?n))))]" .
  moreover have "lastApplied (fst (node_run [?i] ?n)) = 2"
    by (simp add: case_prod_unfold node_simps new_node_def ae_accepts_def getLastLogIndex_def
        last_index_def log_at_def sentinel_def Let_def)
  moreover have "lastApplied ?n = 0" by (simp add: new_node_def)
  ultimately show ?thesis by (simp add: upt_rec)
qed

end
