(* ===== verification/Raft_Message.thy ===== *)
theory Raft_Message
  imports Raft_Inv
begin

text \<open>
  The switch over the message type that \<open>RaftService::handleRaftMessage\<close> (requests arriving at the
  server) and \<open>RaftService::onPeerMessage\<close> (responses arriving on the connection to a peer) share:
  a request is answered on the way it came, a response is handed to the node. The first component
  of the result is the message that is sent back.
\<close>

definition vote_reply :: "request_vote_response \<Rightarrow> raft_message" where
  "vote_reply resp = empty_raft_message\<lparr>rf_type := REQUEST_VOTE_RESP,
     rf_request_vote_resp := Some resp\<rparr>"

definition append_reply :: "append_entries_response \<Rightarrow> raft_message" where
  "append_reply resp = empty_raft_message\<lparr>rf_type := APPEND_ENTRIES_RESP,
     rf_append_entries_resp := Some resp\<rparr>"

definition handleRaftMessage ::
  "raft_message \<Rightarrow> uint64 \<Rightarrow> int \<Rightarrow> int \<Rightarrow> int \<Rightarrow> raft_node
     \<Rightarrow> raft_message option \<times> raft_node \<times> raft_effect list" where
  "handleRaftMessage msg fromNode now now' rnd n =
     (case rf_type msg of
        REQUEST_VOTE \<Rightarrow>
          (let (resp, n, e) = handleRequestVote (request_vote_of msg) now now' rnd n
           in (Some (vote_reply resp), n, e))
      | REQUEST_VOTE_RESP \<Rightarrow>
          (let resp = request_vote_resp_of msg
           in (None, processRequestVoteResponse fromNode (rvr_term resp) (rvr_vote_granted resp)
                 now rnd n))
      | APPEND_ENTRIES \<Rightarrow>
          (let (resp, n, e) = handleAppendEntries (append_entries_of msg) now now' rnd n
           in (Some (append_reply resp), n, e))
      | APPEND_ENTRIES_RESP \<Rightarrow>
          (let resp = append_entries_resp_of msg
           in (None, processAppendEntriesResponse fromNode (aer_term resp) (aer_success resp)
                 (aer_match_index resp) n))
      | _ \<Rightarrow> (None, n, []))"

text \<open>The event a message is for the node that receives it; unknown types are ignored.\<close>

definition message_input ::
  "raft_message \<Rightarrow> uint64 \<Rightarrow> int \<Rightarrow> int \<Rightarrow> int \<Rightarrow> raft_input option" where
  "message_input msg fromNode now now' rnd =
     (case rf_type msg of
        REQUEST_VOTE \<Rightarrow> Some (RecvRequestVote (request_vote_of msg) now now' rnd)
      | REQUEST_VOTE_RESP \<Rightarrow> Some (RecvVoteResponse fromNode (rvr_term (request_vote_resp_of msg))
          (rvr_vote_granted (request_vote_resp_of msg)) now rnd)
      | APPEND_ENTRIES \<Rightarrow> Some (RecvAppendEntries (append_entries_of msg) now now' rnd)
      | APPEND_ENTRIES_RESP \<Rightarrow> Some (RecvAppendResponse fromNode
          (aer_term (append_entries_resp_of msg)) (aer_success (append_entries_resp_of msg))
          (aer_match_index (append_entries_resp_of msg)))
      | _ \<Rightarrow> None)"

lemma handleRaftMessage_step:
  "snd (handleRaftMessage msg p now now' rnd n) =
     (case message_input msg p now now' rnd of None \<Rightarrow> (n, []) | Some i \<Rightarrow> node_step i n)"
  by (simp add: handleRaftMessage_def message_input_def Let_def case_prod_unfold split: raft_type.split)

lemma handleRaftMessage_reply:
  "fst (handleRaftMessage msg p now now' rnd n) =
     (case rf_type msg of
        REQUEST_VOTE \<Rightarrow> Some (vote_reply (fst (handleRequestVote (request_vote_of msg) now now' rnd n)))
      | APPEND_ENTRIES \<Rightarrow>
          Some (append_reply (fst (handleAppendEntries (append_entries_of msg) now now' rnd n)))
      | _ \<Rightarrow> None)"
  by (simp add: handleRaftMessage_def Let_def case_prod_unfold split: raft_type.split)

lemma reply_fields [simp]:
  "rf_type (vote_reply r) = REQUEST_VOTE_RESP" "request_vote_resp_of (vote_reply r) = r"
  "rf_type (append_reply a) = APPEND_ENTRIES_RESP" "append_entries_resp_of (append_reply a) = a"
  by (simp_all add: vote_reply_def append_reply_def)

end
