(* ===== verification/Raft_Cluster.thy ===== *)
theory Raft_Cluster
  imports Raft_Message
begin

text \<open>
  A cluster of Raft nodes that exchange messages over TCP connections: a message is delivered at
  most once, may be overtaken by others, and is lost when a connection breaks. A node may stop and
  start again; it then knows the term and the vote it persisted, while nothing is assumed about the
  log it recovers and the order in which it lists its peers. A node that stops in the middle of an event
  may have persisted a later term, with any vote, and have sent nothing of it (\<open>Torn\<close>). The state keeps three history variables that no node reads: the ballots cast,
  the ballots counted by their candidate, and the leaders elected so far.
\<close>

record cluster =
  cl_nodes :: "uint64 \<Rightarrow> raft_node"
  cl_net :: "(uint64 \<times> uint64 \<times> raft_message) list"
  cl_ballots :: "(uint64 \<times> uint64 \<times> uint64) set"
  cl_counted :: "(uint64 \<times> uint64 \<times> uint64) set"
  cl_elected :: "(uint64 \<times> uint64) set"

datatype cluster_event =
    Local uint64 raft_input
  | Deliver nat int int int
  | Lose nat
  | Restart uint64 "uint64 list" "log_entry list" int int
  | Torn uint64 uint64 uint64

definition outbox :: "uint64 \<Rightarrow> raft_effect list \<Rightarrow> (uint64 \<times> uint64 \<times> raft_message) list" where
  "outbox src effs = concat (map (\<lambda>e. case e of Send p m \<Rightarrow> [(src, p, m)] | _ \<Rightarrow> []) effs)"

definition remove_nth :: "nat \<Rightarrow> 'a list \<Rightarrow> 'a list" where
  "remove_nth k xs = take k xs @ drop (Suc k) xs"

definition set_node :: "uint64 \<Rightarrow> raft_node \<Rightarrow> cluster \<Rightarrow> cluster" where
  "set_node i n cl = cl\<lparr>cl_nodes := (cl_nodes cl)(i := n),
     cl_ballots := cl_ballots cl \<union> (if votedFor n = 0 then {} else {(i, currentTerm n, votedFor n)}),
     cl_elected := cl_elected cl \<union> (if nodeState n = LEADER then {(currentTerm n, i)} else {})\<rparr>"

definition count_vote :: "uint64 \<Rightarrow> uint64 \<Rightarrow> raft_message \<Rightarrow> cluster \<Rightarrow> cluster" where
  "count_vote s d m cl =
     (if rf_type m = REQUEST_VOTE_RESP \<and> rvr_vote_granted (request_vote_resp_of m)
         \<and> rvr_term (request_vote_resp_of m) = currentTerm (cl_nodes cl d)
         \<and> nodeState (cl_nodes cl d) = CANDIDATE
      then cl\<lparr>cl_counted := insert (d, currentTerm (cl_nodes cl d), s) (cl_counted cl)\<rparr>
      else cl)"

fun is_local :: "raft_input \<Rightarrow> bool" where
  "is_local (Tick now now' rnd) = True"
| "is_local (Propose c) = True"
| "is_local (ResetTimer now) = True"
| "is_local _ = False"

text \<open>The peers of a member, in the order in which its table of addresses lists them.\<close>

definition peers_ok :: "uint64 list \<Rightarrow> uint64 \<Rightarrow> uint64 list \<Rightarrow> bool" where
  "peers_ok ids i ps \<longleftrightarrow> distinct ps \<and> set ps = set ids - {i}"

lemma peers_ok_filter: "distinct ids \<Longrightarrow> peers_ok ids i (filter (\<lambda>j. j \<noteq> i) ids)"
  by (auto simp: peers_ok_def)

fun cluster_step :: "uint64 list \<Rightarrow> cluster_event \<Rightarrow> cluster \<Rightarrow> cluster option" where
  "cluster_step ids (Local i inp) cl =
     (if i \<in> set ids \<and> is_local inp \<and> term_fits inp (cl_nodes cl i)
      then let (n, effs) = node_step inp (cl_nodes cl i)
           in Some ((set_node i n cl)\<lparr>cl_net := cl_net cl @ outbox i effs\<rparr>)
      else None)"
| "cluster_step ids (Deliver k now now' rnd) cl =
     (if k < length (cl_net cl)
      then let (s, d, m) = cl_net cl ! k;
               (reply, n, effs) = handleRaftMessage m s now now' rnd (cl_nodes cl d);
               replies = (case reply of None \<Rightarrow> [] | Some r \<Rightarrow> [(d, s, r)])
           in Some ((set_node d n (count_vote s d m cl))\<lparr>cl_net :=
                remove_nth k (cl_net cl) @ outbox d effs @ replies\<rparr>)
      else None)"
| "cluster_step ids (Lose k) cl = Some (cl\<lparr>cl_net := remove_nth k (cl_net cl)\<rparr>)"
| "cluster_step ids (Restart i ps l now rnd) cl =
     (if i \<in> set ids \<and> peers_ok ids i ps
      then let n = cl_nodes cl i
           in Some (set_node i (loadPersistedState (currentTerm n) (votedFor n) l
                (new_node (nodeId n) ps now rnd)) cl)
      else None)"
| "cluster_step ids (Torn i t v) cl =
     (if i \<in> set ids \<and> currentTerm (cl_nodes cl i) < t
      then let n = cl_nodes cl i
           in Some (set_node i (loadPersistedState t v [] (new_node (nodeId n) (peerIds n) 0 0)) cl)
      else None)"

definition init_cluster :: "uint64 list \<Rightarrow> (uint64 \<Rightarrow> int) \<Rightarrow> cluster" where
  "init_cluster ids rnds = \<lparr>cl_nodes = (\<lambda>i. new_node i (filter (\<lambda>j. j \<noteq> i) ids) 0 (rnds i)),
     cl_net = [], cl_ballots = {}, cl_counted = {}, cl_elected = {}\<rparr>"

inductive cluster_reach :: "uint64 list \<Rightarrow> cluster \<Rightarrow> cluster \<Rightarrow> bool" for ids where
  refl: "cluster_reach ids cl cl"
| step: "cluster_reach ids cl cl' \<Longrightarrow> cluster_step ids e cl' = Some cl'' \<Longrightarrow> cluster_reach ids cl cl''"

fun cluster_run :: "uint64 list \<Rightarrow> cluster_event list \<Rightarrow> cluster \<Rightarrow> cluster option" where
  "cluster_run ids [] cl = Some cl"
| "cluster_run ids (e # es) cl =
     (case cluster_step ids e cl of None \<Rightarrow> None | Some cl' \<Rightarrow> cluster_run ids es cl')"

lemma cluster_reach_trans:
  assumes "cluster_reach ids a b" and "cluster_reach ids b c"
  shows "cluster_reach ids a c"
  using assms(2,1) by induction (auto intro: cluster_reach.step)

lemma cluster_run_reach: "cluster_run ids es cl = Some cl' \<Longrightarrow> cluster_reach ids cl cl'"
proof (induction es arbitrary: cl)
  case (Cons e es)
  then obtain m where "cluster_step ids e cl = Some m" "cluster_run ids es m = Some cl'"
    by (auto split: option.splits)
  with Cons.IH show ?case by (meson cluster_reach.intros cluster_reach_trans)
qed (simp add: cluster_reach.refl)

subsection \<open>Vote traffic\<close>

text \<open>The messages that carry a vote of \<open>v\<close> for candidate \<open>c\<close> in term \<open>t\<close>: the request or the grant.\<close>

definition vote_msg :: "uint64 \<Rightarrow> uint64 \<Rightarrow> uint64 \<Rightarrow> uint64 \<times> uint64 \<times> raft_message \<Rightarrow> bool" where
  "vote_msg c t v x = (case x of (s, d, m) \<Rightarrow>
     (s = c \<and> d = v \<and> rf_type m = REQUEST_VOTE \<and> rv_term (request_vote_of m) = t) \<or>
     (s = v \<and> d = c \<and> rf_type m = REQUEST_VOTE_RESP \<and> rvr_vote_granted (request_vote_resp_of m)
        \<and> rvr_term (request_vote_resp_of m) = t))"

definition outstanding :: "cluster \<Rightarrow> uint64 \<Rightarrow> uint64 \<Rightarrow> uint64 \<Rightarrow> nat" where
  "outstanding cl c t v = length (filter (vote_msg c t v) (cl_net cl))
     + (if (c, t, v) \<in> cl_counted cl then 1 else 0)"

definition append_traffic :: "(uint64 \<times> uint64 \<times> raft_message) list \<Rightarrow> bool" where
  "append_traffic xs = list_all (\<lambda>(s, d, m). rf_type m = APPEND_ENTRIES) xs"

lemma outbox_simps [simp]:
  "outbox s [] = []" "outbox s (es @ fs) = outbox s es @ outbox s fs"
  "outbox s (persist n) = []"
  "outbox s (map (\<lambda>p. Send p (f p)) ps) = map (\<lambda>p. (s, p, f p)) ps"
  "outbox s [Apply i c] = []" "outbox s [OutOfRange i] = []"
  by (simp_all add: outbox_def persist_def comp_def)

lemma outbox_sendAppendEntries [simp]:
  "outbox s (sendAppendEntries b n) = map (\<lambda>p. (s, p, append_entries_msg n b p)) (peerIds n)"
  by (simp add: sendAppendEntries_def)

lemma append_msg_type [simp]: "rf_type (append_entries_msg n b p) = APPEND_ENTRIES"
  by (simp add: append_entries_msg_def Let_def)

lemma outbox_applyEntries [simp]: "outbox s (snd (applyEntries n)) = []"
proof (induction n rule: applyEntries.induct)
  case (1 n)
  then show ?case by (subst applyEntries.simps) (simp add: Let_def case_prod_unfold)
qed

lemma outbox_transitions [simp]:
  "outbox s (snd (becomeFollower t now rnd n)) = []"
  "outbox s (snd (becomeLeader now n)) =
     map (\<lambda>p. (s, p, append_entries_msg (fst (becomeLeader now n)) True p)) (peerIds n)"
  by (simp_all add: becomeFollower_def becomeLeader_def Let_def)

definition vote_request_of_node :: "raft_node \<Rightarrow> raft_message" where
  "vote_request_of_node n = empty_raft_message\<lparr>rf_type := REQUEST_VOTE, rf_request_vote := Some
     \<lparr>rv_term = currentTerm n + 1, rv_candidate_id = nodeId n,
      rv_last_log_index = getLastLogIndex n, rv_last_log_term = getLastLogTerm n\<rparr>\<rparr>"

lemma outbox_becomeCandidate [simp]:
  "outbox s (snd (becomeCandidate now rnd n)) = map (\<lambda>p. (s, p, vote_request_of_node n)) (peerIds n)"
  by (simp add: becomeCandidate_def startElection_def Let_def vote_request_of_node_def
      getLastLogIndex_def getLastLogTerm_def)

lemma outbox_tick:
  "if election_due now n
   then outbox s (snd (tick now now' rnd n)) = map (\<lambda>p. (s, p, vote_request_of_node n)) (peerIds n)
   else append_traffic (outbox s (snd (tick now now' rnd n)))
     \<and> (\<forall>x \<in> set (outbox s (snd (tick now now' rnd n))). fst x = s \<and> fst (snd x) \<in> set (peerIds n))"
  by (cases "nodeState n")
    (auto simp: tick_def election_due_def Let_def case_prod_unfold node_simps append_traffic_def list_all_iff)

lemma outbox_message:
  "append_traffic (outbox s (snd (snd (handleRaftMessage m p now now' rnd n))))
   \<and> (\<forall>x \<in> set (outbox s (snd (snd (handleRaftMessage m p now now' rnd n)))).
        fst x = s \<and> fst (snd x) \<in> set (peerIds n))"
  by (simp add: handleRaftMessage_def Let_def case_prod_unfold append_traffic_def
      processRequestVoteResponse_def processAppendEntriesResponse_def handleRequestVote_effs
      handleAppendEntries_cases ae_receive_def ae_store_def list_all_iff split: raft_type.split)

lemma append_traffic_votes: "append_traffic xs \<Longrightarrow> filter (vote_msg c t v) xs = []"
  by (auto simp: append_traffic_def vote_msg_def filter_empty_conv list_all_iff)

end
