(* ===== verification/Raft_Rules.thy ===== *)
theory Raft_Rules
  imports Raft_Inv
begin

text \<open>
  The rules of the Raft protocol that a node follows on its own: what an accepted \<open>AppendEntries\<close>
  does to its log and what a repeated one does, which index a leader commits, and who can become a
  leader at all.
\<close>

subsection \<open>The receiver of AppendEntries\<close>

definition log_after :: "append_entries_request \<Rightarrow> int \<Rightarrow> int \<Rightarrow> int \<Rightarrow> raft_node \<Rightarrow> log_entry list" where
  "log_after req now now' rnd n = raftLog (fst (snd (handleAppendEntries req now now' rnd n)))"

lemma log_after_raft_append:
  assumes "node_ok n" and "length (raftLog n) + length (ae_entries req) < 2 ^ 64"
  shows "log_after req now now' rnd n = (if ae_accepts req n
    then raft_append (unat (ae_prev_log_index req)) (ae_entries req) (raftLog n) else raftLog n)"
  using accepted_log assms by (simp add: log_after_def handleAppendEntries_log)

lemma match_count_next:
  "match_count p es l < length es \<Longrightarrow> Suc p + match_count p es l < length l \<Longrightarrow>
     le_term (l ! (Suc p + match_count p es l)) \<noteq> le_term (es ! match_count p es l)"
proof (induction p es l rule: match_count.induct)
  case (2 p e es l)
  then show ?case by (cases "Suc p < length l \<and> le_term (l ! Suc p) = le_term e") auto
qed simp

text \<open>
  C8. The receiver rule of Raft. \<open>handleAppendEntries\<close> succeeds exactly when the request is not stale
  and the log has an entry at \<open>prev_log_index\<close>, with the term of the request unless it is the first
  one. A refused request leaves the log alone. So does an accepted one whose entries the log already
  holds, index by index with the same terms, whatever follows them. Otherwise, with the first entry of
  the request that the log lacks or holds with another term, the log is kept up to the index before
  it, cut there, and continued with exactly the rest of the entries of the request.
\<close>

theorem append_entries_receiver:
  fixes req now now' rnd n
  assumes ok: "node_ok n" and fits: "length (raftLog n) + length (ae_entries req) < 2 ^ 64"
  defines "p \<equiv> unat (ae_prev_log_index req)" and "es \<equiv> ae_entries req" and "l \<equiv> raftLog n"
    and "l' \<equiv> raftLog (fst (snd (handleAppendEntries req now now' rnd n)))"
    and "holds i \<equiv> Suc (unat (ae_prev_log_index req)) + i < length (raftLog n)
      \<and> le_term (raftLog n ! (Suc (unat (ae_prev_log_index req)) + i)) = le_term (ae_entries req ! i)"
  shows "(aer_success (fst (handleAppendEntries req now now' rnd n)) \<longleftrightarrow>
      currentTerm n \<le> ae_term req \<and> p < length l \<and> (p = 0 \<or> le_term (l ! p) = ae_prev_log_term req))
    \<and> (if aer_success (fst (handleAppendEntries req now now' rnd n)) \<and> (\<exists>i < length es. \<not> holds i)
       then \<exists>k < length es. (\<forall>i < k. holds i) \<and> \<not> holds k \<and> l' = take (Suc p + k) l @ drop k es
       else l' = l)"
proof -
  let ?k = "match_count p es l"
  have acc: "ae_accepts req n \<longleftrightarrow>
      currentTerm n \<le> ae_term req \<and> p < length l \<and> (p = 0 \<or> le_term (l ! p) = ae_prev_log_term req)"
    using ok by (auto simp: ae_accepts_def p_def l_def getLogEntry_def log_at_def getLastLogIndex_def
        node_ok_def le_last_index word_less_nat_alt)
  have "if ae_accepts req n \<and> (\<exists>i < length es. \<not> holds i)
       then \<exists>k < length es. (\<forall>i < k. holds i) \<and> \<not> holds k \<and> l' = take (Suc p + k) l @ drop k es else l' = l"
  proof (cases "ae_accepts req n")
    case True
    have p: "p < length l" using True acc by simp
    have l': "l' = raft_append p es l"
      using log_after_raft_append [OF ok fits] True by (simp add: l'_def log_after_def p_def es_def l_def)
    have holds: "holds i \<longleftrightarrow> Suc p + i < length l \<and> le_term (l ! (Suc p + i)) = le_term (es ! i)" for i
      by (simp add: holds_def p_def l_def es_def)
    have below: "holds i" if "i < ?k" for i
      using that match_count_bound [OF p, of es] match_count_terms [OF that] by (simp add: holds)
    show ?thesis
    proof (cases "?k = length es")
      case all: True
      then show ?thesis using below by (auto simp: l' raft_append_def)
    next
      case False
      then have k: "?k < length es" using match_count_le [of p es l] by simp
      with match_count_next [OF k] have "\<not> holds ?k" by (auto simp: holds)
      with k below False True show ?thesis by (auto simp: l' raft_append_def Let_def)
    qed
  qed (simp add: l'_def l_def handleAppendEntries_log)
  then show ?thesis using acc by (simp add: handleAppendEntries_response)
qed

lemma same_prev_accepts:
  fixes req now now' rnd n
  assumes ok: "node_ok n" and fits: "length (raftLog n) + length (ae_entries req) < 2 ^ 64"
    and acc: "ae_accepts req n"
  defines "m \<equiv> fst (snd (handleAppendEntries req now now' rnd n))"
  shows "ae_accepts req m"
proof -
  let ?p = "unat (ae_prev_log_index req)"
  have p: "?p < length (raftLog n)" by (rule accepted_prev [OF acc ok])
  have l: "raftLog m = raft_append ?p (ae_entries req) (raftLog n)"
    using log_after_raft_append [OF ok fits] acc by (simp add: m_def log_after_def)
  have "node_ok m" unfolding m_def by (rule handleAppendEntries_ok [OF ok fits])
  moreover have "?p < length (raftLog m)" using length_raft_append [OF p] unfolding l
    by (metis Suc_le_lessD add_leD1)
  moreover have "raftLog m ! ?p = raftLog n ! ?p"
    using raft_append_prefix [OF p] unfolding l by (metis lessI nth_take)
  moreover have "currentTerm m = ae_term req"
    using acc by (auto simp: m_def handleAppendEntries_fields ae_accepts_def max_def)
  ultimately show ?thesis
    using acc p by (auto simp: ae_accepts_def getLogEntry_def log_at_def getLastLogIndex_def
        node_ok_def le_last_index)
qed

text \<open>
  A repeated \<open>AppendEntries\<close> is harmless: delivering an accepted request a second time is
  accepted again and changes neither the log, nor the term, nor the commit and apply positions.
\<close>

theorem append_entries_idempotent:
  fixes req now now' rnd n
  assumes ok: "node_ok n"
    and fits: "length (raftLog n) + 2 * length (ae_entries req) < 2 ^ 64"
    and acc: "aer_success (fst (handleAppendEntries req now now' rnd n))"
  defines "m \<equiv> fst (snd (handleAppendEntries req now now' rnd n))"
  shows "aer_success (fst (handleAppendEntries req t t' r m))
      \<and> raftLog (fst (snd (handleAppendEntries req t t' r m))) = raftLog m
      \<and> currentTerm (fst (snd (handleAppendEntries req t t' r m))) = currentTerm m
      \<and> commitIndex (fst (snd (handleAppendEntries req t t' r m))) = commitIndex m
      \<and> lastApplied (fst (snd (handleAppendEntries req t t' r m))) = lastApplied m"
proof -
  have fits1: "length (raftLog n) + length (ae_entries req) < 2 ^ 64" using fits by simp
  have acc': "ae_accepts req n" using acc by (simp add: handleAppendEntries_response)
  have m_acc: "ae_accepts req m" unfolding m_def by (rule same_prev_accepts [OF ok fits1 acc'])
  have m_ok: "node_ok m" unfolding m_def by (rule handleAppendEntries_ok [OF ok fits1])
  have p: "unat (ae_prev_log_index req) < length (raftLog n)" by (rule accepted_prev [OF acc' ok])
  have l: "raftLog m = raft_append (unat (ae_prev_log_index req)) (ae_entries req) (raftLog n)"
    using log_after_raft_append [OF ok fits1] acc' by (simp add: m_def log_after_def)
  have "length (raftLog m) \<le> length (raftLog n) + length (ae_entries req)"
    unfolding l by (rule length_raft_append_le)
  then have fits2: "length (raftLog m) + length (ae_entries req) < 2 ^ 64" using fits by simp
  have suc: "aer_success (fst (handleAppendEntries req t t' r m))"
    by (simp add: handleAppendEntries_response m_acc)
  have same: "raftLog (fst (snd (handleAppendEntries req t t' r m))) = raftLog m"
    using log_after_raft_append [OF m_ok fits2] m_acc raft_append_idem [OF p]
    by (simp add: log_after_def l)
  have c: "\<not> ae_leader_commit req > commitIndex m \<or>
      min (ae_leader_commit req) (last_index (raftLog m)) = commitIndex m"
    using acc' by (auto simp: m_def handleAppendEntries_commit min_def split: if_splits)
  then have cm: "commitIndex (fst (snd (handleAppendEntries req t t' r m))) = commitIndex m"
    using m_acc same by (auto simp: handleAppendEntries_commit)
  moreover have "lastApplied (fst (snd (handleAppendEntries req t t' r m))) = lastApplied m"
    using m_acc cm m_ok by (auto simp: handleAppendEntries_commit(2) node_ok_def max_def)
  moreover have "currentTerm (fst (snd (handleAppendEntries req t t' r m))) = currentTerm m"
    using m_acc by (simp add: handleAppendEntries_fields ae_accepts_def max_def m_def)
  ultimately show ?thesis
    using same suc by blast
qed

definition sample_follower :: raft_node where
  "sample_follower = (new_node 1 [2, 3] 0 200)\<lparr>currentTerm := 2, raftLog := [sentinel,
     \<lparr>le_term = 1, le_index = 1, le_command = ''a''\<rparr>, \<lparr>le_term = 1, le_index = 2, le_command = ''x''\<rparr>]\<rparr>"

definition sample_append :: append_entries_request where
  "sample_append = \<lparr>ae_term = 2, ae_leader_id = 2, ae_prev_log_index = 1, ae_prev_log_term = 1,
     ae_leader_commit = 2, ae_entries = [\<lparr>le_term = 2, le_index = 2, le_command = ''b''\<rparr>]\<rparr>"

lemma sample_ok:
  "node_ok sample_follower"
  "length (raftLog sample_follower) + 2 * length (ae_entries sample_append) < 2 ^ 64"
  "ae_accepts sample_append sample_follower"
  by (simp_all add: node_ok_def sample_follower_def sample_append_def new_node_def ae_accepts_def
      getLastLogIndex_def last_index_def getLogEntry_def log_at_def)

text \<open>A conflicting entry is replaced; a request without entries cuts nothing.\<close>

theorem append_entries_receiver_witness:
  "raftLog (fst (snd (handleAppendEntries sample_append 0 0 150 sample_follower)))
     = take 2 (raftLog sample_follower) @ ae_entries sample_append
   \<and> raftLog (fst (snd (handleAppendEntries (sample_append\<lparr>ae_entries := []\<rparr>) 0 0 150 sample_follower)))
     = raftLog sample_follower"
proof -
  have fits: "length (raftLog sample_follower) + length (ae_entries sample_append) < 2 ^ 64"
    "length (raftLog sample_follower) + length (ae_entries (sample_append\<lparr>ae_entries := []\<rparr>)) < 2 ^ 64"
    using sample_ok(2) by simp_all
  have es: "length (ae_entries sample_append) = 1" "unat (ae_prev_log_index sample_append) = 1"
    "le_term (raftLog sample_follower ! 2) \<noteq> le_term (ae_entries sample_append ! 0)"
    by (simp_all add: sample_append_def sample_follower_def)
  show ?thesis
    using append_entries_receiver [OF sample_ok(1) fits(1), of 0 0 150]
      append_entries_receiver [OF sample_ok(1) fits(2), of 0 0 150] es
    by (simp add: handleAppendEntries_response sample_ok(3) numeral_2_eq_2)
qed

theorem append_entries_idempotent_witness:
  "aer_success (fst (handleAppendEntries sample_append 5 5 150
     (fst (snd (handleAppendEntries sample_append 0 0 150 sample_follower)))))"
  using append_entries_idempotent [OF sample_ok(1,2), of 0 0 150 5 5 150]
  by (simp add: handleAppendEntries_response sample_ok(3))

subsection \<open>The commit rule of the leader\<close>

lemma int_of_size_half: "k < 2 ^ 31 \<Longrightarrow> int_of_size k sdiv 2 = int k div 2"
proof -
  assume k: "k < 2 ^ 31"
  then have "sint (word_of_nat k :: 32 word) = int k"
    by (simp add: sint_uint uint_nat unat_of_nat signed_take_bit_int_eq_self_iff
        signed_take_bit_int_eq_self)
  then show ?thesis by (cases "k = 0") (simp_all add: int_of_size_def signed_divide_int_def)
qed

definition replicated_on_majority :: "raft_node \<Rightarrow> nat \<Rightarrow> bool" where
  "replicated_on_majority n k \<longleftrightarrow>
     2 * (1 + length (filter (\<lambda>pid. k \<le> unat (matchIndex n pid)) (peerIds n))) > length (peerIds n) + 1"

lemma replica_count_majority:
  assumes "length (peerIds n) + 1 < 2 ^ 31" and "k < 2 ^ 64"
  shows "replica_count n k > int_of_size (length (peerIds n) + 1) sdiv 2 \<longleftrightarrow> replicated_on_majority n k"
  using assms
  by (simp add: int_of_size_half replica_count_def replicated_on_majority_def of_nat64_le_word
      del: of_nat_add) linarith

text \<open>
  C13. A leader commits by majority and only in its own term: \<open>advanceCommitIndex\<close> either leaves the
  commit index alone or raises it to an index of the log whose entry is of the current term and
  which a strict majority of the cluster, the leader included, is recorded to hold; and it takes
  the largest such index.
\<close>

theorem commit_rule:
  assumes ok: "node_ok n" and peers: "length (peerIds n) + 1 < 2 ^ 31" and leader: "nodeState n = LEADER"
  defines "c \<equiv> commitIndex n" and "c' \<equiv> commitIndex (advanceCommitIndex n)"
  shows "(c' = c \<or> c < c' \<and> unat c' < length (raftLog n)
        \<and> le_term (raftLog n ! unat c') = currentTerm n \<and> replicated_on_majority n (unat c'))
    \<and> (\<forall>j < length (raftLog n). unat c' < j \<and> le_term (raftLog n ! j) = currentTerm n
         \<longrightarrow> \<not> replicated_on_majority n j)"
proof -
  let ?k = "length (raftLog n) - 1"
  have k: "unat (getLastLogIndex n) = ?k" "?k < 2 ^ 64" and ne: "0 < length (raftLog n)"
    using ok by (auto simp: node_ok_def getLastLogIndex_def unat_last_index)
  have le: "j \<le> ?k" "j < 2 ^ 64" if "j < length (raftLog n)" for j using that ok by (auto simp: node_ok_def)
  show ?thesis
  proof (cases "commit_search n ?k")
    case None
    then have c': "c' = c" using leader k by (simp add: advanceCommitIndex_def c_def c'_def)
    have "\<not> replicated_on_majority n j"
      if "j < length (raftLog n)" "unat c' < j" "le_term (raftLog n ! j) = currentTerm n" for j
      using commit_search_maximal [of n ?k 0 j] None le [OF that(1)] k(2) that c'
        replica_count_majority [OF peers, of j] by (simp add: c_def)
    with c' show ?thesis by blast
  next
    case (Some d)
    then have c': "c' = d" using leader k by (simp add: advanceCommitIndex_def c'_def)
    from commit_search_Some [OF Some k(2)] obtain i where i: "i \<le> ?k" "d = word_of_nat i"
      "c < d" "le_term (raftLog n ! i) = currentTerm n"
      "replica_count n i > int_of_size (length (peerIds n) + 1) sdiv 2" unfolding c_def by blast
    have i64: "i < 2 ^ 64" "i < length (raftLog n)" using i(1) k(2) ne by linarith+
    have ud: "unat d = i" using i(2) i64 by (simp add: unat_word_of_nat64)
    have "\<not> replicated_on_majority n j"
      if j: "j < length (raftLog n)" "unat c' < j" "le_term (raftLog n ! j) = currentTerm n" for j
    proof -
      have "unat (commitIndex n) < j" using i(3) j(2) c' by (simp add: c_def word_less_nat_alt)
      then show ?thesis
        using commit_search_maximal [of n ?k i j] Some i(2) le [OF j(1)] k(2) j c' ud
          replica_count_majority [OF peers, of j] by simp
    qed
    moreover have "replicated_on_majority n i"
      using i(5) replica_count_majority [OF peers i64(1)] by simp
    ultimately show ?thesis using i(3,4) i64(2) c' ud by simp
  qed
qed

definition sample_leader :: raft_node where
  "sample_leader = sample_follower\<lparr>nodeState := LEADER, currentTerm := 1,
     matchIndex := (\<lambda>p. if p = 2 then 1 else 0)\<rparr>"

theorem commit_rule_witness:
  "commitIndex (advanceCommitIndex sample_leader) = 1 \<and> replicated_on_majority sample_leader 1"
proof -
  let ?n = "sample_leader"
  have ok: "node_ok ?n" using sample_ok(1) by (simp add: sample_leader_def node_ok_def)
  have peers: "length (peerIds ?n) + 1 < 2 ^ 31" and leader: "nodeState ?n = LEADER"
    and c: "commitIndex ?n = 0" by (simp_all add: sample_leader_def sample_follower_def new_node_def)
  from commit_rule [OF ok peers leader] c have r: "commitIndex (advanceCommitIndex ?n) = 0 \<or>
      replicated_on_majority ?n (unat (commitIndex (advanceCommitIndex ?n)))" by metis
  have "commitIndex (advanceCommitIndex ?n) = 1"
    by code_simp
  with r show ?thesis by simp
qed

subsection \<open>Elections\<close>

fun is_vote_response :: "raft_input \<Rightarrow> bool" where
  "is_vote_response (RecvVoteResponse p t g now rnd) = True"
| "is_vote_response _ = False"

text \<open>
  A node wins an election only through a response: votes are counted nowhere but in
  \<open>processRequestVoteResponse\<close>, so a cluster of one node, which sends no request and receives no
  response, never has a leader and refuses every proposal.
\<close>

theorem no_leader_without_response:
  assumes "nodeState n \<noteq> LEADER" and "list_all (\<lambda>i. \<not> is_vote_response i) is"
  shows "nodeState (fst (node_run is n)) \<noteq> LEADER \<and> \<not> fst (propose c (fst (node_run is n)))"
proof -
  have step: "nodeState (fst (node_step i n)) \<noteq> LEADER"
    if "nodeState n \<noteq> LEADER" "\<not> is_vote_response i" for i n
    using that by (cases i) (simp_all add: node_simps resetElectionTimer_def)
  have "nodeState (fst (node_run is n)) \<noteq> LEADER" using assms
    by (induction "is" arbitrary: n) (simp_all add: Let_def case_prod_unfold step)
  then show ?thesis by (simp add: propose_fields)
qed

theorem no_leader_without_response_witness:
  "nodeState (fst (node_run [Tick 400000000 400000000 150, Tick 900000000 900000000 200]
     (new_node 1 [] 0 200))) \<noteq> LEADER"
  using no_leader_without_response [of "new_node 1 [] 0 200"
      "[Tick 400000000 400000000 150, Tick 900000000 900000000 200]"]
  by (simp add: new_node_def)

end
