(* ===== verification/Election.thy ===== *)
theory Election
  imports Raft_Cluster Raft_Rules
begin

text \<open>
  Election safety: over the whole life of a cluster, at most one node is leader in a term. The
  invariant ties the vote counts of the candidates to the ballots the voters have cast, through the
  requests and grants that are under way.
\<close>

subsection \<open>The invariant\<close>

definition config_ok :: "uint64 list \<Rightarrow> cluster \<Rightarrow> bool" where
  "config_ok ids cl \<longleftrightarrow> (\<forall>i \<in> set ids. nodeId (cl_nodes cl i) = i
     \<and> peers_ok ids i (peerIds (cl_nodes cl i)))"

definition ballots_ok :: "uint64 list \<Rightarrow> cluster \<Rightarrow> bool" where
  "ballots_ok ids cl \<longleftrightarrow>
     (\<forall>i t c. (i, t, c) \<in> cl_ballots cl \<longrightarrow> c \<noteq> 0 \<and> t \<le> currentTerm (cl_nodes cl i)
        \<and> (t = currentTerm (cl_nodes cl i) \<longrightarrow> votedFor (cl_nodes cl i) = c))
     \<and> (\<forall>i t c c'. (i, t, c) \<in> cl_ballots cl \<longrightarrow> (i, t, c') \<in> cl_ballots cl \<longrightarrow> c = c')
     \<and> (\<forall>i \<in> set ids. votedFor (cl_nodes cl i) \<noteq> 0 \<longrightarrow>
          (i, currentTerm (cl_nodes cl i), votedFor (cl_nodes cl i)) \<in> cl_ballots cl)"

definition counted_ok :: "uint64 list \<Rightarrow> cluster \<Rightarrow> bool" where
  "counted_ok ids cl \<longleftrightarrow> (\<forall>c t v. (c, t, v) \<in> cl_counted cl \<longrightarrow>
     (v, t, c) \<in> cl_ballots cl \<and> v \<in> set ids \<and> v \<noteq> c \<and> t \<le> currentTerm (cl_nodes cl c))"

definition msg_ok :: "uint64 list \<Rightarrow> cluster \<Rightarrow> uint64 \<times> uint64 \<times> raft_message \<Rightarrow> bool" where
  "msg_ok ids cl x = (case x of (s, d, m) \<Rightarrow> s \<in> set ids \<and> d \<in> set ids \<and> s \<noteq> d
     \<and> (rf_type m = REQUEST_VOTE \<longrightarrow> rv_candidate_id (request_vote_of m) = s
          \<and> rv_term (request_vote_of m) \<le> currentTerm (cl_nodes cl s))
     \<and> (rf_type m = REQUEST_VOTE_RESP \<and> rvr_vote_granted (request_vote_resp_of m) \<longrightarrow>
          (s, rvr_term (request_vote_resp_of m), d) \<in> cl_ballots cl
          \<and> rvr_term (request_vote_resp_of m) \<le> currentTerm (cl_nodes cl d)))"

definition net_ok :: "uint64 list \<Rightarrow> cluster \<Rightarrow> bool" where
  "net_ok ids cl \<longleftrightarrow> (\<forall>x \<in> set (cl_net cl). msg_ok ids cl x)"

definition single_votes :: "cluster \<Rightarrow> bool" where
  "single_votes cl \<longleftrightarrow> (\<forall>c t v. outstanding cl c t v \<le> 1)"

definition votes_for :: "cluster \<Rightarrow> uint64 \<Rightarrow> uint64 \<Rightarrow> uint64 set" where
  "votes_for cl i t = {v. (i, t, v) \<in> cl_counted cl}"

definition campaign_ok :: "uint64 list \<Rightarrow> cluster \<Rightarrow> bool" where
  "campaign_ok ids cl \<longleftrightarrow> (\<forall>i \<in> set ids. nodeState (cl_nodes cl i) \<noteq> FOLLOWER \<longrightarrow>
     votedFor (cl_nodes cl i) = i
     \<and> votesReceived (cl_nodes cl i) = 1 + int (card (votes_for cl i (currentTerm (cl_nodes cl i))))
     \<and> (nodeState (cl_nodes cl i) = LEADER \<longrightarrow> (currentTerm (cl_nodes cl i), i) \<in> cl_elected cl))"

definition quorum :: "uint64 list \<Rightarrow> cluster \<Rightarrow> uint64 \<Rightarrow> uint64 \<Rightarrow> bool" where
  "quorum ids cl t i \<longleftrightarrow>
     (\<exists>Q \<subseteq> set ids. 2 * card Q > length ids \<and> (\<forall>v \<in> Q. (v, t, i) \<in> cl_ballots cl))"

definition elected_ok :: "uint64 list \<Rightarrow> cluster \<Rightarrow> bool" where
  "elected_ok ids cl \<longleftrightarrow> (\<forall>t i. (t, i) \<in> cl_elected cl \<longrightarrow> quorum ids cl t i)"

definition cluster_inv :: "uint64 list \<Rightarrow> cluster \<Rightarrow> bool" where
  "cluster_inv ids cl \<longleftrightarrow> config_ok ids cl \<and> ballots_ok ids cl \<and> counted_ok ids cl \<and> net_ok ids cl
     \<and> single_votes cl \<and> campaign_ok ids cl \<and> elected_ok ids cl"

definition valid_ids :: "uint64 list \<Rightarrow> bool" where
  "valid_ids ids \<longleftrightarrow> distinct ids \<and> 0 \<notin> set ids \<and> length ids < 2 ^ 31"

subsection \<open>Updating one node\<close>

lemma set_node_fields [simp]:
  "cl_nodes (set_node i n cl) = (cl_nodes cl)(i := n)"
  "cl_net (set_node i n cl) = cl_net cl"
  "cl_counted (set_node i n cl) = cl_counted cl"
  by (simp_all add: set_node_def)

lemma ballots_mono: "cl_ballots cl \<subseteq> cl_ballots (set_node i n cl)"
  by (auto simp: set_node_def)

lemma elected_mono: "cl_elected cl \<subseteq> cl_elected (set_node i n cl)"
  by (auto simp: set_node_def)

lemma count_vote_fields [simp]:
  "cl_nodes (count_vote s d m cl) = cl_nodes cl" "cl_net (count_vote s d m cl) = cl_net cl"
  "cl_ballots (count_vote s d m cl) = cl_ballots cl" "cl_elected (count_vote s d m cl) = cl_elected cl"
  by (simp_all add: count_vote_def)

lemma ballots_ok_cong:
  "cl_nodes a = cl_nodes b \<Longrightarrow> cl_ballots a = cl_ballots b \<Longrightarrow> ballots_ok ids a = ballots_ok ids b"
  by (simp add: ballots_ok_def)

lemma set_node_ballot:
  "(j, t, c) \<in> cl_ballots (set_node i n cl) \<longleftrightarrow>
     (j, t, c) \<in> cl_ballots cl \<or> votedFor n \<noteq> 0 \<and> j = i \<and> t = currentTerm n \<and> c = votedFor n"
  by (auto simp: set_node_def)

lemma set_node_ballots_ok:
  assumes inv: "ballots_ok ids cl" and vo: "vote_order (cl_nodes cl i) n"
  shows "ballots_ok ids (set_node i n cl)"
proof -
  have old: "c \<noteq> 0 \<and> t \<le> currentTerm n \<and> (t = currentTerm n \<longrightarrow> votedFor n = c)"
    if "(i, t, c) \<in> cl_ballots cl" for t c
  proof -
    from inv that have "c \<noteq> 0" "t \<le> currentTerm (cl_nodes cl i)"
      "t = currentTerm (cl_nodes cl i) \<longrightarrow> votedFor (cl_nodes cl i) = c"
      unfolding ballots_ok_def by blast+
    with vo show ?thesis unfolding vote_order_def by fastforce
  qed
  show ?thesis
    unfolding ballots_ok_def
  proof (intro conjI allI impI ballI)
    fix j t c assume "(j, t, c) \<in> cl_ballots (set_node i n cl)"
    then have "c \<noteq> 0 \<and> t \<le> currentTerm (cl_nodes (set_node i n cl) j) \<and>
      (t = currentTerm (cl_nodes (set_node i n cl) j) \<longrightarrow> votedFor (cl_nodes (set_node i n cl) j) = c)"
      using old inv unfolding set_node_ballot ballots_ok_def by (cases "j = i"; auto; blast)
    then show "c \<noteq> 0" "t \<le> currentTerm (cl_nodes (set_node i n cl) j)"
      "t = currentTerm (cl_nodes (set_node i n cl) j) \<Longrightarrow> votedFor (cl_nodes (set_node i n cl) j) = c"
      by blast+
  next
    fix j t c c' assume "(j, t, c) \<in> cl_ballots (set_node i n cl)" "(j, t, c') \<in> cl_ballots (set_node i n cl)"
    then show "c = c'" using old inv by (auto simp: set_node_ballot ballots_ok_def)
  next
    fix j assume "j \<in> set ids" "votedFor (cl_nodes (set_node i n cl) j) \<noteq> 0"
    then show "(j, currentTerm (cl_nodes (set_node i n cl) j), votedFor (cl_nodes (set_node i n cl) j))
        \<in> cl_ballots (set_node i n cl)"
      using inv by (auto simp: set_node_ballot ballots_ok_def)
  qed
qed

lemma term_mono: "vote_order m n \<Longrightarrow> currentTerm m \<le> currentTerm n"
  by (auto simp: vote_order_def)

lemma msg_ok_mono:
  assumes "msg_ok ids cl x" and "cl_ballots cl \<subseteq> cl_ballots cl'"
    and "\<And>i. currentTerm (cl_nodes cl i) \<le> currentTerm (cl_nodes cl' i)"
  shows "msg_ok ids cl' x"
proof -
  obtain s d m where x: "x = (s, d, m)" by (cases x)
  show ?thesis using assms(1,2) order_trans [OF _ assms(3)] unfolding x msg_ok_def prod.case by blast
qed

lemma set_node_terms:
  "vote_order (cl_nodes cl i) n \<Longrightarrow> currentTerm (cl_nodes cl j) \<le> currentTerm (cl_nodes (set_node i n cl) j)"
  by (auto dest: term_mono)

lemma quorum_mono: "quorum ids cl t i \<Longrightarrow> cl_ballots cl \<subseteq> cl_ballots cl' \<Longrightarrow> quorum ids cl' t i"
  unfolding quorum_def by blast

lemma quorum_unique:
  assumes "ballots_ok ids cl" and "distinct ids" and "quorum ids cl t i" and "quorum ids cl t j"
  shows "i = j"
proof -
  from assms(3,4) obtain P Q where P: "P \<subseteq> set ids" "2 * card P > length ids" "\<forall>v\<in>P. (v, t, i) \<in> cl_ballots cl"
    and Q: "Q \<subseteq> set ids" "2 * card Q > length ids" "\<forall>v\<in>Q. (v, t, j) \<in> cl_ballots cl"
    unfolding quorum_def by blast
  have fin: "finite P" "finite Q" using P(1) Q(1) finite_subset by blast+
  have "card (P \<union> Q) \<le> length ids" using P(1) Q(1) card_mono [of "set ids" "P \<union> Q"]
    by (simp add: distinct_card [OF assms(2)])
  moreover have "card (P \<union> Q) + card (P \<inter> Q) = card P + card Q" using card_Un_Int fin by metis
  ultimately have "card (P \<inter> Q) > 0" using P(2) Q(2) by linarith
  then obtain v where "v \<in> P" "v \<in> Q" by (metis Int_iff card_gt_0_iff ex_in_conv)
  with P(3) Q(3) assms(1) show ?thesis unfolding ballots_ok_def by blast
qed

lemma peers_length:
  assumes "distinct ids" and "i \<in> set ids" and "peers_ok ids i ps"
  shows "length ps + 1 = length ids"
proof -
  have "length ps = card (set ids - {i})"
    using assms(3) distinct_card [of ps] by (simp add: peers_ok_def)
  then show ?thesis using assms by (simp add: distinct_card) (metis Suc_pred length_pos_if_in_set)
qed

text \<open>The quorum behind a node that has just become leader.\<close>

lemma new_leader_quorum:
  assumes ids: "valid_ids ids" "i \<in> set ids" and b: "ballots_ok ids cl" and c: "counted_ok ids cl"
    and p: "peers_ok ids i (peerIds (cl_nodes cl i))" and v: "votedFor (cl_nodes cl i) = i"
    and n: "votesReceived (cl_nodes cl i) = 1 + int (card (votes_for cl i (currentTerm (cl_nodes cl i))))"
    and maj: "votesReceived (cl_nodes cl i) \<ge> int_of_size (length (peerIds (cl_nodes cl i)) + 1) sdiv 2 + 1"
  shows "quorum ids cl (currentTerm (cl_nodes cl i)) i"
proof -
  let ?t = "currentTerm (cl_nodes cl i)"
  let ?V = "votes_for cl i ?t"
  have V: "?V \<subseteq> set ids" "i \<notin> ?V" "\<forall>v\<in>?V. (v, ?t, i) \<in> cl_ballots cl"
    using c unfolding counted_ok_def votes_for_def by auto
  have len: "length (peerIds (cl_nodes cl i)) + 1 = length ids"
    using peers_length [OF _ ids(2) p] ids(1) by (simp add: valid_ids_def)
  have "int_of_size (length ids) sdiv 2 = int (length ids) div 2"
    using ids(1) by (simp add: valid_ids_def int_of_size_half)
  with maj n len have "int (card ?V) \<ge> int (length ids) div 2" by simp
  moreover have "card (insert i ?V) = 1 + card ?V"
    using V finite_subset [OF V(1)] by simp
  ultimately have "2 * card (insert i ?V) > length ids" by linarith
  moreover have "(i, ?t, i) \<in> cl_ballots cl"
    using b v ids by (metis ballots_ok_def valid_ids_def)
  ultimately show ?thesis unfolding quorum_def using V ids(2) by (intro exI [of _ "insert i ?V"]) auto
qed

subsection \<open>What a step does to a candidate\<close>

definition count_gain :: "uint64 \<Rightarrow> uint64 \<Rightarrow> raft_message \<Rightarrow> cluster \<Rightarrow> bool" where
  "count_gain s d m cl \<longleftrightarrow> rf_type m = REQUEST_VOTE_RESP \<and> rvr_vote_granted (request_vote_resp_of m)
     \<and> rvr_term (request_vote_resp_of m) = currentTerm (cl_nodes cl d)
     \<and> nodeState (cl_nodes cl d) = CANDIDATE"

lemma count_vote_counted [simp]:
  "cl_counted (count_vote s d m cl) = (if count_gain s d m cl
     then insert (d, currentTerm (cl_nodes cl d), s) (cl_counted cl) else cl_counted cl)"
  by (simp add: count_vote_def count_gain_def)

lemma count_vote_eq:
  "count_vote s d m cl = cl\<lparr>cl_counted := if count_gain s d m cl
     then insert (d, currentTerm (cl_nodes cl d), s) (cl_counted cl) else cl_counted cl\<rparr>"
  by (cases cl) (simp add: count_vote_def count_gain_def)

lemma set_node_counted:
  "set_node i n (cl\<lparr>cl_counted := C\<rparr>) = (set_node i n cl)\<lparr>cl_counted := C\<rparr>"
  by (simp add: set_node_def)

text \<open>
  A node that is not a follower after an event either has just started an election, or was not a
  follower before, in the same term; it becomes leader only with a majority of votes.
\<close>

definition election_step :: "raft_node \<Rightarrow> raft_node \<Rightarrow> bool" where
  "election_step n n' \<longleftrightarrow> nodeState n' = CANDIDATE \<and> currentTerm n' = currentTerm n + 1
     \<and> votedFor n' = nodeId n \<and> votesReceived n' = 1"

definition keeps_role :: "raft_node \<Rightarrow> int \<Rightarrow> raft_node \<Rightarrow> bool" where
  "keeps_role n gain n' \<longleftrightarrow> nodeState n \<noteq> FOLLOWER \<and> currentTerm n' = currentTerm n
     \<and> votesReceived n' = votesReceived n + gain
     \<and> (nodeState n' = LEADER \<longrightarrow> nodeState n = LEADER
          \<or> votesReceived n' \<ge> int_of_size (length (peerIds n') + 1) sdiv 2 + 1)"

lemma local_role:
  assumes "is_local i" and "nodeState (fst (node_step i n)) \<noteq> FOLLOWER"
  shows "(election_step n (fst (node_step i n)) \<and> (\<exists>now now' rnd. i = Tick now now' rnd \<and> election_due now n))
    \<or> keeps_role n 0 (fst (node_step i n))"
  using assms
  by (cases i) (auto simp: node_simps election_step_def keeps_role_def resetElectionTimer_def split: if_splits)

lemma message_role:
  assumes "nodeState (fst (snd (handleRaftMessage m s now now' rnd (cl_nodes cl d)))) \<noteq> FOLLOWER"
  shows "keeps_role (cl_nodes cl d) (if count_gain s d m cl then 1 else 0)
    (fst (snd (handleRaftMessage m s now now' rnd (cl_nodes cl d))))"
  using assms unfolding handleRaftMessage_step
  by (cases "rf_type m")
    (auto simp: message_input_def node_simps keeps_role_def count_gain_def max_def split: if_splits)

lemma message_vote_order: "vote_order n (fst (snd (handleRaftMessage m s now now' rnd n)))"
  unfolding handleRaftMessage_step
  by (auto split: option.split intro!: node_step_vote_order)
    (auto simp: message_input_def split: raft_type.splits)

lemma message_config:
  "nodeId (fst (snd (handleRaftMessage m s now now' rnd n))) = nodeId n"
  "peerIds (fst (snd (handleRaftMessage m s now now' rnd n))) = peerIds n"
  unfolding handleRaftMessage_step
  by (cases "rf_type m"; simp add: message_input_def node_simps)+

lemma local_config:
  "is_local i \<Longrightarrow> nodeId (fst (node_step i n)) = nodeId n"
  "is_local i \<Longrightarrow> peerIds (fst (node_step i n)) = peerIds n"
  by (cases i; simp add: node_simps resetElectionTimer_def)+

lemma set_node_config_ok:
  "config_ok ids cl \<Longrightarrow> nodeId n = nodeId (cl_nodes cl i) \<Longrightarrow> peers_ok ids i (peerIds n) \<Longrightarrow>
     config_ok ids (set_node i n cl)"
  by (simp add: config_ok_def)

lemma vote_kept:
  assumes "vote_order n n'" and "currentTerm n' = currentTerm n" and "votedFor n \<noteq> 0"
  shows "votedFor n' = votedFor n"
  using assms by (auto simp: vote_order_def)

subsection \<open>Preservation\<close>

lemma step_counted_ok:
  assumes inv: "counted_ok ids cl" and vo: "vote_order (cl_nodes cl i) n"
    and new: "C = cl_counted cl \<or> C = insert (i, currentTerm (cl_nodes cl i), s) (cl_counted cl)
      \<and> (s, currentTerm (cl_nodes cl i), i) \<in> cl_ballots cl \<and> s \<in> set ids \<and> s \<noteq> i"
  shows "counted_ok ids ((set_node i n cl)\<lparr>cl_counted := C, cl_net := net\<rparr>)"
  unfolding counted_ok_def
proof (intro allI impI)
  fix c t v assume "(c, t, v) \<in> cl_counted ((set_node i n cl)\<lparr>cl_counted := C, cl_net := net\<rparr>)"
  with new inv have *: "(v, t, c) \<in> cl_ballots cl \<and> v \<in> set ids \<and> v \<noteq> c \<and> t \<le> currentTerm (cl_nodes cl c)"
    unfolding counted_ok_def by auto
  moreover have "currentTerm (cl_nodes cl c) \<le> currentTerm (cl_nodes (set_node i n cl) c)"
    by (rule set_node_terms [OF vo])
  ultimately show "(v, t, c) \<in> cl_ballots ((set_node i n cl)\<lparr>cl_counted := C, cl_net := net\<rparr>)
      \<and> v \<in> set ids \<and> v \<noteq> c
      \<and> t \<le> currentTerm (cl_nodes ((set_node i n cl)\<lparr>cl_counted := C, cl_net := net\<rparr>) c)"
    using ballots_mono [of cl i n] order_trans by auto
qed

lemma votes_fresh:
  assumes "counted_ok ids cl" and "currentTerm (cl_nodes cl i) < t"
  shows "votes_for cl i t = {}"
  using assms unfolding counted_ok_def votes_for_def by (auto dest: leD)

lemma votes_finite: "counted_ok ids cl \<Longrightarrow> finite (votes_for cl i t)"
  unfolding counted_ok_def votes_for_def by (rule finite_subset [of _ "set ids"]) auto

lemma election_step_fresh:
  "vote_order n n' \<Longrightarrow> election_step n n' \<Longrightarrow> currentTerm n < currentTerm n'"
  by (auto simp: vote_order_def election_step_def)

lemma step_campaign_ok:
  fixes cl i n s net and g :: bool
  defines "t \<equiv> currentTerm (cl_nodes cl i)"
  defines "cl' \<equiv> (set_node i n cl)\<lparr>cl_counted := if g then insert (i, t, s) (cl_counted cl) else cl_counted cl,
      cl_net := net\<rparr>"
  assumes inv: "campaign_ok ids cl" "counted_ok ids cl" "config_ok ids cl" and ids: "i \<in> set ids" "0 \<notin> set ids"
    and vo: "vote_order (cl_nodes cl i) n"
    and role: "nodeState n \<noteq> FOLLOWER \<Longrightarrow>
      election_step (cl_nodes cl i) n \<and> \<not> g \<or> keeps_role (cl_nodes cl i) (if g then 1 else 0) n"
    and new: "g \<Longrightarrow> (i, t, s) \<notin> cl_counted cl"
  shows "campaign_ok ids cl'"
  unfolding campaign_ok_def
proof (intro ballI impI)
  fix j assume j: "j \<in> set ids" "nodeState (cl_nodes cl' j) \<noteq> FOLLOWER"
  let ?goal = "votedFor (cl_nodes cl' j) = j
     \<and> votesReceived (cl_nodes cl' j) = 1 + int (card (votes_for cl' j (currentTerm (cl_nodes cl' j))))
     \<and> (nodeState (cl_nodes cl' j) = LEADER \<longrightarrow> (currentTerm (cl_nodes cl' j), j) \<in> cl_elected cl')"
  show ?goal
  proof (cases "j = i")
    case False
    then have "votes_for cl' j u = votes_for cl j u" for u by (simp add: votes_for_def cl'_def)
    with False j inv(1) elected_mono [of cl i n] show ?thesis by (auto simp: campaign_ok_def cl'_def)
  next
    case True
    have n: "cl_nodes cl' i = n" by (simp add: cl'_def)
    have el: "nodeState n = LEADER \<longrightarrow> (currentTerm n, i) \<in> cl_elected cl'" by (simp add: cl'_def set_node_def)
    from role j True n consider (e) "election_step (cl_nodes cl i) n" "\<not> g"
      | (k) "keeps_role (cl_nodes cl i) (if g then 1 else 0) n" by auto
    then show ?thesis
    proof cases
      case e
      have "votes_for cl i (currentTerm n) = {}"
        by (rule votes_fresh [OF inv(2) election_step_fresh [OF vo e(1)]])
      then have "votes_for cl' i (currentTerm n) = {}" using e(2) by (simp add: votes_for_def cl'_def)
      with e True n el inv(3) ids show ?thesis by (simp add: election_step_def config_ok_def)
    next
      case k
      then have st: "nodeState (cl_nodes cl i) \<noteq> FOLLOWER" "currentTerm n = t"
        by (auto simp: keeps_role_def t_def)
      with inv(1) ids have v: "votedFor (cl_nodes cl i) = i"
        "votesReceived (cl_nodes cl i) = 1 + int (card (votes_for cl i t))"
        by (auto simp: campaign_ok_def t_def)
      have "votedFor n = i"
        using vote_kept [OF vo] st v ids t_def by metis
      moreover have "int (card (votes_for cl' i t)) = int (card (votes_for cl i t)) + (if g then 1 else 0)"
      proof (cases g)
        case True
        then have "votes_for cl' i t = insert s (votes_for cl i t)" by (auto simp: votes_for_def cl'_def)
        then show ?thesis using True new votes_finite [OF inv(2), of i t] by (simp add: votes_for_def)
      qed (simp add: votes_for_def cl'_def)
      ultimately show ?thesis using k True n el st v by (simp add: keeps_role_def)
    qed
  qed
qed

lemma step_elected_ok:
  fixes cl i n s net C
  defines "cl' \<equiv> (set_node i n cl)\<lparr>cl_counted := C, cl_net := net\<rparr>"
  assumes inv: "elected_ok ids cl" "campaign_ok ids cl"
    and inv': "ballots_ok ids cl'" "counted_ok ids cl'" "config_ok ids cl'" "campaign_ok ids cl'"
    and ids: "valid_ids ids" "i \<in> set ids"
    and role: "nodeState n \<noteq> FOLLOWER \<Longrightarrow> election_step (cl_nodes cl i) n \<or> keeps_role (cl_nodes cl i) gain n"
  shows "elected_ok ids cl'"
  unfolding elected_ok_def
proof (intro allI impI)
  fix t j assume tj: "(t, j) \<in> cl_elected cl'"
  have mono: "quorum ids cl t j \<Longrightarrow> quorum ids cl' t j"
    by (erule quorum_mono) (use ballots_mono in \<open>auto simp: cl'_def\<close>)
  from tj consider (old) "(t, j) \<in> cl_elected cl" | (new) "nodeState n = LEADER" "t = currentTerm n" "j = i"
    by (auto simp: cl'_def set_node_def split: if_splits)
  then show "quorum ids cl' t j"
  proof cases
    case old
    with inv(1) mono show ?thesis by (simp add: elected_ok_def)
  next
    case new
    have n: "cl_nodes cl' i = n" by (simp add: cl'_def)
    from role new(1) have k: "keeps_role (cl_nodes cl i) gain n" by (auto simp: election_step_def)
    show ?thesis
    proof (cases "nodeState (cl_nodes cl i) = LEADER")
      case True
      with inv k new ids have "(t, j) \<in> cl_elected cl" by (auto simp: campaign_ok_def keeps_role_def)
      with inv(1) mono show ?thesis by (simp add: elected_ok_def)
    next
      case False
      with k new(1) have maj: "votesReceived n \<ge> int_of_size (length (peerIds n) + 1) sdiv 2 + 1"
        by (simp add: keeps_role_def)
      have "quorum ids cl' (currentTerm (cl_nodes cl' i)) i"
        using inv'(3,4) ids new(1) n maj
        by (intro new_leader_quorum [OF ids inv'(1,2)]) (auto simp: config_ok_def campaign_ok_def)
      then show ?thesis using new n by simp
    qed
  qed
qed

lemma inv_update:
  fixes cl i n s net and g :: bool
  defines "t \<equiv> currentTerm (cl_nodes cl i)"
  defines "cl' \<equiv> (set_node i n cl)\<lparr>cl_counted := if g then insert (i, t, s) (cl_counted cl) else cl_counted cl,
      cl_net := net\<rparr>"
  assumes inv: "cluster_inv ids cl" and ids: "valid_ids ids" "i \<in> set ids"
    and vo: "vote_order (cl_nodes cl i) n"
    and cfg: "nodeId n = nodeId (cl_nodes cl i)" "peers_ok ids i (peerIds n)"
    and role: "nodeState n \<noteq> FOLLOWER \<Longrightarrow>
      election_step (cl_nodes cl i) n \<and> \<not> g \<or> keeps_role (cl_nodes cl i) (if g then 1 else 0) n"
    and new: "g \<Longrightarrow> (i, t, s) \<notin> cl_counted cl \<and> (s, t, i) \<in> cl_ballots cl \<and> s \<in> set ids \<and> s \<noteq> i"
    and net: "net_ok ids cl'" "single_votes cl'"
  shows "cluster_inv ids cl'"
proof -
  note parts = inv [unfolded cluster_inv_def]
  have cfg': "config_ok ids cl'"
    using set_node_config_ok [of ids cl n i] parts cfg by (simp add: cl'_def config_ok_def)
  have "ballots_ok ids (set_node i n cl)" using set_node_ballots_ok parts vo by blast
  then have b: "ballots_ok ids cl'"
    by (subst ballots_ok_cong [of _ "set_node i n cl"]) (simp_all add: cl'_def)
  have c: "counted_ok ids cl'"
    unfolding cl'_def by (rule step_counted_ok [of _ _ _ _ _ s]) (use parts vo new in \<open>auto simp: t_def\<close>)
  have camp: "campaign_ok ids cl'"
    unfolding cl'_def t_def using parts ids vo role new
    by (intro step_campaign_ok) (auto simp: valid_ids_def t_def)
  have "elected_ok ids cl'"
    unfolding cl'_def using parts b c cfg' camp ids role
    by (intro step_elected_ok [where gain = "if g then 1 else 0"]) (auto simp: cl'_def)
  with cfg' b c camp net show ?thesis by (simp add: cluster_inv_def)
qed

lemma fresh_outstanding:
  assumes "net_ok ids cl" and "counted_ok ids cl" and "currentTerm (cl_nodes cl c) < t"
  shows "outstanding cl c t v = 0"
proof -
  have "\<not> vote_msg c t v x" if "x \<in> set (cl_net cl)" for x
    using assms(1,3) that unfolding net_ok_def msg_ok_def vote_msg_def by (cases x) (auto dest: leD)
  then have "filter (vote_msg c t v) (cl_net cl) = []" by (simp add: filter_empty_conv)
  moreover have "(c, t, v) \<notin> cl_counted cl" using votes_fresh [OF assms(2,3)] by (auto simp: votes_for_def)
  ultimately show ?thesis by (simp add: outstanding_def)
qed

lemma outbox_local:
  assumes "is_local inp"
  shows "(election_step n (fst (node_step inp n))
      \<and> outbox s (snd (node_step inp n)) = map (\<lambda>p. (s, p, vote_request_of_node n)) (peerIds n))
    \<or> append_traffic (outbox s (snd (node_step inp n)))
      \<and> (\<forall>x \<in> set (outbox s (snd (node_step inp n))). fst x = s \<and> fst (snd x) \<in> set (peerIds n))"
proof (cases inp)
  case (Tick now now' rnd)
  then show ?thesis using outbox_tick [of now n s now' rnd]
    by (cases "election_due now n") (auto simp: node_simps election_step_def)
next
  case (Propose c)
  then show ?thesis by (simp add: propose_def Let_def append_traffic_def list_all_iff)
qed (use assms in \<open>simp_all add: append_traffic_def\<close>)

lemma append_traffic_msg_ok:
  assumes "append_traffic xs" and "\<forall>x \<in> set xs. fst x = i \<and> fst (snd x) \<in> set (peerIds n)"
    and "peers_ok ids i (peerIds n)" and "i \<in> set ids" and "x \<in> set xs"
  shows "msg_ok ids cl x"
  using assms by (cases x) (auto simp: append_traffic_def list_all_iff msg_ok_def peers_ok_def)

lemma vote_request_count:
  assumes "distinct ps"
  shows "length (filter (vote_msg c t v) (map (\<lambda>p. (i, p, vote_request_of_node n)) ps)) \<le>
    (if c = i \<and> t = currentTerm n + 1 then 1 else 0)"
proof (cases "c = i \<and> t = currentTerm n + 1")
  case True
  have "length (filter (\<lambda>p. p = v) ps) \<le> 1" using assms by (induction ps) (auto simp: filter_empty_conv)
  moreover have "filter (vote_msg c t v) (map (\<lambda>p. (i, p, vote_request_of_node n)) ps)
      = map (\<lambda>p. (i, p, vote_request_of_node n)) (filter (\<lambda>p. p = v) ps)"
    using True by (simp add: filter_map comp_def vote_msg_def vote_request_of_node_def)
  ultimately show ?thesis using True by simp
next
  case False
  then have "filter (vote_msg c t v) (map (\<lambda>p. (i, p, vote_request_of_node n)) ps) = []"
    by (auto simp: filter_empty_conv vote_msg_def vote_request_of_node_def)
  then show ?thesis by simp
qed

lemma local_step_inv:
  assumes inv: "cluster_inv ids cl" and ids: "valid_ids ids"
    and st: "cluster_step ids (Local i inp) cl = Some cl'"
  shows "cluster_inv ids cl'"
proof -
  let ?n = "cl_nodes cl i" and ?r = "node_step inp (cl_nodes cl i)"
  note parts = inv [unfolded cluster_inv_def]
  from st have i: "i \<in> set ids" "is_local inp" "term_fits inp ?n"
    and cl': "cl' = (set_node i (fst ?r) cl)\<lparr>cl_counted := if False then insert (i, currentTerm ?n, i) (cl_counted cl)
        else cl_counted cl, cl_net := cl_net cl @ outbox i (snd ?r)\<rparr>"
    by (auto simp: Let_def case_prod_unfold set_node_def split: if_splits)
  have vo: "vote_order ?n (fst ?r)" by (rule node_step_vote_order [OF i(3)])
  have pe: "peers_ok ids i (peerIds ?n)" "nodeId ?n = i" using parts i by (auto simp: config_ok_def)
  have old: "msg_ok ids cl' x" if "x \<in> set (cl_net cl)" for x
  proof (rule msg_ok_mono [of ids cl])
    show "msg_ok ids cl x" using parts that by (simp add: net_ok_def)
    show "cl_ballots cl \<subseteq> cl_ballots cl'" using ballots_mono by (simp add: cl')
    show "\<And>j. currentTerm (cl_nodes cl j) \<le> currentTerm (cl_nodes cl' j)"
      using set_node_terms [OF vo] by (simp add: cl')
  qed
  from outbox_local [OF i(2), of ?n i] have "net_ok ids cl' \<and> single_votes cl'"
  proof (elim disjE conjE)
    assume e: "election_step ?n (fst ?r)"
      and o: "outbox i (snd ?r) = map (\<lambda>p. (i, p, vote_request_of_node ?n)) (peerIds ?n)"
    have "msg_ok ids cl' x" if "x \<in> set (outbox i (snd ?r))" for x
    proof -
      from that obtain p where p: "x = (i, p, vote_request_of_node ?n)" "p \<in> set (peerIds ?n)" by (auto simp: o)
      then have "p \<in> set ids" "p \<noteq> i" using pe(1) by (auto simp: peers_ok_def)
      with p i pe(2) e show ?thesis by (simp add: msg_ok_def vote_request_of_node_def cl' election_step_def)
    qed
    moreover have "outstanding cl' c t v \<le> 1" for c t v
    proof -
      have "outstanding cl' c t v = outstanding cl c t v
          + length (filter (vote_msg c t v) (map (\<lambda>p. (i, p, vote_request_of_node ?n)) (peerIds ?n)))"
        by (simp add: outstanding_def cl' o)
      moreover have "outstanding cl i (currentTerm ?n + 1) v = 0"
        using fresh_outstanding [of ids cl i "currentTerm ?n + 1" v] parts
          election_step_fresh [OF vo e] e by (simp add: election_step_def)
      moreover have "distinct (peerIds ?n)" using pe by (simp add: peers_ok_def)
      ultimately show ?thesis
        using vote_request_count [of "peerIds ?n" c t v i ?n] parts
        by (auto simp: single_votes_def split: if_splits)
    qed
    ultimately show ?thesis using old by (auto simp: net_ok_def single_votes_def cl')
  next
    assume a: "append_traffic (outbox i (snd ?r))"
      "\<forall>x\<in>set (outbox i (snd ?r)). fst x = i \<and> fst (snd x) \<in> set (peerIds ?n)"
    have "outstanding cl' c t v = outstanding cl c t v" for c t v
      by (simp add: outstanding_def cl' append_traffic_votes [OF a(1)])
    then show ?thesis using parts old append_traffic_msg_ok [OF a pe(1) i(1)]
      by (auto simp: net_ok_def single_votes_def cl')
  qed
  then show ?thesis
    unfolding cl' using inv ids i vo pe local_config [OF i(2)] local_role [OF i(2)]
    by (intro inv_update) (auto simp: cl')
qed

lemma filter_remove_nth:
  "k < length xs \<Longrightarrow> length (filter P (remove_nth k xs)) + (if P (xs ! k) then 1 else 0) = length (filter P xs)"
proof -
  assume "k < length xs"
  then have "filter P xs = filter P (take k xs @ xs ! k # drop (Suc k) xs)" by (simp add: id_take_nth_drop [symmetric])
  then show ?thesis by (simp add: remove_nth_def)
qed

lemma set_remove_nth: "set (remove_nth k xs) \<subseteq> set xs"
  by (auto simp: remove_nth_def dest: in_set_takeD in_set_dropD)

definition replies_of :: "uint64 \<Rightarrow> uint64 \<Rightarrow> raft_message option \<Rightarrow> (uint64 \<times> uint64 \<times> raft_message) list" where
  "replies_of d s reply = (case reply of None \<Rightarrow> [] | Some r \<Rightarrow> [(d, s, r)])"

text \<open>A reply that grants a vote answers the request for that vote.\<close>

lemma reply_vote_msg:
  assumes "x \<in> set (replies_of d s (fst (handleRaftMessage m p now now' rnd n)))" and "vote_msg c t v x"
  shows "rf_type m = REQUEST_VOTE \<and> vote_msg c t v (s, d, m)"
  using assms
  by (cases "rf_type m")
    (auto simp: replies_of_def handleRaftMessage_reply vote_msg_def handleRequestVote_fields
      vote_granted_def max_def)

lemma reply_msg_ok:
  assumes x: "x \<in> set (replies_of d s (fst (handleRaftMessage m s now now' rnd (cl_nodes cl d))))"
    and m: "msg_ok ids cl (s, d, m)" and ids: "0 \<notin> set ids"
    and cl': "cl_nodes cl' = (cl_nodes cl)(d := n)"
      "cl_ballots cl' = cl_ballots (set_node d n cl)"
    and n: "n = fst (snd (handleRaftMessage m s now now' rnd (cl_nodes cl d)))"
  shows "msg_ok ids cl' x"
proof -
  from x obtain r where r: "fst (handleRaftMessage m s now now' rnd (cl_nodes cl d)) = Some r" "x = (d, s, r)"
    by (cases "fst (handleRaftMessage m s now now' rnd (cl_nodes cl d))") (auto simp: replies_of_def)
  from m ids have sd: "s \<in> set ids" "d \<in> set ids" "s \<noteq> d" "s \<noteq> 0" by (auto simp: msg_ok_def)
  show ?thesis
  proof (cases "rf_type m = REQUEST_VOTE")
    case True
    let ?q = "request_vote_of m" and ?h = "handleRequestVote (request_vote_of m) now now' rnd (cl_nodes cl d)"
    from True m have q: "rv_candidate_id ?q = s" "rv_term ?q \<le> currentTerm (cl_nodes cl s)"
      by (auto simp: msg_ok_def)
    from True r have r': "r = vote_reply (fst ?h)" by (simp add: handleRaftMessage_reply)
    from True n have n': "n = fst (snd ?h)" by (simp add: handleRaftMessage_def Let_def case_prod_unfold)
    show ?thesis
    proof (cases "vote_granted ?q (cl_nodes cl d)")
      case g: True
      then have "max (rv_term ?q) (currentTerm (cl_nodes cl d)) = rv_term ?q"
        by (auto simp: vote_granted_def max_def)
      with g q sd show ?thesis
        by (simp add: r(2) r' msg_ok_def cl' set_node_ballot n' handleRequestVote_fields)
    next
      case False
      then show ?thesis using sd by (simp add: r(2) r' msg_ok_def handleRequestVote_fields)
    qed
  next
    case False
    with r have "rf_type r = APPEND_ENTRIES_RESP"
      by (cases "rf_type m") (auto simp: handleRaftMessage_reply)
    with sd r(2) show ?thesis by (simp add: msg_ok_def)
  qed
qed

lemma deliver_step_inv:
  assumes inv: "cluster_inv ids cl" and ids: "valid_ids ids"
    and st: "cluster_step ids (Deliver k now now' rnd) cl = Some cl'"
  shows "cluster_inv ids cl'"
proof -
  obtain s d m where x: "cl_net cl ! k = (s, d, m)" by (cases "cl_net cl ! k")
  let ?n = "cl_nodes cl d" and ?h = "handleRaftMessage m s now now' rnd (cl_nodes cl d)"
  let ?g = "count_gain s d m cl" and ?t = "currentTerm (cl_nodes cl d)"
  let ?o = "outbox d (snd (snd ?h))" and ?y = "replies_of d s (fst ?h)"
  note parts = inv [unfolded cluster_inv_def]
  from st have k: "k < length (cl_net cl)"
    and cl': "cl' = (set_node d (fst (snd ?h)) cl)\<lparr>cl_counted := if ?g then insert (d, ?t, s) (cl_counted cl)
        else cl_counted cl, cl_net := remove_nth k (cl_net cl) @ ?o @ ?y\<rparr>"
    by (auto simp: x Let_def case_prod_unfold replies_of_def count_vote_eq set_node_counted
        split: if_splits cong: option.case_cong)
  have ok: "msg_ok ids cl (s, d, m)" using parts k x by (metis net_ok_def nth_mem)
  then have sd: "s \<in> set ids" "d \<in> set ids" "s \<noteq> d" by (auto simp: msg_ok_def)
  have vo: "vote_order ?n (fst (snd ?h))" by (rule message_vote_order)
  have pe: "peers_ok ids d (peerIds ?n)" using parts sd by (auto simp: config_ok_def)
  have ob: "append_traffic ?o" "\<forall>x\<in>set ?o. fst x = d \<and> fst (snd x) \<in> set (peerIds ?n)"
    using outbox_message by blast+
  have gain: "vote_msg d ?t s (s, d, m)" if ?g using that by (simp add: count_gain_def vote_msg_def)
  have new: "(d, ?t, s) \<notin> cl_counted cl \<and> (s, ?t, d) \<in> cl_ballots cl" if g: ?g
  proof -
    have "length (filter (vote_msg d ?t s) (cl_net cl)) \<ge> 1"
      using filter_remove_nth [OF k, of "vote_msg d ?t s"] gain [OF g] x by simp
    moreover have "outstanding cl d ?t s \<le> 1" using parts by (simp add: single_votes_def)
    ultimately have "(d, ?t, s) \<notin> cl_counted cl" by (auto simp: outstanding_def split: if_splits)
    then show ?thesis using g ok by (auto simp: count_gain_def msg_ok_def)
  qed
  have old: "msg_ok ids cl' z" if "z \<in> set (cl_net cl)" for z
  proof (rule msg_ok_mono [of ids cl])
    show "msg_ok ids cl z" using parts that by (simp add: net_ok_def)
    show "cl_ballots cl \<subseteq> cl_ballots cl'" using ballots_mono by (simp add: cl')
    show "\<And>j. currentTerm (cl_nodes cl j) \<le> currentTerm (cl_nodes cl' j)"
      using set_node_terms [OF vo] by (simp add: cl')
  qed
  have "msg_ok ids cl' z" if "z \<in> set ?y" for z
    by (rule reply_msg_ok [OF that ok]) (use ids in \<open>simp_all add: cl' valid_ids_def\<close>)
  then have net: "net_ok ids cl'"
    using old set_remove_nth [of k "cl_net cl"] append_traffic_msg_ok [OF ob pe sd(2)]
    by (auto simp: net_ok_def cl')
  have "outstanding cl' c t v \<le> outstanding cl c t v" for c t v
  proof -
    have f: "length (filter (vote_msg c t v) (remove_nth k (cl_net cl)))
        + (if vote_msg c t v (s, d, m) then 1 else 0) = length (filter (vote_msg c t v) (cl_net cl))"
      using filter_remove_nth [OF k, of "vote_msg c t v"] x by simp
    have y: "length (filter (vote_msg c t v) ?y) \<le>
        (if rf_type m = REQUEST_VOTE \<and> vote_msg c t v (s, d, m) then 1 else 0)"
      using reply_vote_msg [of _ d s m s now now' rnd ?n c t v]
      by (auto simp: replies_of_def split: option.splits)
    have "(c, t, v) \<in> cl_counted cl' \<Longrightarrow> (c, t, v) \<notin> cl_counted cl \<Longrightarrow>
        vote_msg c t v (s, d, m) \<and> rf_type m = REQUEST_VOTE_RESP"
      using gain by (auto simp: cl' count_gain_def split: if_splits)
    moreover have "(c, t, v) \<in> cl_counted cl \<Longrightarrow> (c, t, v) \<in> cl_counted cl'" by (simp add: cl')
    ultimately show ?thesis using f y append_traffic_votes [OF ob(1), of c t v]
      by (auto simp: outstanding_def cl' split: if_splits)
  qed
  then have sv: "single_votes cl'" using parts unfolding single_votes_def by (meson order_trans)
  show ?thesis
    unfolding cl' using inv ids sd vo pe message_config message_role [of m s now now' rnd cl d] new net sv
    by (intro inv_update) (auto simp: cl')
qed

text \<open>A node that was down comes back as a follower.\<close>

lemma reload_inv:
  assumes inv: "cluster_inv ids cl" and ids: "valid_ids ids" "i \<in> set ids" and m: "vote_order (cl_nodes cl i) m"
    "nodeState m = FOLLOWER" "nodeId m = nodeId (cl_nodes cl i)" "peers_ok ids i (peerIds m)"
  shows "cluster_inv ids (set_node i m cl)"
proof -
  define cl' where "cl' = set_node i m cl"
  have cl': "cl' = (set_node i m cl)\<lparr>cl_counted := if False then insert (i, currentTerm (cl_nodes cl i), i) (cl_counted cl)
        else cl_counted cl, cl_net := cl_net cl\<rparr>"
    by (simp add: cl'_def set_node_def)
  have "outstanding cl' c t v = outstanding cl c t v" for c t v by (simp add: outstanding_def cl')
  moreover have "msg_ok ids cl' x" if "msg_ok ids cl x" for x
    by (rule msg_ok_mono [OF that])
      (use ballots_mono [of cl i m] set_node_terms [OF m(1)] in \<open>simp_all add: cl'\<close>)
  ultimately have "net_ok ids cl' \<and> single_votes cl'"
    using inv by (auto simp: cluster_inv_def net_ok_def single_votes_def) (simp_all add: cl')
  then have "cluster_inv ids cl'" unfolding cl' using inv ids m by (intro inv_update) (auto simp: cl')
  then show ?thesis by (simp add: cl'_def)
qed

lemma cluster_step_inv:
  assumes inv: "cluster_inv ids cl" and ids: "valid_ids ids" and st: "cluster_step ids e cl = Some cl'"
  shows "cluster_inv ids cl'"
proof (cases e)
  case (Local i inp)
  with local_step_inv inv ids st show ?thesis by blast
next
  case (Deliver k now now' rnd)
  with deliver_step_inv inv ids st show ?thesis by blast
next
  case (Lose k)
  with st have cl': "cl' = cl\<lparr>cl_net := remove_nth k (cl_net cl)\<rparr>" by simp
  have "length (filter P (remove_nth k xs)) \<le> length (filter P xs)" for P and xs :: "'b list"
    using filter_remove_nth [of k xs P] by (cases "k < length xs") (auto simp: remove_nth_def)
  then have "outstanding cl' c t v \<le> outstanding cl c t v" for c t v by (simp add: outstanding_def cl')
  then have sv: "single_votes cl'"
    using inv unfolding cluster_inv_def single_votes_def by (meson order_trans)
  have "msg_ok ids cl' x = msg_ok ids cl x" for x by (simp add: msg_ok_def cl')
  then have "net_ok ids cl'"
    using inv set_remove_nth [of k "cl_net cl"] by (auto simp: cluster_inv_def net_ok_def cl')
  with sv show ?thesis
    using inv unfolding cluster_inv_def
    by (simp add: cl' config_ok_def ballots_ok_def counted_ok_def campaign_ok_def elected_ok_def
        quorum_def votes_for_def)
next
  case (Restart i ps l now rnd)
  with st reload_inv [OF inv ids] show ?thesis
    by (auto simp: Let_def vote_order_def loadPersistedState_def new_node_def split: if_splits)
next
  case (Torn i t v)
  from inv have "i \<in> set ids \<Longrightarrow> peers_ok ids i (peerIds (cl_nodes cl i))" by (simp add: cluster_inv_def config_ok_def)
  with Torn st reload_inv [OF inv ids] show ?thesis
    by (auto simp: Let_def vote_order_def loadPersistedState_def new_node_def split: if_splits)
qed

lemma init_cluster_inv: "valid_ids ids \<Longrightarrow> cluster_inv ids (init_cluster ids rnds)"
  by (simp add: cluster_inv_def config_ok_def ballots_ok_def counted_ok_def net_ok_def single_votes_def
      campaign_ok_def elected_ok_def init_cluster_def outstanding_def new_node_def peers_ok_filter valid_ids_def)

subsection \<open>At most one leader per term\<close>

lemma cluster_reach_inv:
  assumes "cluster_reach ids a b" and "cluster_inv ids a" and "valid_ids ids"
  shows "cluster_inv ids b"
  using assms by induction (auto intro: cluster_step_inv)

lemma cluster_step_elected: "cluster_step ids e cl = Some cl' \<Longrightarrow> cl_elected cl \<subseteq> cl_elected cl'"
  by (cases e) (auto simp: Let_def case_prod_unfold set_node_def split: if_splits)

lemma cluster_reach_elected: "cluster_reach ids a b \<Longrightarrow> cl_elected a \<subseteq> cl_elected b"
  by (induction rule: cluster_reach.induct) (auto dest: cluster_step_elected)

lemma leader_elected:
  "cluster_inv ids cl \<Longrightarrow> i \<in> set ids \<Longrightarrow> nodeState (cl_nodes cl i) = LEADER \<Longrightarrow>
     (currentTerm (cl_nodes cl i), i) \<in> cl_elected cl"
  by (simp add: cluster_inv_def campaign_ok_def)

text \<open>
  C1. Election safety. In any execution of a cluster, with messages lost and reordered and nodes
  stopped in the middle of an event and restarted with whatever log, at most one node is leader in a term: if \<open>i\<close> leads in some term and,
  then or at any later moment, \<open>j\<close> leads in the same term, they are the same node.
\<close>

theorem election_safety:
  assumes ids: "valid_ids ids" and r: "cluster_reach ids (init_cluster ids rnds) cl"
    and r': "cluster_reach ids cl cl'"
    and i: "i \<in> set ids" "nodeState (cl_nodes cl i) = LEADER"
    and j: "j \<in> set ids" "nodeState (cl_nodes cl' j) = LEADER"
    and same: "currentTerm (cl_nodes cl i) = currentTerm (cl_nodes cl' j)"
  shows "i = j"
proof -
  have inv: "cluster_inv ids cl" by (rule cluster_reach_inv [OF r init_cluster_inv [OF ids] ids])
  have inv': "cluster_inv ids cl'" by (rule cluster_reach_inv [OF r' inv ids])
  let ?t = "currentTerm (cl_nodes cl' j)"
  have "(?t, i) \<in> cl_elected cl'"
    using leader_elected [OF inv i] cluster_reach_elected [OF r'] same by auto
  moreover have "(?t, j) \<in> cl_elected cl'" by (rule leader_elected [OF inv' j])
  ultimately have "quorum ids cl' ?t i" "quorum ids cl' ?t j"
    using inv' by (auto simp: cluster_inv_def elected_ok_def)
  with quorum_unique inv' ids show ?thesis by (auto simp: cluster_inv_def valid_ids_def)
qed

definition ms :: "int \<Rightarrow> int" where
  "ms x = x * 1000000"

definition three :: "uint64 list" where
  "three = [1, 2, 3]"

text \<open>Node 2 wins the first election with the vote of node 1, and appends two entries of its own.\<close>

definition first_term :: "cluster_event list" where
  "first_term = [Local 2 (Tick (ms 200) (ms 200) 150), Deliver 0 0 0 150, Deliver 1 0 0 150, Lose 0,
     Lose 0, Lose 0, Local 2 (Propose ''a''), Lose 0, Lose 0, Local 2 (Propose ''b''), Lose 0, Lose 0]"

definition start :: cluster where
  "start = init_cluster three (\<lambda>_. 150)"

lemma three_valid: "valid_ids three"
  by (simp add: valid_ids_def three_def)

theorem election_safety_witness:
  "\<exists>cl. cluster_reach three start cl \<and> nodeState (cl_nodes cl 2) = LEADER
    \<and> (\<forall>cl' j. cluster_reach three cl cl' \<and> j \<in> set three \<and> nodeState (cl_nodes cl' j) = LEADER
         \<and> currentTerm (cl_nodes cl' j) = 1 \<longrightarrow> j = 2)"
proof -
  have "case cluster_run three first_term start of None \<Rightarrow> False
     | Some cl \<Rightarrow> nodeState (cl_nodes cl 2) = LEADER \<and> currentTerm (cl_nodes cl 2) = 1" by code_simp
  then obtain cl where cl: "cluster_run three first_term start = Some cl"
    "nodeState (cl_nodes cl 2) = LEADER" "currentTerm (cl_nodes cl 2) = 1"
    by (auto split: option.splits)
  have r: "cluster_reach three start cl" by (rule cluster_run_reach [OF cl(1)])
  have "j = 2" if "cluster_reach three cl cl'" "j \<in> set three" "nodeState (cl_nodes cl' j) = LEADER"
    "currentTerm (cl_nodes cl' j) = 1" for cl' j
    using election_safety [OF three_valid r [unfolded start_def] that(1) _ cl(2) that(2,3)] that(4) cl(3)
    by (simp add: three_def)
  with r cl(2) show ?thesis by blast
qed

subsection \<open>Applied entries may differ\<close>

text \<open>
  Node 1 is elected next by node 3. Node 2 answers its first heartbeat, which carries no entry, with
  the index of its own last entry, so the leader takes the two foreign entries for its own and
  commits its first entry without having replicated it. Node 2 is then elected by node 3 and
  replicates and commits what it had.
\<close>

definition second_term :: "cluster_event list" where
  "second_term = [Local 1 (Tick (ms 400) (ms 400) 150), Lose 0, Deliver 0 0 0 150,
     Deliver 0 (ms 400) 0 150, Lose 1, Deliver 0 (ms 400) (ms 400) 150, Deliver 0 0 0 150,
     Local 1 (Propose ''x''), Lose 0, Lose 0, Local 1 (Tick (ms 410) 0 150)]"

definition third_term :: "cluster_event list" where
  "third_term = [Local 2 (Tick (ms 700) (ms 700) 150), Lose 0, Deliver 0 0 0 150,
     Deliver 0 (ms 700) 0 150, Lose 0, Lose 0, Local 2 (Propose ''c''), Lose 0, Deliver 0 0 0 150,
     Deliver 0 0 0 0, Lose 0, Deliver 0 0 0 150, Deliver 0 0 0 150, Lose 0, Deliver 0 0 0 150,
     Deliver 0 0 0 150, Local 2 (Tick (ms 710) 0 150)]"

text \<open>What the nodes hand to their apply callbacks: the node, the index and the command.\<close>

definition applied_calls :: "uint64 \<Rightarrow> raft_effect list \<Rightarrow> (uint64 \<times> uint64 \<times> string) list" where
  "applied_calls i effs = concat (map (\<lambda>e. case e of Apply k c \<Rightarrow> [(i, k, c)] | _ \<Rightarrow> []) effs)"

fun step_applies :: "cluster_event \<Rightarrow> cluster \<Rightarrow> (uint64 \<times> uint64 \<times> string) list" where
  "step_applies (Local i inp) cl = applied_calls i (snd (node_step inp (cl_nodes cl i)))"
| "step_applies (Deliver k now now' rnd) cl = (case cl_net cl ! k of (s, d, m) \<Rightarrow>
     applied_calls d (snd (snd (handleRaftMessage m s now now' rnd (cl_nodes cl d)))))"
| "step_applies e cl = []"

fun run_applies :: "uint64 list \<Rightarrow> cluster_event list \<Rightarrow> cluster \<Rightarrow> (uint64 \<times> uint64 \<times> string) list" where
  "run_applies ids [] cl = []"
| "run_applies ids (e # es) cl = (case cluster_step ids e cl of None \<Rightarrow> []
     | Some cl' \<Rightarrow> step_applies e cl @ run_applies ids es cl')"

fun crash_free :: "cluster_event \<Rightarrow> bool" where
  "crash_free (Restart i ps l now rnd) = False"
| "crash_free (Torn i t v) = False"
| "crash_free e = True"

text \<open>
  C15. State machine safety does not hold: in this execution of three nodes, in which no node ever
  stops, node 1 hands the command \<open>x\<close> at index 1 to its apply callback, and node 2 then the command
  \<open>a\<close> at the same index. When node 1 applies \<open>x\<close> it is a leader that has recorded a match of node 2 up
  to index 2, although the log of node 2 has another entry at index 1 and that of node 3 none.
\<close>

theorem applied_entries_diverge:
  "\<exists>cl cl'. cluster_run three (first_term @ second_term) start = Some cl
     \<and> cluster_run three third_term cl = Some cl'
     \<and> list_all crash_free (first_term @ second_term @ third_term)
     \<and> run_applies three (first_term @ second_term) start = [(1, 1, ''x'')]
     \<and> (2, 1, ''a'') \<in> set (run_applies three third_term cl)
     \<and> nodeState (cl_nodes cl 1) = LEADER \<and> matchIndex (cl_nodes cl 1) 2 = 2
     \<and> le_command (raftLog (cl_nodes cl 2) ! 1) = ''a'' \<and> length (raftLog (cl_nodes cl 3)) = 1"
proof -
  have "case cluster_run three (first_term @ second_term) start of None \<Rightarrow> False
     | Some cl \<Rightarrow> (case cluster_run three third_term cl of None \<Rightarrow> False | Some cl' \<Rightarrow>
         list_all crash_free (first_term @ second_term @ third_term)
         \<and> run_applies three (first_term @ second_term) start = [(1, 1, ''x'')]
         \<and> (2, 1, ''a'') \<in> set (run_applies three third_term cl)
         \<and> nodeState (cl_nodes cl 1) = LEADER \<and> matchIndex (cl_nodes cl 1) 2 = 2
         \<and> le_command (raftLog (cl_nodes cl 2) ! 1) = ''a'' \<and> length (raftLog (cl_nodes cl 3)) = 1)"
    by code_simp
  then show ?thesis by (auto split: option.splits)
qed

end
