(* ===== verification/Log_Matching.thy ===== *)
theory Log_Matching
  imports Election "HOL-Library.Sublist"
begin

text \<open>
  The log matching property of a cluster: entries of two logs with the same index and term are equal,
  and so is everything before them. It rests on election safety: the history of a term is the log of
  its only leader, which grows at the end, and every entry in a log or a message belongs to the
  history of its term. A node may stop and recover a prefix of its log; what \<open>persistRaftState\<close> leaves
  behind is in general not a prefix, see the theory on persistence.
\<close>

subsection \<open>Executions\<close>

text \<open>
  The events of these executions: logs stay far below the size of the address space, and a node that
  restarts has a prefix of the log it had; after a stop in the middle of an event this is the empty one,
  until it restarts.
\<close>

definition max_log :: nat where
  "max_log = 2 ^ 62"

fun event_fits :: "cluster_event \<Rightarrow> cluster \<Rightarrow> bool" where
  "event_fits (Restart i ps l now rnd) cl = prefix (sentinel # l) (raftLog (cl_nodes cl i))"
| "event_fits (Local i (Propose c)) cl = (int (length (raftLog (cl_nodes cl i))) < 2 ^ 62)"
| "event_fits e cl = True"

inductive cluster_exec :: "uint64 list \<Rightarrow> cluster \<Rightarrow> cluster \<Rightarrow> bool" for ids where
  refl: "cluster_exec ids cl cl"
| step: "cluster_exec ids cl cl' \<Longrightarrow> event_fits e cl' \<Longrightarrow> cluster_step ids e cl' = Some cl'' \<Longrightarrow> cluster_exec ids cl cl''"

lemma cluster_exec_reach: "cluster_exec ids a b \<Longrightarrow> cluster_reach ids a b"
  by (induction rule: cluster_exec.induct) (auto intro: cluster_reach.intros)

fun exec_fits :: "uint64 list \<Rightarrow> cluster_event list \<Rightarrow> cluster \<Rightarrow> bool" where
  "exec_fits ids [] cl = True"
| "exec_fits ids (e # es) cl =
     (event_fits e cl \<and> (case cluster_step ids e cl of None \<Rightarrow> False | Some cl' \<Rightarrow> exec_fits ids es cl'))"

lemma cluster_exec_trans: "cluster_exec ids b c \<Longrightarrow> cluster_exec ids a b \<Longrightarrow> cluster_exec ids a c"
  by (induction rule: cluster_exec.induct) (auto intro: cluster_exec.step)

lemma cluster_run_exec:
  "cluster_run ids es cl = Some cl' \<Longrightarrow> exec_fits ids es cl \<Longrightarrow> cluster_exec ids cl cl'"
proof (induction es arbitrary: cl)
  case (Cons e es)
  then obtain m where "cluster_step ids e cl = Some m" "cluster_run ids es m = Some cl'" "exec_fits ids es m" "event_fits e cl"
    by (auto split: option.splits)
  with Cons.IH show ?case by (meson cluster_exec.intros cluster_exec_trans)
qed (simp add: cluster_exec.refl)

subsection \<open>Logs and histories\<close>

text \<open>
  \<open>H t\<close> is the history of term \<open>t\<close>, empty as long as the term has no leader. A log agrees with the
  histories when at each of its entries it is a prefix of the history of the term of that entry.
\<close>

definition agrees :: "(uint64 \<Rightarrow> log_entry list) \<Rightarrow> log_entry list \<Rightarrow> bool" where
  "agrees H l \<longleftrightarrow> l \<noteq> [] \<and> hd l = sentinel
     \<and> (\<forall>k. 0 < k \<and> k < length l \<longrightarrow> prefix (take (Suc k) l) (H (le_term (l ! k))))"

lemma agrees_first: "agrees H l \<Longrightarrow> l ! 0 = sentinel"
  by (metis agrees_def hd_conv_nth)

lemma agreesD: "agrees H l \<Longrightarrow> 0 < k \<Longrightarrow> k < length l \<Longrightarrow> prefix (take (Suc k) l) (H (le_term (l ! k)))"
  by (simp add: agrees_def)

lemma agrees_mono: "agrees H l \<Longrightarrow> (\<And>t. prefix (H t) (H' t)) \<Longrightarrow> agrees H' l"
  unfolding agrees_def by (meson prefix_order.trans)

lemma agrees_prefix: "agrees H l \<Longrightarrow> prefix l' l \<Longrightarrow> l' \<noteq> [] \<Longrightarrow> agrees H l'"
  by (auto simp: agrees_def prefix_def nth_append)

lemma agrees_append:
  assumes "agrees H l" and "prefix (l @ [e]) (H (le_term e))"
  shows "agrees H (l @ [e])"
  using assms by (auto simp: agrees_def nth_append less_Suc_eq)

lemma prefix_take_eq: "prefix (take n a) b \<Longrightarrow> n \<le> length a \<Longrightarrow> take n b = take n a"
  by (auto simp: prefix_def)

text \<open>Two logs that agree with the histories match.\<close>

lemma agrees_match:
  assumes "agrees H a" and "agrees H b" and "k < length a" and "k < length b"
    and "le_term (a ! k) = le_term (b ! k)"
  shows "take (Suc k) a = take (Suc k) b"
proof (cases "k = 0")
  case True
  with assms(1,2) show ?thesis by (cases a; cases b) (auto simp: agrees_def)
next
  case False
  then have "prefix (take (Suc k) a) (H (le_term (a ! k)))" "prefix (take (Suc k) b) (H (le_term (a ! k)))"
    using agreesD [OF assms(1), of k] agreesD [OF assms(2), of k] assms(3-5) by auto
  from prefix_take_eq [OF this(1)] prefix_take_eq [OF this(2)] assms(3,4) show ?thesis by simp
qed

lemma agrees_length:
  assumes "agrees H l" and "\<And>t. length (H t) \<le> m" and "1 \<le> m"
  shows "length l \<le> m"
proof (cases "length l \<le> 1")
  case False
  with agreesD [OF assms(1), of "length l - 1"] have "length l \<le> length (H (le_term (l ! (length l - 1))))"
    using prefix_length_le by fastforce
  with assms(2) show ?thesis using order_trans by blast
qed (use assms(3) in simp)

text \<open>
  The receiver rule keeps the agreement when the entries are a part of a history and the log matches
  the history at the index before them.
\<close>

lemma raft_append_agrees:
  assumes l: "agrees H l" and h: "agrees H h" and p: "p < length l" "p < length h"
    and t: "le_term (l ! p) = le_term (h ! p)" and es: "es = take m (drop (Suc p) h)"
  shows "agrees H (raft_append p es l)"
proof (cases "match_count p es l = length es")
  case False
  let ?k = "match_count p es l"
  have k: "?k < length es" using False match_count_le [of p es l] by simp
  have b: "p + ?k < length l" "p + ?k < length h"
    using match_count_bound [OF p(1), of es] k es p(2) by auto
  have "le_term (l ! (p + ?k)) = le_term (h ! (p + ?k))"
  proof (cases ?k)
    case (Suc j)
    then show ?thesis using match_count_terms [of j p es l] k es p(2) by simp
  qed (use t in simp)
  from agrees_match [OF l h b this] have "take (Suc p + ?k) l = take (Suc p + ?k) h" by simp
  moreover have "drop ?k es = take (m - ?k) (drop (Suc p + ?k) h)"
    by (simp add: es drop_take add.commute)
  ultimately have "raft_append p es l = take (Suc p + ?k + (m - ?k)) h"
    using False by (simp only: raft_append_def Let_def take_add [of "Suc p + ?k" "m - ?k" h] if_False)
  moreover have "take (Suc p + ?k + (m - ?k)) h \<noteq> []" using p(2) by auto
  ultimately show ?thesis using agrees_prefix [OF h take_is_prefix] by simp
qed (use l in \<open>simp add: raft_append_def\<close>)

subsection \<open>Requests\<close>

text \<open>
  A request agrees with the histories when its entries are a part of the history of its term, after
  the index and term it names. Requests without entries, and those that name the index \<open>2\<^sup>6\<^sup>4 - 1\<close>, which
  no log has, are left open: they change no log.
\<close>

definition request_agrees :: "(uint64 \<Rightarrow> log_entry list) \<Rightarrow> append_entries_request \<Rightarrow> bool" where
  "request_agrees H q \<longleftrightarrow> ae_entries q = [] \<or> ae_prev_log_index q = - 1
     \<or> unat (ae_prev_log_index q) < length (H (ae_term q))
       \<and> ae_prev_log_term q = le_term (H (ae_term q) ! unat (ae_prev_log_index q))
       \<and> prefix (ae_entries q) (drop (Suc (unat (ae_prev_log_index q))) (H (ae_term q)))"

lemma prefix_nth: "prefix a b \<Longrightarrow> k < length a \<Longrightarrow> b ! k = a ! k"
  by (auto simp: prefix_def nth_append)

lemma request_agrees_mono:
  assumes "request_agrees H q" and "\<And>t. prefix (H t) (H' t)"
  shows "request_agrees H' q"
proof -
  obtain r where "H' (ae_term q) = H (ae_term q) @ r" using assms(2) by (meson prefixE)
  with assms(1) show ?thesis by (auto simp: request_agrees_def nth_append)
qed

lemma append_msg_agrees:
  assumes "length (raftLog n) < 2 ^ 64" and "H (currentTerm n) = raftLog n" and "raftLog n \<noteq> []"
  shows "request_agrees H (append_entries_of (append_entries_msg n b pid))"
proof -
  let ?x = "nextIndex n pid"
  show ?thesis
  proof (cases "\<not> b \<and> ?x \<le> getLastLogIndex n \<and> ?x \<noteq> 0")
    case True
    then have "unat ?x < length (raftLog n)" using assms by (simp add: getLastLogIndex_def le_last_index)
    moreover have "unat (?x - 1) = unat ?x - 1" "0 < unat ?x" using True by (simp_all add: unat_minus_one word_greater_zero_iff unat_gt_0)
    ultimately show ?thesis using True assms(2)
      by (simp add: request_agrees_def append_entries_msg_def Let_def getLogEntry_def log_at_def)
  next
    case False
    then show ?thesis by (auto simp: request_agrees_def append_entries_msg_def Let_def)
  qed
qed

text \<open>An accepted request with entries appends a part of the history of its term.\<close>

lemma accepted_form:
  assumes H: "agrees H (raftLog n)" "\<And>t. H t \<noteq> [] \<Longrightarrow> agrees H (H t)" "\<And>t. length (H t) \<le> max_log"
    and q: "request_agrees H q" "ae_accepts q n" "ae_entries q \<noteq> []"
  obtains p where "p < length (raftLog n)" and "p < length (H (ae_term q))" and "agrees H (H (ae_term q))"
    and "le_term (raftLog n ! p) = le_term (H (ae_term q) ! p)"
    and "ae_entries q = take (length (ae_entries q)) (drop (Suc p) (H (ae_term q)))"
    and "append_loop (ae_prev_log_index q) (ae_entries q) (raftLog n) = raft_append p (ae_entries q) (raftLog n)"
proof
  let ?p = "unat (ae_prev_log_index q)" and ?h = "H (ae_term q)"
  have len: "length (raftLog n) \<le> max_log" using agrees_length [OF H(1,3)] by (simp add: max_log_def)
  have l: "raftLog n \<noteq> []" using H(1) by (simp add: agrees_def)
  have p: "?p < length (raftLog n)" "0 < ?p \<longrightarrow> le_term (raftLog n ! ?p) = ae_prev_log_term q"
    using q(2) len l by (auto simp: ae_accepts_def getLastLogIndex_def getLogEntry_def log_at_def le_last_index max_log_def word_less_nat_alt)
  have "unat (- 1 :: uint64) = 2 ^ 64 - 1" by (simp add: unsigned_minus_1_eq_mask mask_eq_exp_minus_1)
  then have "ae_prev_log_index q \<noteq> - 1" using p(1) len by (auto simp: max_log_def)
  with q(1,3) have h: "?p < length ?h" "ae_prev_log_term q = le_term (?h ! ?p)" "prefix (ae_entries q) (drop (Suc ?p) ?h)"
    by (auto simp: request_agrees_def)
  show es: "ae_entries q = take (length (ae_entries q)) (drop (Suc ?p) ?h)" using h(3) by (metis append_eq_conv_conj prefixE)
  have "length (ae_entries q) \<le> max_log" using prefix_length_le [OF h(3)] H(3) [of "ae_term q"] by simp
  then show "append_loop (ae_prev_log_index q) (ae_entries q) (raftLog n) = raft_append ?p (ae_entries q) (raftLog n)"
    using p(1) len by (intro append_loop_raft_append) (simp_all add: max_log_def)
  show a: "agrees H ?h" using H(2) h(1) by force
  show "le_term (raftLog n ! ?p) = le_term (?h ! ?p)"
  proof (cases "?p = 0")
    case True
    with agrees_first [OF H(1)] agrees_first [OF a] show ?thesis by simp
  qed (use p(2) h(2) in simp)
  show "?p < length (raftLog n)" "?p < length ?h" using p h by simp_all
qed

lemma accepted_agrees:
  assumes H: "agrees H (raftLog n)" "\<And>t. H t \<noteq> [] \<Longrightarrow> agrees H (H t)" "\<And>t. length (H t) \<le> max_log"
    and q: "request_agrees H q" "ae_accepts q n"
  shows "agrees H (append_loop (ae_prev_log_index q) (ae_entries q) (raftLog n))"
proof (cases "ae_entries q = []")
  case False
  from accepted_form [OF H q False] show ?thesis using raft_append_agrees [OF H(1)] by metis
qed (use H(1) in simp)

subsection \<open>The invariant\<close>

definition logs_ok :: "uint64 list \<Rightarrow> (uint64 \<Rightarrow> log_entry list) \<Rightarrow> cluster \<Rightarrow> bool" where
  "logs_ok ids H cl \<longleftrightarrow> (\<forall>i \<in> set ids. agrees H (raftLog (cl_nodes cl i))
     \<and> (nodeState (cl_nodes cl i) = LEADER \<longrightarrow> raftLog (cl_nodes cl i) = H (currentTerm (cl_nodes cl i))))"

definition histories_ok :: "(uint64 \<Rightarrow> log_entry list) \<Rightarrow> cluster \<Rightarrow> bool" where
  "histories_ok H cl \<longleftrightarrow>
     (\<forall>t. H t \<noteq> [] \<longrightarrow> agrees H (H t) \<and> length (H t) \<le> max_log \<and> (\<exists>i. (t, i) \<in> cl_elected cl))"

definition requests_ok :: "(uint64 \<Rightarrow> log_entry list) \<Rightarrow> cluster \<Rightarrow> bool" where
  "requests_ok H cl \<longleftrightarrow> (\<forall>s d m. (s, d, m) \<in> set (cl_net cl) \<and> rf_type m = APPEND_ENTRIES \<longrightarrow>
     request_agrees H (append_entries_of m) \<and> (ae_term (append_entries_of m), s) \<in> cl_elected cl)"

definition terms_led :: "uint64 list \<Rightarrow> cluster \<Rightarrow> bool" where
  "terms_led ids cl \<longleftrightarrow> (\<forall>t i. (t, i) \<in> cl_elected cl \<longrightarrow> i \<in> set ids \<and> t \<le> currentTerm (cl_nodes cl i)
     \<and> (t = currentTerm (cl_nodes cl i) \<longrightarrow> nodeState (cl_nodes cl i) \<noteq> CANDIDATE))"

definition log_inv :: "uint64 list \<Rightarrow> (uint64 \<Rightarrow> log_entry list) \<Rightarrow> cluster \<Rightarrow> bool" where
  "log_inv ids H cl \<longleftrightarrow> logs_ok ids H cl \<and> histories_ok H cl \<and> requests_ok H cl \<and> terms_led ids cl"

lemma log_invD:
  assumes "log_inv ids H cl"
  shows "i \<in> set ids \<Longrightarrow> agrees H (raftLog (cl_nodes cl i))"
    and "H t \<noteq> [] \<Longrightarrow> agrees H (H t)" and "length (H t) \<le> max_log"
  using assms by (cases "H t = []"; auto simp: log_inv_def logs_ok_def histories_ok_def)+

lemma elected_unique:
  assumes "cluster_inv ids cl" and "valid_ids ids" and "(t, i) \<in> cl_elected cl" and "(t, j) \<in> cl_elected cl"
  shows "i = j"
proof -
  have "quorum ids cl t i" "quorum ids cl t j" using assms by (auto simp: cluster_inv_def elected_ok_def)
  with assms(1,2) quorum_unique show ?thesis by (auto simp: cluster_inv_def valid_ids_def)
qed

text \<open>
  One node changes. What it may do: keep or extend the log as a leader, become leader with the log it
  has, or take over a log that agrees; requests come only from leaders and carry their log.
\<close>

definition leads_on :: "raft_node \<Rightarrow> raft_node \<Rightarrow> bool" where
  "leads_on n n' \<longleftrightarrow> currentTerm n' = currentTerm n \<and>
     (nodeState n \<noteq> FOLLOWER \<and> raftLog n' = raftLog n
      \<or> nodeState n = LEADER \<and> length (raftLog n) < max_log
        \<and> (\<exists>e. le_term e = currentTerm n \<and> raftLog n' = raftLog n @ [e]))"

definition role_step :: "raft_node \<Rightarrow> raft_node \<Rightarrow> bool" where
  "role_step n n' \<longleftrightarrow> currentTerm n \<le> currentTerm n'
     \<and> (nodeState n' = CANDIDATE \<longrightarrow> currentTerm n < currentTerm n' \<or> currentTerm n = currentTerm n' \<and> nodeState n = CANDIDATE)
     \<and> (nodeState n' = LEADER \<longrightarrow> leads_on n n')"

definition from_leader :: "uint64 \<Rightarrow> raft_node \<Rightarrow> uint64 \<times> uint64 \<times> raft_message \<Rightarrow> bool" where
  "from_leader i n x = (case x of (s, d, m) \<Rightarrow> s = i \<and> nodeState n = LEADER
     \<and> (\<exists>n' b p. m = append_entries_msg n' b p \<and> raftLog n' = raftLog n \<and> currentTerm n' = currentTerm n))"

text \<open>How histories grow: by an entry of the leader, or by the log of a candidate that becomes leader.\<close>

definition history_grows :: "uint64 list \<Rightarrow> cluster \<Rightarrow> (uint64 \<Rightarrow> log_entry list) \<Rightarrow> cluster \<Rightarrow> (uint64 \<Rightarrow> log_entry list) \<Rightarrow> bool" where
  "history_grows ids cl H cl' H' \<longleftrightarrow> (\<forall>t. H' t = H t \<or> (\<exists>e. le_term e = t \<and> H t \<noteq> [] \<and> H' t = H t @ [e])
     \<or> H t = [] \<and> (\<exists>i \<in> set ids. nodeState (cl_nodes cl i) = CANDIDATE \<and> currentTerm (cl_nodes cl i) = t
         \<and> nodeState (cl_nodes cl' i) = LEADER \<and> currentTerm (cl_nodes cl' i) = t \<and> H' t = raftLog (cl_nodes cl i)))"

lemma leader_history:
  assumes inv: "cluster_inv ids cl'" "valid_ids ids" "log_inv ids H cl" and i: "i \<in> set ids"
    and el: "cl_elected cl \<subseteq> cl_elected cl'" "(currentTerm n, i) \<in> cl_elected cl'"
    and n: "role_step (cl_nodes cl i) n" "nodeState n = LEADER"
  shows "prefix (H (currentTerm n)) (raftLog n) \<and> length (raftLog n) \<le> max_log
    \<and> agrees (H(currentTerm n := raftLog n)) (raftLog n)
    \<and> (nodeState (cl_nodes cl i) = CANDIDATE \<and> currentTerm (cl_nodes cl i) = currentTerm n \<and> H (currentTerm n) = [] \<and> raftLog n = raftLog (cl_nodes cl i)
       \<or> H (currentTerm n) = raftLog (cl_nodes cl i) \<and> (raftLog n = raftLog (cl_nodes cl i)
          \<or> (\<exists>e. le_term e = currentTerm n \<and> raftLog n = raftLog (cl_nodes cl i) @ [e])))"
proof -
  let ?o = "cl_nodes cl i" and ?H = "H(currentTerm n := raftLog n)"
  have lo: "leads_on ?o n" using n by (simp add: role_step_def)
  have a: "agrees H (raftLog ?o)" using log_invD(1) [OF inv(3) i] .
  have len: "length (raftLog ?o) \<le> max_log" using agrees_length [OF a log_invD(3) [OF inv(3)]] by (simp add: max_log_def)
  have h: "nodeState ?o = CANDIDATE \<and> currentTerm ?o = currentTerm n \<and> H (currentTerm n) = [] \<and> raftLog n = raftLog ?o
    \<or> H (currentTerm n) = raftLog ?o \<and> (raftLog n = raftLog ?o \<or> (\<exists>e. le_term e = currentTerm n \<and> raftLog n = raftLog ?o @ [e]))"
  proof (cases "nodeState ?o = LEADER")
    case True
    then show ?thesis using inv(3) i lo by (auto simp: log_inv_def logs_ok_def leads_on_def)
  next
    case False
    then have c: "nodeState ?o = CANDIDATE" "currentTerm n = currentTerm ?o"
      using lo by (auto simp: leads_on_def) (cases "nodeState ?o"; simp)
    have "H (currentTerm n) = []"
    proof (rule ccontr)
      assume "H (currentTerm n) \<noteq> []"
      then obtain j where j: "(currentTerm n, j) \<in> cl_elected cl" using inv(3) by (auto simp: log_inv_def histories_ok_def)
      with elected_unique [OF inv(1,2) _ el(2)] el(1) have "j = i" by blast
      with j inv(3) c show False by (auto simp: log_inv_def terms_led_def)
    qed
    then show ?thesis using lo c by (auto simp: leads_on_def)
  qed
  then have p: "prefix (H (currentTerm n)) (raftLog ?o)" by auto
  have ext: "prefix (raftLog ?o) (raftLog n)" using lo by (auto simp: leads_on_def)
  then have q: "prefix (H (currentTerm n)) (raftLog n)" using p prefix_order.trans by blast
  then have keep: "agrees ?H l" if "agrees H l" for l by (rule_tac agrees_mono [OF that]) simp
  have "agrees ?H (raftLog n)"
  proof (cases "raftLog n = raftLog ?o")
    case True
    then show ?thesis using keep [OF a] by simp
  next
    case False
    then obtain e where "le_term e = currentTerm n" "raftLog n = raftLog ?o @ [e]" using lo by (auto simp: leads_on_def)
    then show ?thesis using agrees_append [OF keep [OF a], of e] by simp
  qed
  moreover have "length (raftLog n) \<le> max_log" using lo len by (auto simp: leads_on_def)
  ultimately show ?thesis using q h by blast
qed

lemma log_update:
  assumes inv: "cluster_inv ids cl'" "valid_ids ids" "log_inv ids H cl" and i: "i \<in> set ids"
    and cl': "cl_nodes cl' = (cl_nodes cl)(i := n)"
      "cl_elected cl' = cl_elected cl \<union> (if nodeState n = LEADER then {(currentTerm n, i)} else {})"
    and n: "role_step (cl_nodes cl i) n" "nodeState n \<noteq> LEADER \<Longrightarrow> agrees H (raftLog n)"
    and net: "\<And>x. x \<in> set (cl_net cl') \<Longrightarrow> x \<in> set (cl_net cl) \<or> rf_type (snd (snd x)) \<noteq> APPEND_ENTRIES \<or> from_leader i n x"
  shows "\<exists>H'. log_inv ids H' cl' \<and> history_grows ids cl H cl' H'"
proof -
  define H' where "H' = (if nodeState n = LEADER then H(currentTerm n := raftLog n) else H)"
  have lead: "prefix (H (currentTerm n)) (raftLog n)" "length (raftLog n) \<le> max_log" "agrees H' (raftLog n)"
    if "nodeState n = LEADER"
    using leader_history [OF inv i _ _ n(1) that] that cl'(2) by (auto simp: H'_def)
  have grows: "history_grows ids cl H cl' H'"
  proof (cases "nodeState n = LEADER")
    case True
    have "raftLog (cl_nodes cl i) \<noteq> []" using log_invD(1) [OF inv(3) i] by (simp add: agrees_def)
    have "cl_elected cl \<subseteq> cl_elected cl'" "(currentTerm n, i) \<in> cl_elected cl'" using True cl'(2) by auto
    from leader_history [OF inv i this n(1) True] consider
      "nodeState (cl_nodes cl i) = CANDIDATE" "currentTerm (cl_nodes cl i) = currentTerm n" "H (currentTerm n) = []" "raftLog n = raftLog (cl_nodes cl i)"
      | "H (currentTerm n) = raftLog (cl_nodes cl i)" "raftLog n = raftLog (cl_nodes cl i) \<or> (\<exists>e. le_term e = currentTerm n \<and> raftLog n = raftLog (cl_nodes cl i) @ [e])"
      by blast
    then show ?thesis
    proof cases
      case 1
      then show ?thesis using True i by (auto simp: history_grows_def H'_def cl'(1) intro!: bexI [of _ i])
    next
      case 2
      then show ?thesis using True \<open>raftLog (cl_nodes cl i) \<noteq> []\<close> by (auto simp: history_grows_def H'_def)
    qed
  qed (simp add: history_grows_def H'_def)
  have mono: "prefix (H t) (H' t)" for t using lead(1) by (simp add: H'_def)
  have keep: "agrees H' l" if "agrees H l" for l by (rule agrees_mono [OF that]) (rule mono)
  have "logs_ok ids H' cl'"
    unfolding logs_ok_def
  proof (intro ballI conjI impI)
    fix j assume j: "j \<in> set ids"
    show "agrees H' (raftLog (cl_nodes cl' j))"
    proof (cases "j = i")
      case True
      then show ?thesis using lead(3) n(2) by (cases "nodeState n = LEADER") (simp_all add: cl' H'_def)
    next
      case False
      then show ?thesis using keep [OF log_invD(1) [OF inv(3) j]] by (simp add: cl')
    qed
    assume l: "nodeState (cl_nodes cl' j) = LEADER"
    show "raftLog (cl_nodes cl' j) = H' (currentTerm (cl_nodes cl' j))"
    proof (cases "j = i")
      case True
      then show ?thesis using l by (simp add: cl' H'_def)
    next
      case False
      then have o: "raftLog (cl_nodes cl j) = H (currentTerm (cl_nodes cl j))" using inv(3) j l by (auto simp: log_inv_def logs_ok_def cl')
      moreover have "nodeState n = LEADER \<longrightarrow> currentTerm (cl_nodes cl j) \<noteq> currentTerm n"
        using elected_unique [OF inv(1,2), of "currentTerm n" j i] leader_elected [OF inv(1) j l] False by (auto simp: cl')
      ultimately show ?thesis using False by (simp add: cl' H'_def)
    qed
  qed
  moreover have "histories_ok H' cl'"
    using inv(3) lead(2,3) keep unfolding histories_ok_def log_inv_def
    by (cases "nodeState n = LEADER") (auto simp: H'_def cl'(2))
  moreover have "requests_ok H' cl'"
    unfolding requests_ok_def
  proof (intro allI impI)
    fix s d m assume m: "(s, d, m) \<in> set (cl_net cl') \<and> rf_type m = APPEND_ENTRIES"
    from net [of "(s, d, m)"] m consider "(s, d, m) \<in> set (cl_net cl)" | "from_leader i n (s, d, m)" by auto
    then show "request_agrees H' (append_entries_of m) \<and> (ae_term (append_entries_of m), s) \<in> cl_elected cl'"
    proof cases
      case 1
      then show ?thesis using m inv(3) request_agrees_mono [OF _ mono] by (auto simp: log_inv_def requests_ok_def cl'(2))
    next
      case 2
      then obtain n' b p where n': "m = append_entries_msg n' b p" "raftLog n' = raftLog n" "currentTerm n' = currentTerm n"
        "s = i" "nodeState n = LEADER" by (auto simp: from_leader_def)
      have "request_agrees H' (append_entries_of m)"
        unfolding n'(1) using lead(2,3) [OF n'(5)] n' by (intro append_msg_agrees) (auto simp: H'_def max_log_def agrees_def)
      then show ?thesis using n' by (simp add: cl'(2) append_entries_msg_def Let_def)
    qed
  qed
  moreover have "terms_led ids cl'"
    using inv(3) n(1) i unfolding log_inv_def terms_led_def role_step_def
    by (auto simp: cl' split: if_splits) (force dest: order.strict_trans1)+
  ultimately have "log_inv ids H' cl'" by (simp add: log_inv_def)
  then show ?thesis using grows by blast
qed

subsection \<open>Preservation\<close>

lemma local_role_step:
  assumes "is_local inp" and "term_fits inp n" and "\<And>c. inp = Propose c \<Longrightarrow> length (raftLog n) < max_log"
  shows "role_step n (fst (node_step inp n))"
proof -
  have "currentTerm n \<le> currentTerm (fst (node_step inp n))"
    using node_step_vote_order [OF assms(2)] by (rule term_mono)
  with assms show ?thesis
    by (cases inp) (auto simp: role_step_def leads_on_def node_simps resetElectionTimer_def order_less_le split: if_splits)
qed

lemma local_log:
  assumes "is_local inp" and "nodeState (fst (node_step inp n)) \<noteq> LEADER"
  shows "raftLog (fst (node_step inp n)) = raftLog n"
  using assms by (cases inp) (auto simp: node_simps resetElectionTimer_def)

lemma from_leaderI:
  "nodeState n = LEADER \<Longrightarrow> raftLog n' = raftLog n \<Longrightarrow> currentTerm n' = currentTerm n \<Longrightarrow>
     from_leader i n (i, d, append_entries_msg n' b p)"
  unfolding from_leader_def by blast

lemma local_requests:
  assumes "is_local inp" and "x \<in> set (outbox i (snd (node_step inp n)))"
  shows "rf_type (snd (snd x)) \<noteq> APPEND_ENTRIES \<or> from_leader i (fst (node_step inp n)) x"
proof (cases inp)
  case (Tick now now' rnd)
  show ?thesis
  proof (cases "election_due now n")
    case True
    with outbox_tick [of now n i now' rnd] assms(2) Tick show ?thesis by (auto simp: vote_request_of_node_def)
  next
    case False
    with assms(2) Tick show ?thesis
      by (cases "nodeState n")
        (auto simp: tick_def election_due_def Let_def case_prod_unfold node_simps applyEntries_node intro!: from_leaderI split: if_splits)
  qed
next
  case (Propose c)
  with assms(2) show ?thesis
    by (auto simp: propose_def Let_def intro!: from_leaderI split: if_splits)
qed (use assms in simp_all)

lemma message_requests:
  assumes "x \<in> set (outbox i (snd (snd (handleRaftMessage m s now now' rnd n))))"
  shows "from_leader i (fst (snd (handleRaftMessage m s now now' rnd n))) x"
  using assms
  by (cases "rf_type m")
    (auto simp: handleRaftMessage_def Let_def case_prod_unfold processRequestVoteResponse_def processAppendEntriesResponse_def
      handleRequestVote_effs handleAppendEntries_cases ae_receive_def ae_store_def node_simps intro!: from_leaderI split: if_splits)

lemma message_role_step:
  assumes "rf_type m = APPEND_ENTRIES \<Longrightarrow> ae_term (append_entries_of m) = currentTerm n \<Longrightarrow> nodeState n \<noteq> LEADER"
  shows "role_step n (fst (snd (handleRaftMessage m s now now' rnd n)))"
proof -
  have "currentTerm n \<le> currentTerm (fst (snd (handleRaftMessage m s now now' rnd n)))"
    using message_vote_order by (rule term_mono)
  with assms show ?thesis
    unfolding handleRaftMessage_step
    by (cases "rf_type m")
      (auto simp: message_input_def role_step_def leads_on_def node_simps max_def ae_accepts_def split: if_splits)
qed

lemma message_log:
  "raftLog (fst (snd (handleRaftMessage m s now now' rnd n))) =
     (if rf_type m = APPEND_ENTRIES \<and> ae_accepts (append_entries_of m) n
      then append_loop (ae_prev_log_index (append_entries_of m)) (ae_entries (append_entries_of m)) (raftLog n)
      else raftLog n)"
  unfolding handleRaftMessage_step by (cases "rf_type m") (simp_all add: message_input_def node_simps)

lemma replies_not_requests:
  "x \<in> set (replies_of d s (fst (handleRaftMessage m s' now now' rnd n))) \<Longrightarrow> rf_type (snd (snd x)) \<noteq> APPEND_ENTRIES"
  by (cases "rf_type m") (auto simp: replies_of_def handleRaftMessage_reply)

lemma cluster_step_log_inv:
  assumes inv: "cluster_inv ids cl" "valid_ids ids" and log: "log_inv ids H cl"
    and st: "event_fits e cl" "cluster_step ids e cl = Some cl'"
  shows "\<exists>H'. log_inv ids H' cl' \<and> history_grows ids cl H cl' H'"
proof -
  have inv': "cluster_inv ids cl'" by (rule cluster_step_inv [OF inv st(2)])
  show ?thesis
  proof (cases e)
    case (Local i inp)
    let ?n = "cl_nodes cl i"
    from Local st(2) have i: "i \<in> set ids" "is_local inp" "term_fits inp ?n"
      and cl': "cl' = (set_node i (fst (node_step inp ?n)) cl)\<lparr>cl_net := cl_net cl @ outbox i (snd (node_step inp ?n))\<rparr>"
      by (auto simp: Let_def case_prod_unfold split: if_splits)
    have rs: "role_step ?n (fst (node_step inp ?n))"
      by (rule local_role_step [OF i(2,3)]) (use st(1) Local in \<open>simp add: max_log_def\<close>)
    show ?thesis
      by (rule log_update [OF inv' inv(2) log i(1), where n = "fst (node_step inp ?n)"])
        (use rs local_log [OF i(2)] local_requests [OF i(2)] log_invD(1) [OF log i(1)] in \<open>auto simp: cl' set_node_def\<close>)
  next
    case (Deliver k now now' rnd)
    obtain s d m where x: "cl_net cl ! k = (s, d, m)" by (cases "cl_net cl ! k")
    let ?h = "handleRaftMessage m s now now' rnd (cl_nodes cl d)"
    from Deliver st(2) have k: "k < length (cl_net cl)"
      and cl': "cl' = (set_node d (fst (snd ?h)) (count_vote s d m cl))\<lparr>cl_net :=
          remove_nth k (cl_net cl) @ outbox d (snd (snd ?h)) @ replies_of d s (fst ?h)\<rparr>"
      by (auto simp: x Let_def case_prod_unfold replies_of_def split: if_splits cong: option.case_cong)
    have mem: "(s, d, m) \<in> set (cl_net cl)" using k x by (metis nth_mem)
    then have sd: "d \<in> set ids" "s \<noteq> d" using inv(1) by (auto simp: cluster_inv_def net_ok_def msg_ok_def)
    have req: "request_agrees H (append_entries_of m)" "(ae_term (append_entries_of m), s) \<in> cl_elected cl"
      if "rf_type m = APPEND_ENTRIES" using log mem that by (auto simp: log_inv_def requests_ok_def)
    have "nodeState (cl_nodes cl d) \<noteq> LEADER"
      if "rf_type m = APPEND_ENTRIES" "ae_term (append_entries_of m) = currentTerm (cl_nodes cl d)"
      using elected_unique [OF inv req(2) [OF that(1)]] leader_elected [OF inv(1) sd(1)] that(2) sd(2) by metis
    then have rs: "role_step (cl_nodes cl d) (fst (snd ?h))" by (rule message_role_step)
    have "agrees H (raftLog (fst (snd ?h)))"
      using log_invD [OF log] sd(1) req(1) by (auto simp: message_log intro!: accepted_agrees)
    moreover have "x \<in> set (cl_net cl) \<or> rf_type (snd (snd x)) \<noteq> APPEND_ENTRIES \<or> from_leader d (fst (snd ?h)) x"
      if "x \<in> set (cl_net cl')" for x
      using that message_requests [of x d m s now now' rnd "cl_nodes cl d"] replies_not_requests [of x d s m s now now' rnd "cl_nodes cl d"] set_remove_nth [of k "cl_net cl"]
      by (auto simp: cl')
    ultimately show ?thesis
      by (intro log_update [OF inv' inv(2) log sd(1), where n = "fst (snd ?h)"]) (use rs in \<open>auto simp: cl' set_node_def\<close>)
  next
    case (Lose k)
    with st(2) have "cl' = cl\<lparr>cl_net := remove_nth k (cl_net cl)\<rparr>" by simp
    then have "log_inv ids H cl'" using log set_remove_nth [of k "cl_net cl"]
      unfolding log_inv_def logs_ok_def histories_ok_def requests_ok_def terms_led_def by auto
    then show ?thesis by (intro exI [of _ H]) (simp add: history_grows_def)
  next
    case (Restart i ps l now rnd)
    let ?n = "cl_nodes cl i"
    let ?m = "loadPersistedState (currentTerm ?n) (votedFor ?n) l (new_node (nodeId ?n) ps now rnd)"
    from Restart st(2) have i: "i \<in> set ids" and cl': "cl' = set_node i ?m cl" by (auto simp: Let_def split: if_splits)
    have m: "raftLog ?m = sentinel # l" "currentTerm ?m = currentTerm ?n" "nodeState ?m = FOLLOWER"
      by (simp_all add: loadPersistedState_def new_node_def)
    have "prefix (sentinel # l) (raftLog ?n)" using st(1) Restart by simp
    then have "agrees H (raftLog ?m)" unfolding m using agrees_prefix [OF log_invD(1) [OF log i]] by simp
    then show ?thesis
      by (intro log_update [OF inv' inv(2) log i, where n = ?m]) (auto simp: cl' set_node_def role_step_def m)
  next
    case (Torn i t v)
    let ?n = "cl_nodes cl i"
    let ?m = "loadPersistedState t v [] (new_node (nodeId ?n) (peerIds ?n) 0 0)"
    from Torn st(2) have i: "i \<in> set ids" and t: "currentTerm ?n < t" and cl': "cl' = set_node i ?m cl"
      by (auto simp: Let_def split: if_splits)
    have m: "raftLog ?m = [sentinel]" "currentTerm ?m = t" "nodeState ?m = FOLLOWER"
      by (simp_all add: loadPersistedState_def new_node_def)
    have "agrees H (raftLog ?m)" unfolding m by (simp add: agrees_def)
    then show ?thesis
      by (intro log_update [OF inv' inv(2) log i, where n = ?m])
        (use t in \<open>auto simp: cl' set_node_def role_step_def m\<close>)
  qed
qed

lemma cluster_exec_log_inv:
  assumes "cluster_exec ids (init_cluster ids rnds) cl" and "valid_ids ids"
  shows "\<exists>H. log_inv ids H cl"
  using assms
proof (induction "init_cluster ids rnds" cl rule: cluster_exec.induct)
  case refl
  have "log_inv ids (\<lambda>_. []) (init_cluster ids rnds)"
    by (auto simp: log_inv_def logs_ok_def histories_ok_def requests_ok_def terms_led_def init_cluster_def agrees_def new_node_def)
  then show ?case by blast
next
  case (step cl' e cl'')
  have "cluster_inv ids cl'"
    by (rule cluster_reach_inv [OF cluster_exec_reach [OF step.hyps(1)] init_cluster_inv [OF step.prems] step.prems])
  with step cluster_step_log_inv show ?case by blast
qed


text \<open>Node 2 leads the first term, appends an entry, and node 1 gets it.\<close>

definition replicate_one :: "cluster_event list" where
  "replicate_one = take 7 first_term @ [Deliver 0 0 0 150]"


end
