(* ===== verification/Leader_Completeness.thy ===== *)
theory Leader_Completeness
  imports Log_Matching
begin

text \<open>
  Leader completeness: an entry that a majority of the nodes holds, in the term in which it was proposed,
  is in the log of every later leader. The votes tie the logs together: a voter grants its vote only
  when the log of the candidate is at least as recent as its own. What the leader takes for a majority
  is another matter, see \<open>applied_entries_diverge\<close>.
\<close>

subsection \<open>Entries of histories\<close>

definition holds_entry :: "(uint64 \<Rightarrow> log_entry list) \<Rightarrow> uint64 \<Rightarrow> nat \<Rightarrow> log_entry list \<Rightarrow> bool" where
  "holds_entry H t k l \<longleftrightarrow> k < length l \<and> take (Suc k) l = take (Suc k) (H t)"

text \<open>The leader of term \<open>w\<close> lacks entry \<open>k\<close> of term \<open>t\<close>; some leader between \<open>t\<close> and \<open>u\<close> does.\<close>

definition lacks :: "(uint64 \<Rightarrow> log_entry list) \<Rightarrow> uint64 \<Rightarrow> nat \<Rightarrow> uint64 \<Rightarrow> bool" where
  "lacks H t k w \<longleftrightarrow> H w \<noteq> [] \<and> \<not> holds_entry H t k (H w)"

definition lost_before :: "(uint64 \<Rightarrow> log_entry list) \<Rightarrow> uint64 \<Rightarrow> nat \<Rightarrow> uint64 \<Rightarrow> bool" where
  "lost_before H t k u \<longleftrightarrow> (\<exists>w. t < w \<and> w < u \<and> lacks H t k w)"

definition term_order :: "(uint64 \<Rightarrow> log_entry list) \<Rightarrow> bool" where
  "term_order H \<longleftrightarrow> (\<forall>t. sorted (map le_term (H t)))"

lemma holds_prefix: "holds_entry H t k l \<Longrightarrow> prefix l l' \<Longrightarrow> holds_entry H t k l'"
  by (auto simp: holds_entry_def prefix_def)

lemma holds_nth: "holds_entry H t k l \<Longrightarrow> j \<le> k \<Longrightarrow> l ! j = H t ! j"
  unfolding holds_entry_def by (metis le_imp_less_Suc nth_take)

lemma holds_own: "k < length (H t) \<Longrightarrow> holds_entry H t k (H t)"
  by (simp add: holds_entry_def)

lemma holds_agrees: "agrees H l \<Longrightarrow> 0 < k \<Longrightarrow> k < length l \<Longrightarrow> le_term (l ! k) = t \<Longrightarrow> holds_entry H t k l \<and> k < length (H t) \<and> H t ! k = l ! k"
  using agreesD [of H l k] prefix_take_eq [of "Suc k" l "H t"] prefix_length_le [of "take (Suc k) l" "H t"] prefix_nth [of "take (Suc k) l" "H t" k]
  by (auto simp: holds_entry_def)

lemma agrees_sorted:
  assumes "agrees H l" and "term_order H"
  shows "sorted (map le_term l)"
proof (cases "length l \<le> 1")
  case True
  then show ?thesis by (cases l) auto
next
  case False
  then have "prefix l (H (le_term (l ! (length l - 1))))" using agreesD [OF assms(1), of "length l - 1"] by simp
  then obtain r where "H (le_term (l ! (length l - 1))) = l @ r" by (rule prefixE)
  moreover have "sorted (map le_term (H (le_term (l ! (length l - 1)))))" using assms(2) by (simp add: term_order_def)
  ultimately show ?thesis by (simp add: sorted_append)
qed

text \<open>The comparison of logs in \<open>handleRequestVote\<close>: the log of the candidate holds what the voter holds.\<close>

lemma recent_log_holds:
  assumes ord: "term_order H" and l: "agrees H l" and c: "agrees H lc" "\<forall>e \<in> set lc. le_term e < u"
    and k: "0 < k" "holds_entry H t k l" "le_term (H t ! k) = t"
    and len: "length l < 2 ^ 64" "length lc < 2 ^ 64"
    and rec: "le_term (last lc) > le_term (last l) \<or> le_term (last lc) = le_term (last l) \<and> last_index lc \<ge> last_index l"
  shows "holds_entry H t k lc \<or> lost_before H t k u"
proof -
  let ?T = "le_term (last lc)" and ?m = "length lc - 1"
  have kl: "k < length l" "le_term (l ! k) = t" using k holds_nth [OF k(2), of k] by (auto simp: holds_entry_def)
  have ne: "l \<noteq> []" "lc \<noteq> []" using l c by (auto simp: agrees_def)
  have "sorted (map le_term l)" using agrees_sorted [OF l ord] .
  then have tS: "t \<le> le_term (last l)" using kl ne by (auto simp: last_conv_nth sorted_iff_nth_mono dest: spec [of _ k])
  show ?thesis
  proof (cases "?T = le_term (last l)")
    case True
    with rec have "last_index l \<le> last_index lc" by auto
    then have le: "length l \<le> length lc"
      using ne len by (auto simp: le_last_index) (simp add: last_index_def word_nat64)
    have "take (length l) lc = l"
    proof -
      have p: "prefix l (H ?T)" using agreesD [OF l, of "length l - 1"] kl k(1) True ne by (simp add: last_conv_nth)
      have "prefix lc (H ?T)" using agreesD [OF c(1), of ?m] kl k(1) le ne by (simp add: last_conv_nth)
      with p le show ?thesis by (metis prefix_length_prefix append_eq_conv_conj prefixE)
    qed
    then have "prefix l lc" by (metis take_is_prefix)
    then show ?thesis using holds_prefix [OF k(2)] by blast
  next
    case False
    with rec have T: "le_term (last l) < ?T" by auto
    then have "lc ! ?m \<noteq> sentinel" using ne by (auto simp: last_conv_nth sentinel_def)
    then have m: "0 < ?m" using agrees_first [OF c(1)] by (cases "?m = 0") auto
    then have p: "prefix lc (H ?T)" using agreesD [OF c(1), of ?m] ne by (simp add: last_conv_nth)
    have tT: "t < ?T" "?T < u" using T tS c(2) ne by auto
    show ?thesis
    proof (cases "holds_entry H t k (H ?T)")
      case False
      then show ?thesis using tT p ne by (auto simp: lost_before_def lacks_def)
    next
      case True
      have "k < ?m"
      proof (rule ccontr)
        assume "\<not> k < ?m"
        moreover have "k < length (H ?T)" "le_term (H ?T ! k) = t" using True holds_nth [OF True, of k] k(3) by (auto simp: holds_entry_def)
        moreover have "le_term (H ?T ! ?m) = ?T" using prefix_nth [OF p, of ?m] ne by (simp add: last_conv_nth)
        moreover have "sorted (map le_term (H ?T))" using ord by (simp add: term_order_def)
        ultimately have "?T \<le> t" by (auto simp: sorted_iff_nth_mono dest: spec [of _ ?m])
        with tT show False by simp
      qed
      moreover have "take (Suc k) lc = take (Suc k) (H ?T)" using p \<open>k < ?m\<close> by (auto simp: prefix_def)
      ultimately show ?thesis using True by (auto simp: holds_entry_def)
    qed
  qed
qed

text \<open>What a request appends keeps an entry that the log and the history of the request hold.\<close>

lemma match_count_ge:
  "(\<And>i. i < j \<Longrightarrow> i < length es \<and> Suc p + i < length l \<and> le_term (l ! (Suc p + i)) = le_term (es ! i)) \<Longrightarrow> j \<le> match_count p es l"
proof (induction p es l arbitrary: j rule: match_count.induct)
  case (2 p e es l)
  show ?case
  proof (cases j)
    case (Suc i)
    then have "Suc p < length l \<and> le_term (l ! Suc p) = le_term e" using "2.prems" [of 0] by simp
    moreover from this have "i \<le> match_count (Suc p) es l"
      using "2.prems" [of "Suc _"] Suc by (intro "2.IH") auto
    ultimately show ?thesis using Suc by simp
  qed simp
qed force

lemma raft_append_holds:
  assumes l: "holds_entry H t k l" and h: "holds_entry H t k h" and p: "p < length l" "p < length h"
    and es: "es = take m (drop (Suc p) h)"
  shows "holds_entry H t k (raft_append p es l)"
proof (cases "match_count p es l = length es")
  case False
  let ?c = "match_count p es l"
  have c: "?c < length es" using False match_count_le [of p es l] by simp
  have same: "l ! i = h ! i" if "i \<le> k" for i using holds_nth [OF l that] holds_nth [OF h that] by simp
  have "min (length es) (k - p) \<le> ?c"
    using l by (intro match_count_ge) (auto simp: same es holds_entry_def)
  then have "k < Suc p + ?c" using c by auto
  then have "take (Suc k) (take (Suc p + ?c) l @ drop ?c es) = take (Suc k) l" "k < length (take (Suc p + ?c) l @ drop ?c es)"
    using l by (auto simp: holds_entry_def min_def)
  moreover have "raft_append p es l = take (Suc p + ?c) l @ drop ?c es" using False by (simp add: raft_append_def Let_def)
  ultimately show ?thesis using l unfolding holds_entry_def by presburger
qed (use l in \<open>simp add: raft_append_def\<close>)

subsection \<open>Growing histories\<close>

lemma grows_prefix: "history_grows ids cl H cl' H' \<Longrightarrow> prefix (H t) (H' t)"
  by (auto simp: history_grows_def dest: spec [of _ t])

lemma grows_holds:
  assumes "history_grows ids cl H cl' H'" and "k < length (H t)"
  shows "holds_entry H' t k l \<longleftrightarrow> holds_entry H t k l" and "k < length (H' t)" and "H' t ! k = H t ! k"
  using grows_prefix [OF assms(1), of t] assms(2) by (auto simp: holds_entry_def prefix_def nth_append)

lemma grows_lacks:
  assumes g: "history_grows ids cl H cl' H'" and k: "k < length (H t)" "le_term (H t ! k) = t" and w: "lacks H t k w" "t < w"
  shows "lacks H' t k w"
proof -
  from w g have "H' w = H w \<or> (\<exists>e. le_term e = w \<and> H' w = H w @ [e])" by (auto simp: lacks_def history_grows_def)
  then show ?thesis
  proof (elim disjE exE conjE)
    fix e assume e: "le_term e = w" "H' w = H w @ [e]"
    have "\<not> holds_entry H t k (H w @ [e])"
    proof
      assume h: "holds_entry H t k (H w @ [e])"
      show False
      proof (cases "k < length (H w)")
        case True
        then show False using h w(1) by (simp add: holds_entry_def lacks_def)
      next
        case False
        with h have "k = length (H w)" by (simp add: holds_entry_def)
        then have "e = H t ! k" using holds_nth [OF h, of k] by simp
        with e(1) k(2) w(2) show False by simp
      qed
    qed
    then show ?thesis using e(2) grows_holds(1) [OF g k(1)] by (simp add: lacks_def)
  qed (use w in \<open>simp add: lacks_def grows_holds(1) [OF g k(1)]\<close>)
qed

lemma grows_lost:
  "history_grows ids cl H cl' H' \<Longrightarrow> k < length (H t) \<Longrightarrow> le_term (H t ! k) = t \<Longrightarrow> lost_before H t k u \<Longrightarrow> lost_before H' t k u"
  unfolding lost_before_def using grows_lacks by blast

subsection \<open>Steps of one node\<close>

text \<open>
  A node becomes a candidate; its log changes; it casts a vote; vote requests appear in the network.
\<close>

definition new_candidate :: "uint64 \<Rightarrow> raft_node \<Rightarrow> raft_node \<Rightarrow> bool" where
  "new_candidate i m n \<longleftrightarrow> nodeState n = CANDIDATE \<and> currentTerm m < currentTerm n \<and> votedFor n = i \<and> raftLog n = raftLog m"

definition log_move :: "(uint64 \<Rightarrow> log_entry list) \<Rightarrow> raft_node \<Rightarrow> raft_node \<Rightarrow> bool" where
  "log_move H m n \<longleftrightarrow> raftLog n = raftLog m
     \<or> nodeState n = LEADER \<and> (\<exists>e. raftLog n = raftLog m @ [e] \<and> le_term e = currentTerm n)
     \<or> (\<exists>q. request_agrees H q \<and> ae_accepts q m \<and> H (ae_term q) \<noteq> [] \<and> currentTerm n = ae_term q
          \<and> raftLog n = append_loop (ae_prev_log_index q) (ae_entries q) (raftLog m))"

definition vote_move :: "cluster \<Rightarrow> uint64 \<Rightarrow> raft_node \<Rightarrow> raft_node \<Rightarrow> bool" where
  "vote_move cl i m n \<longleftrightarrow> votedFor n = 0 \<or> votedFor n = votedFor m \<and> currentTerm n = currentTerm m \<or> new_candidate i m n
     \<or> (\<exists>x. (votedFor n, i, x) \<in> set (cl_net cl) \<and> rf_type x = REQUEST_VOTE \<and> vote_granted (request_vote_of x) m
          \<and> currentTerm n = rv_term (request_vote_of x) \<and> raftLog n = raftLog m)"

definition candidate_request :: "uint64 \<Rightarrow> raft_node \<Rightarrow> raft_node \<Rightarrow> uint64 \<times> uint64 \<times> raft_message \<Rightarrow> bool" where
  "candidate_request i m n x = (case x of (s, d, y) \<Rightarrow> s = i \<and> new_candidate i m n \<and> request_vote_of y =
     \<lparr>rv_term = currentTerm n, rv_candidate_id = i, rv_last_log_index = getLastLogIndex m, rv_last_log_term = getLastLogTerm m\<rparr>)"

definition node_move :: "uint64 list \<Rightarrow> (uint64 \<Rightarrow> log_entry list) \<Rightarrow> cluster \<Rightarrow> uint64 \<Rightarrow> cluster \<Rightarrow> bool" where
  "node_move ids H cl i cl' \<longleftrightarrow> i \<in> set ids \<and> cl_nodes cl' = (cl_nodes cl)(i := cl_nodes cl' i)
     \<and> cl_ballots cl' = cl_ballots (set_node i (cl_nodes cl' i) cl) \<and> cl_elected cl' = cl_elected (set_node i (cl_nodes cl' i) cl)
     \<and> role_step (cl_nodes cl i) (cl_nodes cl' i) \<and> log_move H (cl_nodes cl i) (cl_nodes cl' i)
     \<and> vote_move cl i (cl_nodes cl i) (cl_nodes cl' i)
     \<and> (nodeState (cl_nodes cl' i) = CANDIDATE \<longrightarrow> new_candidate i (cl_nodes cl i) (cl_nodes cl' i)
         \<or> nodeState (cl_nodes cl i) = CANDIDATE \<and> currentTerm (cl_nodes cl' i) = currentTerm (cl_nodes cl i))
     \<and> (\<forall>x \<in> set (cl_net cl'). rf_type (snd (snd x)) = REQUEST_VOTE \<longrightarrow>
         x \<in> set (cl_net cl) \<or> candidate_request i (cl_nodes cl i) (cl_nodes cl' i) x)"

text \<open>The executions: nodes restart with the log they had.\<close>

fun keeps_log :: "cluster_event \<Rightarrow> cluster \<Rightarrow> bool" where
  "keeps_log (Restart i ps l now rnd) cl = (sentinel # l = raftLog (cl_nodes cl i))"
| "keeps_log (Torn i t v) cl = False"
| "keeps_log e cl = event_fits e cl"

lemma keeps_log_fits: "keeps_log e cl \<Longrightarrow> event_fits e cl"
  by (cases e) auto

inductive durable_exec :: "uint64 list \<Rightarrow> cluster \<Rightarrow> cluster \<Rightarrow> bool" for ids where
  refl: "durable_exec ids cl cl"
| step: "durable_exec ids cl cl' \<Longrightarrow> keeps_log e cl' \<Longrightarrow> cluster_step ids e cl' = Some cl'' \<Longrightarrow> durable_exec ids cl cl''"

lemma local_moves:
  assumes "is_local inp" and "term_fits inp m" and "nodeId m = i"
  shows "log_move H m (fst (node_step inp m))" and "vote_move cl i m (fst (node_step inp m))"
    and "nodeState (fst (node_step inp m)) = CANDIDATE \<Longrightarrow> new_candidate i m (fst (node_step inp m))
      \<or> nodeState m = CANDIDATE \<and> currentTerm (fst (node_step inp m)) = currentTerm m"
  using assms word_less_plus_one [of "currentTerm m"]
  by (cases inp; auto simp: log_move_def vote_move_def new_candidate_def node_simps resetElectionTimer_def)+

lemma local_vote_requests:
  assumes "is_local inp" and "term_fits inp m" and "nodeId m = i" and "x \<in> set (outbox i (snd (node_step inp m)))"
    and "rf_type (snd (snd x)) = REQUEST_VOTE"
  shows "candidate_request i m (fst (node_step inp m)) x"
proof (cases inp)
  case (Tick now now' rnd)
  show ?thesis
  proof (cases "election_due now m")
    case True
    with outbox_tick [of now m i now' rnd] assms Tick word_less_plus_one [of "currentTerm m"] show ?thesis
      by (auto simp: candidate_request_def new_candidate_def vote_request_of_node_def node_simps)
  next
    case False
    with outbox_tick [of now m i now' rnd] assms Tick show ?thesis by (auto simp: append_traffic_def list_all_iff)
  qed
qed (use assms in \<open>auto simp: propose_def Let_def split: if_splits\<close>)

lemma received_moves:
  assumes n_def: "n = fst (snd (handleRaftMessage x s now now' rnd m))"
    and "rf_type x = APPEND_ENTRIES \<Longrightarrow> request_agrees H (append_entries_of x) \<and> H (ae_term (append_entries_of x)) \<noteq> []"
    and "(s, i, x) \<in> set (cl_net cl)" and "rf_type x = REQUEST_VOTE \<Longrightarrow> rv_candidate_id (request_vote_of x) = s"
  shows "log_move H m n" and "vote_move cl i m n"
    and "nodeState n = CANDIDATE \<Longrightarrow> nodeState m = CANDIDATE \<and> currentTerm n = currentTerm m"
proof -
  show "log_move H m n"
    using assms(2) unfolding n_def handleRaftMessage_step
    by (cases "rf_type x") (auto simp: message_input_def node_simps log_move_def max_def ae_accepts_def)
  show "vote_move cl i m n"
    using assms(3,4) unfolding n_def handleRaftMessage_step
    by (cases "rf_type x") (auto simp: message_input_def node_simps vote_move_def max_def vote_granted_def intro!: exI [of _ x])
  show "nodeState n = CANDIDATE \<Longrightarrow> nodeState m = CANDIDATE \<and> currentTerm n = currentTerm m"
    unfolding n_def handleRaftMessage_step
    by (cases "rf_type x") (auto simp: message_input_def node_simps max_def split: if_splits)
qed

text \<open>Every event is a step of one node, or loses a message.\<close>

lemma local_node_move:
  assumes inv: "cluster_inv ids cl" "valid_ids ids" and log: "log_inv ids H cl" and led: "\<forall>t i. (t, i) \<in> cl_elected cl \<longrightarrow> H t \<noteq> []"
    and st: "keeps_log e cl" "cluster_step ids e cl = Some cl'"
    and Local: "e = Local i inp"
  shows "node_move ids H cl i cl'"
proof -
  let ?n = "cl_nodes cl i"
  from Local st(2) have i: "i \<in> set ids" "is_local inp" "term_fits inp ?n"
    and cl': "cl' = (set_node i (fst (node_step inp ?n)) cl)\<lparr>cl_net := cl_net cl @ outbox i (snd (node_step inp ?n))\<rparr>"
    by (auto simp: Let_def case_prod_unfold split: if_splits)
  have n: "nodeId ?n = i" using inv(1) i(1) by (simp add: cluster_inv_def config_ok_def)
  have "role_step ?n (fst (node_step inp ?n))"
    by (rule local_role_step [OF i(2,3)]) (use keeps_log_fits [OF st(1)] Local in \<open>simp add: max_log_def\<close>)
  then show "node_move ids H cl i cl'"
    using local_moves [OF i(2,3) n] local_vote_requests [OF i(2,3) n] i(1) unfolding node_move_def by (auto simp: cl' set_node_def)
qed

lemma deliver_node_move:
  assumes inv: "cluster_inv ids cl" "valid_ids ids" and log: "log_inv ids H cl" and led: "\<forall>t i. (t, i) \<in> cl_elected cl \<longrightarrow> H t \<noteq> []"
    and st: "keeps_log e cl" "cluster_step ids e cl = Some cl'"
    and Deliver: "e = Deliver k now now' rnd" and x: "cl_net cl ! k = (s, d, m)"
  shows "node_move ids H cl d cl'"
proof -
  let ?h = "handleRaftMessage m s now now' rnd (cl_nodes cl d)"
  from Deliver st(2) have k: "k < length (cl_net cl)"
    and cl': "cl' = (set_node d (fst (snd ?h)) (count_vote s d m cl))\<lparr>cl_net :=
        remove_nth k (cl_net cl) @ outbox d (snd (snd ?h)) @ replies_of d s (fst ?h)\<rparr>"
    by (auto simp: x Let_def case_prod_unfold replies_of_def split: if_splits cong: option.case_cong)
  have mem: "(s, d, m) \<in> set (cl_net cl)" using k x by (metis nth_mem)
  then have ok: "msg_ok ids cl (s, d, m)" using inv(1) by (auto simp: cluster_inv_def net_ok_def)
  then have sd: "d \<in> set ids" "s \<noteq> d" by (auto simp: msg_ok_def)
  have req: "request_agrees H (append_entries_of m)" "(ae_term (append_entries_of m), s) \<in> cl_elected cl"
    if "rf_type m = APPEND_ENTRIES" using log mem that by (auto simp: log_inv_def requests_ok_def)
  have "nodeState (cl_nodes cl d) \<noteq> LEADER"
    if "rf_type m = APPEND_ENTRIES" "ae_term (append_entries_of m) = currentTerm (cl_nodes cl d)"
    using elected_unique [OF inv req(2) [OF that(1)]] leader_elected [OF inv(1) sd(1)] that(2) sd(2) by metis
  then have rs: "role_step (cl_nodes cl d) (fst (snd ?h))" by (rule message_role_step)
  have cand: "rf_type m = REQUEST_VOTE \<Longrightarrow> rv_candidate_id (request_vote_of m) = s" using ok by (simp add: msg_ok_def)
  have "rf_type m = APPEND_ENTRIES \<Longrightarrow> request_agrees H (append_entries_of m) \<and> H (ae_term (append_entries_of m)) \<noteq> []"
    using req led by blast
  note mv = received_moves [OF HOL.refl this mem cand, where now = now and now' = now' and rnd = rnd and m = "cl_nodes cl d"]
  have net: "x \<in> set (cl_net cl)" if "x \<in> set (cl_net cl')" "rf_type (snd (snd x)) = REQUEST_VOTE" for x
  proof -
    have "rf_type (snd (snd y)) \<noteq> REQUEST_VOTE" if "y \<in> set (replies_of d s (fst ?h))" for y
      using that by (cases "rf_type m") (auto simp: replies_of_def handleRaftMessage_reply)
    moreover have "rf_type (snd (snd y)) = APPEND_ENTRIES" if "y \<in> set (outbox d (snd (snd ?h)))" for y
      using outbox_message [of d m s now now' rnd "cl_nodes cl d"] that by (auto simp: append_traffic_def list_all_iff)
    moreover have "x \<in> set (remove_nth k (cl_net cl)) \<or> x \<in> set (outbox d (snd (snd ?h))) \<or> x \<in> set (replies_of d s (fst ?h))"
      using that(1) by (simp add: cl')
    ultimately show ?thesis using that(2) set_remove_nth [of k "cl_net cl"] by fastforce
  qed
  show "node_move ids H cl d cl'"
    unfolding node_move_def using sd(1) rs mv net by (auto simp: cl' set_node_def)
qed

lemma restart_node_move:
  assumes inv: "cluster_inv ids cl" "valid_ids ids" and log: "log_inv ids H cl" and led: "\<forall>t i. (t, i) \<in> cl_elected cl \<longrightarrow> H t \<noteq> []"
    and st: "keeps_log e cl" "cluster_step ids e cl = Some cl'"
    and Restart: "e = Restart i ps l now rnd"
  shows "node_move ids H cl i cl'"
proof -
  let ?n = "cl_nodes cl i"
  let ?m = "loadPersistedState (currentTerm ?n) (votedFor ?n) l (new_node (nodeId ?n) ps now rnd)"
  from Restart st(2) have i: "i \<in> set ids" and cl': "cl' = set_node i ?m cl" by (auto simp: Let_def split: if_splits)
  have "raftLog ?m = raftLog ?n" "currentTerm ?m = currentTerm ?n" "votedFor ?m = votedFor ?n" "nodeState ?m = FOLLOWER"
    using st(1) Restart by (simp_all add: loadPersistedState_def new_node_def)
  then show "node_move ids H cl i cl'" unfolding node_move_def using i
    by (simp add: cl' log_move_def vote_move_def role_step_def set_node_def)
qed

lemma cluster_step_moves:
  assumes inv: "cluster_inv ids cl" "valid_ids ids" and log: "log_inv ids H cl" and led: "\<forall>t i. (t, i) \<in> cl_elected cl \<longrightarrow> H t \<noteq> []"
    and st: "keeps_log e cl" "cluster_step ids e cl = Some cl'"
  shows "(\<exists>k. cl' = cl\<lparr>cl_net := remove_nth k (cl_net cl)\<rparr>) \<or> (\<exists>i. node_move ids H cl i cl')"
proof (cases e)
  case (Local i inp)
  then show ?thesis using local_node_move [OF assms] by blast
next
  case (Deliver k now now' rnd)
  moreover obtain s d m where "cl_net cl ! k = (s, d, m)" by (cases "cl_net cl ! k")
  ultimately show ?thesis using deliver_node_move [OF assms] by blast
next
  case (Lose k)
  then show ?thesis using st(2) by auto
next
  case (Restart i ps l now rnd)
  then show ?thesis using restart_node_move [OF assms] by blast
qed (use st(1) in simp)

subsection \<open>The invariant\<close>

text \<open>
  \<open>A\<close> holds the triples of a node, a term and an index such that the node held that entry of the term
  while it was in that term; \<open>C u c\<close> is the log with which \<open>c\<close> became a candidate in term \<open>u\<close>.
\<close>

definition log_terms_ok :: "uint64 list \<Rightarrow> (uint64 \<Rightarrow> log_entry list) \<Rightarrow> cluster \<Rightarrow> bool" where
  "log_terms_ok ids H cl \<longleftrightarrow> term_order H \<and> (\<forall>t. \<forall>e \<in> set (H t). le_term e \<le> t)
     \<and> (\<forall>i \<in> set ids. \<forall>e \<in> set (raftLog (cl_nodes cl i)). le_term e \<le> currentTerm (cl_nodes cl i))
     \<and> (\<forall>t i. (t, i) \<in> cl_elected cl \<longrightarrow> H t \<noteq> [])"

definition held_ok :: "uint64 list \<Rightarrow> (uint64 \<Rightarrow> log_entry list) \<Rightarrow> (uint64 \<times> uint64 \<times> nat) set \<Rightarrow> cluster \<Rightarrow> bool" where
  "held_ok ids H A cl \<longleftrightarrow>
     (\<forall>v t k. (v, t, k) \<in> A \<longrightarrow> v \<in> set ids \<and> 0 < k \<and> k < length (H t) \<and> le_term (H t ! k) = t \<and> t \<le> currentTerm (cl_nodes cl v)
        \<and> (holds_entry H t k (raftLog (cl_nodes cl v)) \<or> (\<exists>w. t < w \<and> w \<le> currentTerm (cl_nodes cl v) \<and> lacks H t k w)))
     \<and> (\<forall>v \<in> set ids. \<forall>k. 0 < k \<and> k < length (raftLog (cl_nodes cl v)) \<and> le_term (raftLog (cl_nodes cl v) ! k) = currentTerm (cl_nodes cl v)
        \<longrightarrow> (v, currentTerm (cl_nodes cl v), k) \<in> A)"

definition campaigns_ok :: "uint64 list \<Rightarrow> (uint64 \<Rightarrow> log_entry list) \<Rightarrow> (uint64 \<Rightarrow> uint64 \<Rightarrow> log_entry list) \<Rightarrow> cluster \<Rightarrow> bool" where
  "campaigns_ok ids H C cl \<longleftrightarrow>
     (\<forall>u c. C u c \<noteq> [] \<longrightarrow> agrees H (C u c) \<and> (\<forall>e \<in> set (C u c). le_term e < u) \<and> u \<le> currentTerm (cl_nodes cl c))
     \<and> (\<forall>c \<in> set ids. nodeState (cl_nodes cl c) = CANDIDATE \<and> H (currentTerm (cl_nodes cl c)) = [] \<longrightarrow>
          C (currentTerm (cl_nodes cl c)) c = raftLog (cl_nodes cl c))
     \<and> (\<forall>s d m. (s, d, m) \<in> set (cl_net cl) \<and> rf_type m = REQUEST_VOTE \<longrightarrow> C (rv_term (request_vote_of m)) s \<noteq> []
          \<and> rv_last_log_index (request_vote_of m) = last_index (C (rv_term (request_vote_of m)) s)
          \<and> rv_last_log_term (request_vote_of m) = le_term (last (C (rv_term (request_vote_of m)) s)))
     \<and> (\<forall>v u c. (v, u, c) \<in> cl_ballots cl \<longrightarrow> C u c \<noteq> [])"

text \<open>What a vote cast before the election, and what the votes of an elected leader say.\<close>

definition ballots_recent :: "(uint64 \<Rightarrow> log_entry list) \<Rightarrow> (uint64 \<times> uint64 \<times> nat) set \<Rightarrow> (uint64 \<Rightarrow> uint64 \<Rightarrow> log_entry list)
    \<Rightarrow> (uint64 \<times> uint64 \<times> uint64) set \<Rightarrow> bool" where
  "ballots_recent H A C B \<longleftrightarrow> (\<forall>v t k u c. (v, t, k) \<in> A \<and> (v, u, c) \<in> B \<and> t < u \<and> H u = [] \<longrightarrow>
     holds_entry H t k (C u c) \<or> lost_before H t k u)"

definition won_ok :: "uint64 list \<Rightarrow> (uint64 \<Rightarrow> log_entry list) \<Rightarrow> (uint64 \<times> uint64 \<times> nat) set \<Rightarrow> cluster \<Rightarrow> uint64 \<Rightarrow> bool" where
  "won_ok ids H A cl u \<longleftrightarrow> (\<exists>Q \<subseteq> set ids. 2 * card Q > length ids \<and> (\<forall>v \<in> Q. u \<le> currentTerm (cl_nodes cl v)
     \<and> (\<forall>t k. (v, t, k) \<in> A \<and> t < u \<longrightarrow> holds_entry H t k (H u) \<or> lost_before H t k u)))"

definition complete_inv :: "uint64 list \<Rightarrow> (uint64 \<Rightarrow> log_entry list) \<Rightarrow> (uint64 \<times> uint64 \<times> nat) set
    \<Rightarrow> (uint64 \<Rightarrow> uint64 \<Rightarrow> log_entry list) \<Rightarrow> cluster \<Rightarrow> bool" where
  "complete_inv ids H A C cl \<longleftrightarrow> log_terms_ok ids H cl \<and> held_ok ids H A cl \<and> campaigns_ok ids H C cl
     \<and> ballots_recent H A C (cl_ballots cl) \<and> (\<forall>u. H u \<noteq> [] \<longrightarrow> won_ok ids H A cl u)"

lemma held_okD:
  assumes "held_ok ids H A cl" and "(v, t, k) \<in> A"
  shows "v \<in> set ids" "0 < k" "k < length (H t)" "le_term (H t ! k) = t" "t \<le> currentTerm (cl_nodes cl v)"
    "holds_entry H t k (raftLog (cl_nodes cl v)) \<or> (\<exists>w. t < w \<and> w \<le> currentTerm (cl_nodes cl v) \<and> lacks H t k w)"
  using assms unfolding held_ok_def by blast+

text \<open>Every entry that a majority held in its term is in the log of each later leader.\<close>

lemma majority_held:
  assumes won: "\<forall>u. H u \<noteq> [] \<longrightarrow> won_ok ids H A cl u" and Q: "Q \<subseteq> set ids" "2 * card Q > length ids" "\<forall>v \<in> Q. (v, t, k) \<in> A"
    and "t < u" and "H u \<noteq> []"
  shows "holds_entry H t k (H u)"
  using assms(5,6)
proof (induction u rule: less_induct)
  case (less u)
  then have "won_ok ids H A cl u" using won by simp
  then obtain R where R: "R \<subseteq> set ids" "2 * card R > length ids"
    "\<forall>v \<in> R. \<forall>t k. (v, t, k) \<in> A \<and> t < u \<longrightarrow> holds_entry H t k (H u) \<or> lost_before H t k u"
    unfolding won_ok_def by (elim exE conjE) simp
  have "Q \<inter> R \<noteq> {}"
  proof
    assume "Q \<inter> R = {}"
    then have "card (Q \<union> R) = card Q + card R" using Q(1) R(1) by (meson card_Un_disjoint finite_set finite_subset)
    moreover have "card (Q \<union> R) \<le> length ids" using Q(1) R(1) by (meson Un_least card_length card_mono finite_set order_trans)
    ultimately show False using Q(2) R(2) by simp
  qed
  then obtain v where "v \<in> Q" "v \<in> R" by blast
  then have "holds_entry H t k (H u) \<or> lost_before H t k u" using Q(3) R(3) less.prems(1) by blast
  then show ?case
  proof
    assume "lost_before H t k u"
    then obtain w where w: "t < w" "w < u" "H w \<noteq> []" "\<not> holds_entry H t k (H w)" by (auto simp: lost_before_def lacks_def)
    with less.IH show ?thesis by blast
  qed
qed

subsection \<open>Preservation\<close>

definition held_by :: "uint64 \<Rightarrow> raft_node \<Rightarrow> (uint64 \<times> uint64 \<times> nat) set" where
  "held_by i n = {(v, t, k). v = i \<and> t = currentTerm n \<and> 0 < k \<and> k < length (raftLog n) \<and> le_term (raftLog n ! k) = t}"

definition add_campaign :: "uint64 \<Rightarrow> raft_node \<Rightarrow> raft_node \<Rightarrow> (uint64 \<Rightarrow> uint64 \<Rightarrow> log_entry list) \<Rightarrow> (uint64 \<Rightarrow> uint64 \<Rightarrow> log_entry list)" where
  "add_campaign i m n C = (if new_candidate i m n then C(currentTerm n := (C (currentTerm n))(i := raftLog m)) else C)"

lemma set_append_loop: "set (append_loop idx es l) \<subseteq> set l \<union> set es"
proof (induction idx es l rule: append_loop.induct)
  case (2 idx e es l)
  show ?case using "2.IH" [OF HOL.refl HOL.refl HOL.refl] set_take_subset [of "unat (idx + 1)" l]
    by (auto simp: Let_def split: if_splits)
qed simp

lemma log_move_terms:
  assumes inv: "log_inv ids H cl" "log_terms_ok ids H cl" and i: "i \<in> set ids" and n: "log_move H (cl_nodes cl i) n"
    and t: "currentTerm (cl_nodes cl i) \<le> currentTerm n" and e: "e \<in> set (raftLog n)"
  shows "le_term e \<le> currentTerm n"
proof -
  let ?m = "cl_nodes cl i"
  have old: "le_term e \<le> currentTerm n" if "e \<in> set (raftLog ?m)" for e
    using inv(2) i that t unfolding log_terms_ok_def by (meson order_trans)
  from n consider "raftLog n = raftLog ?m" | f where "raftLog n = raftLog ?m @ [f]" "le_term f = currentTerm n"
    | q where "request_agrees H q" "ae_accepts q ?m" "currentTerm n = ae_term q"
      "raftLog n = append_loop (ae_prev_log_index q) (ae_entries q) (raftLog ?m)" unfolding log_move_def by blast
  then show ?thesis
  proof cases
    case (3 q)
    show ?thesis
    proof (cases "e \<in> set (ae_entries q)")
      case True
      then have "ae_entries q \<noteq> []" by auto
      from accepted_form [OF log_invD(1) [OF inv(1) i] log_invD(2,3) [OF inv(1)] 3(1,2) this] obtain p where
        "ae_entries q = take (length (ae_entries q)) (drop (Suc p) (H (ae_term q)))" by metis
      then have "e \<in> set (H (ae_term q))" using True by (metis in_set_dropD in_set_takeD)
      then show ?thesis using inv(2) 3(3) by (auto simp: log_terms_ok_def)
    next
      case False
      then show ?thesis using old e set_append_loop [of "ae_prev_log_index q" "ae_entries q" "raftLog ?m"] by (auto simp: 3(4))
    qed
  qed (use old e in auto)
qed

lemma node_moveD:
  assumes "node_move ids H cl i cl'"
  shows "i \<in> set ids" "cl_nodes cl' = (cl_nodes cl)(i := cl_nodes cl' i)" "currentTerm (cl_nodes cl j) \<le> currentTerm (cl_nodes cl' j)"
    "j \<noteq> i \<Longrightarrow> cl_nodes cl' j = cl_nodes cl j" "log_move H (cl_nodes cl i) (cl_nodes cl' i)"
    "cl_ballots cl \<subseteq> cl_ballots cl'" "cl_elected cl \<subseteq> cl_elected cl'"
proof -
  show n: "cl_nodes cl' = (cl_nodes cl)(i := cl_nodes cl' i)" using assms unfolding node_move_def by blast
  show "j \<noteq> i \<Longrightarrow> cl_nodes cl' j = cl_nodes cl j" using n by (metis fun_upd_other)
  have "currentTerm (cl_nodes cl i) \<le> currentTerm (cl_nodes cl' i)" using assms unfolding node_move_def role_step_def by blast
  then show "currentTerm (cl_nodes cl j) \<le> currentTerm (cl_nodes cl' j)" using n by (metis fun_upd_other order_refl)
qed (use assms ballots_mono [of cl i] elected_mono [of cl i] in \<open>auto simp: node_move_def\<close>)

lemma moved_terms:
  assumes log: "log_inv ids H cl" "log_inv ids H' cl'" "history_grows ids cl H cl' H'" and mv: "node_move ids H cl i cl'"
    and inv: "log_terms_ok ids H cl"
  shows "log_terms_ok ids H' cl'"
proof -
  have "term_order H" using inv by (simp add: log_terms_ok_def)
  have ord: "sorted (map le_term (H t))" "\<forall>e \<in> set (H t). le_term e \<le> t" for t
    using inv by (auto simp: log_terms_ok_def term_order_def)
  have "sorted (map le_term (H' t)) \<and> (\<forall>e \<in> set (H' t). le_term e \<le> t)" for t
  proof -
    from log(3) consider "H' t = H t" | e where "le_term e = t" "H' t = H t @ [e]"
      | c where "c \<in> set ids" "currentTerm (cl_nodes cl c) = t" "H' t = raftLog (cl_nodes cl c)"
      unfolding history_grows_def by blast
    then show ?thesis
    proof cases
      case (3 c)
      then show ?thesis using agrees_sorted [OF log_invD(1) [OF log(1) 3(1)] \<open>term_order H\<close>] inv by (auto simp: log_terms_ok_def)
    qed (use ord(1,2) [of t] in \<open>auto simp: sorted_append\<close>)
  qed
  moreover have "le_term e \<le> currentTerm (cl_nodes cl' j)" if "j \<in> set ids" "e \<in> set (raftLog (cl_nodes cl' j))" for j e
  proof (cases "j = i")
    case True
    then show ?thesis using log_move_terms [OF log(1) inv node_moveD(1,5) [OF mv] node_moveD(3) [OF mv]] that by simp
  next
    case False
    then show ?thesis using node_moveD(4) [OF mv] that inv by (simp add: log_terms_ok_def)
  qed
  moreover have "H' t \<noteq> []" if "(t, j) \<in> cl_elected cl'" for t j
  proof (cases "(t, j) \<in> cl_elected cl")
    case True
    then show ?thesis using inv grows_prefix [OF log(3), of t] by (auto simp: log_terms_ok_def)
  next
    case False
    with that mv have "nodeState (cl_nodes cl' i) = LEADER" "t = currentTerm (cl_nodes cl' i)" "i \<in> set ids"
      by (auto simp: node_move_def set_node_def split: if_splits)
    then have "H' t = raftLog (cl_nodes cl' i)" "agrees H' (raftLog (cl_nodes cl' i))" using log(2) by (auto simp: log_inv_def logs_ok_def)
    then show ?thesis by (auto simp: agrees_def)
  qed
  ultimately show ?thesis by (auto simp: log_terms_ok_def term_order_def)
qed

lemma moved_log_holds:
  assumes log: "log_inv ids H cl" and mv: "node_move ids H cl i cl'" and held: "held_ok ids H A cl" "(i, t, k) \<in> A"
  shows "holds_entry H t k (raftLog (cl_nodes cl' i)) \<or> (\<exists>w. t < w \<and> w \<le> currentTerm (cl_nodes cl' i) \<and> lacks H t k w)"
proof -
  let ?m = "cl_nodes cl i" and ?n = "cl_nodes cl' i"
  note k = held_okD [OF held] and le = node_moveD(3) [OF mv, of i]
  from k(6) consider "holds_entry H t k (raftLog ?m)" | w where "t < w" "w \<le> currentTerm ?m" "lacks H t k w" by blast
  then show ?thesis
  proof cases
    case 1
    from node_moveD(5) [OF mv] consider "prefix (raftLog ?m) (raftLog ?n)"
      | q where "request_agrees H q" "ae_accepts q ?m" "H (ae_term q) \<noteq> []" "currentTerm ?n = ae_term q"
        "raftLog ?n = append_loop (ae_prev_log_index q) (ae_entries q) (raftLog ?m)" unfolding log_move_def by force
    then show ?thesis
    proof cases
      case (2 q)
      show ?thesis
      proof (cases "ae_entries q = [] \<or> \<not> holds_entry H t k (H (ae_term q))")
        case True
        have "t \<le> ae_term q" using k(5) le 2(4) by simp
        moreover have "t \<noteq> ae_term q" if "\<not> holds_entry H t k (H (ae_term q))" using that k(3) by (auto simp: holds_own)
        ultimately show ?thesis using True 1 2 by (auto simp: lacks_def order_less_le)
      next
        case False
        from accepted_form [OF log_invD(1) [OF log k(1)] log_invD(2,3) [OF log] 2(1,2)] False obtain p where
          "p < length (raftLog ?m)" "p < length (H (ae_term q))"
          "ae_entries q = take (length (ae_entries q)) (drop (Suc p) (H (ae_term q)))"
          "raftLog ?n = raft_append p (ae_entries q) (raftLog ?m)" using 2(5) by metis
        then show ?thesis using raft_append_holds [OF 1 _] False by metis
      qed
    qed (use holds_prefix [OF 1] in blast)
  next
    case (2 w)
    then show ?thesis using le order_trans by blast
  qed
qed

lemma moved_held:
  assumes log: "log_inv ids H cl" "log_inv ids H' cl'" "history_grows ids cl H cl' H'" and mv: "node_move ids H cl i cl'"
    and held: "held_ok ids H A cl"
  shows "held_ok ids H' (A \<union> held_by i (cl_nodes cl' i)) cl'"
proof -
  let ?n = "cl_nodes cl' i"
  have i: "i \<in> set ids" by (rule node_moveD(1) [OF mv])
  have old: "v \<in> set ids \<and> 0 < k \<and> k < length (H' t) \<and> le_term (H' t ! k) = t \<and> t \<le> currentTerm (cl_nodes cl' v)
        \<and> (holds_entry H' t k (raftLog (cl_nodes cl' v)) \<or> (\<exists>w. t < w \<and> w \<le> currentTerm (cl_nodes cl' v) \<and> lacks H' t k w))"
    if a: "(v, t, k) \<in> A" for v t k
  proof -
    note k = held_okD [OF held a] and g = grows_holds [OF log(3) held_okD(3) [OF held a]]
    have "holds_entry H t k (raftLog (cl_nodes cl' v)) \<or> (\<exists>w. t < w \<and> w \<le> currentTerm (cl_nodes cl' v) \<and> lacks H t k w)"
    proof (cases "v = i")
      case True
      then show ?thesis using moved_log_holds [OF log(1) mv held] a by simp
    next
      case False
      then show ?thesis using k(6) node_moveD(4) [OF mv] by simp
    qed
    then have "holds_entry H' t k (raftLog (cl_nodes cl' v)) \<or> (\<exists>w. t < w \<and> w \<le> currentTerm (cl_nodes cl' v) \<and> lacks H' t k w)"
      using g(1) grows_lacks [OF log(3) k(3,4)] by blast
    then show ?thesis using k g order_trans [OF k(5) node_moveD(3) [OF mv]] by simp
  qed
  have new: "0 < k \<and> k < length (H' t) \<and> le_term (H' t ! k) = t \<and> t = currentTerm ?n \<and> holds_entry H' t k (raftLog ?n)"
    if "(v, t, k) \<in> held_by i ?n" for v t k
    using that holds_agrees [OF log_invD(1) [OF log(2) i]] by (auto simp: held_by_def)
  have "(v, currentTerm (cl_nodes cl' v), k) \<in> A \<union> held_by i ?n"
    if "v \<in> set ids" "0 < k \<and> k < length (raftLog (cl_nodes cl' v)) \<and> le_term (raftLog (cl_nodes cl' v) ! k) = currentTerm (cl_nodes cl' v)" for v k
    using that held node_moveD(4) [OF mv, of v] by (cases "v = i") (auto simp: held_ok_def held_by_def)
  moreover have "v \<in> set ids \<and> v = i" if "(v, t, k) \<in> held_by i ?n" for v t k using that i by (simp add: held_by_def)
  ultimately show ?thesis unfolding held_ok_def using old new by (metis (no_types, lifting) Un_iff order_refl)
qed

text \<open>A ballot of the new state was cast before, or by the node that moved: for itself, or on a request.\<close>

lemma new_ballot:
  assumes inv: "cluster_inv ids cl" and mv: "node_move ids H cl i cl'" and b: "(v, u, c) \<in> cl_ballots cl'"
  obtains "(v, u, c) \<in> cl_ballots cl"
    | "v = i" "c = i" "u = currentTerm (cl_nodes cl' i)" "new_candidate i (cl_nodes cl i) (cl_nodes cl' i)"
    | x where "v = i" "(c, i, x) \<in> set (cl_net cl)" "rf_type x = REQUEST_VOTE" "vote_granted (request_vote_of x) (cl_nodes cl i)"
      "u = rv_term (request_vote_of x)" "u = currentTerm (cl_nodes cl' i)" "\<not> new_candidate i (cl_nodes cl i) (cl_nodes cl' i)"
proof (cases "(v, u, c) \<in> cl_ballots cl")
  case False
  let ?m = "cl_nodes cl i" and ?n = "cl_nodes cl' i"
  have i: "i \<in> set ids" by (rule node_moveD(1) [OF mv])
  have n: "v = i" "u = currentTerm ?n" "c = votedFor ?n" "votedFor ?n \<noteq> 0" and vm: "vote_move cl i ?m ?n"
    using b mv False by (auto simp: node_move_def set_node_ballot)
  have "\<not> (votedFor ?n = votedFor ?m \<and> currentTerm ?n = currentTerm ?m)"
  proof
    assume a: "votedFor ?n = votedFor ?m \<and> currentTerm ?n = currentTerm ?m"
    then have "(i, currentTerm ?m, votedFor ?m) \<in> cl_ballots cl"
      using inv i n(4) by (auto simp: cluster_inv_def ballots_ok_def)
    with a n False show False by simp
  qed
  with vm n(4) consider "new_candidate i ?m ?n" | x where "\<not> new_candidate i ?m ?n" "(votedFor ?n, i, x) \<in> set (cl_net cl)"
    "rf_type x = REQUEST_VOTE" "vote_granted (request_vote_of x) ?m" "currentTerm ?n = rv_term (request_vote_of x)"
    unfolding vote_move_def by blast
  then show ?thesis
  proof cases
    case 1
    then show ?thesis using that(2) n by (auto simp: new_candidate_def)
  next
    case (2 x)
    then show ?thesis using that(3) n by simp
  qed
qed (rule that(1))

lemma add_campaign_other:
  assumes "campaigns_ok ids H C cl" and "C u c \<noteq> []"
  shows "add_campaign i (cl_nodes cl i) n C u c = C u c"
proof -
  have "u \<le> currentTerm (cl_nodes cl c)" using assms by (simp add: campaigns_ok_def)
  then show ?thesis by (auto simp: add_campaign_def new_candidate_def)
qed

lemma add_campaign_new: "new_candidate i m n \<Longrightarrow> add_campaign i m n C (currentTerm n) i = raftLog m"
  by (simp add: add_campaign_def)

lemma campaign_logs:
  assumes inv: "cluster_inv ids cl" and log: "log_inv ids H cl" "history_grows ids cl H cl' H'" and mv: "node_move ids H cl i cl'"
    and terms: "log_terms_ok ids H cl" and camp: "campaigns_ok ids H C cl"
    and that: "add_campaign i (cl_nodes cl i) (cl_nodes cl' i) C u c \<noteq> []"
  shows "agrees H' (add_campaign i (cl_nodes cl i) (cl_nodes cl' i) C u c) \<and> (\<forall>e \<in> set (add_campaign i (cl_nodes cl i) (cl_nodes cl' i) C u c). le_term e < u) \<and> u \<le> currentTerm (cl_nodes cl' c)"
proof -
  let ?m = "cl_nodes cl i" and ?n = "cl_nodes cl' i" and ?C = "add_campaign i (cl_nodes cl i) (cl_nodes cl' i) C"
  have i: "i \<in> set ids" by (rule node_moveD(1) [OF mv])
  have mono: "agrees H' l" if "agrees H l" for l by (rule agrees_mono [OF that]) (rule grows_prefix [OF log(2)])
  have ne: "raftLog ?m \<noteq> []" using log_invD(1) [OF log(1) i] by (simp add: agrees_def)
  show ?thesis
  proof (cases "C u c \<noteq> []")
    case True
    then have "agrees H (C u c)" "\<forall>e \<in> set (C u c). le_term e < u" "u \<le> currentTerm (cl_nodes cl c)" using camp by (auto simp: campaigns_ok_def)
    then show ?thesis using add_campaign_other [OF camp True] mono node_moveD(3) [OF mv] order_trans by metis
  next
    case False
    then have c: "c = i" "u = currentTerm ?n" "new_candidate i ?m ?n" using that by (auto simp: add_campaign_def split: if_splits)
    have "le_term e < u" if "e \<in> set (raftLog ?m)" for e
      using terms i that c(2,3) unfolding log_terms_ok_def new_candidate_def by (meson le_less_trans)
    then show ?thesis using add_campaign_new [OF c(3)] c mono [OF log_invD(1) [OF log(1) i]] by simp
  qed
qed

lemma campaign_candidates:
  assumes inv: "cluster_inv ids cl" and log: "log_inv ids H cl" "history_grows ids cl H cl' H'" and mv: "node_move ids H cl i cl'"
    and terms: "log_terms_ok ids H cl" and camp: "campaigns_ok ids H C cl"
    and c: "c \<in> set ids" "nodeState (cl_nodes cl' c) = CANDIDATE" "H' (currentTerm (cl_nodes cl' c)) = []"
  shows "add_campaign i (cl_nodes cl i) (cl_nodes cl' i) C (currentTerm (cl_nodes cl' c)) c = raftLog (cl_nodes cl' c)"
proof -
  let ?m = "cl_nodes cl i" and ?n = "cl_nodes cl' i" and ?C = "add_campaign i (cl_nodes cl i) (cl_nodes cl' i) C"
  have i: "i \<in> set ids" by (rule node_moveD(1) [OF mv])
  have mono: "agrees H' l" if "agrees H l" for l by (rule agrees_mono [OF that]) (rule grows_prefix [OF log(2)])
  have ne: "raftLog ?m \<noteq> []" using log_invD(1) [OF log(1) i] by (simp add: agrees_def)
  show ?thesis
  proof -
    have h: "H (currentTerm (cl_nodes cl' c)) = []" using grows_prefix [OF log(2), of "currentTerm (cl_nodes cl' c)"] c(3) by simp
    have old: "?C (currentTerm (cl_nodes cl c)) c = raftLog (cl_nodes cl c)"
      if "nodeState (cl_nodes cl c) = CANDIDATE" "H (currentTerm (cl_nodes cl c)) = []"
    proof -
      have "C (currentTerm (cl_nodes cl c)) c = raftLog (cl_nodes cl c)" using camp c(1) that by (simp add: campaigns_ok_def)
      moreover have "raftLog (cl_nodes cl c) \<noteq> []" using log_invD(1) [OF log(1) c(1)] by (simp add: agrees_def)
      ultimately show ?thesis using add_campaign_other [OF camp] by metis
    qed
    show ?thesis
    proof (cases "c = i")
      case False
      then show ?thesis using old node_moveD(4) [OF mv False] c(2) h by simp
    next
      case True
      show ?thesis
      proof (cases "new_candidate i ?m ?n")
        case n: True
        then show ?thesis using True add_campaign_new [OF n] by (simp add: new_candidate_def)
      next
        case False
        then have o: "nodeState ?m = CANDIDATE" "currentTerm ?n = currentTerm ?m"
          using mv True c(2) unfolding node_move_def by auto
        have "raftLog ?n = raftLog ?m" using node_moveD(5) [OF mv] c(2) h True unfolding log_move_def by auto
        then show ?thesis using old o h True by simp
      qed
    qed
  qed
qed

lemma campaign_requests:
  assumes inv: "cluster_inv ids cl" and log: "log_inv ids H cl" "history_grows ids cl H cl' H'" and mv: "node_move ids H cl i cl'"
    and terms: "log_terms_ok ids H cl" and camp: "campaigns_ok ids H C cl"
    and x: "(s, d, x) \<in> set (cl_net cl')" "rf_type x = REQUEST_VOTE"
  shows "add_campaign i (cl_nodes cl i) (cl_nodes cl' i) C (rv_term (request_vote_of x)) s \<noteq> []
      \<and> rv_last_log_index (request_vote_of x) = last_index (add_campaign i (cl_nodes cl i) (cl_nodes cl' i) C (rv_term (request_vote_of x)) s)
      \<and> rv_last_log_term (request_vote_of x) = le_term (last (add_campaign i (cl_nodes cl i) (cl_nodes cl' i) C (rv_term (request_vote_of x)) s))"
proof -
  let ?m = "cl_nodes cl i" and ?n = "cl_nodes cl' i" and ?C = "add_campaign i (cl_nodes cl i) (cl_nodes cl' i) C"
  have i: "i \<in> set ids" by (rule node_moveD(1) [OF mv])
  have mono: "agrees H' l" if "agrees H l" for l by (rule agrees_mono [OF that]) (rule grows_prefix [OF log(2)])
  have ne: "raftLog ?m \<noteq> []" using log_invD(1) [OF log(1) i] by (simp add: agrees_def)
  show ?thesis
  proof -
    from mv x consider "(s, d, x) \<in> set (cl_net cl)" | "candidate_request i ?m ?n (s, d, x)" unfolding node_move_def by force
    then show ?thesis
    proof cases
      case 1
      then show ?thesis using camp x(2) add_campaign_other [OF camp, of "rv_term (request_vote_of x)" s i ?n] by (auto simp: campaigns_ok_def)
    next
      case 2
      then have c: "s = i" "new_candidate i ?m ?n" "request_vote_of x = \<lparr>rv_term = currentTerm ?n, rv_candidate_id = i,
        rv_last_log_index = getLastLogIndex ?m, rv_last_log_term = getLastLogTerm ?m\<rparr>" by (auto simp: candidate_request_def)
      then show ?thesis using ne add_campaign_new [OF c(2)] by (simp add: getLastLogIndex_def getLastLogTerm_def)
    qed
  qed
qed

lemma campaign_ballots:
  assumes inv: "cluster_inv ids cl" and log: "log_inv ids H cl" "history_grows ids cl H cl' H'" and mv: "node_move ids H cl i cl'"
    and terms: "log_terms_ok ids H cl" and camp: "campaigns_ok ids H C cl"
    and b: "(v, u, c) \<in> cl_ballots cl'"
  shows "add_campaign i (cl_nodes cl i) (cl_nodes cl' i) C u c \<noteq> []"
proof -
  let ?m = "cl_nodes cl i" and ?n = "cl_nodes cl' i" and ?C = "add_campaign i (cl_nodes cl i) (cl_nodes cl' i) C"
  have i: "i \<in> set ids" by (rule node_moveD(1) [OF mv])
  have mono: "agrees H' l" if "agrees H l" for l by (rule agrees_mono [OF that]) (rule grows_prefix [OF log(2)])
  have ne: "raftLog ?m \<noteq> []" using log_invD(1) [OF log(1) i] by (simp add: agrees_def)
  show ?thesis
  proof (rule new_ballot [OF inv mv b])
    assume "(v, u, c) \<in> cl_ballots cl"
    then have "C u c \<noteq> []" using camp by (auto simp: campaigns_ok_def)
    then show ?thesis using add_campaign_other [OF camp] by metis
  next
    assume "c = i" "u = currentTerm ?n" "new_candidate i ?m ?n"
    then show ?thesis using ne add_campaign_new by simp
  next
    fix x assume "(c, i, x) \<in> set (cl_net cl)" "rf_type x = REQUEST_VOTE" "u = rv_term (request_vote_of x)"
    then have "C u c \<noteq> []" using camp by (auto simp: campaigns_ok_def)
    then show ?thesis using add_campaign_other [OF camp] by metis
  qed
qed

lemma moved_campaigns:
  assumes inv: "cluster_inv ids cl" and log: "log_inv ids H cl" "history_grows ids cl H cl' H'" and mv: "node_move ids H cl i cl'"
    and terms: "log_terms_ok ids H cl" and camp: "campaigns_ok ids H C cl"
  shows "campaigns_ok ids H' (add_campaign i (cl_nodes cl i) (cl_nodes cl' i) C) cl'"
  unfolding campaigns_ok_def using campaign_logs [OF assms] campaign_candidates [OF assms] campaign_requests [OF assms] campaign_ballots [OF assms]
  by blast

lemma granted_holds:
  assumes log: "log_inv ids H cl" and i: "i \<in> set ids" and ord: "term_order H" and camp: "campaigns_ok ids H C cl"
    and x: "(c, i, x) \<in> set (cl_net cl)" "rf_type x = REQUEST_VOTE" "vote_granted (request_vote_of x) (cl_nodes cl i)"
    and k: "0 < k" "holds_entry H t k (raftLog (cl_nodes cl i))" "le_term (H t ! k) = t"
  shows "holds_entry H t k (C (rv_term (request_vote_of x)) c) \<or> lost_before H t k (rv_term (request_vote_of x))"
proof -
  let ?u = "rv_term (request_vote_of x)" and ?l = "raftLog (cl_nodes cl i)"
  from camp x(1,2) have q: "C ?u c \<noteq> []" "rv_last_log_index (request_vote_of x) = last_index (C ?u c)"
    "rv_last_log_term (request_vote_of x) = le_term (last (C ?u c))" by (auto simp: campaigns_ok_def)
  then have c: "agrees H (C ?u c)" "\<forall>e \<in> set (C ?u c). le_term e < ?u" using camp by (auto simp: campaigns_ok_def)
  have l: "agrees H ?l" by (rule log_invD(1) [OF log i])
  have len: "length l < 2 ^ 64" if "agrees H l" for l using agrees_length [OF that log_invD(3) [OF log]] by (simp add: max_log_def)
  have "?l \<noteq> []" using l by (simp add: agrees_def)
  then have "le_term (last (C ?u c)) > le_term (last ?l) \<or> le_term (last (C ?u c)) = le_term (last ?l) \<and> last_index (C ?u c) \<ge> last_index ?l"
    using x(3) q by (simp add: vote_granted_def getLastLogTerm_def getLastLogIndex_def)
  from recent_log_holds [OF ord l c k len [OF l] len [OF c(1)] this] show ?thesis .
qed

lemma moved_ballots:
  assumes inv: "cluster_inv ids cl" and log: "log_inv ids H cl" and mv: "node_move ids H cl i cl'" and cinv: "complete_inv ids H A C cl"
  shows "ballots_recent H A (add_campaign i (cl_nodes cl i) (cl_nodes cl' i) C) (cl_ballots cl')"
  unfolding ballots_recent_def
proof (intro allI impI, elim conjE)
  fix v t k u c assume a: "(v, t, k) \<in> A" and b: "(v, u, c) \<in> cl_ballots cl'" and t: "t < u" "H u = []"
  let ?m = "cl_nodes cl i" and ?n = "cl_nodes cl' i" and ?C = "add_campaign i (cl_nodes cl i) (cl_nodes cl' i) C"
  have held: "held_ok ids H A cl" and camp: "campaigns_ok ids H C cl" and ord: "term_order H" and rec: "ballots_recent H A C (cl_ballots cl)"
    using cinv by (auto simp: complete_inv_def log_terms_ok_def)
  note k = held_okD [OF held a]
  have lost: "lost_before H t k u" if "t < w" "w \<le> currentTerm ?m" "lacks H t k w" "currentTerm ?m \<le> u" for w
  proof -
    have "w \<noteq> u" using that(3) t(2) by (auto simp: lacks_def)
    then have "w < u" using that(2,4) by simp
    with that show ?thesis by (auto simp: lost_before_def)
  qed
  show "holds_entry H t k (?C u c) \<or> lost_before H t k u"
  proof (rule new_ballot [OF inv mv b])
    assume o: "(v, u, c) \<in> cl_ballots cl"
    then have "C u c \<noteq> []" using camp by (auto simp: campaigns_ok_def)
    then show ?thesis using rec a o t add_campaign_other [OF camp, of u c i ?n] unfolding ballots_recent_def by auto
  next
    assume n: "v = i" "c = i" "u = currentTerm ?n" "new_candidate i ?m ?n"
    then have "currentTerm ?m \<le> u" by (simp add: new_candidate_def order_less_imp_le)
    then show ?thesis using k(6) lost n add_campaign_new [OF n(4)] by auto
  next
    fix x assume n: "v = i" "(c, i, x) \<in> set (cl_net cl)" "rf_type x = REQUEST_VOTE" "vote_granted (request_vote_of x) ?m"
      "u = rv_term (request_vote_of x)" "\<not> new_candidate i ?m ?n"
    then have "currentTerm ?m \<le> u" by (auto simp: vote_granted_def)
    moreover have "?C = C" using n(6) by (simp add: add_campaign_def)
    ultimately show ?thesis using k lost n granted_holds [OF log _ ord camp n(2-4), of k t] by auto
  qed
qed

lemma moved_recent:
  assumes inv: "cluster_inv ids cl'" and log: "history_grows ids cl H cl' H'" and mv: "node_move ids H cl i cl'"
    and held: "held_ok ids H A cl" and rec: "ballots_recent H A C' (cl_ballots cl')"
  shows "ballots_recent H' (A \<union> held_by i (cl_nodes cl' i)) C' (cl_ballots cl')"
  unfolding ballots_recent_def
proof (intro allI impI, elim conjE)
  fix v t k u c assume a: "(v, t, k) \<in> A \<union> held_by i (cl_nodes cl' i)" and b: "(v, u, c) \<in> cl_ballots cl'" and t: "t < u" "H' u = []"
  have h: "H u = []" using grows_prefix [OF log, of u] t(2) by simp
  show "holds_entry H' t k (C' u c) \<or> lost_before H' t k u"
  proof (cases "(v, t, k) \<in> A")
    case True
    then have "holds_entry H t k (C' u c) \<or> lost_before H t k u" using rec b t(1) h unfolding ballots_recent_def by blast
    then show ?thesis using grows_holds(1) [OF log held_okD(3) [OF held True]] grows_lost [OF log held_okD(3,4) [OF held True]] by blast
  next
    case False
    then have "v = i" "t = currentTerm (cl_nodes cl' i)" using a by (auto simp: held_by_def)
    moreover have "u \<le> currentTerm (cl_nodes cl' v)" using inv b by (auto simp: cluster_inv_def ballots_ok_def)
    ultimately show ?thesis using t(1) by simp
  qed
qed

lemma won_ok_grows:
  assumes log: "history_grows ids cl H cl' H'" and mv: "node_move ids H cl i cl'" and held: "held_ok ids H A cl" and won: "won_ok ids H A cl u"
  shows "won_ok ids H' (A \<union> held_by i (cl_nodes cl' i)) cl' u"
proof -
  from won obtain Q where Q: "Q \<subseteq> set ids" "2 * card Q > length ids" "\<forall>v \<in> Q. u \<le> currentTerm (cl_nodes cl v)
     \<and> (\<forall>t k. (v, t, k) \<in> A \<and> t < u \<longrightarrow> holds_entry H t k (H u) \<or> lost_before H t k u)" unfolding won_ok_def by (elim exE conjE) simp
  have u: "u \<le> currentTerm (cl_nodes cl' v)" if "v \<in> Q" for v using Q(3) that node_moveD(3) [OF mv, of v] by (meson order_trans)
  moreover have "holds_entry H' t k (H' u) \<or> lost_before H' t k u" if v: "v \<in> Q" and a: "(v, t, k) \<in> A \<union> held_by i (cl_nodes cl' i)" "t < u" for v t k
  proof (cases "(v, t, k) \<in> A")
    case True
    then have "holds_entry H t k (H u) \<or> lost_before H t k u" using Q(3) v a(2) by blast
    then show ?thesis using grows_holds(1) [OF log held_okD(3) [OF held True]] grows_lost [OF log held_okD(3,4) [OF held True]]
        holds_prefix [OF _ grows_prefix [OF log, of u]] by blast
  next
    case False
    then have "v = i" "t = currentTerm (cl_nodes cl' i)" using a by (auto simp: held_by_def)
    then show ?thesis using u [OF v] a(2) by simp
  qed
  ultimately show ?thesis using Q(1,2) unfolding won_ok_def by blast
qed

lemma won_ok_new:
  assumes inv: "cluster_inv ids cl'" and log: "log_inv ids H cl" "history_grows ids cl H cl' H'" and mv: "node_move ids H cl i cl'"
    and held: "held_ok ids H A cl" and camp: "campaigns_ok ids H C cl"
    and rec: "ballots_recent H A (add_campaign i (cl_nodes cl i) (cl_nodes cl' i) C) (cl_ballots cl')"
    and new: "H u = []" "H' u \<noteq> []"
  shows "won_ok ids H' (A \<union> held_by i (cl_nodes cl' i)) cl' u"
proof -
  from log(2) new obtain c where c: "c \<in> set ids" "nodeState (cl_nodes cl c) = CANDIDATE" "currentTerm (cl_nodes cl c) = u"
    "nodeState (cl_nodes cl' c) = LEADER" "currentTerm (cl_nodes cl' c) = u" "H' u = raftLog (cl_nodes cl c)"
    unfolding history_grows_def by metis
  have "C u c = H' u" using camp c new(1) by (auto simp: campaigns_ok_def)
  then have C: "add_campaign i (cl_nodes cl i) (cl_nodes cl' i) C u c = H' u" using add_campaign_other [OF camp] new(2) by metis
  have "(u, c) \<in> cl_elected cl'" using leader_elected [OF inv c(1,4)] c(5) by simp
  then have "quorum ids cl' u c" using inv by (simp add: cluster_inv_def elected_ok_def)
  then obtain Q where Q: "Q \<subseteq> set ids" "2 * card Q > length ids" "\<forall>v \<in> Q. (v, u, c) \<in> cl_ballots cl'" unfolding quorum_def by blast
  have u: "u \<le> currentTerm (cl_nodes cl' v)" if "v \<in> Q" for v using inv Q(3) that by (auto simp: cluster_inv_def ballots_ok_def)
  moreover have "holds_entry H' t k (H' u) \<or> lost_before H' t k u" if v: "v \<in> Q" and a: "(v, t, k) \<in> A \<union> held_by i (cl_nodes cl' i)" "t < u" for v t k
  proof (cases "(v, t, k) \<in> A")
    case True
    then have "holds_entry H t k (H' u) \<or> lost_before H t k u"
      using rec Q(3) v a(2) new(1) C unfolding ballots_recent_def by metis
    then show ?thesis using grows_holds(1) [OF log(2) held_okD(3) [OF held True]] grows_lost [OF log(2) held_okD(3,4) [OF held True]] by blast
  next
    case False
    then have "v = i" "t = currentTerm (cl_nodes cl' i)" using a by (auto simp: held_by_def)
    then show ?thesis using u [OF v] a(2) by simp
  qed
  ultimately show ?thesis using Q(1,2) unfolding won_ok_def by blast
qed

lemma cluster_step_complete:
  assumes inv: "cluster_inv ids cl" "valid_ids ids" and log: "log_inv ids H cl" and cinv: "complete_inv ids H A C cl"
    and st: "keeps_log e cl" "cluster_step ids e cl = Some cl'"
  shows "\<exists>H' A' C'. log_inv ids H' cl' \<and> complete_inv ids H' A' C' cl' \<and> A \<subseteq> A' \<and> (\<forall>t. prefix (H t) (H' t))"
proof -
  have inv': "cluster_inv ids cl'" by (rule cluster_step_inv [OF inv st(2)])
  have "\<forall>t i. (t, i) \<in> cl_elected cl \<longrightarrow> H t \<noteq> []" using cinv by (auto simp: complete_inv_def log_terms_ok_def)
  from cluster_step_moves [OF inv log this st] show ?thesis
  proof (elim disjE exE)
    fix k assume "cl' = cl\<lparr>cl_net := remove_nth k (cl_net cl)\<rparr>"
    then have "log_inv ids H cl' \<and> complete_inv ids H A C cl'" using log cinv set_remove_nth [of k "cl_net cl"]
      unfolding log_inv_def logs_ok_def histories_ok_def requests_ok_def terms_led_def
        complete_inv_def log_terms_ok_def held_ok_def campaigns_ok_def won_ok_def by auto
    then show ?thesis by blast
  next
    fix i assume mv: "node_move ids H cl i cl'"
    from cluster_step_log_inv [OF inv log keeps_log_fits [OF st(1)] st(2)] obtain H' where
      H': "log_inv ids H' cl'" "history_grows ids cl H cl' H'" by blast
    have parts: "log_terms_ok ids H cl" "held_ok ids H A cl" "campaigns_ok ids H C cl" "\<forall>u. H u \<noteq> [] \<longrightarrow> won_ok ids H A cl u"
      using cinv by (simp_all add: complete_inv_def)
    note rec = moved_ballots [OF inv(1) log mv cinv]
    have "won_ok ids H' (A \<union> held_by i (cl_nodes cl' i)) cl' u" if "H' u \<noteq> []" for u
      using won_ok_grows [OF H'(2) mv parts(2)] won_ok_new [OF inv' log H'(2) mv parts(2,3) rec _ that] parts(4) by blast
    then have "complete_inv ids H' (A \<union> held_by i (cl_nodes cl' i)) (add_campaign i (cl_nodes cl i) (cl_nodes cl' i) C) cl'"
      unfolding complete_inv_def using moved_terms [OF log H' mv parts(1)] moved_held [OF log H' mv parts(2)]
        moved_campaigns [OF inv(1) log H'(2) mv parts(1,3)] moved_recent [OF inv' H'(2) mv parts(2) rec] by blast
    then show ?thesis using H' grows_prefix [OF H'(2)] by blast
  qed
qed

lemma durable_exec_reach: "durable_exec ids a b \<Longrightarrow> cluster_reach ids a b"
  by (induction rule: durable_exec.induct) (auto intro: cluster_reach.intros)

lemma durable_exec_complete:
  assumes "durable_exec ids cl cl'" and "cluster_inv ids cl" and "valid_ids ids" and "log_inv ids H cl" and "complete_inv ids H A C cl"
  shows "\<exists>H' A' C'. log_inv ids H' cl' \<and> complete_inv ids H' A' C' cl' \<and> A \<subseteq> A' \<and> (\<forall>t. prefix (H t) (H' t))"
  using assms
proof (induction rule: durable_exec.induct)
  case (step cl m e cl')
  then obtain H1 A1 C1 where 1: "log_inv ids H1 m" "complete_inv ids H1 A1 C1 m" "A \<subseteq> A1" "\<forall>t. prefix (H t) (H1 t)" by blast
  have "cluster_inv ids m" by (rule cluster_reach_inv [OF durable_exec_reach [OF step.hyps(1)] step.prems(1,2)])
  from cluster_step_complete [OF this step.prems(2) 1(1,2) step.hyps(2,3)] obtain H2 A2 C2 where
    "log_inv ids H2 cl'" "complete_inv ids H2 A2 C2 cl'" "A1 \<subseteq> A2" "\<forall>t. prefix (H1 t) (H2 t)" by blast
  with 1(3,4) show ?case by (meson prefix_order.trans subset_trans)
qed blast

lemma init_complete:
  assumes "valid_ids ids"
  shows "log_inv ids (\<lambda>_. []) (init_cluster ids rnds)" and "complete_inv ids (\<lambda>_. []) {} (\<lambda>_ _. []) (init_cluster ids rnds)"
  by (auto simp: log_inv_def logs_ok_def histories_ok_def requests_ok_def terms_led_def init_cluster_def agrees_def new_node_def
      complete_inv_def log_terms_ok_def held_ok_def campaigns_ok_def ballots_recent_def term_order_def sentinel_def)

subsection \<open>Properties\<close>

lemma complete_leaders:
  assumes inv: "cluster_inv ids cl" "valid_ids ids" and c1: "log_inv ids H cl" "complete_inv ids H A C cl"
    and e: "durable_exec ids cl cl'" and Q: "Q \<subseteq> set ids" "2 * card Q > length ids" and k0: "0 < k"
    and q: "\<forall>v \<in> Q. currentTerm (cl_nodes cl v) = t \<and> k < length (raftLog (cl_nodes cl v)) \<and> le_term (raftLog (cl_nodes cl v) ! k) = t"
    and l: "j \<in> set ids" "nodeState (cl_nodes cl' j) = LEADER" "t \<le> currentTerm (cl_nodes cl' j)" and v: "v \<in> Q"
  shows "k < length (raftLog (cl_nodes cl' j)) \<and> take (Suc k) (raftLog (cl_nodes cl' j)) = take (Suc k) (raftLog (cl_nodes cl v))"
proof -
  from durable_exec_complete [OF e inv c1] obtain H' A' C' where
    c2: "log_inv ids H' cl'" "complete_inv ids H' A' C' cl'" "A \<subseteq> A'" "\<forall>t. prefix (H t) (H' t)" by blast
  have held: "held_ok ids H A cl" "held_ok ids H' A' cl'" using c1 c2 by (simp_all add: complete_inv_def)
  have A: "(w, t, k) \<in> A" if "w \<in> Q" for w
  proof -
    have "w \<in> set ids" "currentTerm (cl_nodes cl w) = t" "k < length (raftLog (cl_nodes cl w))" "le_term (raftLog (cl_nodes cl w) ! k) = t"
      using Q(1) q that by auto
    then show ?thesis using held(1) k0 by (auto simp: held_ok_def)
  qed
  have j: "raftLog (cl_nodes cl' j) = H' (currentTerm (cl_nodes cl' j))" using c2(1) l(1,2) by (simp add: log_inv_def logs_ok_def)
  have k: "k < length (H' t)" using held_okD(3) [OF held(2)] A [OF v] c2(3) by blast
  have "raftLog (cl_nodes cl' j) \<noteq> []" using log_invD(1) [OF c2(1) l(1)] by (simp add: agrees_def)
  have "holds_entry H' t k (raftLog (cl_nodes cl' j))"
  proof (cases "t = currentTerm (cl_nodes cl' j)")
    case True
    then show ?thesis using k by (simp add: j holds_own)
  next
    case False
    then have "t < currentTerm (cl_nodes cl' j)" using l(3) by simp
    moreover have "\<forall>u. H' u \<noteq> [] \<longrightarrow> won_ok ids H' A' cl' u" using c2(2) by (simp add: complete_inv_def)
    moreover have "\<forall>w \<in> Q. (w, t, k) \<in> A'" using A c2(3) by blast
    ultimately show ?thesis using majority_held [OF _ Q] \<open>raftLog (cl_nodes cl' j) \<noteq> []\<close> unfolding j by blast
  qed
  moreover have "holds_entry H t k (raftLog (cl_nodes cl v)) \<and> k < length (H t)"
    using holds_agrees [OF log_invD(1) [OF c1(1)], of v k t] Q(1) k0 q v by blast
  moreover have "take (Suc k) (H' t) = take (Suc k) (H t)" if "k < length (H t)" using c2(4) that by (auto simp: prefix_def dest: spec [of _ t])
  ultimately show ?thesis by (simp add: holds_entry_def)
qed

text \<open>
  C3. Leader completeness. When at some moment of an execution, with messages lost and reordered and nodes
  restarted with the log they had, a majority of the nodes is in term \<open>t\<close> and each of them has an
  entry of term \<open>t\<close> at index \<open>k\<close>, then every node that is leader in that term or a later one, then or
  at any later moment, has the same entries as they had up to that index.
\<close>

theorem leader_completeness:
  assumes "valid_ids ids" and "durable_exec ids (init_cluster ids rnds) cl" and "durable_exec ids cl cl'"
    and "Q \<subseteq> set ids" and "2 * card Q > length ids" and "0 < k"
    and "\<forall>v \<in> Q. currentTerm (cl_nodes cl v) = t \<and> k < length (raftLog (cl_nodes cl v)) \<and> le_term (raftLog (cl_nodes cl v) ! k) = t"
    and "j \<in> set ids" and "nodeState (cl_nodes cl' j) = LEADER" and "t \<le> currentTerm (cl_nodes cl' j)" and "v \<in> Q"
  shows "k < length (raftLog (cl_nodes cl' j)) \<and> take (Suc k) (raftLog (cl_nodes cl' j)) = take (Suc k) (raftLog (cl_nodes cl v))"
proof -
  have inv: "cluster_inv ids (init_cluster ids rnds)" by (rule init_cluster_inv [OF assms(1)])
  have "cluster_inv ids cl" by (rule cluster_reach_inv [OF durable_exec_reach [OF assms(2)] inv assms(1)])
  with durable_exec_complete [OF assms(2) inv assms(1) init_complete [OF assms(1)]] complete_leaders [OF _ assms(1) _ _ assms(3-11)]
  show ?thesis by blast
qed

text \<open>
  Node 2 leads the first term and appends an entry that it does not replicate. Node 1 is elected next by
  node 3 and replicates an entry to it, before node 3 is elected by node 1.
\<close>

definition stale_entry :: "cluster_event list" where
  "stale_entry = take 9 first_term"

definition replicated :: "cluster_event list" where
  "replicated = [Local 1 (Tick (ms 400) (ms 400) 150), Lose 0, Deliver 0 0 0 150, Deliver 0 (ms 400) 0 150, Lose 0, Lose 0,
     Local 1 (Propose ''x''), Lose 0, Deliver 0 (ms 410) 0 150]"

definition next_leader :: "cluster_event list" where
  "next_leader = [Lose 0, Local 3 (Tick (ms 900) (ms 900) 150), Deliver 0 0 0 150, Deliver 1 (ms 900) 0 150]"

fun durable_run :: "uint64 list \<Rightarrow> cluster_event list \<Rightarrow> cluster \<Rightarrow> cluster option" where
  "durable_run ids [] cl = Some cl"
| "durable_run ids (e # es) cl = (if keeps_log e cl then
     (case cluster_step ids e cl of None \<Rightarrow> None | Some cl' \<Rightarrow> durable_run ids es cl') else None)"

lemma durable_exec_trans: "durable_exec ids b c \<Longrightarrow> durable_exec ids a b \<Longrightarrow> durable_exec ids a c"
  by (induction rule: durable_exec.induct) (auto intro: durable_exec.step)

lemma durable_run_exec: "durable_run ids es cl = Some cl' \<Longrightarrow> durable_exec ids cl cl'"
proof (induction es arbitrary: cl)
  case (Cons e es)
  then obtain m where "keeps_log e cl" "cluster_step ids e cl = Some m" "durable_run ids es m = Some cl'"
    by (auto split: option.splits if_splits)
  with Cons.IH show ?case by (meson durable_exec.intros durable_exec_trans)
qed (simp add: durable_exec.refl)

lemma replicated_run:
  "case durable_run three (stale_entry @ replicated) start of None \<Rightarrow> False
   | Some cl \<Rightarrow> list_all (\<lambda>v. currentTerm (cl_nodes cl v) = 2 \<and> length (raftLog (cl_nodes cl v)) = 2
         \<and> raftLog (cl_nodes cl v) ! 1 = \<lparr>le_term = 2, le_index = 1, le_command = ''x''\<rparr>) [1, 3]
       \<and> (case durable_run three next_leader cl of None \<Rightarrow> False
          | Some cl' \<Rightarrow> nodeState (cl_nodes cl' 3) = LEADER \<and> currentTerm (cl_nodes cl' 3) = 3)"
  by code_simp

theorem leader_completeness_witness:
  "\<exists>cl cl'. durable_exec three start cl \<and> durable_exec three cl cl' \<and> nodeState (cl_nodes cl' 3) = LEADER \<and> currentTerm (cl_nodes cl' 3) = 3
     \<and> raftLog (cl_nodes cl 1) ! 1 = \<lparr>le_term = 2, le_index = 1, le_command = ''x''\<rparr>
     \<and> take 2 (raftLog (cl_nodes cl' 3)) = take 2 (raftLog (cl_nodes cl 1))"
proof -
  from replicated_run obtain cl cl' where r: "durable_run three (stale_entry @ replicated) start = Some cl" "durable_run three next_leader cl = Some cl'"
    "nodeState (cl_nodes cl' 3) = LEADER" "currentTerm (cl_nodes cl' 3) = 3"
    "\<forall>v \<in> {1, 3}. currentTerm (cl_nodes cl v) = 2 \<and> length (raftLog (cl_nodes cl v)) = 2
      \<and> raftLog (cl_nodes cl v) ! 1 = \<lparr>le_term = 2, le_index = 1, le_command = ''x''\<rparr>"
    by (auto split: option.splits)
  note e = durable_run_exec [OF r(1)] durable_run_exec [OF r(2)]
  have "take (Suc 1) (raftLog (cl_nodes cl' 3)) = take (Suc 1) (raftLog (cl_nodes cl 1))"
    using leader_completeness [OF three_valid e(1) [unfolded start_def] e(2), of "{1, 3}" 1 2 3 1] r(3-5) by (simp add: three_def)
  then have "take 2 (raftLog (cl_nodes cl' 3)) = take 2 (raftLog (cl_nodes cl 1))" by (simp only: Suc_1)
  with e r(3-5) show ?thesis by (intro exI [of _ cl] exI [of _ cl'] conjI) simp_all
qed

text \<open>
  The entry that a node commits need not be the one of the leader. A heartbeat carries no entries, but
  \<open>handleAppendEntries\<close> raises the commit index to the minimum of the one of the leader and its own last
  index, not of the last index that the request has matched: here node 2 commits and applies its entry
  that was never replicated, after node 1 has applied the replicated entry at the same index.
\<close>

definition heartbeat_commit :: "cluster_event list" where
  "heartbeat_commit = [Deliver 0 0 0 150, Local 1 (Tick (ms 460) 0 150), Lose 0, Lose 0, Local 1 (Tick (ms 520) 0 150), Deliver 0 (ms 520) (ms 520) 150]"

theorem heartbeat_applies_stale_entry:
  "\<exists>cl. durable_exec three start cl \<and> 1 \<le> lastApplied (cl_nodes cl 1) \<and> 1 \<le> lastApplied (cl_nodes cl 2)
     \<and> le_command (raftLog (cl_nodes cl 1) ! 1) = ''x'' \<and> le_command (raftLog (cl_nodes cl 2) ! 1) = ''a''"
proof -
  have "case durable_run three (stale_entry @ replicated @ heartbeat_commit) start of None \<Rightarrow> False
     | Some cl \<Rightarrow> 1 \<le> lastApplied (cl_nodes cl 1) \<and> 1 \<le> lastApplied (cl_nodes cl 2)
         \<and> le_command (raftLog (cl_nodes cl 1) ! 1) = ''x'' \<and> le_command (raftLog (cl_nodes cl 2) ! 1) = ''a''" by code_simp
  then show ?thesis by (auto dest: durable_run_exec split: option.splits)
qed

end
