(* ===== verification/Config_File.thy ===== *)
theory Config_File
  imports Prelude
begin

text \<open>
  The configuration file parser (\<open>common/config.cpp\<close>). A file is its contents, or \<open>None\<close> when it
  cannot be opened; the unordered map \<open>data_\<close> is a map.
\<close>

type_synonym config = "string \<rightharpoonup> string"

text \<open>The lines \<open>std::getline\<close> delivers: what follows the last newline counts only if it is not empty.\<close>

function getlines :: "string \<Rightarrow> string list" where
  "getlines s =
     (if s = [] then []
      else let line = takeWhile (\<lambda>c. c \<noteq> CHR 0x0A) s; rest = dropWhile (\<lambda>c. c \<noteq> CHR 0x0A) s
      in line # (if rest = [] then [] else getlines (tl rest)))"
  by pat_completeness auto
termination
proof (relation "measure length")
  fix s :: string and line rest
  assume "s \<noteq> []" "rest = dropWhile (\<lambda>c. c \<noteq> CHR 0x0A) s" "rest \<noteq> []"
  then have "length rest \<le> length s" "0 < length rest"
    using length_dropWhile_le [of "\<lambda>c. c \<noteq> CHR 0x0A" s] by auto
  then show "(tl rest, s) \<in> measure length" by (cases rest) auto
qed simp

declare getlines.simps [simp del]

definition blanks :: "char set" where
  "blanks = {CHR '' '', CHR 0x09}"

definition trim :: "string \<Rightarrow> string" where
  "trim s = erase_trailing blanks (erase_leading blanks s)"

definition config_line :: "string \<Rightarrow> config \<Rightarrow> config" where
  "config_line line data =
     (if line = [] \<or> hd line = CHR ''#'' then data
      else case str_find (CHR ''='') line of
             None \<Rightarrow> data
           | Some pos \<Rightarrow>
               let key = take pos line;
                   val = drop (pos + 1) line
               in data(trim key \<mapsto> trim val))"

definition Config :: "string option \<Rightarrow> config" where
  "Config f = (case f of None \<Rightarrow> Map.empty | Some s \<Rightarrow> fold config_line (getlines s) Map.empty)"

definition config_loaded :: "config \<Rightarrow> bool" where
  "config_loaded data \<longleftrightarrow> data \<noteq> Map.empty"

definition config_get :: "string \<Rightarrow> string \<Rightarrow> config \<Rightarrow> string" where
  "config_get key def data = (case data key of Some v \<Rightarrow> v | None \<Rightarrow> def)"

definition getInt :: "string \<Rightarrow> int \<Rightarrow> config \<Rightarrow> std_exn + int" where
  "getInt key def data = (case data key of Some v \<Rightarrow> stoi v | None \<Rightarrow> Inr def)"

definition getPort :: "string \<Rightarrow> uint16 \<Rightarrow> config \<Rightarrow> std_exn + uint16" where
  "getPort key def data =
     (case data key of
        Some v \<Rightarrow> (case stoi v of Inl e \<Rightarrow> Inl e | Inr n \<Rightarrow> Inr (to_uint16 n))
      | None \<Rightarrow> Inr def)"

subsection \<open>Writing a configuration and reading it back\<close>

text \<open>Keys and values that a line can carry: no newline, no surrounding blanks; in a key no equals
  sign, and no hash sign at its start.\<close>

definition plain :: "string \<Rightarrow> bool" where
  "plain s \<longleftrightarrow> CHR 0x0A \<notin> set s \<and> (s \<noteq> [] \<longrightarrow> hd s \<notin> blanks \<and> last s \<notin> blanks)"

definition plain_key :: "string \<Rightarrow> bool" where
  "plain_key k \<longleftrightarrow> plain k \<and> k \<noteq> [] \<and> CHR ''='' \<notin> set k \<and> hd k \<noteq> CHR ''#''"

definition print_line :: "string \<times> string \<Rightarrow> string" where
  "print_line kv = fst kv @ '' = '' @ snd kv"

definition print_config :: "(string \<times> string) list \<Rightarrow> string" where
  "print_config kvs = concat (map (\<lambda>kv. print_line kv @ [CHR 0x0A]) kvs)"

lemma getlines_line: "CHR 0x0A \<notin> set l \<Longrightarrow> getlines (l @ CHR 0x0A # r) = l # getlines r"
proof -
  assume l: "CHR 0x0A \<notin> set l"
  have "takeWhile (\<lambda>c. c \<noteq> CHR 0x0A) (l @ CHR 0x0A # r) = l"
    using l by (subst takeWhile_append2) auto
  moreover have "dropWhile (\<lambda>c. c \<noteq> CHR 0x0A) (l @ CHR 0x0A # r) = CHR 0x0A # r"
    using l by (subst dropWhile_append2) auto
  ultimately show ?thesis by (subst getlines.simps) (simp add: Let_def)
qed

lemma getlines_print:
  "\<forall>kv \<in> set kvs. CHR 0x0A \<notin> set (print_line kv) \<Longrightarrow> getlines (print_config kvs) = map print_line kvs"
proof (induction kvs)
  case Nil
  then show ?case by (simp add: print_config_def getlines.simps)
next
  case (Cons kv kvs)
  have "print_config (kv # kvs) = print_line kv @ CHR 0x0A # print_config kvs"
    by (simp add: print_config_def)
  with Cons show ?case by (simp add: getlines_line)
qed

lemma erase_plain: "plain s \<Longrightarrow> erase_leading blanks s = s" "plain s \<Longrightarrow> erase_trailing blanks s = s"
proof -
  assume p: "plain s"
  show "erase_leading blanks s = s" using p by (cases s) (auto simp: erase_leading_def plain_def)
  show "erase_trailing blanks s = s"
    using p by (cases s rule: rev_cases) (auto simp: erase_trailing_def plain_def)
qed

lemma trim_plain: "plain s \<Longrightarrow> trim s = s"
  by (simp add: trim_def erase_plain)

lemma trim_blank_front: "trim (CHR '' '' # s) = trim s"
  by (simp add: trim_def erase_leading_def blanks_def)

lemma trim_blank_back: "plain s \<Longrightarrow> trim (s @ '' '') = s"
proof (cases "s = []")
  case True
  then show ?thesis by (simp add: trim_def erase_leading_def erase_trailing_def blanks_def)
next
  case False
  assume p: "plain s"
  with False have "erase_leading blanks (s @ '' '') = s @ '' ''"
    by (cases s) (auto simp: erase_leading_def plain_def)
  moreover have "erase_trailing blanks (s @ '' '') = erase_trailing blanks s"
    by (simp add: erase_trailing_def blanks_def)
  moreover note erase_plain(2) [OF p]
  ultimately show ?thesis by (simp add: trim_def)
qed

lemma config_line_print:
  assumes "plain_key k" and "plain v"
  shows "config_line (print_line (k, v)) data = data(k \<mapsto> v)"
proof -
  let ?l = "(k @ '' '') @ CHR ''='' # CHR '' '' # v"
  have l: "print_line (k, v) = ?l" by (simp add: print_line_def)
  have f: "str_find (CHR ''='') ?l = Some (length (k @ '' ''))"
    using assms(1) by (intro str_find_append) (auto simp: plain_key_def)
  have h: "?l \<noteq> []" "hd ?l \<noteq> CHR ''#''" using assms(1) by (auto simp: plain_key_def hd_append)
  have "take (length (k @ '' '')) ?l = k @ '' ''" "drop (length (k @ '' '') + 1) ?l = CHR '' '' # v" by simp_all
  then have "config_line ?l data = data(trim (k @ '' '') \<mapsto> trim (CHR '' '' # v))"
    using f h by (simp only: config_line_def Let_def option.case if_False de_Morgan_disj simp_thms)
  then show ?thesis
    using assms by (simp add: l trim_blank_front trim_blank_back trim_plain plain_key_def)
qed

text \<open>
  C40. Reading back a configuration: from a file of lines \<open>key = value\<close> every key gets the value of
  its last line, with the blanks around the equals sign removed, and every other key its default. The keys and
  values are those that a line can carry: without newlines and surrounding blanks, keys moreover not
  empty, without an equals sign and without a hash sign at the start.
\<close>

theorem config_roundtrip:
  assumes "\<forall>(k, v) \<in> set kvs. plain_key k \<and> plain v"
  shows "config_get key def (Config (Some (print_config kvs))) =
    (case map_of (rev kvs) key of Some v \<Rightarrow> v | None \<Rightarrow> def)"
proof -
  have "\<forall>kv \<in> set kvs. CHR 0x0A \<notin> set (print_line kv)"
    using assms by (auto simp: print_line_def plain_key_def plain_def)
  then have "Config (Some (print_config kvs)) = fold config_line (map print_line kvs) Map.empty"
    by (simp add: Config_def getlines_print)
  moreover have "fold config_line (map print_line kvs) m = m ++ map_of (rev kvs)" for m
    using assms
  proof (induction kvs arbitrary: m)
    case (Cons kv kvs)
    then show ?case by (cases kv) (simp add: config_line_print)
  qed simp
  ultimately show ?thesis by (simp add: config_get_def)
qed

theorem config_roundtrip_witness:
  "config_get ''port'' ''0'' (Config (Some (print_config [(''ip'', ''127.0.0.1''), (''port'', ''9100'')]))) = ''9100''"
  using config_roundtrip [of "[(''ip'', ''127.0.0.1''), (''port'', ''9100'')]" "''port''" "''0''"]
  by (simp add: plain_key_def plain_def blanks_def)

end
