(* ===== verification/Sharding.thy ===== *)
theory Sharding
  imports Proto
begin

text \<open>
  Range sharding: the shard router of the common library (\<open>common/shard_router.cpp\<close>), the router of
  the client (\<open>client_sdk/router.cpp\<close>), and the placement driver's metadata with its scheduling
  (\<open>pd_server/shard_manager.cpp\<close>). The router's own structs \<open>ShardMeta\<close> and \<open>ShardMap\<close> have the
  fields of the protocol messages and share their records.
\<close>

subsection \<open>Routing by key\<close>

definition covers :: "shard_meta \<Rightarrow> string \<Rightarrow> bool" where
  "covers shard key \<longleftrightarrow> (sm_start_key shard = [] \<or> key \<ge> sm_start_key shard)
     \<and> (sm_end_key shard = [] \<or> key < sm_end_key shard)"

record shard_router =
  sr_map :: shard_map
  sr_node_addrs :: "uint64 \<Rightarrow> uint64 \<rightharpoonup> string"

definition ShardRouter :: shard_router where
  "ShardRouter = \<lparr>sr_map = default_shard_map, sr_node_addrs = (\<lambda>_. Map.empty)\<rparr>"

definition sr_loadShardMap :: "shard_map \<Rightarrow> shard_router \<Rightarrow> shard_router" where
  "sr_loadShardMap m r = r\<lparr>sr_map := m\<rparr>"

fun find_shard_id :: "string \<Rightarrow> shard_meta list \<Rightarrow> uint64" where
  "find_shard_id key [] = 0"
| "find_shard_id key (s # ss) = (if covers s key then sm_shard_id s else find_shard_id key ss)"

definition sr_getShardId :: "string \<Rightarrow> shard_router \<Rightarrow> uint64" where
  "sr_getShardId key r = find_shard_id key (map_shards (sr_map r))"

definition sr_updateLeader :: "uint64 \<Rightarrow> uint64 \<Rightarrow> string \<Rightarrow> shard_router \<Rightarrow> shard_router" where
  "sr_updateLeader sid nid addr r = r\<lparr>sr_node_addrs := (sr_node_addrs r)
     (sid := (sr_node_addrs r sid)(nid \<mapsto> addr))\<rparr>"

fun sr_leader_search :: "shard_router \<Rightarrow> uint64 \<Rightarrow> shard_meta list \<Rightarrow> string" where
  "sr_leader_search r sid [] = []"
| "sr_leader_search r sid (s # ss) =
     (if sm_shard_id s = sid then
        (case sr_node_addrs r sid (sm_leader_node_id s) of
           Some a \<Rightarrow> a
         | None \<Rightarrow> sr_leader_search r sid ss)
      else sr_leader_search r sid ss)"

definition sr_getLeaderAddr :: "uint64 \<Rightarrow> shard_router \<Rightarrow> string" where
  "sr_getLeaderAddr sid r = sr_leader_search r sid (map_shards (sr_map r))"

fun leader_of :: "uint64 \<Rightarrow> shard_meta list \<Rightarrow> uint64" where
  "leader_of sid [] = 0"
| "leader_of sid (s # ss) = (if sm_shard_id s = sid then sm_leader_node_id s else leader_of sid ss)"

definition sr_getLeaderNodeId :: "uint64 \<Rightarrow> shard_router \<Rightarrow> uint64" where
  "sr_getLeaderNodeId sid r = leader_of sid (map_shards (sr_map r))"

subsection \<open>The router of the client\<close>

record router =
  rt_usePd :: bool
  rt_directAddr :: string
  rt_pdAddr :: string
  rt_shardMap :: shard_map
  rt_nodeAddrs :: "uint64 \<rightharpoonup> string"

definition Router :: router where
  "Router = \<lparr>rt_usePd = False, rt_directAddr = [], rt_pdAddr = [], rt_shardMap = default_shard_map,
     rt_nodeAddrs = Map.empty\<rparr>"

definition setDirectNode :: "string \<Rightarrow> router \<Rightarrow> router" where
  "setDirectNode addr r = r\<lparr>rt_directAddr := addr, rt_usePd := False\<rparr>"

definition rt_loadShardMap :: "shard_map \<Rightarrow> router \<Rightarrow> router" where
  "rt_loadShardMap m r = r\<lparr>rt_shardMap := m, rt_usePd := True\<rparr>"

definition setPdAddr :: "string \<Rightarrow> router \<Rightarrow> router" where
  "setPdAddr addr r = r\<lparr>rt_pdAddr := addr\<rparr>"

definition getDirectAddr :: "router \<Rightarrow> string" where
  "getDirectAddr r = rt_directAddr r"

definition rt_updateLeader :: "uint64 \<Rightarrow> uint64 \<Rightarrow> string \<Rightarrow> router \<Rightarrow> router" where
  "rt_updateLeader sid nid addr r = r\<lparr>rt_nodeAddrs := (rt_nodeAddrs r)(nid \<mapsto> addr)\<rparr>"

fun addr_search :: "router \<Rightarrow> string \<Rightarrow> shard_meta list \<Rightarrow> string" where
  "addr_search r key [] = []"
| "addr_search r key (s # ss) =
     (if covers s key
      then (case rt_nodeAddrs r (sm_leader_node_id s) of Some a \<Rightarrow> a | None \<Rightarrow> [])
      else addr_search r key ss)"

definition getAddrForKey :: "string \<Rightarrow> router \<Rightarrow> string" where
  "getAddrForKey key r =
     (if \<not> rt_usePd r then rt_directAddr r else addr_search r key (map_shards (rt_shardMap r)))"

definition rt_getShardId :: "string \<Rightarrow> router \<Rightarrow> uint64" where
  "rt_getShardId key r = find_shard_id key (map_shards (rt_shardMap r))"

fun rt_leader_search :: "router \<Rightarrow> uint64 \<Rightarrow> shard_meta list \<Rightarrow> string" where
  "rt_leader_search r sid [] = []"
| "rt_leader_search r sid (s # ss) =
     (if sm_shard_id s = sid then
        (case rt_nodeAddrs r (sm_leader_node_id s) of Some a \<Rightarrow> a | None \<Rightarrow> rt_leader_search r sid ss)
      else rt_leader_search r sid ss)"

definition rt_getLeaderAddr :: "uint64 \<Rightarrow> router \<Rightarrow> string" where
  "rt_getLeaderAddr sid r = rt_leader_search r sid (map_shards (rt_shardMap r))"

subsection \<open>The shard manager\<close>

text \<open>
  The unordered map \<open>nodes_\<close> is a map; a method that iterates over it takes the iteration order of
  that moment as an argument, a list of all its keys. \<open>now\<close> is \<open>std::time\<close>.
\<close>

record node_state =
  ns_nodeId :: uint64
  ns_ip :: string
  ns_port :: uint32
  ns_shardCount :: uint32
  ns_leaderCount :: uint32
  ns_alive :: bool
  ns_lastHeartbeat :: int

record shard_state =
  ss_shardId :: uint64
  ss_startKey :: string
  ss_endKey :: string
  ss_epoch :: uint64
  ss_leaderNodeId :: uint64
  ss_peerNodeIds :: "uint64 list"

record shard_manager =
  mg_nodes :: "uint64 \<rightharpoonup> node_state"
  mg_nextNodeId :: uint64
  mg_shards :: "shard_state list"
  mg_nodeAddrs :: "uint64 \<rightharpoonup> string"

definition default_node_state :: node_state where
  "default_node_state = \<lparr>ns_nodeId = 0, ns_ip = [], ns_port = 0, ns_shardCount = 0,
     ns_leaderCount = 0, ns_alive = True, ns_lastHeartbeat = 0\<rparr>"

definition ShardManager :: shard_manager where
  "ShardManager = \<lparr>mg_nodes = Map.empty, mg_nextNodeId = 1, mg_shards = [], mg_nodeAddrs = Map.empty\<rparr>"

definition registerNode :: "node_info \<Rightarrow> int \<Rightarrow> shard_manager \<Rightarrow> uint64 \<times> shard_manager" where
  "registerNode info now m =
     (let nid = mg_nextNodeId m;
          ns = default_node_state\<lparr>ns_nodeId := nid, ns_ip := ni_ip info, ns_port := ni_port info,
                 ns_alive := True, ns_lastHeartbeat := now\<rparr>
      in (nid, m\<lparr>mg_nextNodeId := nid + 1, mg_nodes := (mg_nodes m)(nid \<mapsto> ns)\<rparr>))"

definition processHeartbeat :: "uint64 \<Rightarrow> hb_shard_state \<Rightarrow> int \<Rightarrow> shard_manager \<Rightarrow> shard_manager" where
  "processHeartbeat nid state now m =
     (case mg_nodes m nid of
        None \<Rightarrow> m
      | Some ns \<Rightarrow> m\<lparr>mg_nodes := (mg_nodes m)(nid \<mapsto> ns\<lparr>ns_alive := True, ns_lastHeartbeat := now,
          ns_leaderCount := (if hs_is_leader state then 1 else 0)\<rparr>)\<rparr>)"

definition is_dead :: "int \<Rightarrow> node_state \<Rightarrow> bool" where
  "is_dead now ns \<longleftrightarrow> ns_alive ns \<and> now - ns_lastHeartbeat ns > 10"

definition dead_step ::
  "int \<Rightarrow> uint64 \<Rightarrow> uint64 list \<times> (uint64 \<rightharpoonup> node_state) \<Rightarrow> uint64 list \<times> (uint64 \<rightharpoonup> node_state)" where
  "dead_step now nid st = (case st of (dead, nodes) \<Rightarrow>
     (case nodes nid of
        None \<Rightarrow> (dead, nodes)
      | Some ns \<Rightarrow> if is_dead now ns then (dead @ [nid], nodes(nid \<mapsto> ns\<lparr>ns_alive := False\<rparr>))
                   else (dead, nodes)))"

definition getDeadNodes :: "uint64 list \<Rightarrow> int \<Rightarrow> shard_manager \<Rightarrow> uint64 list \<times> shard_manager" where
  "getDeadNodes order now m =
     (let (dead, nodes) = fold (dead_step now) order ([], mg_nodes m)
      in (dead, m\<lparr>mg_nodes := nodes\<rparr>))"

text \<open>\<open>std::string(1, static_cast<char>('a' + i * (26 / numShards)))\<close>.\<close>

definition split_point :: "int \<Rightarrow> int \<Rightarrow> string" where
  "split_point numShards i = [char_of (nat ((97 + i * (26 div numShards)) mod 256))]"

definition init_shard :: "int \<Rightarrow> int \<Rightarrow> shard_state" where
  "init_shard numShards i = \<lparr>ss_shardId = word_of_int (i + 1),
     ss_startKey = split_point numShards i,
     ss_endKey = (if i + 1 < numShards then split_point numShards (i + 1) else []),
     ss_epoch = 1, ss_leaderNodeId = 0, ss_peerNodeIds = []\<rparr>"

definition initShards :: "int \<Rightarrow> int \<Rightarrow> shard_manager \<Rightarrow> shard_manager" where
  "initShards numShards replicaCount m =
     m\<lparr>mg_shards := map (init_shard numShards) [0..numShards - 1]\<rparr>"

definition shard_meta_of :: "shard_state \<Rightarrow> shard_meta" where
  "shard_meta_of s = \<lparr>sm_shard_id = ss_shardId s, sm_start_key = ss_startKey s,
     sm_end_key = ss_endKey s, sm_epoch = ss_epoch s, sm_leader_node_id = ss_leaderNodeId s,
     sm_peer_node_ids = ss_peerNodeIds s\<rparr>"

definition getShardMap :: "shard_manager \<Rightarrow> shard_map" where
  "getShardMap m = \<lparr>map_shards = map shard_meta_of (mg_shards m), map_version = 1\<rparr>"

fun assign_first :: "uint64 \<Rightarrow> uint64 \<Rightarrow> bool \<Rightarrow> shard_state list \<Rightarrow> shard_state list" where
  "assign_first sid nid isLdr [] = []"
| "assign_first sid nid isLdr (s # ss) =
     (if ss_shardId s = sid then
        let s = (if isLdr then s\<lparr>ss_leaderNodeId := nid\<rparr> else s);
            s = (if nid \<notin> set (ss_peerNodeIds s) then s\<lparr>ss_peerNodeIds := ss_peerNodeIds s @ [nid]\<rparr> else s)
        in s # ss
      else s # assign_first sid nid isLdr ss)"

definition assignShard :: "uint64 \<Rightarrow> uint64 \<Rightarrow> bool \<Rightarrow> shard_manager \<Rightarrow> shard_manager" where
  "assignShard sid nid isLdr m = m\<lparr>mg_shards := assign_first sid nid isLdr (mg_shards m)\<rparr>"

text \<open>
  \<open>scheduleRebalance\<close>: the load counters, the choice of a node, the loop that adds replicas to one
  shard, and the method. \<open>shardCounts\<close> is only read at alive nodes, which are its keys.
\<close>

definition count_shards :: "uint64 list \<Rightarrow> shard_state list \<Rightarrow> uint64 \<Rightarrow> int" where
  "count_shards alive ss nid =
     (if nid \<in> set alive then int (length (filter (\<lambda>p. p = nid) (concat (map ss_peerNodeIds ss)))) else 0)"

fun best_node :: "(uint64 \<Rightarrow> int) \<Rightarrow> uint64 list \<Rightarrow> uint64 list \<Rightarrow> uint64 \<Rightarrow> int \<Rightarrow> uint64" where
  "best_node counts peers [] best bestCount = best"
| "best_node counts peers (nid # ns) best bestCount =
     (if counts nid < bestCount \<and> nid \<notin> set peers then best_node counts peers ns nid (counts nid)
      else best_node counts peers ns best bestCount)"

function add_replicas ::
  "uint64 list \<Rightarrow> uint64 list \<Rightarrow> (uint64 \<Rightarrow> int) \<Rightarrow> uint64 list \<times> (uint64 \<Rightarrow> int)" where
  "add_replicas alive peers counts =
     (if length peers < 3 \<and> length peers < length alive then
        let best = best_node counts peers alive (hd alive) (counts (hd alive))
        in add_replicas alive (peers @ [best]) (counts(best := counts best + 1))
      else (peers, counts))"
  by pat_completeness auto
termination by (relation "measure (\<lambda>(a, p, c). 3 - length p)") auto

declare add_replicas.simps [simp del]

definition elect_first :: "shard_state \<Rightarrow> shard_state" where
  "elect_first s = (if ss_leaderNodeId s = 0 \<and> ss_peerNodeIds s \<noteq> []
     then s\<lparr>ss_leaderNodeId := ss_peerNodeIds s ! 0\<rparr> else s)"

fun place_all :: "uint64 list \<Rightarrow> shard_state list \<Rightarrow> (uint64 \<Rightarrow> int) \<Rightarrow> shard_state list" where
  "place_all alive [] counts = []"
| "place_all alive (s # ss) counts =
     (let (peers, counts) = add_replicas alive (ss_peerNodeIds s) counts
      in s\<lparr>ss_peerNodeIds := peers\<rparr> # place_all alive ss counts)"

definition alive_nodes :: "uint64 list \<Rightarrow> shard_manager \<Rightarrow> uint64 list" where
  "alive_nodes order m =
     filter (\<lambda>nid. case mg_nodes m nid of None \<Rightarrow> False | Some ns \<Rightarrow> ns_alive ns) order"

definition scheduleRebalance :: "uint64 list \<Rightarrow> shard_manager \<Rightarrow> shard_manager" where
  "scheduleRebalance order m =
     (if mg_shards m = [] \<or> order = [] then m
      else let alive = alive_nodes order m in
      if alive = [] then m
      else let counts = count_shards alive (mg_shards m);
               shards = map elect_first (mg_shards m)
           in m\<lparr>mg_shards := place_all alive shards counts\<rparr>)"

definition setInitialNodes :: "uint64 list \<Rightarrow> (uint64 \<rightharpoonup> string) \<Rightarrow> shard_manager \<Rightarrow> shard_manager" where
  "setInitialNodes nodeIds addrs m =
     fold (\<lambda>nid m. m\<lparr>mg_nodes := (mg_nodes m)(nid \<mapsto> default_node_state\<lparr>ns_nodeId := nid, ns_alive := True\<rparr>),
                     mg_nextNodeId := (if nid \<ge> mg_nextNodeId m then nid + 1 else mg_nextNodeId m)\<rparr>)
       nodeIds (m\<lparr>mg_nodeAddrs := addrs\<rparr>)"

end
