(* ===== verification/Sharding_Props.thy ===== *)
theory Sharding_Props
  imports Sharding
begin

text \<open>
  Properties of sharding: how the initial shards split the key space, fresh node ids, failure
  detection, and what a rebalancing round does to the replicas of each shard.
\<close>

subsection \<open>The initial shards\<close>

lemma single_le_Cons: "[d] \<le> c # cs \<longleftrightarrow> d \<le> (c :: char)"
  by (auto simp: Cons_le_Cons le_less [of d])

lemma Cons_less_single: "c # cs < [d] \<longleftrightarrow> c < (d :: char)"
  by auto

definition byte :: "char \<Rightarrow> int" where
  "byte c = int (of_char c)"

lemma split_point_cmp:
  assumes "0 \<le> i * (26 div n)" and "i * (26 div n) \<le> 26"
  shows "split_point n i \<le> c # cs \<longleftrightarrow> 97 + i * (26 div n) \<le> byte c"
    and "c # cs < split_point n i \<longleftrightarrow> byte c < 97 + i * (26 div n)"
proof -
  let ?d = "char_of (nat ((97 + i * (26 div n)) mod 256)) :: char"
  have d: "int (of_char ?d) = 97 + i * (26 div n)" using assms by simp
  have "split_point n i \<le> c # cs \<longleftrightarrow> int (of_char ?d) \<le> byte c"
    by (simp only: split_point_def single_le_Cons less_eq_char_def byte_def of_nat_le_iff)
  then show "split_point n i \<le> c # cs \<longleftrightarrow> 97 + i * (26 div n) \<le> byte c" by (simp only: d)
  have "c # cs < split_point n i \<longleftrightarrow> byte c < int (of_char ?d)"
    by (simp only: split_point_def Cons_less_single less_char_def byte_def of_nat_less_iff)
  then show "c # cs < split_point n i \<longleftrightarrow> byte c < 97 + i * (26 div n)" by (simp only: d)
qed

lemma step_bound: "0 \<le> i \<Longrightarrow> i \<le> n \<Longrightarrow> 1 \<le> n \<Longrightarrow> 0 \<le> i * (26 div n) \<and> i * (26 div n) \<le> (26 :: int)"
proof -
  assume i: "0 \<le> i" "i \<le> n" "1 \<le> n"
  have w: "0 \<le> 26 div n" using i by (simp add: pos_imp_zdiv_nonneg_iff)
  have "i * (26 div n) \<le> n * (26 div n)" using i w by (intro mult_right_mono) auto
  also have "\<dots> = 26 - 26 mod n" by (simp add: minus_mod_eq_mult_div)
  also have "\<dots> \<le> 26" using i by simp
  finally show ?thesis using i w by simp
qed

text \<open>The shard that a first byte belongs to, counted from 0.\<close>

definition shard_index :: "int \<Rightarrow> char \<Rightarrow> int" where
  "shard_index n c = min (n - 1) ((byte c - 97) div (26 div n))"

lemma covers_init:
  assumes "1 \<le> n" and "0 \<le> i" and "i < n"
  shows "covers (shard_meta_of (init_shard n i)) (c # cs) \<longleftrightarrow>
    97 + i * (26 div n) \<le> byte c \<and> (i + 1 < n \<longrightarrow> byte c < 97 + (i + 1) * (26 div n))"
proof -
  have p: "split_point n j \<noteq> []" for j by (simp add: split_point_def)
  have b: "0 \<le> i * (26 div n)" "i * (26 div n) \<le> 26" "0 \<le> (i + 1) * (26 div n)" "(i + 1) * (26 div n) \<le> 26"
    using step_bound [of i n] step_bound [of "i + 1" n] assms by auto
  show ?thesis
    using p split_point_cmp(1) [OF b(1,2), of c cs] split_point_cmp(2) [OF b(3,4), of c cs]
    by (simp add: covers_def shard_meta_of_def init_shard_def)
qed

lemma le_div_int: "0 < (w::int) \<Longrightarrow> k \<le> a div w \<longleftrightarrow> k * w \<le> a"
proof
  assume w: "0 < w" and "k \<le> a div w"
  then have "k * w \<le> a div w * w" by (intro mult_right_mono) auto
  also have "\<dots> = a - a mod w" by (simp add: minus_mod_eq_div_mult)
  also have "\<dots> \<le> a" using w by simp
  finally show "k * w \<le> a" .
next
  assume w: "0 < w" and "k * w \<le> a"
  then have "k * w div w \<le> a div w" by (intro zdiv_mono1)
  then show "k \<le> a div w" using w by simp
qed

lemma find_init_from:
  assumes n: "1 \<le> n" "n \<le> 26" and k: "0 \<le> k" "k < n" "k \<le> (byte c - 97) div (26 div n)"
  shows "find_shard_id (c # cs) (map (\<lambda>i. shard_meta_of (init_shard n i)) [k..n - 1]) =
    word_of_int (shard_index n c + 1)"
  using k
proof (induction "nat (n - 1 - k)" arbitrary: k)
  case (0 k)
  have w: "0 < 26 div n" using n by (simp add: pos_imp_zdiv_pos_iff)
  from 0 have kn: "k = n - 1" by simp
  have "k * (26 div n) \<le> byte c - 97" using 0 le_div_int [OF w] by simp
  then have "covers (shard_meta_of (init_shard n k)) (c # cs)"
    using covers_init [of n k c cs] 0 n kn by simp
  moreover have "shard_index n c = k" using 0 kn by (simp add: shard_index_def)
  ultimately show ?case using kn by (simp add: shard_meta_of_def init_shard_def)
next
  case (Suc d k)
  have w: "0 < 26 div n" using n by (simp add: pos_imp_zdiv_pos_iff)
  from Suc have kn: "k + 1 < n" by simp
  have le: "k * (26 div n) \<le> byte c - 97" using Suc.prems le_div_int [OF w] by simp
  have up: "[k..n - 1] = k # [k + 1..n - 1]" using kn by (simp add: upto_rec1)
  show ?case
  proof (cases "k + 1 \<le> (byte c - 97) div (26 div n)")
    case True
    then have "(k + 1) * (26 div n) \<le> byte c - 97" using le_div_int [OF w] by simp
    then have "\<not> covers (shard_meta_of (init_shard n k)) (c # cs)"
      using covers_init [of n k c cs] Suc.prems n kn by simp
    moreover have "d = nat (n - 1 - (k + 1))" using Suc.hyps(2) by simp
    from Suc.hyps(1) [OF this] Suc.prems kn True
    have "find_shard_id (c # cs) (map (\<lambda>i. shard_meta_of (init_shard n i)) [k + 1..n - 1]) =
      word_of_int (shard_index n c + 1)" by simp
    ultimately show ?thesis by (simp add: up)
  next
    case False
    then have "\<not> (k + 1) * (26 div n) \<le> byte c - 97" using le_div_int [OF w] by simp
    then have "covers (shard_meta_of (init_shard n k)) (c # cs)"
      using covers_init [of n k c cs] Suc.prems n kn le by simp
    moreover have "shard_index n c = k" using False Suc.prems kn by (simp add: shard_index_def)
    ultimately show ?thesis by (simp add: up) (simp add: shard_meta_of_def init_shard_def)
  qed
qed

lemma find_none: "\<forall>s \<in> set ss. \<not> covers s key \<Longrightarrow> find_shard_id key ss = 0"
  by (induction ss) simp_all

lemma init_shard_map:
  "map_shards (getShardMap (initShards n r m)) = map (\<lambda>i. shard_meta_of (init_shard n i)) [0..n - 1]"
  by (simp add: getShardMap_def initShards_def comp_def)

lemma low_keys_uncovered:
  assumes "1 \<le> n" and "key = [] \<or> byte (hd key) < 97"
  shows "find_shard_id key (map (\<lambda>i. shard_meta_of (init_shard n i)) [0..n - 1]) = 0"
proof (rule find_none, rule ballI)
  fix s assume "s \<in> set (map (\<lambda>i. shard_meta_of (init_shard n i)) [0..n - 1])"
  then obtain i where i: "0 \<le> i" "i < n" and s: "s = shard_meta_of (init_shard n i)" by auto
  show "\<not> covers s key"
  proof (cases key)
    case Nil
    then show ?thesis by (simp add: s covers_def shard_meta_of_def init_shard_def split_point_def)
  next
    case (Cons c cs)
    have "0 \<le> i * (26 div n)" using step_bound [of i n] i assms(1) by simp
    with Cons assms covers_init [OF assms(1) i, of c cs] show ?thesis by (auto simp: s)
  qed
qed

text \<open>
  C39. The initial shards split the key space by the first byte: with 1 to 26 shards, a key that
  starts with byte \<open>c\<close> from \<open>'a'\<close> on belongs to shard number \<open>(c - 'a') / (26 / n)\<close>, or to the last
  one, and to no other; a key below \<open>"a"\<close>, such as one that starts with a digit or a capital letter,
  belongs to none, and looking it up gives 0.
\<close>

theorem initial_shards_route:
  assumes "1 \<le> n" and "n \<le> 26"
  shows "sr_getShardId key (sr_loadShardMap (getShardMap (initShards n r m)) router) =
    (if key = [] \<or> byte (hd key) < 97 then 0
     else word_of_int (min (n - 1) ((byte (hd key) - 97) div (26 div n)) + 1))"
proof (cases "key = [] \<or> byte (hd key) < 97")
  case True
  then show ?thesis
    using low_keys_uncovered [OF assms(1) True] by (simp add: sr_getShardId_def sr_loadShardMap_def init_shard_map)
next
  case False
  then obtain c cs where k: "key = c # cs" "97 \<le> byte c" by (cases key) auto
  have "0 < 26 div n" using assms by (simp add: pos_imp_zdiv_pos_iff)
  then have "0 \<le> (byte c - 97) div (26 div n)" using k(2) by (simp add: pos_imp_zdiv_nonneg_iff)
  from find_init_from [OF assms _ _ this, of cs] False k assms show ?thesis
    by (simp add: sr_getShardId_def sr_loadShardMap_def init_shard_map shard_index_def)
qed

theorem initial_shards_route_witness:
  "sr_getShardId ''key'' (sr_loadShardMap (getShardMap (initShards 4 3 ShardManager)) ShardRouter) = 2
   \<and> sr_getShardId ''User'' (sr_loadShardMap (getShardMap (initShards 4 3 ShardManager)) ShardRouter) = 0"
  using initial_shards_route [of 4 "''key''" 3 ShardManager ShardRouter]
    initial_shards_route [of 4 "''User''" 3 ShardManager ShardRouter]
  by (simp add: byte_def)

text \<open>
  Asking for more than 26 shards leaves all but the last one empty: the width of a shard becomes
  0, and every key that is routed at all is routed to the last shard.
\<close>

theorem too_many_shards:
  assumes "26 < n"
  shows "sr_getShardId key (sr_loadShardMap (getShardMap (initShards n r m)) router) =
    (if key = [] \<or> byte (hd key) < 97 then 0 else word_of_int n)"
proof (cases "key = [] \<or> byte (hd key) < 97")
  case True
  then show ?thesis
    using low_keys_uncovered [of n key] assms by (simp add: sr_getShardId_def sr_loadShardMap_def init_shard_map)
next
  case False
  then obtain c cs where k: "key = c # cs" "97 \<le> byte c" by (cases key) auto
  have w: "26 div n = 0" using assms by simp
  have cov: "covers (shard_meta_of (init_shard n i)) key \<longleftrightarrow> i = n - 1" if "0 \<le> i" "i < n" for i
    using covers_init [of n i c cs] that assms k w by auto
  have up: "[0..n - 1] = [0..n - 2] @ [n - 1]" using assms upto_rec2 [of 0 "n - 1"] by simp
  have skip: "find_shard_id key (xs @ [s]) = (if covers s key then sm_shard_id s else 0)"
    if "\<forall>x \<in> set xs. \<not> covers x key" for xs s using that by (induction xs) auto
  have none: "\<forall>x \<in> set (map (\<lambda>i. shard_meta_of (init_shard n i)) [0..n - 2]). \<not> covers x key"
    using cov by auto
  have "covers (shard_meta_of (init_shard n (n - 1))) key" using cov [of "n - 1"] assms by simp
  moreover have "sm_shard_id (shard_meta_of (init_shard n (n - 1))) = word_of_int n"
    by (simp add: shard_meta_of_def init_shard_def)
  ultimately have "find_shard_id key (map (\<lambda>i. shard_meta_of (init_shard n i)) [0..n - 1]) = word_of_int n"
    unfolding up map_append list.map skip [OF none] by simp
  with False show ?thesis by (simp add: sr_getShardId_def sr_loadShardMap_def init_shard_map)
qed

theorem too_many_shards_witness:
  "sr_getShardId ''key'' (sr_loadShardMap (getShardMap (initShards 30 3 ShardManager)) ShardRouter) = 30"
  using too_many_shards [of 30 "''key''" 3 ShardManager ShardRouter] by (simp add: byte_def)

subsection \<open>Node ids\<close>

definition ids_fresh :: "shard_manager \<Rightarrow> bool" where
  "ids_fresh m \<longleftrightarrow> 0 < mg_nextNodeId m \<and> (\<forall>i \<in> dom (mg_nodes m). i < mg_nextNodeId m)"

lemma registerNode_fresh:
  assumes "ids_fresh m" and "mg_nextNodeId m \<noteq> - 1"
  shows "fst (registerNode info now m) \<notin> dom (mg_nodes m)" "0 < fst (registerNode info now m)"
    "ids_fresh (snd (registerNode info now m))"
  using assms word_less_plus_one [OF assms(2)]
  by (auto simp: registerNode_def ids_fresh_def Let_def dest: order.strict_trans)

fun register_all :: "(node_info \<times> int) list \<Rightarrow> shard_manager \<Rightarrow> uint64 list \<times> shard_manager" where
  "register_all [] m = ([], m)"
| "register_all ((info, now) # rs) m =
     (let (nid, m) = registerNode info now m; (ids, m) = register_all rs m in (nid # ids, m))"

lemma register_all_ids:
  assumes "unat (mg_nextNodeId m) + length rs < 2 ^ 64"
  shows "fst (register_all rs m) =
    map (\<lambda>k. word_of_nat (unat (mg_nextNodeId m) + k)) [0..<length rs]"
  using assms
proof (induction rs m rule: register_all.induct)
  case (2 info now rs m)
  let ?m = "snd (registerNode info now m)"
  have u: "unat (mg_nextNodeId ?m) = unat (mg_nextNodeId m) + 1"
    using "2.prems" by (simp add: registerNode_def Let_def unat_plus_one64)
  have f: "fst (registerNode info now m) = word_of_nat (unat (mg_nextNodeId m))"
    by (simp add: registerNode_def Let_def)
  have "[0..<length ((info, now) # rs)] = 0 # map Suc [0..<length rs]"
    by (simp add: upt_conv_Cons map_Suc_upt del: upt_Suc)
  moreover have "fst (register_all rs ?m) = map (\<lambda>k. word_of_nat (unat (mg_nextNodeId ?m) + k)) [0..<length rs]"
    using "2.IH" [of "registerNode info now m" "fst (registerNode info now m)" ?m] "2.prems" u by simp
  ultimately show ?case by (simp add: Let_def case_prod_unfold u f del: upt_Suc)
qed simp

text \<open>
  Node ids are never reused: starting from a manager whose known ids are below the next one, any
  sequence of registrations gives pairwise different ids, none of which was in use before.
\<close>

theorem registered_ids_unique:
  assumes "ids_fresh m" and "unat (mg_nextNodeId m) + length rs < 2 ^ 64"
  shows "distinct (fst (register_all rs m)) \<and> set (fst (register_all rs m)) \<inter> dom (mg_nodes m) = {}"
proof -
  have inj: "inj_on (\<lambda>k. word_of_nat (unat (mg_nextNodeId m) + k) :: uint64) (set [0..<length rs])"
  proof (rule inj_onI)
    fix x y assume xy: "x \<in> set [0..<length rs]" "y \<in> set [0..<length rs]"
      "(word_of_nat (unat (mg_nextNodeId m) + x) :: uint64) = word_of_nat (unat (mg_nextNodeId m) + y)"
    then have "unat (mg_nextNodeId m) + x < 2 ^ 64" "unat (mg_nextNodeId m) + y < 2 ^ 64"
      using assms(2) by auto
    then have "unat (mg_nextNodeId m) + x = unat (mg_nextNodeId m) + y"
      using xy(3) by (metis unat_word_of_nat64)
    then show "x = y" by simp
  qed
  have "distinct (fst (register_all rs m))"
    unfolding register_all_ids [OF assms(2)] using inj by (simp add: distinct_map)
  moreover have "i \<notin> dom (mg_nodes m)" if "i \<in> set (fst (register_all rs m))" for i
  proof -
    from that obtain k where k: "k < length rs" "i = word_of_nat (unat (mg_nextNodeId m) + k)"
      unfolding register_all_ids [OF assms(2)] by auto
    then have "unat i = unat (mg_nextNodeId m) + k" using assms(2) by (subst k(2), intro unat_word_of_nat64) simp
    then have "\<not> i < mg_nextNodeId m" by (simp add: word_less_nat_alt)
    with assms(1) show ?thesis by (auto simp: ids_fresh_def)
  qed
  ultimately show ?thesis by blast
qed

theorem registered_ids_unique_witness:
  "distinct (fst (register_all [(default_node_info, 5), (default_node_info, 6)] ShardManager))"
  using registered_ids_unique [of ShardManager "[(default_node_info, 5), (default_node_info, 6)]"]
  by (simp add: ids_fresh_def ShardManager_def)

subsection \<open>Failure detection\<close>

lemma fold_dead_step:
  assumes "distinct order"
  shows "fold (dead_step now) order (dead, nodes) =
    (dead @ filter (\<lambda>i. \<exists>ns. nodes i = Some ns \<and> is_dead now ns) order,
     \<lambda>i. if i \<in> set order then map_option (\<lambda>ns. if is_dead now ns then ns\<lparr>ns_alive := False\<rparr> else ns) (nodes i)
         else nodes i)"
  using assms
proof (induction order arbitrary: dead nodes)
  case (Cons i order)
  then show ?case by (auto simp: dead_step_def fun_eq_iff split: option.split intro!: filter_cong)
qed simp

text \<open>
  Failure detection: \<open>getDeadNodes\<close> reports exactly the nodes that were alive and have been silent
  for more than ten seconds, marks them as not alive, leaves every other node alone, and does not
  report a node again until a heartbeat has revived it.
\<close>

theorem dead_nodes_reported_once:
  fixes order now m
  assumes "distinct order" and "set order = dom (mg_nodes m)"
  defines "r \<equiv> getDeadNodes order now m"
  shows "set (fst r) = {i. \<exists>ns. mg_nodes m i = Some ns \<and> ns_alive ns \<and> now - ns_lastHeartbeat ns > 10}
    \<and> (\<forall>i. mg_nodes (snd r) i = map_option (\<lambda>ns. if i \<in> set (fst r) then ns\<lparr>ns_alive := False\<rparr> else ns) (mg_nodes m i))
    \<and> (\<forall>later order'. distinct order' \<and> set order' = set order \<longrightarrow>
         set (fst (getDeadNodes order' later (snd r))) \<inter> set (fst r) = {})"
proof -
  have f: "fst r = filter (\<lambda>i. \<exists>ns. mg_nodes m i = Some ns \<and> is_dead now ns) order"
    and s: "mg_nodes (snd r) = (\<lambda>i. map_option (\<lambda>ns. if is_dead now ns then ns\<lparr>ns_alive := False\<rparr> else ns) (mg_nodes m i))"
    using assms(2) by (auto simp: r_def getDeadNodes_def fold_dead_step [OF assms(1)] fun_eq_iff dom_def)
  have mem: "i \<in> set (fst r) \<longleftrightarrow> (\<exists>ns. mg_nodes m i = Some ns \<and> is_dead now ns)" for i
    using assms(2) by (auto simp: f)
  have "set (fst (getDeadNodes order' later (snd r))) \<inter> set (fst r) = {}" if "distinct order'" for later order'
  proof -
    have "\<not> (\<exists>ns. mg_nodes (snd r) i = Some ns \<and> is_dead later ns)" if "i \<in> set (fst r)" for i
      using mem [of i] that by (auto simp: s) (simp add: is_dead_def)
    then show ?thesis by (auto simp: getDeadNodes_def fold_dead_step [OF that])
  qed
  moreover have "mg_nodes (snd r) i =
      map_option (\<lambda>ns. if i \<in> set (fst r) then ns\<lparr>ns_alive := False\<rparr> else ns) (mg_nodes m i)" for i
    using mem [of i] by (cases "mg_nodes m i") (simp_all add: s)
  ultimately show ?thesis using mem by (auto simp: is_dead_def)
qed

definition one_node :: shard_manager where
  "one_node = ShardManager\<lparr>mg_nodes := [1 \<mapsto> default_node_state\<lparr>ns_nodeId := 1, ns_lastHeartbeat := 100\<rparr>]\<rparr>"

theorem dead_nodes_reported_once_witness:
  "set (fst (getDeadNodes [1] 111 one_node)) = {1}"
  using dead_nodes_reported_once [of "[1]" one_node 111]
  by (simp add: one_node_def default_node_state_def ShardManager_def)

subsection \<open>Rebalancing\<close>

lemma best_node_alive:
  "best \<in> set alive \<Longrightarrow> set ns \<subseteq> set alive \<Longrightarrow> best_node counts peers ns best bc \<in> set alive"
  by (induction counts peers ns best bc rule: best_node.induct) auto

lemma add_replicas_extends:
  assumes "alive \<noteq> []"
  shows "\<exists>extra. fst (add_replicas alive peers counts) = peers @ extra \<and> set extra \<subseteq> set alive
    \<and> length (peers @ extra) = max (length peers) (min 3 (length alive))"
proof (induction alive peers counts rule: add_replicas.induct)
  case (1 alive peers counts)
  show ?case
  proof (cases "length peers < 3 \<and> length peers < length alive")
    case True
    let ?b = "best_node counts peers alive (hd alive) (counts (hd alive))"
    from True have "alive \<noteq> []" by auto
    then have b: "?b \<in> set alive" by (intro best_node_alive) simp_all
    from "1.IH" [OF True refl] obtain extra where
      e: "fst (add_replicas alive (peers @ [?b]) (counts(?b := counts ?b + 1))) = (peers @ [?b]) @ extra"
      "set extra \<subseteq> set alive" "length ((peers @ [?b]) @ extra) = max (length (peers @ [?b])) (min 3 (length alive))"
      by blast
    have "fst (add_replicas alive peers counts) = peers @ (?b # extra)"
      using True e(1) by (subst add_replicas.simps) (simp add: Let_def)
    moreover have "length (peers @ (?b # extra)) = max (length peers) (min 3 (length alive))"
      using e(3) True by auto
    ultimately show ?thesis using b e(2) by (intro exI [of _ "?b # extra"]) simp
  next
    case False
    then show ?thesis by (subst add_replicas.simps) (auto simp: max_def)
  qed
qed

definition rebalanced :: "uint64 list \<Rightarrow> shard_state \<Rightarrow> shard_state \<Rightarrow> bool" where
  "rebalanced alive s s' \<longleftrightarrow> (\<exists>extra. s' = s\<lparr>ss_leaderNodeId := ss_leaderNodeId s', ss_peerNodeIds := ss_peerNodeIds s @ extra\<rparr>
     \<and> set extra \<subseteq> set alive
     \<and> length (ss_peerNodeIds s') = max (length (ss_peerNodeIds s)) (min 3 (length alive)))
     \<and> ss_leaderNodeId s' = (if ss_leaderNodeId s = 0 \<and> ss_peerNodeIds s \<noteq> [] then hd (ss_peerNodeIds s)
         else ss_leaderNodeId s)"

lemma place_all_rebalanced:
  assumes "alive \<noteq> []"
  shows "list_all2 (rebalanced alive) ss (place_all alive (map elect_first ss) counts)"
proof (induction ss arbitrary: counts)
  case (Cons s ss)
  have p: "ss_peerNodeIds (elect_first s) = ss_peerNodeIds s" by (simp add: elect_first_def)
  obtain extra where e: "fst (add_replicas alive (ss_peerNodeIds s) counts) = ss_peerNodeIds s @ extra"
    "set extra \<subseteq> set alive" "length (ss_peerNodeIds s @ extra) = max (length (ss_peerNodeIds s)) (min 3 (length alive))"
    using add_replicas_extends [OF assms] by blast
  have "rebalanced alive s ((elect_first s)\<lparr>ss_peerNodeIds := ss_peerNodeIds s @ extra\<rparr>)"
    unfolding rebalanced_def using e by (intro conjI exI [of _ extra]) (auto simp: elect_first_def hd_conv_nth)
  with Cons e(1) show ?case by (simp add: Let_def case_prod_unfold p)
qed simp

text \<open>
  A rebalancing round, for any iteration order of the node table, leaves every shard with
  \<open>min 3 (alive nodes)\<close> replicas or more: replicas are only added, only on alive nodes, and only up to
  that number. A shard without a leader gets its first replica of before the round; a shard that has
  a leader keeps it, dead or alive, and its dead replicas still count.
\<close>

theorem rebalance_adds_replicas:
  assumes "alive_nodes order m \<noteq> []"
  shows "list_all2 (rebalanced (alive_nodes order m)) (mg_shards m) (mg_shards (scheduleRebalance order m))"
proof (cases "mg_shards m = []")
  case True
  then show ?thesis by (simp add: scheduleRebalance_def)
next
  case False
  have "order \<noteq> []" using assms by (auto simp: alive_nodes_def)
  with False assms place_all_rebalanced [OF assms] show ?thesis by (simp add: scheduleRebalance_def Let_def)
qed

definition two_nodes :: shard_manager where
  "two_nodes = initShards 2 3 (setInitialNodes [1, 2] Map.empty ShardManager)"

theorem rebalance_adds_replicas_witness:
  "list_all2 (rebalanced [1, 2]) (mg_shards two_nodes) (mg_shards (scheduleRebalance [1, 2] two_nodes))"
proof -
  have a: "alive_nodes [1, 2] two_nodes = [1, 2]"
    by (simp add: alive_nodes_def two_nodes_def initShards_def setInitialNodes_def ShardManager_def default_node_state_def)
  from rebalance_adds_replicas [of "[1, 2]" two_nodes] show ?thesis unfolding a by simp
qed

text \<open>
  A node can be given the same shard twice: with two nodes that hold one shard each, the round
  picks the first node again for the first shard, since the second one is not strictly less loaded.
\<close>

theorem rebalance_duplicates_replica:
  "map ss_peerNodeIds (mg_shards (scheduleRebalance [1, 2] (assignShard 2 2 False (assignShard 1 1 False two_nodes))))
     = [[1, 1], [2, 1]]"
  by code_simp

end
