(* ===== verification/Pd_Server.thy ===== *)
theory Pd_Server
  imports Codec Sharding
begin

text \<open>
  The placement driver (\<open>pd_server/pd_service.cpp\<close>, \<open>pd_server/pd_server.cpp\<close>): its three handlers, the
  receive loop that tries to parse a payload as each of the requests in turn, and the periodic
  scheduling. The generated parsers and serialisers are the fields of \<open>pd_env\<close>.
\<close>

record 'b pd_env =
  pd_buf :: "'b buffer_ops"
  parse_register :: "string \<Rightarrow> register_node_request option"
  parse_heartbeat :: "string \<Rightarrow> heartbeat_request option"
  parse_get_map :: "string \<Rightarrow> unit option"
  ser_register_resp :: "register_node_response \<Rightarrow> string"
  ser_heartbeat_resp :: "heartbeat_response \<Rightarrow> string"
  ser_map_resp :: "get_shard_map_response \<Rightarrow> string"

text \<open>Each handler returns the bytes it sends. \<open>clk\<close> gives the value of \<open>std::time\<close> at each call.\<close>

definition handleRegisterNode ::
  "'b pd_env \<Rightarrow> register_node_request \<Rightarrow> int \<Rightarrow> shard_manager \<Rightarrow> string \<times> shard_manager" where
  "handleRegisterNode env req now m =
     (let (nid, m) = registerNode (field_or default_node_info (rn_node req)) now m;
          resp = \<lparr>rnr_error_code = OK, rnr_assigned_node_id = nid\<rparr>
      in (frame_bytes (pd_buf env) CLIENT_MSG (ser_register_resp env resp), m))"

definition handleHeartbeat ::
  "'b pd_env \<Rightarrow> heartbeat_request \<Rightarrow> (nat \<Rightarrow> int) \<Rightarrow> shard_manager \<Rightarrow> string \<times> shard_manager" where
  "handleHeartbeat env req clk m =
     (let m = fold (\<lambda>(k, state). processHeartbeat (hb_node_id req) state (clk k))
                (enumerate 0 (hb_shard_states req)) m;
          resp = \<lparr>hbr_error_code = OK, hbr_commands = []\<rparr>
      in (frame_bytes (pd_buf env) CLIENT_MSG (ser_heartbeat_resp env resp), m))"

definition handleGetShardMap :: "'b pd_env \<Rightarrow> shard_manager \<Rightarrow> string" where
  "handleGetShardMap env m =
     (let resp = \<lparr>gsm_error_code = OK, gsm_shard_map = Some (getShardMap m)\<rparr>
      in frame_bytes (pd_buf env) CLIENT_MSG (ser_map_resp env resp))"

text \<open>One frame; the state is the bytes sent so far and the metadata.\<close>

definition pd_frame ::
  "'b pd_env \<Rightarrow> (nat \<Rightarrow> int) \<Rightarrow> char \<Rightarrow> string \<Rightarrow> string list \<times> shard_manager \<Rightarrow> string list \<times> shard_manager" where
  "pd_frame env clk ty payload st =
     (case st of (out, m) \<Rightarrow>
       (case parse_register env payload of
          Some regReq \<Rightarrow> (let (b, m) = handleRegisterNode env regReq (clk 0) m in (out @ [b], m))
        | None \<Rightarrow>
       (case parse_heartbeat env payload of
          Some hbReq \<Rightarrow> (let (b, m) = handleHeartbeat env hbReq clk m in (out @ [b], m))
        | None \<Rightarrow>
       (case parse_get_map env payload of
          Some gsmReq \<Rightarrow> (out @ [handleGetShardMap env m], m)
        | None \<Rightarrow> (out, m)))))"

definition pd_onMessage ::
  "'b pd_env \<Rightarrow> (nat \<Rightarrow> int) \<Rightarrow> 'b \<Rightarrow> shard_manager \<Rightarrow> ('b \<times> (string list \<times> shard_manager) \<times> bool) option" where
  "pd_onMessage env clk buf m = frame_loop (pd_buf env) (pd_frame env clk) buf ([], m)"

definition PdServer :: "int \<Rightarrow> int \<Rightarrow> shard_manager" where
  "PdServer numShards replicaCount = initShards numShards replicaCount ShardManager"

text \<open>The two orders are the iteration orders of the node table in the two methods.\<close>

definition pd_tick :: "uint64 list \<Rightarrow> uint64 list \<Rightarrow> int \<Rightarrow> shard_manager \<Rightarrow> shard_manager" where
  "pd_tick order order' now m =
     (let (dead, m) = getDeadNodes order now m
      in if dead \<noteq> [] then scheduleRebalance order' m else m)"

subsection \<open>Requests that are taken for registrations\<close>

text \<open>
  What the protocol promises of parsing: the empty string is the encoding of a message with no field
  set, of every message type. \<open>GetShardMapRequest\<close> has no fields, so it is always sent as the empty
  string.
\<close>

locale proto3_parsing =
  fixes env :: "'b pd_env"
  assumes empty_register: "parse_register env [] = Some \<lparr>rn_node = None\<rparr>"
    and empty_heartbeat: "parse_heartbeat env [] = Some \<lparr>hb_node_id = 0, hb_node_stats = None, hb_shard_states = []\<rparr>"
    and empty_get_map: "parse_get_map env [] = Some ()"
begin

lemma empty_is_registration:
  "pd_frame env clk ty [] (out, m) =
     (out @ [frame_bytes (pd_buf env) CLIENT_MSG (ser_register_resp env
        \<lparr>rnr_error_code = OK, rnr_assigned_node_id = mg_nextNodeId m\<rparr>)],
      snd (registerNode default_node_info (clk 0) m))"
  by (simp add: pd_frame_def empty_register handleRegisterNode_def registerNode_def Let_def)

end

text \<open>An instance with a fixed-width encoding of the fields; the empty string has no field set.\<close>

definition ref_pd_env :: "string pd_env" where
  "ref_pd_env = \<lparr>pd_buf = list_buffer,
     parse_register = (\<lambda>s. if s = [] then Some \<lparr>rn_node = None\<rparr> else None),
     parse_heartbeat = (\<lambda>s. if length s = 8
       then Some \<lparr>hb_node_id = word_of_nat (be_decode s), hb_node_stats = None, hb_shard_states = []\<rparr>
       else if s = [] then Some \<lparr>hb_node_id = 0, hb_node_stats = None, hb_shard_states = []\<rparr> else None),
     parse_get_map = (\<lambda>s. if s = [] then Some () else None),
     ser_register_resp = (\<lambda>r. be_encode 8 (unat (rnr_assigned_node_id r))),
     ser_heartbeat_resp = (\<lambda>r. []), ser_map_resp = (\<lambda>r. be_encode 8 (length (map_shards (the (gsm_shard_map r)))))\<rparr>"

interpretation ref_pd: proto3_parsing ref_pd_env
  by unfold_locales (simp_all add: ref_pd_env_def)

text \<open>
  The placement driver never answers a request for the shard map: the payload of
  \<open>GetShardMapRequest\<close> is empty, an empty payload parses as \<open>RegisterNodeRequest\<close>, and that is tried
  first. The client gets a registration response, and a node without address is registered.
\<close>

theorem shard_map_request_registers:
  assumes "net_buffer (pd_buf env) bytes" and "proto3_parsing env"
    and "bytes buf = frame_bytes (pd_buf env) CLIENT_MSG []"
  shows "\<exists>buf'. pd_onMessage env clk buf m = Some (buf',
      ([frame_bytes (pd_buf env) CLIENT_MSG (ser_register_resp env
         \<lparr>rnr_error_code = OK, rnr_assigned_node_id = mg_nextNodeId m\<rparr>)],
       snd (registerNode default_node_info (clk 0) m)), False) \<and> bytes buf' = []"
proof -
  have b: "bytes buf = concat (map encode_frame [(CLIENT_MSG, [])]) @ []"
    using assms(3) net_buffer.frame_bytes_encode [OF assms(1)] by simp
  from frame_loop_stream [OF assms(1) b, of "pd_frame env clk" "([], m)"]
  show ?thesis
    unfolding pd_onMessage_def by (simp add: headers_fit_short split_frame_def
        proto3_parsing.empty_is_registration [OF assms(2)])
qed

theorem shard_map_request_registers_witness:
  "\<exists>buf'. pd_onMessage ref_pd_env (\<lambda>_. 7) (frame_bytes list_buffer CLIENT_MSG []) (PdServer 4 3) = Some (buf',
      ([frame_bytes list_buffer CLIENT_MSG (ser_register_resp ref_pd_env
         \<lparr>rnr_error_code = OK, rnr_assigned_node_id = mg_nextNodeId (PdServer 4 3)\<rparr>)],
       snd (registerNode default_node_info 7 (PdServer 4 3))), False) \<and> buf' = []"
proof -
  have e: "pd_buf ref_pd_env = list_buffer" by (simp add: ref_pd_env_def)
  have "net_buffer (pd_buf ref_pd_env) (\<lambda>b. b)" by (simp add: e lb.net_buffer_axioms)
  from shard_map_request_registers [OF this ref_pd.proto3_parsing_axioms, of _ "\<lambda>_. 7" "PdServer 4 3"]
  show ?thesis by (simp add: e)
qed

subsection \<open>Scheduling\<close>

lemma no_deaths:
  assumes "\<forall>ns \<in> ran (mg_nodes m). \<not> is_dead now ns"
  shows "getDeadNodes order now m = ([], m)"
proof -
  have "dead_step now i (d, mg_nodes m) = (d, mg_nodes m)" for i d
    using assms by (auto simp: dead_step_def ran_def split: option.split)
  then have "fold (dead_step now) order (d, mg_nodes m) = (d, mg_nodes m)" for d
    by (induction order) simp_all
  then show ?thesis by (simp add: getDeadNodes_def)
qed

text \<open>
  Shards are placed only when a node dies: as long as every registered node keeps sending
  heartbeats, the periodic scheduling changes nothing, so the shards of a healthy cluster have no
  replica and no leader.
\<close>

theorem healthy_cluster_never_placed:
  assumes "\<forall>ns \<in> ran (mg_nodes m). ns_alive ns \<longrightarrow> now - ns_lastHeartbeat ns \<le> 10"
  shows "pd_tick order order' now m = m"
  using assms by (subst pd_tick_def) (simp add: no_deaths is_dead_def not_less)

theorem healthy_cluster_never_placed_witness:
  "pd_tick [1] [1] 8 (snd (registerNode default_node_info 5 (PdServer 4 3)))
     = snd (registerNode default_node_info 5 (PdServer 4 3))"
  by (rule healthy_cluster_never_placed) (simp add: registerNode_def PdServer_def initShards_def ShardManager_def)

end
