(* ===== verification/Rocks_Engine.thy ===== *)
theory Rocks_Engine
  imports Prelude
begin

text \<open>
  The storage engine (\<open>data_node/rocks_engine.cpp\<close>), a thin layer over RocksDB. RocksDB is
  third-party code: its calls are the record \<open>rocksdb_ops\<close>, its documented behaviour in terms of the
  stored key-value map is the locale \<open>rocksdb\<close>, and \<open>rocksdb_available\<close> adds that no call fails.
  A list of pairs is the reference instance.
\<close>

subsection \<open>The RocksDB interface\<close>

datatype db_status = Ok | NotFound | OtherError

datatype batch_op = BatchPut string string | BatchDelete string

record 'db rocksdb_ops =
  db_Open :: "string \<Rightarrow> db_status \<times> 'db"
  db_Put :: "string \<Rightarrow> string \<Rightarrow> 'db \<Rightarrow> db_status \<times> 'db"
  db_Get :: "string \<Rightarrow> 'db \<Rightarrow> db_status \<times> string"
  db_Delete :: "string \<Rightarrow> 'db \<Rightarrow> db_status \<times> 'db"
  db_Write :: "batch_op list \<Rightarrow> 'db \<Rightarrow> db_status \<times> 'db"
  db_Seek :: "string \<Rightarrow> 'db \<Rightarrow> (string \<times> string) list"

text \<open>\<open>db_Seek k\<close> is what an iterator shows from \<open>Seek(k)\<close> until it is no longer valid.\<close>

fun batch_apply :: "batch_op \<Rightarrow> (string \<rightharpoonup> string) \<Rightarrow> (string \<rightharpoonup> string)" where
  "batch_apply (BatchPut k v) m = m(k \<mapsto> v)"
| "batch_apply (BatchDelete k) m = m(k := None)"

subsection \<open>The engine\<close>

record 'db rocks_engine =
  db_path :: string
  db_ptr :: "'db option"

definition RocksEngine :: "string \<Rightarrow> 'db rocks_engine" where
  "RocksEngine path = \<lparr>db_path = path, db_ptr = None\<rparr>"

text \<open>\<open>DB::Open\<close> leaves the pointer alone when it fails.\<close>

definition engine_open :: "'db rocksdb_ops \<Rightarrow> 'db rocks_engine \<Rightarrow> bool \<times> 'db rocks_engine" where
  "engine_open ops e =
     (case db_Open ops (db_path e) of
        (Ok, db) \<Rightarrow> (True, e\<lparr>db_ptr := Some db\<rparr>)
      | (_, db) \<Rightarrow> (False, e))"

definition engine_close :: "'db rocks_engine \<Rightarrow> 'db rocks_engine" where
  "engine_close e = (if db_ptr e \<noteq> None then e\<lparr>db_ptr := None\<rparr> else e)"

text \<open>The operations on an open database; each dereferences \<open>db_\<close>.\<close>

definition engine_put :: "'db rocksdb_ops \<Rightarrow> string \<Rightarrow> string \<Rightarrow> 'db \<Rightarrow> bool \<times> 'db" where
  "engine_put ops key val db = (let (s, db) = db_Put ops key val db in (s = Ok, db))"

text \<open>The value is meaningful only when the call returns true.\<close>

definition engine_get :: "'db rocksdb_ops \<Rightarrow> string \<Rightarrow> 'db \<Rightarrow> bool \<times> string" where
  "engine_get ops key db =
     (let (s, v) = db_Get ops key db in if s = NotFound then (False, v) else (s = Ok, v))"

definition engine_del :: "'db rocksdb_ops \<Rightarrow> string \<Rightarrow> 'db \<Rightarrow> bool \<times> 'db" where
  "engine_del ops key db = (let (s, db) = db_Delete ops key db in (s = Ok, db))"

record scan_result =
  sc_kvs :: "(string \<times> string) list"
  sc_has_more :: bool
  sc_next_key :: string

fun scan_loop :: "string \<Rightarrow> uint32 \<Rightarrow> uint32 \<Rightarrow> (string \<times> string) list \<Rightarrow> scan_result \<Rightarrow> scan_result" where
  "scan_loop end_key limit count [] res = res"
| "scan_loop end_key limit count (kv # it) res =
     (if end_key \<noteq> [] \<and> fst kv \<ge> end_key then res
      else if count \<ge> limit then res\<lparr>sc_has_more := True, sc_next_key := fst kv\<rparr>
      else scan_loop end_key limit (count + 1) it (res\<lparr>sc_kvs := sc_kvs res @ [kv]\<rparr>))"

definition engine_scan :: "'db rocksdb_ops \<Rightarrow> string \<Rightarrow> string \<Rightarrow> uint32 \<Rightarrow> 'db \<Rightarrow> scan_result" where
  "engine_scan ops start_key end_key limit db =
     scan_loop end_key limit 0 (db_Seek ops start_key db)
       \<lparr>sc_kvs = [], sc_has_more = False, sc_next_key = []\<rparr>"

definition engine_writeBatch ::
  "'db rocksdb_ops \<Rightarrow> (string \<times> string) list \<Rightarrow> string list \<Rightarrow> 'db \<Rightarrow> bool \<times> 'db" where
  "engine_writeBatch ops puts deletes db =
     (let batch = map (\<lambda>p. BatchPut (fst p) (snd p)) puts @ map BatchDelete deletes;
          (s, db) = db_Write ops batch db
      in (s = Ok, db))"

subsection \<open>What RocksDB promises\<close>

definition range_of :: "string \<Rightarrow> (string \<rightharpoonup> string) \<Rightarrow> (string \<times> string) list \<Rightarrow> bool" where
  "range_of k m xs \<longleftrightarrow> sorted_wrt (<) (map fst xs) \<and> map_of xs = m |` {k'. k \<le> k'}"

locale rocksdb =
  fixes ops :: "'db rocksdb_ops" and content :: "'db \<Rightarrow> (string \<rightharpoonup> string)"
  assumes put_ok: "db_Put ops k v d = (Ok, d') \<Longrightarrow> content d' = (content d)(k \<mapsto> v)"
    and delete_ok: "db_Delete ops k d = (Ok, d') \<Longrightarrow> content d' = (content d)(k := None)"
    and get_ok: "db_Get ops k d = (Ok, v) \<Longrightarrow> content d k = Some v"
    and get_not_found: "db_Get ops k d = (NotFound, v) \<Longrightarrow> content d k = None"
    and write_ok: "db_Write ops b d = (Ok, d') \<Longrightarrow> content d' = fold batch_apply b (content d)"
    and seek_range: "range_of k (content d) (db_Seek ops k d)"

locale rocksdb_available = rocksdb +
  assumes put_available: "fst (db_Put ops k v d) = Ok"
    and delete_available: "fst (db_Delete ops k d) = Ok"
    and get_available: "content d k = Some v \<Longrightarrow> db_Get ops k d = (Ok, v)"
    and get_absent: "content d k = None \<Longrightarrow> fst (db_Get ops k d) = NotFound"
    and write_available: "fst (db_Write ops b d) = Ok"

subsection \<open>The reference instance\<close>

type_synonym alist_db = "(string \<times> string) list"

definition alist_seek :: "string \<Rightarrow> alist_db \<Rightarrow> (string \<times> string) list" where
  "alist_seek k d = map (\<lambda>k'. (k', the (map_of d k'))) (filter (\<lambda>k'. k \<le> k') (sort (remdups (map fst d))))"

fun alist_batch :: "batch_op \<Rightarrow> alist_db \<Rightarrow> alist_db" where
  "alist_batch (BatchPut k v) d = (k, v) # d"
| "alist_batch (BatchDelete k) d = filter (\<lambda>p. fst p \<noteq> k) d"

definition alist_ops :: "alist_db rocksdb_ops" where
  "alist_ops = \<lparr>db_Open = (\<lambda>path. (Ok, [])), db_Put = (\<lambda>k v d. (Ok, (k, v) # d)),
     db_Get = (\<lambda>k d. case map_of d k of None \<Rightarrow> (NotFound, []) | Some v \<Rightarrow> (Ok, v)),
     db_Delete = (\<lambda>k d. (Ok, filter (\<lambda>p. fst p \<noteq> k) d)),
     db_Write = (\<lambda>b d. (Ok, fold alist_batch b d)), db_Seek = alist_seek\<rparr>"

lemma map_of_filter_key: "map_of (filter (\<lambda>p. fst p \<noteq> k) d) = (map_of d)(k := None)"
  by (induction d) auto

lemma map_of_alist_batch: "map_of (alist_batch b d) = batch_apply b (map_of d)"
  by (cases b) (simp_all add: map_of_filter_key)

lemma map_of_fold_alist_batch: "map_of (fold alist_batch bs d) = fold batch_apply bs (map_of d)"
  by (induction bs arbitrary: d) (simp_all add: map_of_alist_batch)

lemma map_of_map_key: "map_of (map (\<lambda>k. (k, f k)) ks) k = (if k \<in> set ks then Some (f k) else None)"
  by (induction ks) auto

lemma alist_seek_range: "range_of k (map_of d) (alist_seek k d)"
proof -
  have "sorted_wrt (<) (sort (remdups (map fst d)))"
    by (simp add: strict_sorted_iff)
  then have "sorted_wrt (<) (map fst (alist_seek k d))"
    by (simp add: alist_seek_def comp_def sorted_wrt_filter)
  moreover have "map_of (alist_seek k d) k' = (map_of d |` {k'. k \<le> k'}) k'" for k'
  proof -
    have "k' \<in> set (filter (\<lambda>k'. k \<le> k') (sort (remdups (map fst d)))) \<longleftrightarrow> k \<le> k' \<and> map_of d k' \<noteq> None"
      by (auto simp: map_of_eq_None_iff)
    then show ?thesis unfolding alist_seek_def map_of_map_key by (auto simp: restrict_map_def)
  qed
  ultimately show ?thesis by (auto simp: range_of_def)
qed

interpretation al: rocksdb_available alist_ops map_of
  by unfold_locales
    (auto simp: alist_ops_def map_of_filter_key map_of_fold_alist_batch alist_seek_range
      split: option.splits)

subsection \<open>Scans\<close>

definition below_end :: "string \<Rightarrow> string \<times> string \<Rightarrow> bool" where
  "below_end e kv \<longleftrightarrow> e = [] \<or> fst kv < e"

definition key_range :: "string \<Rightarrow> string \<Rightarrow> string set" where
  "key_range s e = {k. s \<le> k \<and> (e = [] \<or> k < e)}"

lemma scan_loop_take:
  assumes "count \<le> limit"
  defines "n \<equiv> unat limit - unat count"
  shows "scan_loop e limit count it res =
    (let ys = takeWhile (below_end e) it
     in if n < length ys
        then res\<lparr>sc_kvs := sc_kvs res @ take n ys, sc_has_more := True, sc_next_key := fst (ys ! n)\<rparr>
        else res\<lparr>sc_kvs := sc_kvs res @ ys\<rparr>)"
  using assms(1) unfolding n_def
proof (induction e limit count it res rule: scan_loop.induct)
  case (1 e limit count res)
  then show ?case by simp
next
  case (2 e limit count kv it res)
  show ?case
  proof (cases "below_end e kv")
    case False
    then show ?thesis by (auto simp: below_end_def)
  next
    case True
    then have nb: "(e \<noteq> [] \<and> fst kv \<ge> e) = False" by (auto simp: below_end_def)
    show ?thesis
    proof (cases "count \<ge> limit")
      case t: True
      with 2 have "count = limit" by simp
      then show ?thesis using nb True by (auto simp: Let_def)
    next
      case False
      then have lt: "count < limit" by simp
      then have u: "unat (count + 1) = unat count + 1"
        by (rule unat_Suc_less32)
      then have "count + 1 \<le> limit" using lt by (simp add: word_le_nat_alt word_less_nat_alt)
      moreover have "unat limit - unat count = Suc (unat limit - unat (count + 1))"
        using u lt by (simp add: word_less_nat_alt)
      ultimately show ?thesis using 2 nb False True by (auto simp: Let_def)
    qed
  qed
qed

lemma map_of_filter_keys: "map_of (filter (\<lambda>kv. P (fst kv)) xs) = map_of xs |` {k. P k}"
  by (induction xs) (auto simp: restrict_map_def fun_eq_iff)

lemma takeWhile_sorted_filter:
  assumes "sorted_wrt (<) (map fst xs)"
  shows "takeWhile (below_end e) xs = filter (\<lambda>kv. e = [] \<or> fst kv < e) xs"
  using assms
proof (induction xs)
  case (Cons x xs)
  have "\<not> below_end e x \<Longrightarrow> filter (\<lambda>kv. e = [] \<or> fst kv < e) xs = []"
    using Cons.prems by (auto simp: below_end_def filter_empty_conv)
  then show ?case using Cons by (auto simp: below_end_def)
qed simp

lemma take_sorted_filter:
  fixes xs :: "(string \<times> string) list"
  assumes "sorted_wrt (<) (map fst xs)" and "n < length xs"
  shows "take n xs = filter (\<lambda>kv. fst kv < fst (xs ! n)) xs"
proof -
  let ?P = "\<lambda>kv. fst kv < fst (xs ! n)"
  have xs: "xs = take n xs @ xs ! n # drop (Suc n) xs" by (rule id_take_nth_drop [OF assms(2)])
  have "sorted_wrt (<) (map fst (take n xs @ xs ! n # drop (Suc n) xs))" using assms(1) xs by simp
  then have "\<forall>kv \<in> set (take n xs). ?P kv" "\<forall>kv \<in> set (drop (Suc n) xs). fst (xs ! n) < fst kv"
    by (auto simp: sorted_wrt_append)
  then have "\<forall>kv \<in> set (take n xs). ?P kv" "\<forall>kv \<in> set (drop (Suc n) xs). \<not> ?P kv"
    by (meson less_asym)+
  then have "filter ?P (take n xs @ xs ! n # drop (Suc n) xs) = take n xs"
    by (simp add: filter_empty_conv)
  then show ?thesis using xs by simp
qed

text \<open>
  The contract of a scan over a store with contents \<open>m\<close>: sorted entries of the range, at most \<open>limit\<close>;
  all of them, or exactly those before \<open>next_key\<close>, itself a stored key of the range.
\<close>

definition scan_ok :: "(string \<rightharpoonup> string) \<Rightarrow> string \<Rightarrow> string \<Rightarrow> uint32 \<Rightarrow> scan_result \<Rightarrow> bool" where
  "scan_ok m s e limit r \<longleftrightarrow> sorted_wrt (<) (map fst (sc_kvs r)) \<and>
     (if sc_has_more r
      then length (sc_kvs r) = unat limit \<and> sc_next_key r \<in> key_range s e \<inter> dom m
        \<and> map_of (sc_kvs r) = m |` (key_range s e \<inter> {k. k < sc_next_key r})
      else length (sc_kvs r) \<le> unat limit \<and> map_of (sc_kvs r) = m |` key_range s e)"

context rocksdb
begin

lemma scan_contract: "scan_ok (content d) s e limit (engine_scan ops s e limit d)"
proof -
  let ?xs = "db_Seek ops s d"
  let ?ys = "takeWhile (below_end e) ?xs"
  let ?r = "engine_scan ops s e limit d"
  have xs: "sorted_wrt (<) (map fst ?xs)" "map_of ?xs = content d |` {k. s \<le> k}"
    using seek_range [of s d] by (auto simp: range_of_def)
  have ys: "?ys = filter (\<lambda>kv. e = [] \<or> fst kv < e) ?xs" by (rule takeWhile_sorted_filter [OF xs(1)])
  have srt: "sorted_wrt (<) (map fst ?ys)"
    using xs(1) unfolding ys by (simp add: sorted_wrt_filter sorted_wrt_map)
  have m: "map_of ?ys = content d |` key_range s e"
    unfolding ys map_of_filter_keys [where P = "\<lambda>k. e = [] \<or> k < e"] xs(2)
    by (auto simp: key_range_def restrict_map_def fun_eq_iff)
  have r: "?r = (if unat limit < length ?ys
      then \<lparr>sc_kvs = take (unat limit) ?ys, sc_has_more = True, sc_next_key = fst (?ys ! unat limit)\<rparr>
      else \<lparr>sc_kvs = ?ys, sc_has_more = False, sc_next_key = []\<rparr>)"
    unfolding engine_scan_def by (subst scan_loop_take) (simp_all add: Let_def)
  show ?thesis
  proof (cases "unat limit < length ?ys")
    case False
    with r srt m show ?thesis by (simp add: scan_ok_def)
  next
    case True
    let ?n = "unat limit"
    have "fst (?ys ! ?n) \<in> fst ` set ?ys" using True by (meson imageI nth_mem)
    then have nk: "fst (?ys ! ?n) \<in> key_range s e \<inter> dom (content d)"
      using m by (metis IntI dom_map_of_conv_image_fst dom_restrict Int_commute)
    have "map_of (take ?n ?ys) = map_of ?ys |` {k. k < fst (?ys ! ?n)}"
      by (subst take_sorted_filter [OF srt True]) (rule map_of_filter_keys [where P = "\<lambda>k. k < fst (?ys ! ?n)"])
    then have tk: "map_of (take ?n ?ys) = content d |` (key_range s e \<inter> {k. k < fst (?ys ! ?n)})"
      using m by simp
    have "sorted_wrt (<) (map fst (take ?n ?ys))" using srt by (metis sorted_wrt_take take_map)
    with r True nk tk show ?thesis by (simp add: scan_ok_def)
  qed
qed

end

text \<open>
  C9. A range scan returns the entries of \<open>[start_key, end_key)\<close> (to the end of the store when
  \<open>end_key\<close> is empty) in key order, at most \<open>limit\<close> of them. When it reports that there are more,
  it has returned exactly those before \<open>next_key\<close>, the first key left out, so that a scan from
  there continues without a gap; otherwise it has returned them all.
\<close>

theorem scan_correct:
  assumes "rocksdb ops content"
  shows "scan_ok (content d) s e limit (engine_scan ops s e limit d)"
  by (rule rocksdb.scan_contract [OF assms])

theorem scan_correct_witness:
  "scan_ok (map_of [(''b'', ''2''), (''a'', ''1''), (''c'', ''3'')]) ''a'' ''c'' 1
     (engine_scan alist_ops ''a'' ''c'' 1 [(''b'', ''2''), (''a'', ''1''), (''c'', ''3'')])
   \<and> sc_next_key (engine_scan alist_ops ''a'' ''c'' 1 [(''b'', ''2''), (''a'', ''1''), (''c'', ''3'')]) = ''b''"
  using scan_correct [OF al.rocksdb_axioms, of "[(''b'', ''2''), (''a'', ''1''), (''c'', ''3'')]" "''a''" "''c''" 1]
  by (rule conjI) code_simp

subsection \<open>Paging\<close>

text \<open>
  A caller that follows \<open>next_key\<close> as long as \<open>has_more\<close> is set, for at most \<open>n\<close> pages; \<open>None\<close> when
  the pages do not suffice.
\<close>

fun scan_pages ::
  "'db rocksdb_ops \<Rightarrow> nat \<Rightarrow> string \<Rightarrow> string \<Rightarrow> uint32 \<Rightarrow> 'db \<Rightarrow> (string \<times> string) list option" where
  "scan_pages ops 0 s e limit d = None"
| "scan_pages ops (Suc n) s e limit d =
     (let r = engine_scan ops s e limit d
      in if sc_has_more r
         then map_option (\<lambda>rest. sc_kvs r @ rest) (scan_pages ops n (sc_next_key r) e limit d)
         else Some (sc_kvs r))"

lemma sorted_wrt_append_less:
  fixes b :: "'a :: linorder"
  assumes "sorted_wrt (<) xs" and "sorted_wrt (<) ys" and "\<forall>x \<in> set xs. x < b" and "\<forall>y \<in> set ys. b \<le> y"
  shows "sorted_wrt (<) (xs @ ys)"
  using assms by (fastforce simp: sorted_wrt_append)

lemma map_of_keys: "map_of xs = m |` A \<Longrightarrow> set (map fst xs) = A \<inter> dom m"
  by (metis dom_map_of_conv_image_fst dom_restrict inf_commute set_map)

context rocksdb
begin

lemma stored_finite: "finite (key_range s e \<inter> dom (content d))"
proof -
  have "{k. s \<le> k} \<inter> dom (content d) = set (map fst (db_Seek ops s d))"
    using seek_range [of s d] map_of_keys unfolding range_of_def by blast
  then have "finite ({k. s \<le> k} \<inter> dom (content d))" by (metis List.finite_set)
  then show ?thesis by (rule rev_finite_subset) (auto simp: key_range_def)
qed

lemma scan_pages_complete:
  assumes "0 < limit" and "card (key_range s e \<inter> dom (content d)) < n"
  shows "\<exists>xs. scan_pages ops n s e limit d = Some xs \<and> sorted_wrt (<) (map fst xs)
    \<and> map_of xs = content d |` key_range s e"
  using assms(2)
proof (induction n arbitrary: s)
  case (Suc n)
  let ?r = "engine_scan ops s e limit d"
  let ?D = "dom (content d)"
  have ok: "scan_ok (content d) s e limit ?r" by (rule scan_contract)
  show ?case
  proof (cases "sc_has_more ?r")
    case False
    with ok show ?thesis by (simp add: scan_ok_def)
  next
    case True
    let ?k = "sc_next_key ?r"
    from ok True have r: "sorted_wrt (<) (map fst (sc_kvs ?r))" "length (sc_kvs ?r) = unat limit"
      "?k \<in> key_range s e \<inter> ?D" "map_of (sc_kvs ?r) = content d |` (key_range s e \<inter> {k. k < ?k})"
      by (auto simp: scan_ok_def)
    have keys: "set (map fst (sc_kvs ?r)) = key_range s e \<inter> {k. k < ?k} \<inter> ?D"
      by (rule map_of_keys [OF r(4)])
    have "sc_kvs ?r \<noteq> []" using r(2) assms(1) by (auto simp: word_less_nat_alt)
    then obtain k0 where k0: "k0 \<in> key_range s e \<inter> {k. k < ?k} \<inter> ?D"
      using keys by (metis ex_in_conv list.map_disc_iff set_empty)
    have split: "key_range s e = (key_range s e \<inter> {k. k < ?k}) \<union> key_range ?k e"
      using r(3) by (auto simp: key_range_def)
    have "k0 \<notin> key_range ?k e" using k0 by (auto simp: key_range_def)
    then have "key_range ?k e \<inter> ?D \<subset> key_range s e \<inter> ?D" using k0 split by blast
    then have "card (key_range ?k e \<inter> ?D) < n"
      using psubset_card_mono [OF stored_finite] Suc.prems by (meson le_less_trans less_Suc_eq_le not_less_eq order_less_le_trans)
    from Suc.IH [OF this] obtain xs where xs: "scan_pages ops n ?k e limit d = Some xs"
      "sorted_wrt (<) (map fst xs)" "map_of xs = content d |` key_range ?k e" by blast
    have xk: "set (map fst xs) = key_range ?k e \<inter> ?D" by (rule map_of_keys [OF xs(3)])
    have "sorted_wrt (<) (map fst (sc_kvs ?r) @ map fst xs)"
      by (rule sorted_wrt_append_less [OF r(1) xs(2), of ?k]) (unfold keys xk, auto simp: key_range_def)
    moreover have "map_of (sc_kvs ?r @ xs) = content d |` key_range s e"
      unfolding map_of_append r(4) xs(3) by (subst (2) split)
        (auto simp: map_add_def restrict_map_def fun_eq_iff key_range_def split: option.split)
    ultimately show ?thesis using True xs(1) by (simp add: Let_def)
  qed
qed simp

text \<open>With the limit 0 a scan of a range with an entry returns nothing and the key to go on from is stored.\<close>

lemma scan_pages_stuck:
  "key_range s e \<inter> dom (content d) \<noteq> {} \<Longrightarrow> scan_pages ops n s e 0 d = None"
proof (induction n arbitrary: s)
  case (Suc n)
  let ?r = "engine_scan ops s e 0 d"
  have ok: "scan_ok (content d) s e 0 ?r" by (rule scan_contract)
  have more: "sc_has_more ?r"
  proof (rule ccontr)
    assume "\<not> sc_has_more ?r"
    with ok have "length (sc_kvs ?r) \<le> unat (0 :: uint32)" and "map_of (sc_kvs ?r) = content d |` key_range s e"
      by (simp_all only: scan_ok_def if_False)
    with map_of_keys [OF this(2)] Suc.prems show False by simp
  qed
  with ok have "sc_next_key ?r \<in> key_range s e \<inter> dom (content d)" by (simp add: scan_ok_def)
  then have "sc_next_key ?r \<in> key_range (sc_next_key ?r) e \<inter> dom (content d)" by (auto simp: key_range_def)
  with Suc.IH more show ?case by (auto simp: Let_def)
qed simp

end

text \<open>
  C34. Paging through a range with a positive limit ends and yields every entry of the range exactly
  once, in key order: the concatenation of the pages is the whole range, and one page more than
  there are keys always suffices. With the limit 0, which a request that sets none has, paging through
  a range that is not empty never ends, however many pages are asked for.
\<close>

theorem scan_paging_complete:
  assumes "rocksdb ops content" and "card (key_range s e \<inter> dom (content d)) < n"
  shows "if limit = 0 \<and> key_range s e \<inter> dom (content d) \<noteq> {} then scan_pages ops n s e limit d = None
    else \<exists>xs. scan_pages ops n s e limit d = Some xs \<and> sorted_wrt (<) (map fst xs)
      \<and> map_of xs = content d |` key_range s e"
proof (cases "limit = 0")
  case True
  show ?thesis
  proof (cases "key_range s e \<inter> dom (content d) = {}")
    case empty: True
    obtain n' where n: "n = Suc n'" using assms(2) by (cases n) auto
    have ok: "scan_ok (content d) s e limit (engine_scan ops s e limit d)"
      by (rule rocksdb.scan_contract [OF assms(1)])
    with empty have "\<not> sc_has_more (engine_scan ops s e limit d)" by (auto simp: scan_ok_def)
    with ok have "scan_pages ops n s e limit d = Some (sc_kvs (engine_scan ops s e limit d))
        \<and> sorted_wrt (<) (map fst (sc_kvs (engine_scan ops s e limit d)))
        \<and> map_of (sc_kvs (engine_scan ops s e limit d)) = content d |` key_range s e"
      by (simp add: scan_ok_def n)
    then show ?thesis using empty by simp
  qed (use True rocksdb.scan_pages_stuck [OF assms(1)] in simp)
next
  case False
  then have "0 < limit" by (simp add: word_neq_0_conv)
  from rocksdb.scan_pages_complete [OF assms(1) this assms(2)] False show ?thesis by simp
qed

theorem scan_paging_complete_witness:
  "\<exists>xs. scan_pages alist_ops 4 ''a'' [] 1 [(''b'', ''2''), (''a'', ''1''), (''c'', ''3'')] = Some xs
    \<and> sorted_wrt (<) (map fst xs)
    \<and> map_of xs = map_of [(''b'', ''2''), (''a'', ''1''), (''c'', ''3'')] |` key_range ''a'' []"
proof -
  let ?d = "[(''b'', ''2''), (''a'', ''1''), (''c'', ''3'')]"
  have "key_range ''a'' [] \<inter> dom (map_of ?d) \<subseteq> {''a'', ''b'', ''c''}"
    by auto
  from card_mono [OF _ this] have "card (key_range ''a'' [] \<inter> dom (map_of ?d)) < 4" by simp
  from scan_paging_complete [where s = "''a''" and e = "[]" and d = ?d and n = 4 and limit = 1,
      OF al.rocksdb_axioms this] show ?thesis
    by (simp only: one_neq_zero simp_thms if_False)
qed

subsection \<open>The engine as a map\<close>

lemma batch_puts: "fold batch_apply (map (\<lambda>p. BatchPut (fst p) (snd p)) ps) m = m ++ map_of (rev ps)"
  by (induction ps arbitrary: m) (auto simp: map_add_def fun_eq_iff split: option.split)

lemma batch_deletes: "fold batch_apply (map BatchDelete ks) m = m |` (- set ks)"
  by (induction ks arbitrary: m) (auto simp: restrict_map_def fun_eq_iff)

end
