(* ===== verification/Wire_Ref.thy ===== *)
theory Wire_Ref
  imports Proto
begin

text \<open>
  A reference serialisation of the protocol messages. The store uses the code that \<open>protoc\<close>
  generates, of which the development only assumes \<open>wire_format\<close>; the definitions here are an
  executable instance of that interface, built from prefix codes for the field types.
\<close>

named_theorems message_codes \<open>the prefix codes of enumerations and messages\<close>

subsection \<open>Prefix codes\<close>

definition whole :: "(string \<Rightarrow> ('a \<times> string) option) \<Rightarrow> string \<Rightarrow> 'a option" where
  "whole dec s = (case dec s of Some (x, r) \<Rightarrow> if r = [] then Some x else None | None \<Rightarrow> None)"

locale prefix_code =
  fixes enc :: "'a \<Rightarrow> string" and dec :: "string \<Rightarrow> ('a \<times> string) option"
  assumes dec_enc: "dec (enc x @ r) = Some (x, r)"
begin

lemma whole_enc: "whole dec (enc x) = Some x"
  using dec_enc [of x "[]"] by (simp add: whole_def)

end

sublocale prefix_code \<subseteq> wire_format enc "whole dec"
  by unfold_locales (rule whole_enc)

definition enc_char :: "char \<Rightarrow> string" where "enc_char c = [c]"

fun dec_char :: "string \<Rightarrow> (char \<times> string) option" where
  "dec_char [] = None"
| "dec_char (c # r) = Some (c, r)"

definition enc_bool :: "bool \<Rightarrow> string" where "enc_bool b = [if b then CHR 0x01 else CHR 0x00]"

fun dec_bool :: "string \<Rightarrow> (bool \<times> string) option" where
  "dec_bool [] = None"
| "dec_bool (c # r) = Some (c = CHR 0x01, r)"

definition enc_num :: "'n::len word \<Rightarrow> string" where
  "enc_num w = be_encode 8 (unat w)"

definition dec_num :: "string \<Rightarrow> ('n::len word \<times> string) option" where
  "dec_num s = (if length s < 8 then None else Some (word_of_nat (be_decode (take 8 s)), drop 8 s))"

definition enc_pair :: "('a \<Rightarrow> string) \<Rightarrow> ('b \<Rightarrow> string) \<Rightarrow> 'a \<times> 'b \<Rightarrow> string" where
  "enc_pair ea eb p = ea (fst p) @ eb (snd p)"

definition dec_pair ::
  "(string \<Rightarrow> ('a \<times> string) option) \<Rightarrow> (string \<Rightarrow> ('b \<times> string) option)
     \<Rightarrow> string \<Rightarrow> (('a \<times> 'b) \<times> string) option" where
  "dec_pair da db s = (case da s of None \<Rightarrow> None | Some (a, r) \<Rightarrow>
     (case db r of None \<Rightarrow> None | Some (b, r') \<Rightarrow> Some ((a, b), r')))"

definition enc_option :: "('a \<Rightarrow> string) \<Rightarrow> 'a option \<Rightarrow> string" where
  "enc_option ea x = (case x of None \<Rightarrow> [CHR 0x00] | Some a \<Rightarrow> CHR 0x01 # ea a)"

fun dec_option :: "(string \<Rightarrow> ('a \<times> string) option) \<Rightarrow> string \<Rightarrow> ('a option \<times> string) option" where
  "dec_option da [] = None"
| "dec_option da (c # r) = (if c = CHR 0x00 then Some (None, r)
     else case da r of None \<Rightarrow> None | Some (a, r') \<Rightarrow> Some (Some a, r'))"

fun enc_list :: "('a \<Rightarrow> string) \<Rightarrow> 'a list \<Rightarrow> string" where
  "enc_list ea [] = [CHR 0x00]"
| "enc_list ea (x # xs) = CHR 0x01 # ea x @ enc_list ea xs"

function dec_list :: "(string \<Rightarrow> ('a \<times> string) option) \<Rightarrow> string \<Rightarrow> ('a list \<times> string) option" where
  "dec_list da [] = None"
| "dec_list da (c # r) = (if c = CHR 0x00 then Some ([], r)
     else case da r of None \<Rightarrow> None | Some (a, r') \<Rightarrow>
       if length r' \<le> length r
       then (case dec_list da r' of None \<Rightarrow> None | Some (as, r'') \<Rightarrow> Some (a # as, r''))
       else None)"
  by pat_completeness auto
termination by (relation "measure (length \<circ> snd)") auto

definition enc_via :: "('b \<Rightarrow> 'a) \<Rightarrow> ('a \<Rightarrow> string) \<Rightarrow> 'b \<Rightarrow> string" where
  "enc_via f enc x = enc (f x)"

definition dec_via :: "('a \<Rightarrow> 'b) \<Rightarrow> (string \<Rightarrow> ('a \<times> string) option) \<Rightarrow> string \<Rightarrow> ('b \<times> string) option" where
  "dec_via g dec s = map_option (apfst g) (dec s)"

lemma prefix_code_char: "prefix_code enc_char dec_char"
  by unfold_locales (simp add: enc_char_def)

lemma prefix_code_bool: "prefix_code enc_bool dec_bool"
  by unfold_locales (simp add: enc_bool_def)

lemma prefix_code_num: "LENGTH('n) \<le> 64 \<Longrightarrow> prefix_code (enc_num :: 'n::len word \<Rightarrow> string) dec_num"
proof
  fix x :: "'n word" and r
  assume le: "LENGTH('n) \<le> 64"
  have "unat x < 2 ^ LENGTH('n)" by (rule unsigned_less)
  also have "(2::nat) ^ LENGTH('n) \<le> 2 ^ 64" using le by (rule power_increasing) simp
  finally have "unat x mod 256 ^ 8 = unat x" by simp
  then show "dec_num (enc_num x @ r) = Some (x, r)"
    by (simp add: dec_num_def enc_num_def be_decode_be_encode)
qed

lemma prefix_code_pair:
  "prefix_code ea da \<Longrightarrow> prefix_code eb db \<Longrightarrow> prefix_code (enc_pair ea eb) (dec_pair da db)"
  by unfold_locales (simp add: enc_pair_def dec_pair_def prefix_code.dec_enc)

lemma prefix_code_option: "prefix_code ea da \<Longrightarrow> prefix_code (enc_option ea) (dec_option da)"
  by unfold_locales (simp add: enc_option_def prefix_code.dec_enc split: option.split)

lemma prefix_code_list: "prefix_code ea da \<Longrightarrow> prefix_code (enc_list ea) (dec_list da)"
proof
  fix xs r assume a: "prefix_code ea da"
  show "dec_list da (enc_list ea xs @ r) = Some (xs, r)"
    by (induction xs) (simp_all add: prefix_code.dec_enc [OF a])
qed

lemma prefix_code_via:
  "prefix_code enc dec \<Longrightarrow> (\<And>x. g (f x) = x) \<Longrightarrow> prefix_code (enc_via f enc) (dec_via g dec)"
  by unfold_locales (simp add: enc_via_def dec_via_def prefix_code.dec_enc)

lemma prefix_code_string: "prefix_code (enc_list enc_char) (dec_list dec_char)"
  by (rule prefix_code_list [OF prefix_code_char])

lemmas prefix_code_intros = prefix_code_pair prefix_code_option prefix_code_string prefix_code_bool
  prefix_code_num prefix_code_list prefix_code_via

abbreviation enc_str :: "string \<Rightarrow> string" where "enc_str \<equiv> enc_list enc_char"
abbreviation dec_str :: "string \<Rightarrow> (string \<times> string) option" where "dec_str \<equiv> dec_list dec_char"

subsection \<open>Log entries\<close>

definition enc_entry :: "log_entry \<Rightarrow> string" where
  "enc_entry = enc_via (\<lambda>e. (le_term e, le_index e, le_command e)) (enc_pair enc_num (enc_pair enc_num enc_str))"

definition dec_entry :: "string \<Rightarrow> (log_entry \<times> string) option" where
  "dec_entry = dec_via (\<lambda>(t, i, c). \<lparr>le_term = t, le_index = i, le_command = c\<rparr>)
     (dec_pair dec_num (dec_pair dec_num dec_str))"

interpretation entry_code: prefix_code enc_entry dec_entry
  unfolding enc_entry_def dec_entry_def by (intro prefix_code_intros) simp_all

declare entry_code.prefix_code_axioms [message_codes]

subsection \<open>Client messages\<close>

definition enc_enum :: "('e \<Rightarrow> nat) \<Rightarrow> 'e \<Rightarrow> string" where
  "enc_enum num x = [char_of (num x)]"

definition dec_enum :: "'e list \<Rightarrow> string \<Rightarrow> ('e \<times> string) option" where
  "dec_enum es s = (case s of [] \<Rightarrow> None | c # r \<Rightarrow>
     if of_char c < length es then Some (es ! of_char c, r) else None)"

lemma prefix_code_enum:
  "(\<And>x. num x < length es \<and> num x < 256 \<and> es ! num x = x) \<Longrightarrow> prefix_code (enc_enum num) (dec_enum es)"
  by unfold_locales (simp add: enc_enum_def dec_enum_def)

primrec error_num :: "error_code \<Rightarrow> nat" where
  "error_num OK = 0" | "error_num KEY_NOT_FOUND = 1" | "error_num WRONG_LEADER = 2"
| "error_num SHARD_NOT_FOUND = 3" | "error_num TIMEOUT = 4" | "error_num NOT_LEADER = 5"
| "error_num INTERNAL_ERROR = 6"

primrec rpc_num :: "rpc_type \<Rightarrow> nat" where
  "rpc_num GET_REQUEST = 0" | "rpc_num GET_RESPONSE = 1" | "rpc_num PUT_REQUEST = 2"
| "rpc_num PUT_RESPONSE = 3" | "rpc_num DELETE_REQUEST = 4" | "rpc_num DELETE_RESPONSE = 5"
| "rpc_num SCAN_REQUEST = 6" | "rpc_num SCAN_RESPONSE = 7"

primrec raft_num :: "raft_type \<Rightarrow> nat" where
  "raft_num REQUEST_VOTE = 0" | "raft_num REQUEST_VOTE_RESP = 1" | "raft_num APPEND_ENTRIES = 2"
| "raft_num APPEND_ENTRIES_RESP = 3" | "raft_num INSTALL_SNAPSHOT = 4"
| "raft_num INSTALL_SNAPSHOT_RESP = 5"

abbreviation enc_error :: "error_code \<Rightarrow> string" where "enc_error \<equiv> enc_enum error_num"
abbreviation dec_error :: "string \<Rightarrow> (error_code \<times> string) option" where
  "dec_error \<equiv> dec_enum [OK, KEY_NOT_FOUND, WRONG_LEADER, SHARD_NOT_FOUND, TIMEOUT, NOT_LEADER, INTERNAL_ERROR]"
abbreviation enc_rpc_type :: "rpc_type \<Rightarrow> string" where "enc_rpc_type \<equiv> enc_enum rpc_num"
abbreviation dec_rpc_type :: "string \<Rightarrow> (rpc_type \<times> string) option" where
  "dec_rpc_type \<equiv> dec_enum [GET_REQUEST, GET_RESPONSE, PUT_REQUEST, PUT_RESPONSE, DELETE_REQUEST,
     DELETE_RESPONSE, SCAN_REQUEST, SCAN_RESPONSE]"
abbreviation enc_raft_type :: "raft_type \<Rightarrow> string" where "enc_raft_type \<equiv> enc_enum raft_num"
abbreviation dec_raft_type :: "string \<Rightarrow> (raft_type \<times> string) option" where
  "dec_raft_type \<equiv> dec_enum [REQUEST_VOTE, REQUEST_VOTE_RESP, APPEND_ENTRIES, APPEND_ENTRIES_RESP,
     INSTALL_SNAPSHOT, INSTALL_SNAPSHOT_RESP]"

lemma prefix_code_error [message_codes]: "prefix_code enc_error dec_error"
proof (rule prefix_code_enum)
  fix x show "error_num x < length [OK, KEY_NOT_FOUND, WRONG_LEADER, SHARD_NOT_FOUND, TIMEOUT,
      NOT_LEADER, INTERNAL_ERROR] \<and> error_num x < 256 \<and> [OK, KEY_NOT_FOUND, WRONG_LEADER,
      SHARD_NOT_FOUND, TIMEOUT, NOT_LEADER, INTERNAL_ERROR] ! error_num x = x" by (cases x) simp_all
qed

lemma prefix_code_rpc_type [message_codes]: "prefix_code enc_rpc_type dec_rpc_type"
proof (rule prefix_code_enum)
  fix x show "rpc_num x < length [GET_REQUEST, GET_RESPONSE, PUT_REQUEST, PUT_RESPONSE, DELETE_REQUEST,
      DELETE_RESPONSE, SCAN_REQUEST, SCAN_RESPONSE] \<and> rpc_num x < 256 \<and> [GET_REQUEST, GET_RESPONSE,
      PUT_REQUEST, PUT_RESPONSE, DELETE_REQUEST, DELETE_RESPONSE, SCAN_REQUEST, SCAN_RESPONSE]
      ! rpc_num x = x" by (cases x) simp_all
qed

lemma prefix_code_raft_type [message_codes]: "prefix_code enc_raft_type dec_raft_type"
proof (rule prefix_code_enum)
  fix x show "raft_num x < length [REQUEST_VOTE, REQUEST_VOTE_RESP, APPEND_ENTRIES, APPEND_ENTRIES_RESP,
      INSTALL_SNAPSHOT, INSTALL_SNAPSHOT_RESP] \<and> raft_num x < 256 \<and> [REQUEST_VOTE, REQUEST_VOTE_RESP,
      APPEND_ENTRIES, APPEND_ENTRIES_RESP, INSTALL_SNAPSHOT, INSTALL_SNAPSHOT_RESP]
      ! raft_num x = x" by (cases x) simp_all
qed

definition enc_get_request :: "get_request \<Rightarrow> string" where
  "enc_get_request = enc_via (\<lambda>m. (gq_key m, gq_allow_stale m, gq_call_id m)) (enc_pair
     enc_str (enc_pair enc_bool enc_num))"

definition dec_get_request :: "string \<Rightarrow> (get_request \<times> string) option" where
  "dec_get_request = dec_via (\<lambda>(x0, x1, x2). \<lparr>gq_key = x0, gq_allow_stale = x1,
     gq_call_id = x2\<rparr>) (dec_pair dec_str (dec_pair dec_bool dec_num))"

interpretation get_request_code: prefix_code enc_get_request dec_get_request
  unfolding enc_get_request_def dec_get_request_def
  by (intro prefix_code_intros message_codes) simp_all

declare get_request_code.prefix_code_axioms [message_codes]

definition enc_get_response :: "get_response \<Rightarrow> string" where
  "enc_get_response = enc_via (\<lambda>m. (gr_error_code m, gr_key m, gr_value m, gr_call_id m,
     gr_correct_leader_node_id m, gr_correct_leader_addr m)) (enc_pair enc_error (enc_pair enc_str
     (enc_pair enc_str (enc_pair enc_num (enc_pair enc_num enc_str)))))"

definition dec_get_response :: "string \<Rightarrow> (get_response \<times> string) option" where
  "dec_get_response = dec_via (\<lambda>(x0, x1, x2, x3, x4, x5). \<lparr>gr_error_code = x0, gr_key
     = x1, gr_value = x2, gr_call_id = x3, gr_correct_leader_node_id = x4, gr_correct_leader_addr =
     x5\<rparr>) (dec_pair dec_error (dec_pair dec_str (dec_pair dec_str (dec_pair dec_num (dec_pair
     dec_num dec_str)))))"

interpretation get_response_code: prefix_code enc_get_response dec_get_response
  unfolding enc_get_response_def dec_get_response_def
  by (intro prefix_code_intros message_codes) simp_all

declare get_response_code.prefix_code_axioms [message_codes]

definition enc_put_request :: "put_request \<Rightarrow> string" where
  "enc_put_request = enc_via (\<lambda>m. (pq_key m, pq_value m, pq_call_id m)) (enc_pair enc_str
     (enc_pair enc_str enc_num))"

definition dec_put_request :: "string \<Rightarrow> (put_request \<times> string) option" where
  "dec_put_request = dec_via (\<lambda>(x0, x1, x2). \<lparr>pq_key = x0, pq_value = x1, pq_call_id
     = x2\<rparr>) (dec_pair dec_str (dec_pair dec_str dec_num))"

interpretation put_request_code: prefix_code enc_put_request dec_put_request
  unfolding enc_put_request_def dec_put_request_def
  by (intro prefix_code_intros message_codes) simp_all

declare put_request_code.prefix_code_axioms [message_codes]

definition enc_put_response :: "put_response \<Rightarrow> string" where
  "enc_put_response = enc_via (\<lambda>m. (pr_error_code m, pr_call_id m, pr_correct_leader_node_id
     m, pr_correct_leader_addr m)) (enc_pair enc_error (enc_pair enc_num (enc_pair enc_num
     enc_str)))"

definition dec_put_response :: "string \<Rightarrow> (put_response \<times> string) option" where
  "dec_put_response = dec_via (\<lambda>(x0, x1, x2, x3). \<lparr>pr_error_code = x0, pr_call_id =
     x1, pr_correct_leader_node_id = x2, pr_correct_leader_addr = x3\<rparr>) (dec_pair dec_error
     (dec_pair dec_num (dec_pair dec_num dec_str)))"

interpretation put_response_code: prefix_code enc_put_response dec_put_response
  unfolding enc_put_response_def dec_put_response_def
  by (intro prefix_code_intros message_codes) simp_all

declare put_response_code.prefix_code_axioms [message_codes]

definition enc_delete_request :: "delete_request \<Rightarrow> string" where
  "enc_delete_request = enc_via (\<lambda>m. (dq_key m, dq_call_id m)) (enc_pair enc_str enc_num)"

definition dec_delete_request :: "string \<Rightarrow> (delete_request \<times> string) option" where
  "dec_delete_request = dec_via (\<lambda>(x0, x1). \<lparr>dq_key = x0, dq_call_id = x1\<rparr>)
     (dec_pair dec_str dec_num)"

interpretation delete_request_code: prefix_code enc_delete_request dec_delete_request
  unfolding enc_delete_request_def dec_delete_request_def
  by (intro prefix_code_intros message_codes) simp_all

declare delete_request_code.prefix_code_axioms [message_codes]

definition enc_delete_response :: "delete_response \<Rightarrow> string" where
  "enc_delete_response = enc_via (\<lambda>m. (dr_error_code m, dr_call_id m,
     dr_correct_leader_node_id m, dr_correct_leader_addr m)) (enc_pair enc_error (enc_pair enc_num
     (enc_pair enc_num enc_str)))"

definition dec_delete_response :: "string \<Rightarrow> (delete_response \<times> string) option" where
  "dec_delete_response = dec_via (\<lambda>(x0, x1, x2, x3). \<lparr>dr_error_code = x0, dr_call_id
     = x1, dr_correct_leader_node_id = x2, dr_correct_leader_addr = x3\<rparr>) (dec_pair dec_error
     (dec_pair dec_num (dec_pair dec_num dec_str)))"

interpretation delete_response_code: prefix_code enc_delete_response dec_delete_response
  unfolding enc_delete_response_def dec_delete_response_def
  by (intro prefix_code_intros message_codes) simp_all

declare delete_response_code.prefix_code_axioms [message_codes]

definition enc_scan_request :: "scan_request \<Rightarrow> string" where
  "enc_scan_request = enc_via (\<lambda>m. (sq_start_key m, sq_end_key m, sq_limit m, sq_allow_stale
     m, sq_call_id m)) (enc_pair enc_str (enc_pair enc_str (enc_pair enc_num (enc_pair enc_bool
     enc_num))))"

definition dec_scan_request :: "string \<Rightarrow> (scan_request \<times> string) option" where
  "dec_scan_request = dec_via (\<lambda>(x0, x1, x2, x3, x4). \<lparr>sq_start_key = x0, sq_end_key
     = x1, sq_limit = x2, sq_allow_stale = x3, sq_call_id = x4\<rparr>) (dec_pair dec_str (dec_pair
     dec_str (dec_pair dec_num (dec_pair dec_bool dec_num))))"

interpretation scan_request_code: prefix_code enc_scan_request dec_scan_request
  unfolding enc_scan_request_def dec_scan_request_def
  by (intro prefix_code_intros message_codes) simp_all

declare scan_request_code.prefix_code_axioms [message_codes]

definition enc_scan_response :: "scan_response \<Rightarrow> string" where
  "enc_scan_response = enc_via (\<lambda>m. (sr_error_code m, sr_kvs m, sr_has_more m,
     sr_next_start_key m, sr_call_id m, sr_correct_leader_node_id m, sr_correct_leader_addr m))
     (enc_pair enc_error (enc_pair (enc_list (enc_pair enc_str enc_str)) (enc_pair enc_bool
     (enc_pair enc_str (enc_pair enc_num (enc_pair enc_num enc_str))))))"

definition dec_scan_response :: "string \<Rightarrow> (scan_response \<times> string) option" where
  "dec_scan_response = dec_via (\<lambda>(x0, x1, x2, x3, x4, x5, x6). \<lparr>sr_error_code = x0,
     sr_kvs = x1, sr_has_more = x2, sr_next_start_key = x3, sr_call_id = x4,
     sr_correct_leader_node_id = x5, sr_correct_leader_addr = x6\<rparr>) (dec_pair dec_error
     (dec_pair (dec_list (dec_pair dec_str dec_str)) (dec_pair dec_bool (dec_pair dec_str (dec_pair
     dec_num (dec_pair dec_num dec_str))))))"

interpretation scan_response_code: prefix_code enc_scan_response dec_scan_response
  unfolding enc_scan_response_def dec_scan_response_def
  by (intro prefix_code_intros message_codes) simp_all

declare scan_response_code.prefix_code_axioms [message_codes]

definition enc_rpc_message :: "rpc_message \<Rightarrow> string" where
  "enc_rpc_message = enc_via (\<lambda>m. (rm_type m, rm_get_request m, rm_get_response m,
     rm_put_request m, rm_put_response m, rm_delete_request m, rm_delete_response m, rm_scan_request
     m, rm_scan_response m)) (enc_pair enc_rpc_type (enc_pair (enc_option enc_get_request) (enc_pair
     (enc_option enc_get_response) (enc_pair (enc_option enc_put_request) (enc_pair (enc_option
     enc_put_response) (enc_pair (enc_option enc_delete_request) (enc_pair (enc_option
     enc_delete_response) (enc_pair (enc_option enc_scan_request) (enc_option
     enc_scan_response)))))))))"

definition dec_rpc_message :: "string \<Rightarrow> (rpc_message \<times> string) option" where
  "dec_rpc_message = dec_via (\<lambda>(x0, x1, x2, x3, x4, x5, x6, x7, x8). \<lparr>rm_type = x0,
     rm_get_request = x1, rm_get_response = x2, rm_put_request = x3, rm_put_response = x4,
     rm_delete_request = x5, rm_delete_response = x6, rm_scan_request = x7, rm_scan_response =
     x8\<rparr>) (dec_pair dec_rpc_type (dec_pair (dec_option dec_get_request) (dec_pair (dec_option
     dec_get_response) (dec_pair (dec_option dec_put_request) (dec_pair (dec_option
     dec_put_response) (dec_pair (dec_option dec_delete_request) (dec_pair (dec_option
     dec_delete_response) (dec_pair (dec_option dec_scan_request) (dec_option
     dec_scan_response)))))))))"

interpretation rpc_message_code: prefix_code enc_rpc_message dec_rpc_message
  unfolding enc_rpc_message_def dec_rpc_message_def
  by (intro prefix_code_intros message_codes) simp_all

declare rpc_message_code.prefix_code_axioms [message_codes]

subsection \<open>Raft messages\<close>

definition enc_request_vote :: "request_vote_request \<Rightarrow> string" where
  "enc_request_vote = enc_via (\<lambda>m. (rv_term m, rv_candidate_id m, rv_last_log_index m,
     rv_last_log_term m)) (enc_pair enc_num (enc_pair enc_num (enc_pair enc_num enc_num)))"

definition dec_request_vote :: "string \<Rightarrow> (request_vote_request \<times> string) option" where
  "dec_request_vote = dec_via (\<lambda>(x0, x1, x2, x3). \<lparr>rv_term = x0, rv_candidate_id =
     x1, rv_last_log_index = x2, rv_last_log_term = x3\<rparr>) (dec_pair dec_num (dec_pair dec_num
     (dec_pair dec_num dec_num)))"

interpretation request_vote_code: prefix_code enc_request_vote dec_request_vote
  unfolding enc_request_vote_def dec_request_vote_def
  by (intro prefix_code_intros message_codes) simp_all

declare request_vote_code.prefix_code_axioms [message_codes]

definition enc_request_vote_resp :: "request_vote_response \<Rightarrow> string" where
  "enc_request_vote_resp = enc_via (\<lambda>m. (rvr_term m, rvr_vote_granted m)) (enc_pair enc_num
     enc_bool)"

definition dec_request_vote_resp :: "string \<Rightarrow> (request_vote_response \<times> string) option" where
  "dec_request_vote_resp = dec_via (\<lambda>(x0, x1). \<lparr>rvr_term = x0, rvr_vote_granted =
     x1\<rparr>) (dec_pair dec_num dec_bool)"

interpretation request_vote_resp_code: prefix_code enc_request_vote_resp dec_request_vote_resp
  unfolding enc_request_vote_resp_def dec_request_vote_resp_def
  by (intro prefix_code_intros message_codes) simp_all

declare request_vote_resp_code.prefix_code_axioms [message_codes]

definition enc_append_entries :: "append_entries_request \<Rightarrow> string" where
  "enc_append_entries = enc_via (\<lambda>m. (ae_term m, ae_leader_id m, ae_prev_log_index m,
     ae_prev_log_term m, ae_leader_commit m, ae_entries m)) (enc_pair enc_num (enc_pair enc_num
     (enc_pair enc_num (enc_pair enc_num (enc_pair enc_num (enc_list enc_entry))))))"

definition dec_append_entries :: "string \<Rightarrow> (append_entries_request \<times> string) option" where
  "dec_append_entries = dec_via (\<lambda>(x0, x1, x2, x3, x4, x5). \<lparr>ae_term = x0,
     ae_leader_id = x1, ae_prev_log_index = x2, ae_prev_log_term = x3, ae_leader_commit = x4,
     ae_entries = x5\<rparr>) (dec_pair dec_num (dec_pair dec_num (dec_pair dec_num (dec_pair
     dec_num (dec_pair dec_num (dec_list dec_entry))))))"

interpretation append_entries_code: prefix_code enc_append_entries dec_append_entries
  unfolding enc_append_entries_def dec_append_entries_def
  by (intro prefix_code_intros message_codes) simp_all

declare append_entries_code.prefix_code_axioms [message_codes]

definition enc_append_entries_resp :: "append_entries_response \<Rightarrow> string" where
  "enc_append_entries_resp = enc_via (\<lambda>m. (aer_term m, aer_success m, aer_match_index m))
     (enc_pair enc_num (enc_pair enc_bool enc_num))"

definition dec_append_entries_resp :: "string \<Rightarrow> (append_entries_response \<times> string) option" where
  "dec_append_entries_resp = dec_via (\<lambda>(x0, x1, x2). \<lparr>aer_term = x0, aer_success =
     x1, aer_match_index = x2\<rparr>) (dec_pair dec_num (dec_pair dec_bool dec_num))"

interpretation append_entries_resp_code: prefix_code enc_append_entries_resp dec_append_entries_resp
  unfolding enc_append_entries_resp_def dec_append_entries_resp_def
  by (intro prefix_code_intros message_codes) simp_all

declare append_entries_resp_code.prefix_code_axioms [message_codes]

definition enc_install_snapshot :: "install_snapshot_request \<Rightarrow> string" where
  "enc_install_snapshot = enc_via (\<lambda>m. (is_term m, is_leader_id m, is_last_included_index m, is_last_included_term m, is_data m))
     (enc_pair enc_num (enc_pair enc_num (enc_pair enc_num (enc_pair enc_num enc_str))))"

definition dec_install_snapshot :: "string \<Rightarrow> (install_snapshot_request \<times> string) option" where
  "dec_install_snapshot = dec_via (\<lambda>(x0, x1, x2, x3, x4). \<lparr>is_term = x0, is_leader_id = x1,
     is_last_included_index = x2, is_last_included_term = x3, is_data = x4\<rparr>)
     (dec_pair dec_num (dec_pair dec_num (dec_pair dec_num (dec_pair dec_num dec_str))))"

interpretation install_snapshot_code: prefix_code enc_install_snapshot dec_install_snapshot
  unfolding enc_install_snapshot_def dec_install_snapshot_def
  by (intro prefix_code_intros message_codes) simp_all

declare install_snapshot_code.prefix_code_axioms [message_codes]

definition enc_install_snapshot_resp :: "install_snapshot_response \<Rightarrow> string" where
  "enc_install_snapshot_resp = enc_via (\<lambda>m. (isr_term m, isr_success m)) (enc_pair enc_num enc_bool)"

definition dec_install_snapshot_resp :: "string \<Rightarrow> (install_snapshot_response \<times> string) option" where
  "dec_install_snapshot_resp = dec_via (\<lambda>(x0, x1). \<lparr>isr_term = x0, isr_success = x1\<rparr>) (dec_pair dec_num dec_bool)"

interpretation install_snapshot_resp_code: prefix_code enc_install_snapshot_resp dec_install_snapshot_resp
  unfolding enc_install_snapshot_resp_def dec_install_snapshot_resp_def
  by (intro prefix_code_intros message_codes) simp_all

declare install_snapshot_resp_code.prefix_code_axioms [message_codes]

definition enc_raft_message :: "raft_message \<Rightarrow> string" where
  "enc_raft_message = enc_via (\<lambda>m. (rf_type m, rf_request_vote m, rf_request_vote_resp m,
     rf_append_entries m, rf_append_entries_resp m, rf_install_snapshot m, rf_install_snapshot_resp m))
     (enc_pair enc_raft_type (enc_pair (enc_option enc_request_vote) (enc_pair (enc_option enc_request_vote_resp)
     (enc_pair (enc_option enc_append_entries) (enc_pair (enc_option enc_append_entries_resp)
     (enc_pair (enc_option enc_install_snapshot) (enc_option enc_install_snapshot_resp)))))))"

definition dec_raft_message :: "string \<Rightarrow> (raft_message \<times> string) option" where
  "dec_raft_message = dec_via (\<lambda>(x0, x1, x2, x3, x4, x5, x6). \<lparr>rf_type = x0, rf_request_vote = x1,
     rf_request_vote_resp = x2, rf_append_entries = x3, rf_append_entries_resp = x4, rf_install_snapshot = x5,
     rf_install_snapshot_resp = x6\<rparr>)
     (dec_pair dec_raft_type (dec_pair (dec_option dec_request_vote) (dec_pair (dec_option dec_request_vote_resp)
     (dec_pair (dec_option dec_append_entries) (dec_pair (dec_option dec_append_entries_resp)
     (dec_pair (dec_option dec_install_snapshot) (dec_option dec_install_snapshot_resp)))))))"

interpretation raft_message_code: prefix_code enc_raft_message dec_raft_message
  unfolding enc_raft_message_def dec_raft_message_def
  by (intro prefix_code_intros message_codes) simp_all

declare raft_message_code.prefix_code_axioms [message_codes]

end
