(* ===== verification/Raft_Service.thy ===== *)
theory Raft_Service
  imports Codec Raft_Message Rocks_Engine Wire_Ref
begin

text \<open>
  The glue between the Raft node, the network and the storage engine
  (\<open>data_node/raft_service.cpp\<close>): what the three callbacks of the node do, the persistence of its
  state in RocksDB and its recovery, and the message loop on the connection to a peer. The engine is
  open: \<open>DataServer::start\<close> opens it before anything else. RocksDB, the buffer and the generated
  serialisation functions are the fields of \<open>raft_env\<close>.
\<close>

record ('db, 'b) raft_env =
  env_db :: "'db rocksdb_ops"
  env_buf :: "'b buffer_ops"
  ser_entry :: "log_entry \<Rightarrow> string"
  parse_entry :: "string \<Rightarrow> log_entry option"
  ser_rpc :: "rpc_message \<Rightarrow> string"
  parse_rpc :: "string \<Rightarrow> rpc_message option"
  ser_raft :: "raft_message \<Rightarrow> string"
  parse_raft :: "string \<Rightarrow> raft_message option"

text \<open>
  The unordered map of peer addresses is a list of pairs with distinct keys, in its iteration order;
  \<open>rs_conns\<close> are the peers with a live connection and \<open>rs_out\<close> the bytes sent to peers so far.
\<close>

record 'db raft_service =
  rs_nodeId :: uint64
  rs_peerAddrs :: "(uint64 \<times> string) list"
  rs_db :: 'db
  rs_raft :: raft_node
  rs_conns :: "uint64 list"
  rs_out :: "(uint64 \<times> string) list"

definition RaftService :: "uint64 \<Rightarrow> (uint64 \<times> string) list \<Rightarrow> 'db \<Rightarrow> int \<Rightarrow> int \<Rightarrow> 'db raft_service" where
  "RaftService nid peers db now rnd = \<lparr>rs_nodeId = nid, rs_peerAddrs = peers, rs_db = db,
     rs_raft = new_node nid (map fst (filter (\<lambda>p. fst p \<noteq> nid) peers)) now rnd,
     rs_conns = [], rs_out = []\<rparr>"

subsection \<open>Peer connections\<close>

text \<open>\<open>Inr None\<close>: the address has no colon and no client is made; \<open>Inl\<close>: \<open>std::stoi\<close> throws.\<close>

definition connectToPeer :: "string \<Rightarrow> std_exn + (string \<times> uint16) option" where
  "connectToPeer addr =
     (case str_find (CHR '':'') addr of
        None \<Rightarrow> Inr None
      | Some colon \<Rightarrow> (let ip = take colon addr in
          case stoi (drop (Suc colon) addr) of
            Inl e \<Rightarrow> Inl e
          | Inr p \<Rightarrow> Inr (Some (ip, to_uint16 p))))"

definition peer_connected :: "uint64 \<Rightarrow> 'db raft_service \<Rightarrow> 'db raft_service" where
  "peer_connected pid rs = rs\<lparr>rs_conns := List.insert pid (rs_conns rs)\<rparr>"

definition peer_disconnected :: "uint64 \<Rightarrow> 'db raft_service \<Rightarrow> 'db raft_service" where
  "peer_disconnected pid rs = rs\<lparr>rs_conns := removeAll pid (rs_conns rs)\<rparr>"

definition sendRaftRpc ::
  "('db, 'b) raft_env \<Rightarrow> uint64 \<Rightarrow> raft_message \<Rightarrow> 'db raft_service \<Rightarrow> 'db raft_service" where
  "sendRaftRpc env pid msg rs =
     (if pid \<notin> set (rs_conns rs) then rs
      else let data = ser_raft env msg
           in rs\<lparr>rs_out := rs_out rs @ [(pid, frame_bytes (env_buf env) RAFT_MSG data)]\<rparr>)"

subsection \<open>Applying a committed command\<close>

definition onApply :: "('db, 'b) raft_env \<Rightarrow> uint64 \<Rightarrow> string \<Rightarrow> 'db \<Rightarrow> 'db" where
  "onApply env index cmd db =
     (case parse_rpc env cmd of
        None \<Rightarrow> db
      | Some msg \<Rightarrow> (case rm_type msg of
          PUT_REQUEST \<Rightarrow> snd (engine_put (env_db env) (pq_key (put_request_of msg))
              (pq_value (put_request_of msg)) db)
        | DELETE_REQUEST \<Rightarrow> snd (engine_del (env_db env) (dq_key (delete_request_of msg)) db)
        | _ \<Rightarrow> db))"

subsection \<open>Persistence\<close>

definition encodeLogKey :: "uint64 \<Rightarrow> string" where
  "encodeLogKey index = CHR 0xFF # map (\<lambda>i. char_of (unat (and (drop_bit (i * 8) index) 0xFF)))
     (rev [0..<8])"

definition termKey :: string where "termKey = CHR 0x00 # ''raft_term''"
definition voteKey :: string where "voteKey = CHR 0x00 # ''raft_vote''"
definition logKeyFirst :: string where "logKeyFirst = [CHR 0xFF]"
definition logKeyEnd :: string where "logKeyEnd = [CHR 0xFF, CHR 0xFF]"

definition persistRaftState ::
  "('db, 'b) raft_env \<Rightarrow> uint64 \<Rightarrow> uint64 \<Rightarrow> log_entry list \<Rightarrow> 'db \<Rightarrow> 'db" where
  "persistRaftState env trm vote l db =
     (let ops = env_db env;
          db = snd (engine_put ops termKey (dec_string (unat trm)) db);
          db = snd (engine_put ops voteKey (dec_string (unat vote)) db);
          scanRes = engine_scan ops logKeyFirst logKeyEnd 100000 db;
          oldKeys = map fst (sc_kvs scanRes);
          puts = map (\<lambda>e. (encodeLogKey (le_index e), ser_entry env e)) (tl l)
      in snd (engine_writeBatch ops puts oldKeys db))"

text \<open>What is recovered: term, vote and log; \<open>std::stoull\<close> may throw.\<close>

definition recover_number :: "('db, 'b) raft_env \<Rightarrow> string \<Rightarrow> 'db \<Rightarrow> std_exn + uint64" where
  "recover_number env key db =
     (let (found, v) = engine_get (env_db env) key db in if found then stoull v else Inr 0)"

definition recoverRaftState ::
  "('db, 'b) raft_env \<Rightarrow> 'db \<Rightarrow> raft_node \<Rightarrow> std_exn + raft_node" where
  "recoverRaftState env db n =
     (case recover_number env termKey db of Inl e \<Rightarrow> Inl e | Inr trm \<Rightarrow>
      case recover_number env voteKey db of Inl e \<Rightarrow> Inl e | Inr vote \<Rightarrow>
        let scanRes = engine_scan (env_db env) logKeyFirst logKeyEnd 100000 db;
            l = List.map_filter (\<lambda>kv. parse_entry env (snd kv)) (sc_kvs scanRes)
        in Inr (if trm > 0 \<or> l \<noteq> [] then loadPersistedState trm vote l n else n))"

subsection \<open>The callbacks and the methods of the service\<close>

fun run_effect :: "('db, 'b) raft_env \<Rightarrow> raft_effect \<Rightarrow> 'db raft_service \<Rightarrow> 'db raft_service" where
  "run_effect env (Persist t v l) rs = rs\<lparr>rs_db := persistRaftState env t v l (rs_db rs)\<rparr>"
| "run_effect env (Apply i c) rs = rs\<lparr>rs_db := onApply env i c (rs_db rs)\<rparr>"
| "run_effect env (Send p m) rs = sendRaftRpc env p m rs"
| "run_effect env (OutOfRange i) rs = rs"

definition run_node ::
  "('db, 'b) raft_env \<Rightarrow> raft_node \<times> raft_effect list \<Rightarrow> 'db raft_service \<Rightarrow> 'db raft_service" where
  "run_node env r rs = fold (run_effect env) (snd r) (rs\<lparr>rs_raft := fst r\<rparr>)"

text \<open>The loop over the peers; the first exception of \<open>connectToPeer\<close> ends it.\<close>

fun connect_peers :: "(uint64 \<times> string) list \<Rightarrow> std_exn + (uint64 \<times> (string \<times> uint16) option) list" where
  "connect_peers [] = Inr []"
| "connect_peers (p # ps) =
     (case connectToPeer (snd p) of
        Inl e \<Rightarrow> Inl e
      | Inr a \<Rightarrow> (case connect_peers ps of Inl e \<Rightarrow> Inl e | Inr as \<Rightarrow> Inr ((fst p, a) # as)))"

definition rs_start :: "('db, 'b) raft_env \<Rightarrow> 'db raft_service \<Rightarrow> std_exn + 'db raft_service" where
  "rs_start env rs =
     (case recoverRaftState env (rs_db rs) (rs_raft rs) of
        Inl e \<Rightarrow> Inl e
      | Inr n \<Rightarrow>
          (case connect_peers (filter (\<lambda>p. fst p \<noteq> rs_nodeId rs) (rs_peerAddrs rs)) of
             Inl e \<Rightarrow> Inl e
           | Inr clients \<Rightarrow> Inr (rs\<lparr>rs_raft := n\<rparr>)))"

definition rs_stop :: "'db raft_service \<Rightarrow> 'db raft_service" where
  "rs_stop rs = rs\<lparr>rs_conns := []\<rparr>"

definition rs_propose ::
  "('db, 'b) raft_env \<Rightarrow> string \<Rightarrow> 'db raft_service \<Rightarrow> bool \<times> 'db raft_service" where
  "rs_propose env command rs =
     (let (accepted, n, effs) = propose command (rs_raft rs) in (accepted, run_node env (n, effs) rs))"

definition rs_tick :: "('db, 'b) raft_env \<Rightarrow> int \<Rightarrow> int \<Rightarrow> int \<Rightarrow> 'db raft_service \<Rightarrow> 'db raft_service" where
  "rs_tick env now now' rnd rs = run_node env (tick now now' rnd (rs_raft rs)) rs"

definition rs_isLeader :: "'db raft_service \<Rightarrow> bool" where
  "rs_isLeader rs = isLeader (rs_raft rs)"

definition rs_getLeaderAddr :: "'db raft_service \<Rightarrow> string option" where
  "rs_getLeaderAddr rs =
     (let lid = leaderId (rs_raft rs)
      in if lid = 0 then None
         else if lid = rs_nodeId rs then None
         else map_of (rs_peerAddrs rs) lid)"

text \<open>A request that came in at the server is answered on its connection: the first component.\<close>

definition rs_handleRaftMessage ::
  "('db, 'b) raft_env \<Rightarrow> raft_message \<Rightarrow> uint64 \<Rightarrow> int \<Rightarrow> int \<Rightarrow> int \<Rightarrow> 'db raft_service
     \<Rightarrow> string list \<times> 'db raft_service" where
  "rs_handleRaftMessage env msg fromNode now now' rnd rs =
     (let (reply, n, effs) = handleRaftMessage msg fromNode now now' rnd (rs_raft rs);
          rs = run_node env (n, effs) rs
      in case reply of
           None \<Rightarrow> ([], rs)
         | Some rmsg \<Rightarrow> ([frame_bytes (env_buf env) RAFT_MSG (ser_raft env rmsg)], rs))"

text \<open>
  One frame on the connection to a peer; a reply goes through \<open>sendRaftRpc\<close>. The clock and random
  readings of the \<open>k\<close>-th message are \<open>clk k\<close>.
\<close>

definition peer_frame ::
  "('db, 'b) raft_env \<Rightarrow> (nat \<Rightarrow> int \<times> int \<times> int) \<Rightarrow> uint64 \<Rightarrow> char \<Rightarrow> string
     \<Rightarrow> nat \<times> 'db raft_service \<Rightarrow> nat \<times> 'db raft_service" where
  "peer_frame env clk fromNode ty payload st =
     (case st of (k, rs) \<Rightarrow>
       (case parse_raft env payload of
          None \<Rightarrow> (k, rs)
        | Some msg \<Rightarrow>
            let (now, now', rnd) = clk k;
                (reply, n, effs) = handleRaftMessage msg fromNode now now' rnd (rs_raft rs);
                rs = run_node env (n, effs) rs
            in (Suc k, case reply of None \<Rightarrow> rs | Some rmsg \<Rightarrow> sendRaftRpc env fromNode rmsg rs)))"

definition onPeerMessage ::
  "('db, 'b) raft_env \<Rightarrow> (nat \<Rightarrow> int \<times> int \<times> int) \<Rightarrow> uint64 \<Rightarrow> 'b \<Rightarrow> 'db raft_service
     \<Rightarrow> ('b \<times> (nat \<times> 'db raft_service) \<times> bool) option" where
  "onPeerMessage env clk fromNode buf rs =
     frame_loop (env_buf env) (peer_frame env clk fromNode) buf (0, rs)"

text \<open>The reference instances of the third-party code.\<close>

definition ref_env :: "(alist_db, string) raft_env" where
  "ref_env = \<lparr>env_db = alist_ops, env_buf = list_buffer, ser_entry = enc_entry,
     parse_entry = whole dec_entry, ser_rpc = enc_rpc_message, parse_rpc = whole dec_rpc_message,
     ser_raft = enc_raft_message, parse_raft = whole dec_raft_message\<rparr>"

end
