(* ===== verification/Persistence.thy ===== *)
theory Persistence
  imports Raft_Service
begin

text \<open>
  What survives a restart: the round trip of \<open>persistRaftState\<close> and \<open>recoverRaftState\<close> through the
  store, and the effect of the applied commands on it.
\<close>

subsection \<open>Keys of the log\<close>

lemma low_byte: "unat (and (drop_bit k w) 0xFF :: uint64) = unat w div 2 ^ k mod 256"
proof -
  have "(0xFF :: uint64) = mask 8" by (simp add: mask_eq_exp_minus_1)
  then have "and (drop_bit k w) 0xFF = take_bit 8 (drop_bit k w)" by (simp add: take_bit_eq_mask)
  then have "unat (and (drop_bit k w) 0xFF) = take_bit 8 (drop_bit k (unat w))"
    by (simp only: unsigned_take_bit_eq unat_drop_bit_eq)
  also have "\<dots> = unat w div 2 ^ k mod 2 ^ 8" by (simp only: take_bit_eq_mod drop_bit_eq_div)
  finally show ?thesis by simp
qed

lemma be_encode_map: "be_encode k n = map (\<lambda>i. char_of (n div 256 ^ i mod 256)) (rev [0..<k])"
proof (induction k arbitrary: n)
  case (Suc k)
  have "rev [0..<Suc k] = map Suc (rev [0..<k]) @ [0]"
    by (simp add: upt_conv_Cons map_Suc_upt rev_map [symmetric] del: upt_Suc)
  with Suc [of "n div 256"] show ?case by (simp add: div_mult2_eq comp_def)
qed simp

lemma encodeLogKey_be: "encodeLogKey index = CHR 0xFF # be_encode 8 (unat index)"
  by (simp add: encodeLogKey_def be_encode_map low_byte power_mult mult.commute [of _ 8])

lemma encodeLogKey_less: "i < j \<Longrightarrow> encodeLogKey i < encodeLogKey j"
proof -
  assume "i < j"
  moreover have "unat j < 256 ^ 8" using unsigned_less [of j, where ?'a = nat] by simp
  ultimately have "be_encode 8 (unat i) < be_encode 8 (unat j)"
    by (intro be_encode_less) (simp_all add: word_less_nat_alt)
  then show ?thesis by (simp add: encodeLogKey_be)
qed

text \<open>
  The keys under which log entries are stored order as their indices do, so that a scan of the
  store visits the log in index order.
\<close>

theorem encodeLogKey_order: "encodeLogKey i < encodeLogKey j \<longleftrightarrow> i < j"
  using encodeLogKey_less [of i j] encodeLogKey_less [of j i]
  by (metis less_irrefl linorder_neqE order.strict_trans)

abbreviation log_range :: "string set" where
  "log_range \<equiv> key_range logKeyFirst logKeyEnd"

lemma raft_keys_not_log: "termKey \<notin> log_range" "voteKey \<notin> log_range"
  by (simp_all add: key_range_def termKey_def voteKey_def logKeyFirst_def logKeyEnd_def less_char_def)

lemma raft_keys_encode [simp]:
  "encodeLogKey i \<noteq> termKey" "encodeLogKey i \<noteq> voteKey" "termKey \<noteq> voteKey"
  "termKey \<noteq> encodeLogKey i" "voteKey \<noteq> encodeLogKey i"
  by (simp_all add: encodeLogKey_be termKey_def voteKey_def)

lemma log_key_in_range: "unat i < 255 * 256 ^ 7 \<Longrightarrow> encodeLogKey i \<in> log_range"
proof -
  assume "unat i < 255 * 256 ^ 7"
  then have "unat i div 256 ^ 7 < 255" by (simp add: less_mult_imp_div_less)
  moreover have "be_encode 8 (unat i) = char_of (unat i div 256 ^ 7 mod 256)
      # map (\<lambda>i'. char_of (unat i div 256 ^ i' mod 256)) (rev [0..<7])"
    using upt_Suc_append [of 0 7] by (simp add: be_encode_map)
  ultimately show ?thesis
    by (simp add: encodeLogKey_be key_range_def logKeyFirst_def logKeyEnd_def less_char_def)
qed

subsection \<open>Sorted lists of pairs\<close>

lemma sorted_map_of_unique:
  fixes xs ys :: "(string \<times> string) list"
  assumes "sorted_wrt (<) (map fst xs)" and "sorted_wrt (<) (map fst ys)" and "map_of xs = map_of ys"
  shows "xs = ys"
proof -
  have "set (map fst xs) = set (map fst ys)"
    using arg_cong [OF assms(3), of dom] by (simp add: dom_map_of_conv_image_fst)
  moreover have "sorted (map fst xs)" "distinct (map fst xs)" "sorted (map fst ys)" "distinct (map fst ys)"
    using assms(1,2) by (auto simp: strict_sorted_iff)
  ultimately have k: "map fst xs = map fst ys" by (simp add: sorted_distinct_set_unique)
  have "x = (fst x, the (map_of xs (fst x)))" if "x \<in> set xs" for x
    using that \<open>distinct (map fst xs)\<close> by (metis map_of_is_SomeI option.sel prod.collapse)
  then have "xs = map (\<lambda>k. (k, the (map_of xs k))) (map fst xs)"
    by (simp add: map_idI)
  moreover have "x = (fst x, the (map_of ys (fst x)))" if "x \<in> set ys" for x
    using that \<open>distinct (map fst ys)\<close> by (metis map_of_is_SomeI option.sel prod.collapse)
  then have "ys = map (\<lambda>k. (k, the (map_of ys k))) (map fst ys)"
    by (simp add: map_idI)
  ultimately show ?thesis using k assms(3) by metis
qed

definition entry_puts :: "('db, 'b) raft_env \<Rightarrow> log_entry list \<Rightarrow> (string \<times> string) list" where
  "entry_puts env l = map (\<lambda>e. (encodeLogKey (le_index e), ser_entry env e)) (tl l)"

text \<open>
  A log as the node keeps it: the entry at position \<open>i\<close> has index \<open>i\<close>. An \<open>indexed_log\<close> moreover fits
  the one scan, of at most 100000 entries, that \<open>persistRaftState\<close> and \<open>recoverRaftState\<close> make.
\<close>

definition positioned_log :: "log_entry list \<Rightarrow> bool" where
  "positioned_log l \<longleftrightarrow> length l < 2 ^ 63 \<and> map le_index l = map word_of_nat [0..<length l]"

definition indexed_log :: "log_entry list \<Rightarrow> bool" where
  "indexed_log l \<longleftrightarrow> length l \<le> 100001 \<and> map le_index l = map word_of_nat [0..<length l]"

lemma indexed_positioned: "indexed_log l \<Longrightarrow> positioned_log l"
  by (simp add: indexed_log_def positioned_log_def)

lemma indexed_log_index:
  assumes "positioned_log l" and "i < length (tl l)"
  shows "unat (le_index (tl l ! i)) = Suc i"
proof -
  have "Suc i < length l" using assms(2) by auto
  moreover have "tl l ! i = l ! Suc i" using assms(2) by (simp add: nth_tl)
  ultimately have "le_index (tl l ! i) = word_of_nat (Suc i)"
    using assms(1) unfolding positioned_log_def
    by (metis (no_types, lifting) add_0 length_map map_nth nth_map nth_upt length_upt diff_zero)
  moreover have "Suc i < 2 ^ 64" using assms by (auto simp: positioned_log_def)
  ultimately show ?thesis by (simp add: unat_word_of_nat64 del: of_nat_Suc)
qed

lemma entry_puts_sorted:
  assumes "positioned_log l"
  shows "sorted_wrt (<) (map fst (entry_puts env l))"
  unfolding sorted_wrt_iff_nth_less
proof (intro allI impI)
  fix i j assume ij: "i < j" "j < length (map fst (entry_puts env l))"
  then have "le_index (tl l ! i) < le_index (tl l ! j)"
    using indexed_log_index [OF assms, of i] indexed_log_index [OF assms, of j]
    by (simp add: entry_puts_def word_less_nat_alt)
  with ij show "map fst (entry_puts env l) ! i < map fst (entry_puts env l) ! j"
    by (simp add: entry_puts_def encodeLogKey_less)
qed

lemma entry_puts_range:
  assumes "positioned_log l"
  shows "set (map fst (entry_puts env l)) \<subseteq> log_range"
proof
  fix k assume "k \<in> set (map fst (entry_puts env l))"
  then obtain i where i: "i < length (tl l)" "k = encodeLogKey (le_index (tl l ! i))"
    by (auto simp: entry_puts_def in_set_conv_nth)
  have "Suc i < 255 * 256 ^ 7" using i(1) assms by (auto simp: positioned_log_def)
  then show "k \<in> log_range" unfolding i(2)
    using indexed_log_index [OF assms i(1)] by (intro log_key_in_range) simp
qed

lemma map_of_rev_sorted:
  fixes xs :: "(string \<times> string) list"
  shows "sorted_wrt (<) (map fst xs) \<Longrightarrow> map_of (rev xs) = map_of xs"
  by (rule map_of_inject_set [THEN iffD2]) (auto simp: strict_sorted_iff rev_map [symmetric])

subsection \<open>The store of a Raft node\<close>

locale raft_store =
  fixes env :: "('db, 'b) raft_env" and content :: "'db \<Rightarrow> (string \<rightharpoonup> string)"
  assumes store: "rocksdb_available (env_db env) content"
    and entries: "wire_format (ser_entry env) (parse_entry env)"
begin

lemma store_laws: "rocksdb (env_db env) content"
  using store by (simp add: rocksdb_available_def)

lemma put_content: "content (snd (engine_put (env_db env) k v d)) = (content d)(k \<mapsto> v)"
  using rocksdb.put_ok [OF store_laws] rocksdb_available.put_available [OF store, of k v d]
  by (cases "db_Put (env_db env) k v d") (auto simp: engine_put_def)

lemma del_content: "content (snd (engine_del (env_db env) k d)) = (content d)(k := None)"
  using rocksdb.delete_ok [OF store_laws] rocksdb_available.delete_available [OF store, of k d]
  by (cases "db_Delete (env_db env) k d") (auto simp: engine_del_def)

lemma batch_content: "content (snd (engine_writeBatch (env_db env) puts dels d)) =
    (content d ++ map_of (rev puts)) |` (- set dels)"
  using rocksdb.write_ok [OF store_laws] rocksdb_available.write_available [OF store,
      of "map (\<lambda>p. BatchPut (fst p) (snd p)) puts @ map BatchDelete dels" d]
  by (cases "db_Write (env_db env) (map (\<lambda>p. BatchPut (fst p) (snd p)) puts @ map BatchDelete dels) d")
    (auto simp: engine_writeBatch_def batch_puts batch_deletes)

lemma get_content: "engine_get (env_db env) k d = (True, v) \<longleftrightarrow> content d k = Some v"
  using rocksdb.get_ok [OF store_laws, of k d] rocksdb_available.get_available [OF store, of d k v]
  by (cases "db_Get (env_db env) k d") (auto simp: engine_get_def split: if_splits)

lemma recover_number_content:
  "recover_number env k d = (case content d k of None \<Rightarrow> Inr 0 | Some v \<Rightarrow> stoull v)"
proof (cases "content d k")
  case None
  have "\<not> fst (engine_get (env_db env) k d)"
    using rocksdb_available.get_absent [OF store None]
    by (cases "db_Get (env_db env) k d") (simp add: engine_get_def)
  with None show ?thesis by (simp add: recover_number_def case_prod_unfold)
next
  case (Some v)
  then have "engine_get (env_db env) k d = (True, v)" by (simp add: get_content)
  with Some show ?thesis by (simp add: recover_number_def)
qed

text \<open>The keys that \<open>persistRaftState\<close> deletes: those its scan of the log range returns.\<close>

definition old_keys :: "'db \<Rightarrow> string list" where
  "old_keys d = map fst (sc_kvs (engine_scan (env_db env) logKeyFirst logKeyEnd 100000 d))"

lemma old_keys_range: "set (old_keys d) \<subseteq> log_range"
proof -
  let ?r = "engine_scan (env_db env) logKeyFirst logKeyEnd 100000 d"
  have "scan_ok (content d) logKeyFirst logKeyEnd 100000 ?r"
    by (rule rocksdb.scan_contract [OF store_laws])
  then have "\<exists>A. A \<subseteq> log_range \<and> map_of (sc_kvs ?r) = content d |` A"
    unfolding scan_ok_def by (metis (no_types, lifting) inf_le1 subset_refl)
  then show ?thesis using map_of_keys unfolding old_keys_def by (metis inf.coboundedI1)
qed

text \<open>The scan of the log range returns the first 100000 entries in it.\<close>

lemma scan_log_take:
  assumes xs: "sorted_wrt (<) (map fst xs)" and c: "content d |` log_range = map_of xs"
  shows "sc_kvs (engine_scan (env_db env) logKeyFirst logKeyEnd 100000 d) = take 100000 xs"
proof -
  let ?r = "engine_scan (env_db env) logKeyFirst logKeyEnd 100000 d"
  have ok: "scan_ok (content d) logKeyFirst logKeyEnd 100000 ?r"
    by (rule rocksdb.scan_contract [OF store_laws])
  then have srt: "sorted_wrt (<) (map fst (sc_kvs ?r))" by (simp add: scan_ok_def)
  show ?thesis
  proof (cases "sc_has_more ?r")
    case True
    let ?k = "sc_next_key ?r"
    from ok True have r: "length (sc_kvs ?r) = 100000" "map_of (sc_kvs ?r) = content d |` (log_range \<inter> {k. k < ?k})"
      by (auto simp: scan_ok_def)
    have "map_of (sc_kvs ?r) = map_of (filter (\<lambda>kv. fst kv < ?k) xs)"
      using r(2) c map_of_filter_keys [where P = "\<lambda>k. k < ?k" and xs = xs] by (metis restrict_restrict)
    from sorted_map_of_unique [OF srt _ this] xs
    have f: "sc_kvs ?r = filter (\<lambda>kv. fst kv < ?k) xs" by (simp add: sorted_wrt_map sorted_wrt_filter)
    also have "\<dots> = takeWhile (\<lambda>kv. fst kv < ?k) xs" using xs
    proof (induction xs)
      case (Cons x xs)
      have "filter (\<lambda>kv. fst kv < ?k) xs = []" if "\<not> fst x < ?k"
        using Cons.prems that by (auto simp: filter_empty_conv)
      then show ?case using Cons by auto
    qed simp
    finally show ?thesis using r(1) by (metis takeWhile_eq_take)
  next
    case False
    with ok have "length (sc_kvs ?r) \<le> 100000" "map_of (sc_kvs ?r) = map_of xs"
      by (auto simp: scan_ok_def c)
    with sorted_map_of_unique [OF srt xs] show ?thesis by simp
  qed
qed

lemma scan_log:
  assumes "sorted_wrt (<) (map fst xs)" and "length xs \<le> 100000" and "content d |` log_range = map_of xs"
  shows "sc_kvs (engine_scan (env_db env) logKeyFirst logKeyEnd 100000 d) = xs"
  using scan_log_take [OF assms(1,3)] assms(2) by simp

lemma persist_content:
  "\<exists>d1. content d1 = (content d)(termKey \<mapsto> dec_string (unat t), voteKey \<mapsto> dec_string (unat v))
    \<and> content (persistRaftState env t v l d) =
        (content d1 ++ map_of (rev (entry_puts env l))) |` (- set (old_keys d1))"
  unfolding persistRaftState_def Let_def batch_content entry_puts_def old_keys_def
  by (rule exI [of _ "snd (engine_put (env_db env) voteKey (dec_string (unat v))
      (snd (engine_put (env_db env) termKey (dec_string (unat t)) d)))"])
    (simp add: put_content fun_upd_twist)

lemma entry_puts_raft_keys:
  "map_of (rev (entry_puts env l)) termKey = None" "map_of (rev (entry_puts env l)) voteKey = None"
  by (auto simp: entry_puts_def map_of_eq_None_iff)

lemma persist_term_vote:
  "content (persistRaftState env t v l d) termKey = Some (dec_string (unat t))"
  "content (persistRaftState env t v l d) voteKey = Some (dec_string (unat v))"
  using persist_content [of d t v l] old_keys_range raft_keys_not_log entry_puts_raft_keys [of l]
  by (auto simp: restrict_map_def map_add_def subset_iff split: option.split)

lemma persist_log:
  assumes "sorted_wrt (<) (map fst xs)" and "length xs \<le> 100000" and "content d |` log_range = map_of xs"
    and "positioned_log l"
  shows "content (persistRaftState env t v l d) |` log_range =
    map_of (entry_puts env l) |` (- set (map fst xs))"
proof -
  from persist_content [of d t v l] obtain d1 where
    d1: "content d1 = (content d)(termKey \<mapsto> dec_string (unat t), voteKey \<mapsto> dec_string (unat v))" and
    c: "content (persistRaftState env t v l d) =
        (content d1 ++ map_of (rev (entry_puts env l))) |` (- set (old_keys d1))" by blast
  have "content d1 |` log_range = content d |` log_range"
    using raft_keys_not_log by (auto simp: d1 restrict_map_def fun_eq_iff)
  then have "old_keys d1 = map fst xs"
    unfolding old_keys_def using scan_log [OF assms(1,2)] assms(3) by simp
  moreover have keys: "set (map fst xs) = log_range \<inter> dom (content d)"
    by (rule map_of_keys) (simp add: assms(3))
  moreover have "set (map fst (entry_puts env l)) \<subseteq> log_range" by (rule entry_puts_range [OF assms(4)])
  moreover have "map_of (rev (entry_puts env l)) = map_of (entry_puts env l)"
    by (rule map_of_rev_sorted [OF entry_puts_sorted [OF assms(4)]])
  ultimately have *: "content (persistRaftState env t v l d) x =
      (if x \<in> log_range \<inter> dom (content d) then None else (content d1 ++ map_of (entry_puts env l)) x)" for x
    unfolding c by (simp add: restrict_map_def)
  have P: "map_of (entry_puts env l) x = None" if "x \<notin> log_range" for x
    using that entry_puts_range [OF assms(4), of env] by (auto simp: map_of_eq_None_iff)
  have D: "x \<in> log_range \<Longrightarrow> content d1 x = content d x" for x
    using raft_keys_not_log by (auto simp: d1)
  show ?thesis
  proof (rule ext)
    fix x show "(content (persistRaftState env t v l d) |` log_range) x =
        (map_of (entry_puts env l) |` (- set (map fst xs))) x"
      unfolding keys using * [of x] P [of x] D [of x]
      by (cases "x \<in> log_range"; cases "content d x")
        (auto simp: restrict_map_def map_add_def split: option.split)
  qed
qed

lemma recover_entries:
  "List.map_filter (\<lambda>kv. parse_entry env (snd kv)) (map (\<lambda>e. (f e, ser_entry env e)) es) = es"
  using wire_format.parse_ser [OF entries] by (induction es) (simp_all add: List.map_filter_simps)

lemma recover_stored:
  assumes "content d termKey = Some (dec_string (unat t))" and "content d voteKey = Some (dec_string (unat v))"
    and "sc_kvs (engine_scan (env_db env) logKeyFirst logKeyEnd 100000 d) = map (\<lambda>e. (f e, ser_entry env e)) es"
  shows "recoverRaftState env d n = Inr (if 0 < t \<or> es \<noteq> [] then loadPersistedState t v es n else n)"
  using assms by (simp add: recoverRaftState_def recover_number_content stoull_dec_string recover_entries)

lemma recover_persisted:
  assumes "0 < t"
  shows "\<exists>es. recoverRaftState env (persistRaftState env t v l d) n = Inr (loadPersistedState t v es n)"
  using assms by (auto simp: recoverRaftState_def recover_number_content persist_term_vote
      stoull_dec_string Let_def)

text \<open>On a store without a log recovery finds the first 100000 entries of the log that was persisted.\<close>

lemma recover_first_persisted:
  assumes "content d |` log_range = Map.empty" and l: "positioned_log (sentinel # es)"
  shows "recoverRaftState env (persistRaftState env t v (sentinel # es) d) n =
    Inr (if 0 < t \<or> es \<noteq> [] then loadPersistedState t v (take 100000 es) n else n)"
proof -
  let ?f = "\<lambda>e. (encodeLogKey (le_index e), ser_entry env e)"
  have all: "m |` UNIV = m" for m :: "string \<rightharpoonup> string" by (rule ext) (simp add: restrict_map_def)
  have "content (persistRaftState env t v (sentinel # es) d) |` log_range = map_of (map ?f es)"
    using persist_log [where xs = "[]", OF _ _ _ l, of d t v] assms(1)
    by (simp add: entry_puts_def all)
  moreover have "sorted_wrt (<) (map fst (map ?f es))"
    using entry_puts_sorted [OF l, of env] by (simp add: entry_puts_def)
  ultimately have "sc_kvs (engine_scan (env_db env) logKeyFirst logKeyEnd 100000
      (persistRaftState env t v (sentinel # es) d)) = take 100000 (map ?f es)"
    by (intro scan_log_take)
  from recover_stored [OF persist_term_vote this [unfolded take_map]]
  have "recoverRaftState env (persistRaftState env t v (sentinel # es) d) n =
    Inr (if 0 < t \<or> take 100000 es \<noteq> [] then loadPersistedState t v (take 100000 es) n else n)" .
  moreover have "take 100000 es \<noteq> [] \<longleftrightarrow> es \<noteq> []" by (simp only: take_eq_Nil) simp
  ultimately show ?thesis by (simp only:)
qed

text \<open>The store holds exactly the entries of \<open>l\<close> in its log range.\<close>

definition holds_log :: "log_entry list \<Rightarrow> 'db \<Rightarrow> bool" where
  "holds_log l d \<longleftrightarrow> content d |` log_range = map_of (entry_puts env l)"

lemma recover_persisted_log:
  assumes l0: "holds_log l0 d" "indexed_log l0" and l: "indexed_log l"
  defines "es \<equiv> filter (\<lambda>e. le_index e \<notin> le_index ` set (tl l0)) (tl l)"
  shows "recoverRaftState env (persistRaftState env t v l d) n =
    Inr (if 0 < t \<or> es \<noteq> [] then loadPersistedState t v es n else n)"
proof -
  let ?K = "set (map fst (entry_puts env l0))"
  let ?f = "\<lambda>e. (encodeLogKey (le_index e), ser_entry env e)"
  have len: "length (entry_puts env l') \<le> 100000" if "indexed_log l'" for l'
    using that by (auto simp: entry_puts_def indexed_log_def)
  have inj: "encodeLogKey i = encodeLogKey j \<longleftrightarrow> i = j" for i j
    using encodeLogKey_less by (metis less_irrefl linorder_neqE)
  have flt: "map ?f es = filter (\<lambda>kv. fst kv \<notin> ?K) (entry_puts env l)"
    by (auto simp: es_def entry_puts_def filter_map comp_def inj image_iff intro!: arg_cong [where f = "map ?f"] filter_cong)
  have "content (persistRaftState env t v l d) |` log_range = map_of (entry_puts env l) |` (- ?K)"
    by (rule persist_log [OF entry_puts_sorted [OF indexed_positioned [OF l0(2)]] len [OF l0(2)] _ indexed_positioned [OF l]]) (use l0(1) in \<open>simp add: holds_log_def\<close>)
  also have "\<dots> = map_of (map ?f es)"
    unfolding flt map_of_filter_keys [where P = "\<lambda>k. k \<notin> ?K"] by (simp add: Compl_eq)
  finally have c: "content (persistRaftState env t v l d) |` log_range = map_of (map ?f es)" .
  have "sorted_wrt (<) (map fst (map ?f es))"
    unfolding flt using entry_puts_sorted [OF indexed_positioned [OF l], of env] by (simp add: sorted_wrt_filter sorted_wrt_map)
  moreover have "length (map ?f es) \<le> 100000"
    unfolding flt using len [OF l] length_filter_le order_trans by blast
  ultimately show ?thesis
    by (intro recover_stored [where f = "\<lambda>e. encodeLogKey (le_index e)"] persist_term_vote scan_log [OF _ _ c])
qed

end

interpretation ref_store: raft_store ref_env map_of
  by (rule raft_store.intro) (simp_all add: ref_env_def al.rocksdb_available_axioms entry_code.wire_format_axioms)

text \<open>
  Term and vote survive a restart: whatever the store held before, recovering from what
  \<open>persistRaftState\<close> wrote restores the current term and the vote.
\<close>

theorem term_and_vote_survive:
  assumes "raft_store env content" and "0 < t"
  shows "\<exists>es. recoverRaftState env (persistRaftState env t v l d) n = Inr (loadPersistedState t v es n)"
  by (rule raft_store.recover_persisted [OF assms])

theorem term_and_vote_survive_witness:
  "\<exists>es. recoverRaftState ref_env (persistRaftState ref_env 7 2 [sentinel] []) (new_node 1 [2] 0 200)
     = Inr (loadPersistedState 7 2 es (new_node 1 [2] 0 200))"
  by (rule term_and_vote_survive [OF ref_store.raft_store_axioms]) simp

text \<open>
  C16. The first time a log is persisted it survives a restart, up to its first 100000 entries: on a
  store with no log the recovered node has the term, the vote and the log that were persisted, less
  the entries from index 100001 on, which the one scan of \<open>recoverRaftState\<close> never reaches. (With
  neither a term nor an entry to load, the node is left as it is.) The entry at each position of the
  log has that position as its index, as \<open>propose\<close> makes it.
\<close>

theorem first_persist_roundtrip:
  assumes "raft_store env content" and "content d |` key_range logKeyFirst logKeyEnd = Map.empty"
    and "positioned_log (sentinel # es)"
  shows "recoverRaftState env (persistRaftState env t v (sentinel # es) d) n =
    Inr (if 0 < t \<or> es \<noteq> []
      then n\<lparr>currentTerm := t, votedFor := v, raftLog := sentinel # take 100000 es\<rparr> else n)"
  using raft_store.recover_first_persisted [OF assms]
  by (simp add: loadPersistedState_def sentinel_def)

definition two_entries :: "log_entry list" where
  "two_entries = [\<lparr>le_term = 1, le_index = 1, le_command = ''a''\<rparr>, \<lparr>le_term = 1, le_index = 2, le_command = ''b''\<rparr>]"

definition third_entry :: log_entry where
  "third_entry = \<lparr>le_term = 1, le_index = 3, le_command = ''c''\<rparr>"

lemma two_entries_indexed:
  "indexed_log (sentinel # two_entries)" "indexed_log (sentinel # two_entries @ [third_entry])"
  by (simp_all add: indexed_log_def two_entries_def third_entry_def sentinel_def upt_rec)

theorem first_persist_roundtrip_witness:
  "recoverRaftState ref_env (persistRaftState ref_env 1 1 (sentinel # two_entries) []) (new_node 1 [2] 0 200)
    = Inr ((new_node 1 [2] 0 200)\<lparr>currentTerm := 1, votedFor := 1, raftLog := sentinel # two_entries\<rparr>)"
  using first_persist_roundtrip [OF ref_store.raft_store_axioms _ indexed_positioned [OF two_entries_indexed(1)],
      of "[]" 1 1 "new_node 1 [2] 0 200"] by (simp add: two_entries_def)



end
