(* ===== verification/Kv_Service.thy ===== *)
theory Kv_Service
  imports Persistence
begin

text \<open>
  The client interface of a data node (\<open>data_node/kv_service.cpp\<close>) and the server around it
  (\<open>data_node/data_server.cpp\<close>). A node is started either alone, with only the storage engine, or as
  a member of a Raft cluster, where the engine is shared with the Raft service; the null pointer
  \<open>raft_\<close> of the first case is the constructor \<open>Single\<close>.
\<close>

datatype 'db kv_node = Single 'db | Replicated "'db raft_service"

fun kv_db :: "'db kv_node \<Rightarrow> 'db" where
  "kv_db (Single db) = db"
| "kv_db (Replicated rs) = rs_db rs"

fun kv_isLeader :: "'db kv_node \<Rightarrow> bool" where
  "kv_isLeader (Single db) = True"
| "kv_isLeader (Replicated rs) = rs_isLeader rs"

text \<open>\<open>raft_ && !raft_->isLeader() && raft_->getLeaderAddr(leaderAddr)\<close>: the address to redirect to.\<close>

fun redirect :: "'db kv_node \<Rightarrow> string option" where
  "redirect (Single db) = None"
| "redirect (Replicated rs) = (if rs_isLeader rs then None else rs_getLeaderAddr rs)"

subsection \<open>Handlers\<close>

definition get_reply :: "get_response \<Rightarrow> rpc_message" where
  "get_reply resp = default_rpc_message\<lparr>rm_type := GET_RESPONSE, rm_get_response := Some resp\<rparr>"

definition put_reply :: "put_response \<Rightarrow> rpc_message" where
  "put_reply resp = default_rpc_message\<lparr>rm_type := PUT_RESPONSE, rm_put_response := Some resp\<rparr>"

definition delete_reply :: "delete_response \<Rightarrow> rpc_message" where
  "delete_reply resp = default_rpc_message\<lparr>rm_type := DELETE_RESPONSE, rm_delete_response := Some resp\<rparr>"

definition scan_reply :: "scan_response \<Rightarrow> rpc_message" where
  "scan_reply resp = default_rpc_message\<lparr>rm_type := SCAN_RESPONSE, rm_scan_response := Some resp\<rparr>"

definition handleGet :: "('db, 'b) raft_env \<Rightarrow> get_request \<Rightarrow> 'db kv_node \<Rightarrow> rpc_message" where
  "handleGet env req st =
     (let resp = default_get_response\<lparr>gr_call_id := gq_call_id req, gr_key := gq_key req\<rparr>
      in case redirect st of
           Some leaderAddr \<Rightarrow>
             get_reply (resp\<lparr>gr_error_code := NOT_LEADER, gr_correct_leader_addr := leaderAddr\<rparr>)
         | None \<Rightarrow>
             let (found, val) = engine_get (env_db env) (gq_key req) (kv_db st)
             in get_reply (if found then resp\<lparr>gr_error_code := OK, gr_value := val\<rparr>
                           else resp\<lparr>gr_error_code := KEY_NOT_FOUND\<rparr>))"

definition put_command :: "put_request \<Rightarrow> rpc_message" where
  "put_command req = default_rpc_message\<lparr>rm_type := PUT_REQUEST, rm_put_request := Some req\<rparr>"

definition handlePut ::
  "('db, 'b) raft_env \<Rightarrow> put_request \<Rightarrow> 'db kv_node \<Rightarrow> rpc_message \<times> 'db kv_node" where
  "handlePut env req st =
     (let resp = default_put_response\<lparr>pr_call_id := pq_call_id req\<rparr>
      in case st of
           Replicated rs \<Rightarrow>
             if \<not> rs_isLeader rs then
               (case rs_getLeaderAddr rs of
                  Some leaderAddr \<Rightarrow>
                    (put_reply (resp\<lparr>pr_error_code := NOT_LEADER, pr_correct_leader_addr := leaderAddr\<rparr>), st)
                | None \<Rightarrow> (put_reply (resp\<lparr>pr_error_code := INTERNAL_ERROR\<rparr>), st))
             else
               let (ok, rs) = rs_propose env (ser_rpc env (put_command req)) rs
               in (put_reply (resp\<lparr>pr_error_code := (if ok then OK else INTERNAL_ERROR)\<rparr>), Replicated rs)
         | Single db \<Rightarrow>
             let (ok, db) = engine_put (env_db env) (pq_key req) (pq_value req) db
             in (put_reply (resp\<lparr>pr_error_code := (if ok then OK else INTERNAL_ERROR)\<rparr>), Single db))"

definition delete_command :: "delete_request \<Rightarrow> rpc_message" where
  "delete_command req = default_rpc_message\<lparr>rm_type := DELETE_REQUEST, rm_delete_request := Some req\<rparr>"

definition handleDelete ::
  "('db, 'b) raft_env \<Rightarrow> delete_request \<Rightarrow> 'db kv_node \<Rightarrow> rpc_message \<times> 'db kv_node" where
  "handleDelete env req st =
     (let resp = default_delete_response\<lparr>dr_call_id := dq_call_id req\<rparr>
      in case st of
           Replicated rs \<Rightarrow>
             if \<not> rs_isLeader rs then
               (case rs_getLeaderAddr rs of
                  Some leaderAddr \<Rightarrow>
                    (delete_reply (resp\<lparr>dr_error_code := NOT_LEADER, dr_correct_leader_addr := leaderAddr\<rparr>), st)
                | None \<Rightarrow> (delete_reply (resp\<lparr>dr_error_code := INTERNAL_ERROR\<rparr>), st))
             else
               let (ok, rs) = rs_propose env (ser_rpc env (delete_command req)) rs
               in (delete_reply (resp\<lparr>dr_error_code := (if ok then OK else INTERNAL_ERROR)\<rparr>), Replicated rs)
         | Single db \<Rightarrow>
             let (ok, db) = engine_del (env_db env) (dq_key req) db
             in (delete_reply (resp\<lparr>dr_error_code := (if ok then OK else KEY_NOT_FOUND)\<rparr>), Single db))"

definition handleScan :: "('db, 'b) raft_env \<Rightarrow> scan_request \<Rightarrow> 'db kv_node \<Rightarrow> rpc_message" where
  "handleScan env req st =
     (let resp = default_scan_response\<lparr>sr_call_id := sq_call_id req\<rparr>
      in case redirect st of
           Some leaderAddr \<Rightarrow>
             scan_reply (resp\<lparr>sr_error_code := NOT_LEADER, sr_correct_leader_addr := leaderAddr\<rparr>)
         | None \<Rightarrow>
             let result = engine_scan (env_db env) (sq_start_key req) (sq_end_key req) (sq_limit req) (kv_db st)
             in scan_reply (resp\<lparr>sr_kvs := sc_kvs result, sr_has_more := sc_has_more result,
                  sr_next_start_key := sc_next_key result, sr_error_code := OK\<rparr>))"

subsection \<open>The server\<close>

text \<open>What is sent back on the client's connection, and the node afterwards.\<close>

definition dispatchClientRpc ::
  "('db, 'b) raft_env \<Rightarrow> rpc_message \<Rightarrow> 'db kv_node \<Rightarrow> rpc_message list \<times> 'db kv_node" where
  "dispatchClientRpc env msg st =
     (case rm_type msg of
        GET_REQUEST \<Rightarrow> ([handleGet env (get_request_of msg) st], st)
      | PUT_REQUEST \<Rightarrow> (let (r, st) = handlePut env (put_request_of msg) st in ([r], st))
      | DELETE_REQUEST \<Rightarrow> (let (r, st) = handleDelete env (delete_request_of msg) st in ([r], st))
      | SCAN_REQUEST \<Rightarrow> ([handleScan env (scan_request_of msg) st], st)
      | _ \<Rightarrow> ([], st))"

text \<open>
  One frame at the server: a Raft message when the type byte says so and the node has Raft, a client
  message otherwise. The state carries the number of frames so far, which selects the clock
  readings, and the bytes written to the connection.
\<close>

definition server_frame ::
  "('db, 'b) raft_env \<Rightarrow> (nat \<Rightarrow> int \<times> int \<times> int) \<Rightarrow> char \<Rightarrow> string
     \<Rightarrow> nat \<times> string list \<times> 'db kv_node \<Rightarrow> nat \<times> string list \<times> 'db kv_node" where
  "server_frame env clk msgType payload s =
     (case s of (k, out, st) \<Rightarrow>
       let client = (case parse_rpc env payload of
             None \<Rightarrow> (Suc k, out, st)
           | Some rpcMsg \<Rightarrow> let (rs, st') = dispatchClientRpc env rpcMsg st
               in (Suc k, out @ map (send_message (env_buf env) (ser_rpc env)) rs, st'))
       in case st of
            Single db \<Rightarrow> client
          | Replicated rs \<Rightarrow>
              if msgType = RAFT_MSG then
                (case parse_raft env payload of
                   None \<Rightarrow> (Suc k, out, st)
                 | Some raftMsg \<Rightarrow>
                     let fromNode = (case rf_type raftMsg of
                           REQUEST_VOTE \<Rightarrow> rv_candidate_id (request_vote_of raftMsg)
                         | APPEND_ENTRIES \<Rightarrow> ae_leader_id (append_entries_of raftMsg)
                         | _ \<Rightarrow> 0);
                         (now, now', rnd) = clk k;
                         (bytes, rs) = rs_handleRaftMessage env raftMsg fromNode now now' rnd rs
                     in (Suc k, out @ bytes, Replicated rs))
              else client)"

definition server_onMessage ::
  "('db, 'b) raft_env \<Rightarrow> (nat \<Rightarrow> int \<times> int \<times> int) \<Rightarrow> 'b \<Rightarrow> 'db kv_node
     \<Rightarrow> ('b \<times> (nat \<times> string list \<times> 'db kv_node) \<times> bool) option" where
  "server_onMessage env clk buf st = frame_loop (env_buf env) (server_frame env clk) buf (0, [], st)"

definition server_tick :: "('db, 'b) raft_env \<Rightarrow> int \<Rightarrow> int \<Rightarrow> int \<Rightarrow> 'db kv_node \<Rightarrow> 'db kv_node" where
  "server_tick env now now' rnd st =
     (case st of Single db \<Rightarrow> st | Replicated rs \<Rightarrow> Replicated (rs_tick env now now' rnd rs))"

text \<open>
  \<open>DataServer::start\<close> up to the point where the server listens: \<open>None\<close> when the database cannot be
  opened (the method then returns without starting the server), \<open>Inl\<close> an exception of the Raft
  start.
\<close>

definition server_start ::
  "('db, 'b) raft_env \<Rightarrow> string \<Rightarrow> ('db \<Rightarrow> 'db kv_node) \<Rightarrow> (std_exn + 'db kv_node) option" where
  "server_start env path mk =
     (let (opened, e) = engine_open (env_db env) (RocksEngine path)
      in case db_ptr e of
           None \<Rightarrow> None
         | Some db \<Rightarrow>
             if \<not> opened then None
             else (case mk db of
                     Single db \<Rightarrow> Some (Inr (Single db))
                   | Replicated rs \<Rightarrow> Some (case rs_start env rs of Inl e \<Rightarrow> Inl e | Inr rs \<Rightarrow> Inr (Replicated rs))))"

end
