(* ===== verification/Kv_Props.thy ===== *)
theory Kv_Props
  imports Kv_Service
begin

text \<open>
  Properties of the client interface: every request is answered, requests on one connection are
  handled in order, a node that is not the leader redirects and changes nothing, and what an
  acknowledged write means, alone and in a cluster.
\<close>

subsection \<open>Replies\<close>

lemma reply_type [simp]:
  "rm_type (get_reply a) = GET_RESPONSE" "get_response_of (get_reply a) = a"
  "rm_type (put_reply b) = PUT_RESPONSE" "put_response_of (put_reply b) = b"
  "rm_type (delete_reply c) = DELETE_RESPONSE" "delete_response_of (delete_reply c) = c"
  "rm_type (scan_reply d) = SCAN_RESPONSE" "scan_response_of (scan_reply d) = d"
  by (simp_all add: get_reply_def put_reply_def delete_reply_def scan_reply_def)

definition answers :: "rpc_message \<Rightarrow> rpc_message \<Rightarrow> bool" where
  "answers r msg = (case rm_type msg of
     GET_REQUEST \<Rightarrow> rm_type r = GET_RESPONSE
       \<and> gr_call_id (get_response_of r) = gq_call_id (get_request_of msg)
   | PUT_REQUEST \<Rightarrow> rm_type r = PUT_RESPONSE
       \<and> pr_call_id (put_response_of r) = pq_call_id (put_request_of msg)
   | DELETE_REQUEST \<Rightarrow> rm_type r = DELETE_RESPONSE
       \<and> dr_call_id (delete_response_of r) = dq_call_id (delete_request_of msg)
   | SCAN_REQUEST \<Rightarrow> rm_type r = SCAN_RESPONSE
       \<and> sr_call_id (scan_response_of r) = sq_call_id (scan_request_of msg)
   | _ \<Rightarrow> False)"

definition is_request :: "rpc_message \<Rightarrow> bool" where
  "is_request msg \<longleftrightarrow> rm_type msg \<in> {GET_REQUEST, PUT_REQUEST, DELETE_REQUEST, SCAN_REQUEST}"

text \<open>
  C22. Every client request is answered exactly once, with the response of its kind and its call id,
  in every state of the node; a message that is not a request is ignored.
\<close>

theorem requests_answered:
  "if is_request msg then \<exists>r. fst (dispatchClientRpc env msg st) = [r] \<and> answers r msg
   else dispatchClientRpc env msg st = ([], st)"
  by (cases "rm_type msg")
    (auto simp: is_request_def dispatchClientRpc_def answers_def handleGet_def handlePut_def
      handleDelete_def handleScan_def Let_def case_prod_unfold split: option.split kv_node.split)

subsection \<open>Pipelined requests\<close>

fun serve_all :: "('db, 'b) raft_env \<Rightarrow> rpc_message list \<Rightarrow> 'db kv_node \<Rightarrow> rpc_message list \<times> 'db kv_node" where
  "serve_all env [] st = ([], st)"
| "serve_all env (m # ms) st =
     (let (rs, st) = dispatchClientRpc env m st; (rs', st) = serve_all env ms st in (rs @ rs', st))"

lemma dispatch_keeps_kind: "(\<exists>db. snd (dispatchClientRpc env m st) = Single db) \<longleftrightarrow> (\<exists>db. st = Single db)"
  by (cases "rm_type m"; cases st)
    (auto simp: dispatchClientRpc_def handlePut_def handleDelete_def Let_def case_prod_unfold
      split: option.split)

lemma server_frame_client:
  assumes "wire_format (ser_rpc env) (parse_rpc env)"
  shows "server_frame env clk CLIENT_MSG (ser_rpc env m) (k, out, st) =
    (Suc k, out @ map (send_message (env_buf env) (ser_rpc env)) (fst (dispatchClientRpc env m st)),
     snd (dispatchClientRpc env m st))"
  using wire_format.parse_ser [OF assms]
  by (cases st) (simp_all add: server_frame_def Let_def case_prod_unfold CLIENT_MSG_def RAFT_MSG_def)

lemma server_frames_clients:
  assumes "wire_format (ser_rpc env) (parse_rpc env)"
  shows "fold (\<lambda>(ty, p). server_frame env clk ty p) (map (\<lambda>m. (CLIENT_MSG, ser_rpc env m)) ms) (k, out, st) =
    (k + length ms, out @ map (send_message (env_buf env) (ser_rpc env)) (fst (serve_all env ms st)),
     snd (serve_all env ms st))"
proof (induction ms arbitrary: k out st)
  case (Cons m ms)
  then show ?case by (simp add: server_frame_client [OF assms] Let_def case_prod_unfold)
qed simp

text \<open>
  C21. Requests sent one after the other on a connection are served in order, whatever their number
  and however they arrive: the server's reaction to the bytes of the requests is the bytes of their
  replies, each request seeing the state the previous ones left.
\<close>

theorem pipelined_requests:
  assumes "net_buffer (env_buf env) bytes" and "wire_format (ser_rpc env) (parse_rpc env)"
    and "bytes buf = concat (map (send_message (env_buf env) (ser_rpc env)) ms)"
    and "\<forall>m \<in> set ms. length (ser_rpc env m) < 2 ^ 32 - 5"
  shows "\<exists>buf'. server_onMessage env clk buf st = Some (buf', (length ms,
      map (send_message (env_buf env) (ser_rpc env)) (fst (serve_all env ms st)),
      snd (serve_all env ms st)), False) \<and> bytes buf' = []"
proof -
  let ?fs = "map (\<lambda>m. (CLIENT_MSG, ser_rpc env m)) ms"
  have "send_message (env_buf env) (ser_rpc env) = (\<lambda>m. encode_frame (CLIENT_MSG, ser_rpc env m))"
    using net_buffer.frame_bytes_encode [OF assms(1)] by (simp add: fun_eq_iff send_message_def sendRaw_def)
  then have b: "bytes buf = concat (map encode_frame ?fs) @ []"
    using assms(3) by (simp add: comp_def)
  have "\<forall>f \<in> set ?fs. length (snd f) < 2 ^ 32 - 5" using assms(4) by auto
  from frame_loop_stream [OF assms(1) b this, of "server_frame env clk" "(0, [], st)"]
  show ?thesis
    unfolding server_onMessage_def server_frames_clients [OF assms(2)]
    by (auto simp: headers_fit_short split_frame_def)
qed

definition put_msg :: "string \<Rightarrow> string \<Rightarrow> rpc_message" where
  "put_msg k v = put_command \<lparr>pq_key = k, pq_value = v, pq_call_id = 1\<rparr>"

definition get_msg :: "string \<Rightarrow> rpc_message" where
  "get_msg k = default_rpc_message\<lparr>rm_type := GET_REQUEST,
     rm_get_request := Some \<lparr>gq_key = k, gq_allow_stale = False, gq_call_id = 2\<rparr>\<rparr>"

lemma ref_env_wires:
  "net_buffer (env_buf ref_env) (\<lambda>b. b)" "wire_format (ser_rpc ref_env) (parse_rpc ref_env)"
  by (simp_all add: ref_env_def lb.net_buffer_axioms rpc_message_code.wire_format_axioms)

theorem pipelined_requests_witness:
  "\<exists>buf'. server_onMessage ref_env (\<lambda>k. (0, 0, 150))
     (concat (map (send_message list_buffer enc_rpc_message) [put_msg ''k'' ''v'', get_msg ''k''])) (Single [])
     = Some (buf', (2, map (send_message list_buffer enc_rpc_message)
         (fst (serve_all ref_env [put_msg ''k'' ''v'', get_msg ''k''] (Single []))),
         snd (serve_all ref_env [put_msg ''k'' ''v'', get_msg ''k''] (Single []))), False) \<and> buf' = []"
proof -
  have e: "env_buf ref_env = list_buffer" "ser_rpc ref_env = enc_rpc_message" by (simp_all add: ref_env_def)
  have "\<forall>m \<in> set [put_msg ''k'' ''v'', get_msg ''k'']. length (ser_rpc ref_env m) < 100"
    by code_simp
  then have "\<forall>m \<in> set [put_msg ''k'' ''v'', get_msg ''k'']. length (ser_rpc ref_env m) < 2 ^ 32 - 5"
    by simp
  from pipelined_requests [OF ref_env_wires _ this, of _ "\<lambda>k. (0, 0, 150)" "Single []"]
  show ?thesis by (simp add: e)
qed

subsection \<open>A node that is not the leader\<close>

text \<open>
  A member of a cluster that knows another node as leader redirects every request to the leader's
  address and changes nothing; one that knows no leader refuses writes with an internal error.
\<close>

theorem not_leader_redirects:
  assumes "\<not> rs_isLeader rs" and "is_request msg"
  shows "snd (dispatchClientRpc env msg (Replicated rs)) = Replicated rs
    \<and> (case rs_getLeaderAddr rs of
         Some a \<Rightarrow> \<exists>r. fst (dispatchClientRpc env msg (Replicated rs)) = [r] \<and>
           (case rm_type msg of
              GET_REQUEST \<Rightarrow> gr_error_code (get_response_of r) = NOT_LEADER
                \<and> gr_correct_leader_addr (get_response_of r) = a
            | PUT_REQUEST \<Rightarrow> pr_error_code (put_response_of r) = NOT_LEADER
                \<and> pr_correct_leader_addr (put_response_of r) = a
            | DELETE_REQUEST \<Rightarrow> dr_error_code (delete_response_of r) = NOT_LEADER
                \<and> dr_correct_leader_addr (delete_response_of r) = a
            | _ \<Rightarrow> sr_error_code (scan_response_of r) = NOT_LEADER
                \<and> sr_correct_leader_addr (scan_response_of r) = a)
       | None \<Rightarrow> \<exists>r. fst (dispatchClientRpc env msg (Replicated rs)) = [r]
           \<and> (rm_type msg = PUT_REQUEST \<longrightarrow> pr_error_code (put_response_of r) = INTERNAL_ERROR)
           \<and> (rm_type msg = DELETE_REQUEST \<longrightarrow> dr_error_code (delete_response_of r) = INTERNAL_ERROR))"
  using assms
  by (cases "rm_type msg"; cases "rs_getLeaderAddr rs")
    (auto simp: is_request_def dispatchClientRpc_def handleGet_def handlePut_def handleDelete_def
      handleScan_def Let_def)

definition follower_service :: "alist_db raft_service" where
  "follower_service = (RaftService 1 [(1, ''h1:1''), (2, ''h2:2'')] [] 0 150)
     \<lparr>rs_raft := (new_node 1 [2] 0 150)\<lparr>leaderId := 2\<rparr>\<rparr>"

theorem not_leader_redirects_witness:
  "snd (dispatchClientRpc ref_env (put_msg ''k'' ''v'') (Replicated follower_service))
     = Replicated follower_service \<and> rs_getLeaderAddr follower_service = Some ''h2:2''"
  using not_leader_redirects [of follower_service "put_msg ''k'' ''v''" ref_env]
  by (simp add: follower_service_def RaftService_def rs_isLeader_def isLeader_def new_node_def
      is_request_def put_msg_def put_command_def rs_getLeaderAddr_def)

subsection \<open>What a stored or applied write means\<close>

text \<open>The operations a client can have applied, and the map they act on.\<close>

datatype kv_op = KvPut put_request | KvDelete delete_request

fun op_command :: "('db, 'b) raft_env \<Rightarrow> kv_op \<Rightarrow> string" where
  "op_command env (KvPut req) = ser_rpc env (put_command req)"
| "op_command env (KvDelete req) = ser_rpc env (delete_command req)"

fun op_map :: "kv_op \<Rightarrow> (string \<rightharpoonup> string) \<Rightarrow> (string \<rightharpoonup> string)" where
  "op_map (KvPut req) m = m(pq_key req \<mapsto> pq_value req)"
| "op_map (KvDelete req) m = m(dq_key req := None)"

lemma onApply_op:
  assumes "raft_store env content" and "wire_format (ser_rpc env) (parse_rpc env)"
  shows "content (onApply env i (op_command env op) d) = op_map op (content d)"
  using wire_format.parse_ser [OF assms(2)] raft_store.put_content [OF assms(1)]
    raft_store.del_content [OF assms(1)]
  by (cases op) (simp_all add: onApply_def put_command_def delete_command_def)

text \<open>
  C18. The replicated state machine: applying the commands that \<open>handlePut\<close> and \<open>handleDelete\<close> propose,
  in the order of the log, turns the contents of the store into what the sequence of operations does
  to a map. Two nodes that apply the same commands to equal contents have equal contents.
\<close>

theorem applied_commands_refine_map:
  assumes "raft_store env content" and "wire_format (ser_rpc env) (parse_rpc env)"
  shows "content (fold (\<lambda>op d. onApply env (idx op) (op_command env op) d) ops d) = fold op_map ops (content d)"
  by (induction ops arbitrary: d) (simp_all add: onApply_op [OF assms])

theorem applied_commands_refine_map_witness:
  "map_of (fold (\<lambda>op d. onApply ref_env 1 (op_command ref_env op) d)
     [KvPut \<lparr>pq_key = ''k'', pq_value = ''v'', pq_call_id = 0\<rparr>, KvDelete \<lparr>dq_key = ''k'', dq_call_id = 0\<rparr>] [])
   = Map.empty"
  using applied_commands_refine_map [OF ref_store.raft_store_axioms ref_env_wires(2), of "\<lambda>_. 1"
      "[KvPut \<lparr>pq_key = ''k'', pq_value = ''v'', pq_call_id = 0\<rparr>, KvDelete \<lparr>dq_key = ''k'', dq_call_id = 0\<rparr>]" "[]"]
  by simp

text \<open>Keys outside the two name spaces that the Raft state occupies in the same store.\<close>

definition user_key :: "string \<Rightarrow> bool" where
  "user_key k \<longleftrightarrow> k = [] \<or> hd k \<noteq> CHR 0x00 \<and> hd k \<noteq> CHR 0xFF"

lemma user_key_distinct:
  assumes "user_key k"
  shows "k \<noteq> termKey" "k \<noteq> voteKey" "k \<noteq> encodeLogKey i" "k \<notin> log_range"
proof -
  show "k \<noteq> termKey" "k \<noteq> voteKey" "k \<noteq> encodeLogKey i"
    using assms by (auto simp: user_key_def termKey_def voteKey_def encodeLogKey_be)
  show "k \<notin> log_range"
  proof
    assume "k \<in> log_range"
    then have k: "[CHR 0xFF] \<le> k" "k < [CHR 0xFF, CHR 0xFF]"
      by (auto simp: key_range_def logKeyFirst_def logKeyEnd_def)
    then obtain c r where c: "k = c # r" by (cases k) auto
    have "of_char c \<le> (255 :: nat)" using nat_of_char_less_256 [of c] by linarith
    with k c have "c = CHR 0xFF" by (auto simp: less_char_def less_eq_char_def)
    with assms c show False by (simp add: user_key_def)
  qed
qed

lemma persist_user_key:
  assumes "raft_store env content" and "user_key k"
  shows "content (persistRaftState env t v l d) k = content d k"
proof -
  from raft_store.persist_content [OF assms(1), of d t v l] obtain d1 where
    d1: "content d1 = (content d)(termKey \<mapsto> dec_string (unat t), voteKey \<mapsto> dec_string (unat v))" and
    c: "content (persistRaftState env t v l d) =
        (content d1 ++ map_of (rev (entry_puts env l))) |` (- set (raft_store.old_keys env d1))" by blast
  have "k \<notin> set (raft_store.old_keys env d1)"
    using raft_store.old_keys_range [OF assms(1), of d1] user_key_distinct(4) [OF assms(2)] by blast
  moreover have "map_of (rev (entry_puts env l)) k = None"
    using user_key_distinct(3) [OF assms(2)] by (force simp: map_of_eq_None_iff entry_puts_def)
  ultimately show ?thesis unfolding c using user_key_distinct(1,2) [OF assms(2)]
    by (simp add: restrict_map_def d1 map_add_def)
qed

lemma sends_keep_db: "rs_db (fold (run_effect env) (map (\<lambda>p. Send p (f p)) ps) rs) = rs_db rs"
  by (induction ps arbitrary: rs) (simp_all add: sendRaftRpc_def Let_def)

lemma propose_db:
  "rs_isLeader rs \<Longrightarrow> \<exists>l. fst (rs_propose env c rs) \<and> rs_db (snd (rs_propose env c rs)) =
     persistRaftState env (currentTerm (rs_raft rs)) (votedFor (rs_raft rs)) l (rs_db rs)"
  by (auto simp: rs_propose_def propose_def rs_isLeader_def isLeader_def Let_def run_node_def persist_def
      sendAppendEntries_def sends_keep_db)

text \<open>
  A write is acknowledged before it is replicated or applied: the leader answers a put with OK as
  soon as the command is in its own log, while the store, from which gets are served, still has the
  old value for every client key.
\<close>

theorem put_acknowledged_before_apply:
  assumes "raft_store env content" and "rs_isLeader rs" and "user_key k"
  shows "pr_error_code (put_response_of (fst (handlePut env req (Replicated rs)))) = OK
    \<and> content (kv_db (snd (handlePut env req (Replicated rs)))) k = content (rs_db rs) k"
  using propose_db [OF assms(2), of env "ser_rpc env (put_command req)"] assms(2)
    persist_user_key [OF assms(1,3)]
  by (auto simp: handlePut_def Let_def case_prod_unfold)

definition leader_service :: "alist_db raft_service" where
  "leader_service = follower_service\<lparr>rs_raft := (new_node 1 [2] 0 150)\<lparr>nodeState := LEADER, currentTerm := 1\<rparr>\<rparr>"

theorem put_acknowledged_before_apply_witness:
  "pr_error_code (put_response_of (fst (handlePut ref_env \<lparr>pq_key = ''k'', pq_value = ''v'', pq_call_id = 1\<rparr>
       (Replicated leader_service)))) = OK
   \<and> map_of (kv_db (snd (handlePut ref_env \<lparr>pq_key = ''k'', pq_value = ''v'', pq_call_id = 1\<rparr>
       (Replicated leader_service)))) ''k'' = None"
  using put_acknowledged_before_apply [OF ref_store.raft_store_axioms, of leader_service "''k''"
      "\<lparr>pq_key = ''k'', pq_value = ''v'', pq_call_id = 1\<rparr>"]
  by (simp add: leader_service_def follower_service_def RaftService_def rs_isLeader_def isLeader_def
      user_key_def)

text \<open>
  Client keys and the Raft state share one store: a client that puts a value that is no number
  under the key of the persisted term makes the recovery of every node that applies the command
  throw, so that none of them can start again.
\<close>

theorem client_put_breaks_recovery:
  assumes "raft_store env content" and "wire_format (ser_rpc env) (parse_rpc env)"
    and "pq_key req = termKey" and "stoull (pq_value req) = Inl e"
  shows "recoverRaftState env (onApply env i (op_command env (KvPut req)) d) n = Inl e"
  using onApply_op [OF assms(1,2), of i "KvPut req" d] assms(3,4)
  by (simp add: recoverRaftState_def raft_store.recover_number_content [OF assms(1)])

theorem client_put_breaks_recovery_witness:
  "recoverRaftState ref_env (onApply ref_env 1 (op_command ref_env
     (KvPut \<lparr>pq_key = termKey, pq_value = ''x'', pq_call_id = 1\<rparr>)) []) (new_node 1 [2] 0 150) = Inl Invalid_argument"
  by (rule client_put_breaks_recovery [OF ref_store.raft_store_axioms ref_env_wires(2)]) (simp, code_simp)

subsection \<open>A node on its own\<close>

text \<open>
  Without Raft the node is a plain key-value store: a put or delete is acknowledged with OK, a
  get that follows returns the value just written, or that the key is not found, and other keys are
  not affected.
\<close>

theorem single_node_reads_writes:
  assumes "raft_store env content"
  shows "pr_error_code (put_response_of (fst (handlePut env req (Single d)))) = OK
    \<and> gr_error_code (get_response_of (handleGet env q (snd (handlePut env req (Single d))))) =
        (if gq_key q \<in> insert (pq_key req) (dom (content d)) then OK else KEY_NOT_FOUND)
    \<and> (gq_key q = pq_key req \<longrightarrow>
        gr_value (get_response_of (handleGet env q (snd (handlePut env req (Single d))))) = pq_value req)
    \<and> dr_error_code (delete_response_of (fst (handleDelete env del (Single d)))) = OK
    \<and> gr_error_code (get_response_of (handleGet env q (snd (handleDelete env del (Single d))))) =
        (if gq_key q \<in> dom (content d) - {dq_key del} then OK else KEY_NOT_FOUND)"
proof -
  note laws = rocksdb_available.put_available [OF raft_store.store [OF assms]]
    rocksdb_available.delete_available [OF raft_store.store [OF assms]]
  have found: "fst (engine_get (env_db env) k d') \<longleftrightarrow> k \<in> dom (content d')" for k d'
    using raft_store.get_content [OF assms, of k d'] by (cases "engine_get (env_db env) k d'") force
  have val: "snd (engine_get (env_db env) k d') = v" if "content d' k = Some v" for k d' v
    using that raft_store.get_content [OF assms, of k d' v] by simp
  have put: "fst (engine_put (env_db env) k v d)" "content (snd (engine_put (env_db env) k v d)) = (content d)(k \<mapsto> v)" for k v
    using laws(1) [of k v d] raft_store.put_content [OF assms, of k v d] by (simp_all add: engine_put_def case_prod_unfold Let_def)
  have del: "fst (engine_del (env_db env) k d)" "content (snd (engine_del (env_db env) k d)) = (content d)(k := None)" for k
    using laws(2) [of k d] raft_store.del_content [OF assms, of k d] by (simp_all add: engine_del_def case_prod_unfold Let_def)
  show ?thesis
    by (simp add: handlePut_def handleGet_def handleDelete_def Let_def case_prod_unfold put del found val)
qed

theorem single_node_reads_writes_witness:
  "gr_value (get_response_of (handleGet ref_env \<lparr>gq_key = ''k'', gq_allow_stale = False, gq_call_id = 2\<rparr>
     (snd (handlePut ref_env \<lparr>pq_key = ''k'', pq_value = ''v'', pq_call_id = 1\<rparr> (Single []))))) = ''v''"
  using single_node_reads_writes [OF ref_store.raft_store_axioms,
      of "\<lparr>pq_key = ''k'', pq_value = ''v'', pq_call_id = 1\<rparr>" "[]"
        "\<lparr>gq_key = ''k'', gq_allow_stale = False, gq_call_id = 2\<rparr>"] by simp

end
