(* ===== verification/Kv_Client.thy ===== *)
theory Kv_Client
  imports Kv_Props Sharding
begin

text \<open>
  The client library (\<open>client_sdk/kv_client.cpp\<close>). Sockets are the operating system's: the record
  \<open>tcp_ops\<close> says, for the state of the world, whether a socket can be made, an address parsed, a
  connection opened and a piece of data sent in full, and what a server sends back for the bytes it
  received. Every request uses a connection of its own.
\<close>

record 'w tcp_ops =
  tcp_socket :: "'w \<Rightarrow> bool"
  tcp_pton :: "string \<Rightarrow> bool"
  tcp_connect :: "string \<Rightarrow> uint16 \<Rightarrow> 'w \<Rightarrow> bool"
  tcp_send :: "string \<Rightarrow> uint16 \<Rightarrow> string \<Rightarrow> 'w \<Rightarrow> bool"
  tcp_exchange :: "string \<Rightarrow> uint16 \<Rightarrow> string \<Rightarrow> 'w \<Rightarrow> string \<times> 'w"

text \<open>The serialisation and the network, together.\<close>

record 'w client_env =
  cl_tcp :: "'w tcp_ops"
  cl_ser :: "rpc_message \<Rightarrow> string"
  cl_parse :: "string \<Rightarrow> rpc_message option"
  cl_parse_map :: "string \<Rightarrow> get_shard_map_response option"

text \<open>
  The members of \<open>KvClient\<close>: \<open>router_\<close> is null, points to the built-in \<open>defaultRouter_\<close>, or to a router
  given from outside; \<open>kc_pd\<close> is the PD address of the open socket \<open>pdSock_\<close>, if there is one.
\<close>

datatype router_ref = NoRouter | DefaultRouter | OtherRouter router

record kv_client =
  kc_pd :: "(string \<times> uint16) option"
  kc_default :: router
  kc_router :: router_ref
  kc_usePd :: bool

definition KvClient :: kv_client where
  "KvClient = \<lparr>kc_pd = None, kc_default = Router, kc_router = NoRouter, kc_usePd = False\<rparr>"

definition current_router :: "kv_client \<Rightarrow> router option" where
  "current_router c = (case kc_router c of NoRouter \<Rightarrow> None | DefaultRouter \<Rightarrow> Some (kc_default c)
     | OtherRouter r \<Rightarrow> Some r)"

definition update_router :: "(router \<Rightarrow> router) \<Rightarrow> kv_client \<Rightarrow> kv_client" where
  "update_router f c = (case kc_router c of NoRouter \<Rightarrow> c | DefaultRouter \<Rightarrow> c\<lparr>kc_default := f (kc_default c)\<rparr>
     | OtherRouter r \<Rightarrow> c\<lparr>kc_router := OtherRouter (f r)\<rparr>)"

definition join_addr :: "string \<Rightarrow> uint16 \<Rightarrow> string" where
  "join_addr ip port = ip @ '':'' @ dec_string (unat port)"

definition client_connect :: "string \<Rightarrow> uint16 \<Rightarrow> kv_client \<Rightarrow> bool \<times> kv_client" where
  "client_connect ip port c =
     (True, c\<lparr>kc_default := setDirectNode (join_addr ip port) (kc_default c), kc_router := DefaultRouter\<rparr>)"

definition client_close :: "kv_client \<Rightarrow> kv_client" where
  "client_close c = c\<lparr>kc_pd := None\<rparr>"

definition setRouter :: "router option \<Rightarrow> kv_client \<Rightarrow> kv_client" where
  "setRouter r c = c\<lparr>kc_router := (case r of None \<Rightarrow> NoRouter | Some x \<Rightarrow> OtherRouter x)\<rparr>"

text \<open>
  What a client reads from a connection that delivers \<open>bs\<close>: four bytes of length, a type byte and the
  payload, each with \<open>MSG_WAITALL\<close>.
\<close>

definition recv_frame :: "string \<Rightarrow> string option" where
  "recv_frame bs =
     (if length bs < 5 then None
      else let rlen = unat (ntohl_bytes (take 4 bs)) in
           if length (drop 5 bs) < rlen then None else Some (take rlen (drop 5 bs)))"

text \<open>\<open>sendRaw\<close>: \<open>None\<close> is the result false.\<close>

definition client_sendRaw ::
  "'w tcp_ops \<Rightarrow> string \<Rightarrow> uint16 \<Rightarrow> string \<Rightarrow> 'w \<Rightarrow> string option \<times> 'w" where
  "client_sendRaw tcp ip port data w =
     (if \<not> tcp_socket tcp w then (None, w)
      else if \<not> tcp_pton tcp ip then (None, w)
      else if \<not> tcp_connect tcp ip port w then (None, w)
      else let len = htonl_bytes (word_of_nat (length data)); ty = [CLIENT_MSG];
               ok = (tcp_send tcp ip port len w \<and> tcp_send tcp ip port ty w \<and> tcp_send tcp ip port data w)
           in if ok then let (bs, w) = tcp_exchange tcp ip port (len @ ty @ data) w in (recv_frame bs, w)
              else (None, w))"

definition fetchShardMap :: "'w client_env \<Rightarrow> kv_client \<Rightarrow> 'w \<Rightarrow> bool \<times> kv_client \<times> 'w" where
  "fetchShardMap env c w =
     (case kc_pd c of
        None \<Rightarrow> (False, c, w)
      | Some (ip, port) \<Rightarrow>
          let tcp = cl_tcp env; data = []; len = htonl_bytes (word_of_nat (length data)); ty = [CLIENT_MSG] in
          if \<not> (tcp_send tcp ip port len w \<and> tcp_send tcp ip port ty w \<and> tcp_send tcp ip port data w)
          then (False, c, w)
          else let (bs, w) = tcp_exchange tcp ip port (len @ ty @ data) w in
          case recv_frame bs of
            None \<Rightarrow> (False, c, w)
          | Some respData \<Rightarrow>
              (case cl_parse_map env respData of
                 None \<Rightarrow> (False, c, w)
               | Some resp \<Rightarrow>
                   (True, update_router (rt_loadShardMap
                      (field_or default_shard_map (gsm_shard_map resp))) c, w)))"

definition connectToPd :: "'w client_env \<Rightarrow> string \<Rightarrow> uint16 \<Rightarrow> kv_client \<Rightarrow> 'w \<Rightarrow> bool \<times> kv_client \<times> 'w" where
  "connectToPd env pdIp pdPort c w =
     (let tcp = cl_tcp env in
      if \<not> tcp_socket tcp w then (False, c, w)
      else let c = c\<lparr>kc_pd := Some (pdIp, pdPort)\<rparr> in
      if \<not> tcp_pton tcp pdIp then (False, c, w)
      else if \<not> tcp_connect tcp pdIp pdPort w then (False, c, w)
      else let c = c\<lparr>kc_default := setPdAddr (join_addr pdIp pdPort) (kc_default c),
                      kc_router := DefaultRouter, kc_usePd := True\<rparr>
           in fetchShardMap env c w)"

text \<open>
  The address a response redirects to: only responses to put and get are examined, and only when the
  address is not empty.
\<close>

definition redirect_addr :: "rpc_message \<Rightarrow> string option" where
  "redirect_addr resp =
     (if rm_type resp = PUT_RESPONSE \<and> pr_error_code (put_response_of resp) = NOT_LEADER
         \<and> pr_correct_leader_addr (put_response_of resp) \<noteq> []
      then Some (pr_correct_leader_addr (put_response_of resp))
      else if rm_type resp = GET_RESPONSE \<and> gr_error_code (get_response_of resp) = NOT_LEADER
         \<and> gr_correct_leader_addr (get_response_of resp) \<noteq> []
      then Some (gr_correct_leader_addr (get_response_of resp))
      else None)"

text \<open>
  \<open>sendToAddr\<close>. Every round of its loop returns, so the loop is a test and the repetition is in the
  recursive call. The result is the response, if there is one, the client, whose router remembers a
  redirection, and the world; \<open>Inl\<close> is an exception of \<open>std::stoi\<close>.
\<close>

fun sendToAddr ::
  "'w client_env \<Rightarrow> string \<Rightarrow> rpc_message \<Rightarrow> nat \<Rightarrow> kv_client \<Rightarrow> 'w
     \<Rightarrow> std_exn + rpc_message option \<times> kv_client \<times> 'w" where
  "sendToAddr env addr req 0 c w = Inr (None, c, w)"
| "sendToAddr env addr req (Suc maxRetries) c w =
     (case str_find (CHR '':'') addr of
        None \<Rightarrow> Inr (None, c, w)
      | Some colon \<Rightarrow>
          let ip = take colon addr in
          case stoi (drop (Suc colon) addr) of
            Inl e \<Rightarrow> Inl e
          | Inr p \<Rightarrow>
              let (r, w) = client_sendRaw (cl_tcp env) ip (to_uint16 p) (cl_ser env req) w in
              case r of
                None \<Rightarrow> Inr (None, c, w)
              | Some respData \<Rightarrow>
                  (case cl_parse env respData of
                     None \<Rightarrow> Inr (None, c, w)
                   | Some resp \<Rightarrow>
                       (case redirect_addr resp of
                          None \<Rightarrow> Inr (Some resp, c, w)
                        | Some newAddr \<Rightarrow>
                            sendToAddr env newAddr req maxRetries
                              (update_router (setDirectNode newAddr) c) w)))"

text \<open>What the four operations share: the router, the address, the call.\<close>

definition client_call ::
  "'w client_env \<Rightarrow> string \<Rightarrow> rpc_message \<Rightarrow> kv_client \<Rightarrow> 'w
     \<Rightarrow> std_exn + rpc_message option \<times> kv_client \<times> 'w" where
  "client_call env key req c w =
     (case current_router c of
        None \<Rightarrow> Inr (None, c, w)
      | Some r \<Rightarrow>
          let addr = getAddrForKey key r
          in if addr = [] then Inr (None, c, w) else sendToAddr env addr req 3 c w)"

definition client_put ::
  "'w client_env \<Rightarrow> string \<Rightarrow> string \<Rightarrow> kv_client \<Rightarrow> 'w \<Rightarrow> std_exn + bool \<times> kv_client \<times> 'w" where
  "client_put env key val c w =
     (let req = default_rpc_message\<lparr>rm_type := PUT_REQUEST, rm_put_request := Some
            (default_put_request\<lparr>pq_key := key, pq_value := val, pq_call_id := 1\<rparr>)\<rparr>
      in case client_call env key req c w of
           Inl e \<Rightarrow> Inl e
         | Inr (None, c, w) \<Rightarrow> Inr (False, c, w)
         | Inr (Some resp, c, w) \<Rightarrow> Inr (pr_error_code (put_response_of resp) = OK, c, w))"

definition client_get ::
  "'w client_env \<Rightarrow> string \<Rightarrow> kv_client \<Rightarrow> 'w \<Rightarrow> std_exn + string option \<times> kv_client \<times> 'w" where
  "client_get env key c w =
     (let req = default_rpc_message\<lparr>rm_type := GET_REQUEST, rm_get_request := Some
            (default_get_request\<lparr>gq_key := key, gq_call_id := 1\<rparr>)\<rparr>
      in case client_call env key req c w of
           Inl e \<Rightarrow> Inl e
         | Inr (None, c, w) \<Rightarrow> Inr (None, c, w)
         | Inr (Some resp, c, w) \<Rightarrow>
             Inr (if gr_error_code (get_response_of resp) = OK then Some (gr_value (get_response_of resp))
                  else None, c, w))"

definition client_del ::
  "'w client_env \<Rightarrow> string \<Rightarrow> kv_client \<Rightarrow> 'w \<Rightarrow> std_exn + bool \<times> kv_client \<times> 'w" where
  "client_del env key c w =
     (let req = default_rpc_message\<lparr>rm_type := DELETE_REQUEST, rm_delete_request := Some
            (default_delete_request\<lparr>dq_key := key, dq_call_id := 1\<rparr>)\<rparr>
      in case client_call env key req c w of
           Inl e \<Rightarrow> Inl e
         | Inr (None, c, w) \<Rightarrow> Inr (False, c, w)
         | Inr (Some resp, c, w) \<Rightarrow> Inr (dr_error_code (delete_response_of resp) = OK, c, w))"

definition client_scan ::
  "'w client_env \<Rightarrow> string \<Rightarrow> string \<Rightarrow> uint32 \<Rightarrow> kv_client \<Rightarrow> 'w
     \<Rightarrow> std_exn + (string \<times> string) list \<times> kv_client \<times> 'w" where
  "client_scan env start_key end_key limit c w =
     (let req = default_rpc_message\<lparr>rm_type := SCAN_REQUEST, rm_scan_request := Some
            (default_scan_request\<lparr>sq_start_key := start_key, sq_end_key := end_key, sq_limit := limit,
               sq_call_id := 1\<rparr>)\<rparr>
      in case client_call env start_key req c w of
           Inl e \<Rightarrow> Inl e
         | Inr (None, c, w) \<Rightarrow> Inr ([], c, w)
         | Inr (Some resp, c, w) \<Rightarrow> Inr (sr_kvs (scan_response_of resp), c, w))"

end
