(* ===== verification/Kv_Client_Props.thy ===== *)
theory Kv_Client_Props
  imports Kv_Client
begin

text \<open>
  The client and the servers together: a world of data nodes at addresses, each of which answers the
  bytes of a connection with its own receive loop, and what the calls of the client do in it.
\<close>

type_synonym 'db world = "string \<times> uint16 \<rightharpoonup> 'db kv_node"

definition serve ::
  "('db, 'b) raft_env \<Rightarrow> (nat \<Rightarrow> int \<times> int \<times> int) \<Rightarrow> string \<Rightarrow> 'db kv_node \<Rightarrow> string \<times> 'db kv_node" where
  "serve env clk bs st =
     (case server_onMessage env clk (buf_append (env_buf env) bs (buf_new (env_buf env))) st of
        None \<Rightarrow> ([], st)
      | Some (buf, (k, out, st'), aborted) \<Rightarrow> (concat out, st'))"

definition world_tcp ::
  "('db, 'b) raft_env \<Rightarrow> (nat \<Rightarrow> int \<times> int \<times> int) \<Rightarrow> 'db world tcp_ops" where
  "world_tcp env clk = \<lparr>tcp_socket = (\<lambda>w. True), tcp_pton = (\<lambda>ip. True),
     tcp_connect = (\<lambda>ip port w. w (ip, port) \<noteq> None), tcp_send = (\<lambda>ip port s w. True),
     tcp_exchange = (\<lambda>ip port bs w. case w (ip, port) of
        None \<Rightarrow> ([], w)
      | Some st \<Rightarrow> let (out, st') = serve env clk bs st in (out, w((ip, port) \<mapsto> st')))\<rparr>"

definition world_env :: "('db, 'b) raft_env \<Rightarrow> (nat \<Rightarrow> int \<times> int \<times> int) \<Rightarrow> 'db world client_env" where
  "world_env env clk = \<lparr>cl_tcp = world_tcp env clk, cl_ser = ser_rpc env, cl_parse = parse_rpc env,
     cl_parse_map = (\<lambda>s. None)\<rparr>"

lemma world_env_fields [simp]:
  "cl_tcp (world_env env clk) = world_tcp env clk" "cl_ser (world_env env clk) = ser_rpc env"
  "cl_parse (world_env env clk) = parse_rpc env"
  by (simp_all add: world_env_def)

text \<open>Everything the client and the servers assume of the code they call.\<close>

locale kv_system =
  fixes env :: "('db, 'b) raft_env" and content :: "'db \<Rightarrow> (string \<rightharpoonup> string)" and bytes :: "'b \<Rightarrow> string"
  assumes buffer: "net_buffer (env_buf env) bytes"
    and wire: "wire_format (ser_rpc env) (parse_rpc env)"
    and raft_db: "raft_store env content"
begin

definition fits :: "rpc_message \<Rightarrow> bool" where
  "fits m \<longleftrightarrow> length (ser_rpc env m) < 2 ^ 32 - 5"

lemma send_encode: "send_message (env_buf env) (ser_rpc env) m = encode_frame (CLIENT_MSG, ser_rpc env m)"
  using net_buffer.frame_bytes_encode [OF buffer] by (simp add: send_message_def sendRaw_def)

lemma serve_request:
  assumes "fits m"
  shows "serve env clk (encode_frame (CLIENT_MSG, ser_rpc env m)) st =
    (concat (map (send_message (env_buf env) (ser_rpc env)) (fst (dispatchClientRpc env m st))),
     snd (dispatchClientRpc env m st))"
proof -
  let ?buf = "buf_append (env_buf env) (encode_frame (CLIENT_MSG, ser_rpc env m)) (buf_new (env_buf env))"
  have b: "bytes ?buf = concat (map encode_frame [(CLIENT_MSG, ser_rpc env m)]) @ []"
    by (simp add: net_buffer.append_bytes [OF buffer] net_buffer.new_bytes [OF buffer])
  from frame_loop_stream [OF buffer b, of "server_frame env clk" "(0, [], st)"] assms
  obtain b' where "server_onMessage env clk ?buf st = Some (b',
      (1, map (send_message (env_buf env) (ser_rpc env)) (fst (dispatchClientRpc env m st)),
       snd (dispatchClientRpc env m st)), False)"
    unfolding server_onMessage_def
    by (auto simp: headers_fit_short split_frame_def server_frame_client [OF wire] fits_def)
  then show ?thesis by (simp add: serve_def)
qed

lemma recv_encode: "length data < 2 ^ 32 \<Longrightarrow> recv_frame (encode_frame (ty, data)) = Some data"
  by (simp add: recv_frame_def encode_frame_def Let_def unat_of_nat)

lemma exchange_request:
  assumes "w (ip, port) = Some st" and "fits m" and "fits r" and "dispatchClientRpc env m st = ([r], st')"
  shows "client_sendRaw (world_tcp env clk) ip port (ser_rpc env m) w =
    (Some (ser_rpc env r), w((ip, port) \<mapsto> st'))"
proof -
  have "htonl_bytes (word_of_nat (length (ser_rpc env m))) @ [CLIENT_MSG] @ ser_rpc env m
      = encode_frame (CLIENT_MSG, ser_rpc env m)" by (simp add: encode_frame_def)
  then show ?thesis
    using assms serve_request [OF assms(2), of clk st] recv_encode [of "ser_rpc env r" CLIENT_MSG]
    by (simp add: client_sendRaw_def world_tcp_def Let_def send_encode fits_def)
qed

lemma addr_parts:
  "CHR '':'' \<notin> set ip \<Longrightarrow> str_find (CHR '':'') (join_addr ip port) = Some (length ip)"
  "take (length ip) (join_addr ip port) = ip"
  "stoi (drop (Suc (length ip)) (join_addr ip port)) = Inr (int (unat port))"
  "to_uint16 (uint port) = port"
proof -
  show "CHR '':'' \<notin> set ip \<Longrightarrow> str_find (CHR '':'') (join_addr ip port) = Some (length ip)"
    using str_find_append [of "CHR '':''" ip] by (simp add: join_addr_def)
  show "take (length ip) (join_addr ip port) = ip" by (simp add: join_addr_def)
  have "unat port < 2 ^ 31" using unsigned_less [of port, where ?'a = nat] by simp
  then show "stoi (drop (Suc (length ip)) (join_addr ip port)) = Inr (int (unat port))"
    using stoi_dec_string by (simp add: join_addr_def)
  show "to_uint16 (uint port) = port" by (simp add: to_uint16_def)
qed

lemma send_step:
  assumes "CHR '':'' \<notin> set ip" and "w (ip, port) = Some st" and "fits m" and "fits r"
    and "dispatchClientRpc env m st = ([r], st')"
  shows "sendToAddr (world_env env clk) (join_addr ip port) m (Suc k) c w =
    (case redirect_addr r of
       None \<Rightarrow> Inr (Some r, c, w((ip, port) \<mapsto> st'))
     | Some a \<Rightarrow> sendToAddr (world_env env clk) a m k (update_router (setDirectNode a) c) (w((ip, port) \<mapsto> st')))"
  using exchange_request [of w ip port st m r st' clk] assms(2-5) wire_format.parse_ser [OF wire, of r]
  by (simp add: addr_parts(1) [OF assms(1)] addr_parts(2-4) Let_def del: fun_upd_apply)

lemma call_step:
  assumes "current_router c = Some rt" and "getAddrForKey key rt = join_addr ip port"
    and "CHR '':'' \<notin> set ip" and "w (ip, port) = Some st" and "fits m" and "fits r"
    and "dispatchClientRpc env m st = ([r], st')" and "redirect_addr r = None"
  shows "client_call (world_env env clk) key m c w = Inr (Some r, c, w((ip, port) \<mapsto> st'))"
proof -
  have "join_addr ip port \<noteq> []" by (simp add: join_addr_def)
  moreover have "(3::nat) = Suc 2" by simp
  ultimately show ?thesis
    using send_step [of ip w port st m r st' clk 2 c] assms
    by (simp add: client_call_def Let_def del: sendToAddr.simps)
qed

end

definition put_req :: "string \<Rightarrow> string \<Rightarrow> rpc_message" where
  "put_req key val = put_command (default_put_request\<lparr>pq_key := key, pq_value := val, pq_call_id := 1\<rparr>)"

definition get_req :: "string \<Rightarrow> rpc_message" where
  "get_req key = default_rpc_message\<lparr>rm_type := GET_REQUEST, rm_get_request := Some
     (default_get_request\<lparr>gq_key := key, gq_call_id := 1\<rparr>)\<rparr>"

definition del_req :: "string \<Rightarrow> rpc_message" where
  "del_req key = delete_command (default_delete_request\<lparr>dq_key := key, dq_call_id := 1\<rparr>)"

definition direct_client :: "string \<Rightarrow> uint16 \<Rightarrow> kv_client" where
  "direct_client ip port = snd (client_connect ip port KvClient)"

lemma direct_client_addr:
  "current_router (direct_client ip port) = Some (setDirectNode (join_addr ip port) Router)"
  "getAddrForKey key (setDirectNode a r) = a"
  by (simp_all add: direct_client_def client_connect_def KvClient_def current_router_def
      getAddrForKey_def setDirectNode_def)

text \<open>The replies of a node on its own to a put and to the get that follows.\<close>

definition ok_put_reply :: rpc_message where
  "ok_put_reply = put_reply (default_put_response\<lparr>pr_call_id := 1, pr_error_code := OK\<rparr>)"

definition ok_get_reply :: "string \<Rightarrow> string \<Rightarrow> rpc_message" where
  "ok_get_reply key val = get_reply (default_get_response\<lparr>gr_call_id := 1, gr_key := key,
     gr_error_code := OK, gr_value := val\<rparr>)"

lemma single_put_get:
  assumes "raft_store env content"
  shows "dispatchClientRpc env (put_req key val) (Single d) =
      ([ok_put_reply], Single (snd (engine_put (env_db env) key val d)))"
    and "content d key = Some val \<Longrightarrow>
      dispatchClientRpc env (get_req key) (Single d) = ([ok_get_reply key val], Single d)"
proof -
  have "fst (engine_put (env_db env) key val d)"
    using rocksdb_available.put_available [OF raft_store.store [OF assms], of key val d]
    by (simp add: engine_put_def case_prod_unfold Let_def)
  then show "dispatchClientRpc env (put_req key val) (Single d) =
      ([ok_put_reply], Single (snd (engine_put (env_db env) key val d)))"
    by (simp add: dispatchClientRpc_def put_req_def put_command_def handlePut_def Let_def case_prod_unfold
        ok_put_reply_def default_put_response_def default_put_request_def)
  assume "content d key = Some val"
  then have "engine_get (env_db env) key d = (True, val)" using raft_store.get_content [OF assms] by simp
  then show "dispatchClientRpc env (get_req key) (Single d) = ([ok_get_reply key val], Single d)"
    by (simp add: dispatchClientRpc_def get_req_def handleGet_def Let_def
        ok_get_reply_def default_get_response_def default_get_request_def)
qed

lemma ok_replies_final [simp]:
  "redirect_addr ok_put_reply = None" "redirect_addr (ok_get_reply key val) = None"
  by (simp_all add: redirect_addr_def ok_put_reply_def ok_get_reply_def)

text \<open>
  C19. End to end, through the client library, the frames on the wire, the receive loop of the server
  and the store: a client connected to a node on its own that puts a value and then gets it reads
  back what it wrote, whatever the key and the value are, as long as the messages fit a frame.
\<close>

theorem client_reads_back:
  assumes sys: "kv_system env content bytes"
    and node: "w (ip, port) = Some (Single d)" and ip: "CHR '':'' \<notin> set ip"
    and fits: "\<forall>m \<in> {put_req key val, ok_put_reply, get_req key, ok_get_reply key val}.
      length (ser_rpc env m) < 2 ^ 32 - 5"
  shows "\<exists>w'. client_put (world_env env clk) key val (direct_client ip port) w
        = Inr (True, direct_client ip port, w')
      \<and> client_get (world_env env clk) key (direct_client ip port) w'
        = Inr (Some val, direct_client ip port, w')"
proof -
  let ?c = "direct_client ip port" and ?d = "snd (engine_put (env_db env) key val d)"
  let ?w = "w((ip, port) \<mapsto> Single ?d)"
  note store = kv_system.raft_db [OF sys]
  note call = kv_system.call_step [OF sys direct_client_addr(1) direct_client_addr(2) ip]
  have fit: "kv_system.fits env m" if "m \<in> {put_req key val, ok_put_reply, get_req key, ok_get_reply key val}" for m
    using that fits by (auto simp: kv_system.fits_def [OF sys])
  have "client_call (world_env env clk) key (put_req key val) ?c w = Inr (Some ok_put_reply, ?c, ?w)"
    by (rule call [where st = "Single d"]) (use node fit single_put_get(1) [OF store] in simp_all)
  then have p: "client_put (world_env env clk) key val ?c w = Inr (True, ?c, ?w)"
    by (simp add: client_put_def Let_def put_req_def put_command_def ok_put_reply_def del: fun_upd_apply)
  have "content ?d key = Some val" by (simp add: raft_store.put_content [OF store])
  from single_put_get(2) [OF store this]
  have "client_call (world_env env clk) key (get_req key) ?c ?w = Inr (Some (ok_get_reply key val), ?c, ?w((ip, port) \<mapsto> Single ?d))"
    by (intro call [where st = "Single ?d"]) (use fit in simp_all)
  then have "client_get (world_env env clk) key ?c ?w = Inr (Some val, ?c, ?w)"
    by (simp add: client_get_def Let_def get_req_def ok_get_reply_def)
  with p show ?thesis by blast
qed

interpretation ref_system: kv_system ref_env map_of "\<lambda>b. b"
  by (rule kv_system.intro) (rule ref_env_wires ref_store.raft_store_axioms)+

theorem client_reads_back_witness:
  "\<exists>w'. client_put (world_env ref_env (\<lambda>_. (0, 0, 150))) ''k'' ''v'' (direct_client ''10.0.0.1'' 9100)
        [(''10.0.0.1'', 9100) \<mapsto> Single []] = Inr (True, direct_client ''10.0.0.1'' 9100, w')
      \<and> client_get (world_env ref_env (\<lambda>_. (0, 0, 150))) ''k'' (direct_client ''10.0.0.1'' 9100) w'
        = Inr (Some ''v'', direct_client ''10.0.0.1'' 9100, w')"
proof -
  have "\<forall>m \<in> {put_req ''k'' ''v'', ok_put_reply, get_req ''k'', ok_get_reply ''k'' ''v''}.
      length (ser_rpc ref_env m) < 100" by code_simp
  then have f: "\<forall>m \<in> {put_req ''k'' ''v'', ok_put_reply, get_req ''k'', ok_get_reply ''k'' ''v''}.
      length (ser_rpc ref_env m) < 2 ^ 32 - 5" by simp
  show ?thesis
    by (rule client_reads_back [OF ref_system.kv_system_axioms _ _ f]) simp_all
qed

text \<open>The replies of a member that knows the leader, and of a node that need not redirect.\<close>

definition moved_put_reply :: "string \<Rightarrow> rpc_message" where
  "moved_put_reply a = put_reply (default_put_response\<lparr>pr_call_id := 1, pr_error_code := NOT_LEADER,
     pr_correct_leader_addr := a\<rparr>)"

definition moved_delete_reply :: "string \<Rightarrow> rpc_message" where
  "moved_delete_reply a = delete_reply (default_delete_response\<lparr>dr_call_id := 1, dr_error_code := NOT_LEADER,
     dr_correct_leader_addr := a\<rparr>)"

lemma follower_replies:
  assumes "\<not> rs_isLeader rs" and "rs_getLeaderAddr rs = Some a"
  shows "dispatchClientRpc env (put_req key val) (Replicated rs) = ([moved_put_reply a], Replicated rs)"
    and "dispatchClientRpc env (del_req key) (Replicated rs) = ([moved_delete_reply a], Replicated rs)"
  using assms
  by (simp_all add: dispatchClientRpc_def put_req_def put_command_def handlePut_def del_req_def
      delete_command_def handleDelete_def Let_def moved_put_reply_def moved_delete_reply_def
      default_put_request_def default_delete_request_def default_put_response_def default_delete_response_def)

lemma moved_replies [simp]:
  "a \<noteq> [] \<Longrightarrow> redirect_addr (moved_put_reply a) = Some a"
  "redirect_addr (moved_delete_reply a) = None"
  by (simp_all add: redirect_addr_def moved_put_reply_def moved_delete_reply_def put_reply_def delete_reply_def)

lemma final_put_reply:
  assumes "redirect st = None" and "dispatchClientRpc env (put_req key val) st = ([r], st')"
  shows "redirect_addr r = None"
  using assms
  by (cases st) (auto simp: dispatchClientRpc_def put_req_def put_command_def handlePut_def Let_def
      redirect_addr_def put_reply_def default_put_response_def split: if_splits prod.splits option.splits)

text \<open>
  C20. A client that talks to a member which is not the leader. A put is sent on to the leader that the
  member names: the client reports what the leader answered, remembers the leader's address for the
  calls that follow, and the member is unchanged. A delete is not sent on, although the member answers
  it with the same error and the same address: the client reports failure and no node has changed.
\<close>

theorem client_follows_redirect:
  assumes sys: "kv_system env content bytes"
    and member: "w (ip, port) = Some (Replicated rs)" "\<not> rs_isLeader rs"
      "rs_getLeaderAddr rs = Some (join_addr ip' port')"
    and leader: "w (ip', port') = Some st" "redirect st = None"
      "dispatchClientRpc env (put_req key val) st = ([r], st')"
    and ips: "CHR '':'' \<notin> set ip" "CHR '':'' \<notin> set ip'"
    and fits: "\<forall>m \<in> {put_req key val, del_req key, moved_put_reply (join_addr ip' port'),
        moved_delete_reply (join_addr ip' port'), r}. length (ser_rpc env m) < 2 ^ 32 - 5"
  shows "client_put (world_env env clk) key val (direct_client ip port) w
      = Inr (pr_error_code (put_response_of r) = OK,
          update_router (setDirectNode (join_addr ip' port')) (direct_client ip port), w((ip', port') \<mapsto> st'))
    \<and> client_del (world_env env clk) key (direct_client ip port) w = Inr (False, direct_client ip port, w)"
proof -
  let ?c = "direct_client ip port" and ?a = "join_addr ip' port'"
  have fit: "kv_system.fits env m" if "m \<in> {put_req key val, del_req key, moved_put_reply ?a, moved_delete_reply ?a, r}" for m
    using that fits by (auto simp: kv_system.fits_def [OF sys])
  note step = kv_system.send_step [OF sys, where w = w]
  note reply = follower_replies [OF member(2,3)]
  have nonempty: "join_addr i p \<noteq> []" for i p by (simp add: join_addr_def)
  have same: "w((ip, port) \<mapsto> Replicated rs) = w" using member(1) by (simp add: fun_upd_idem)
  have first: "sendToAddr (world_env env clk) (join_addr ip port) (put_req key val) (Suc 2) ?c w
      = sendToAddr (world_env env clk) ?a (put_req key val) 2 (update_router (setDirectNode ?a) ?c) w"
    using step [where ip = ip and port = port and m = "put_req key val" and k = 2 and clk = clk and c = ?c, OF ips(1) member(1) fit fit reply(1)]
    by (simp add: same nonempty del: sendToAddr.simps fun_upd_apply)
  have "sendToAddr (world_env env clk) ?a (put_req key val) (Suc 1) c w = Inr (Some r, c, w((ip', port') \<mapsto> st'))" for c
    using step [where ip = ip' and port = port' and m = "put_req key val" and k = 1 and clk = clk and c = c, OF ips(2) leader(1) fit fit leader(3)] final_put_reply [OF leader(2,3)]
    by (simp del: sendToAddr.simps fun_upd_apply)
  then have "client_call (world_env env clk) key (put_req key val) ?c w
      = Inr (Some r, update_router (setDirectNode ?a) ?c, w((ip', port') \<mapsto> st'))"
    using first by (simp add: client_call_def direct_client_addr nonempty numeral_3_eq_3 numeral_2_eq_2
        del: sendToAddr.simps fun_upd_apply)
  then have "client_put (world_env env clk) key val ?c w
      = Inr (pr_error_code (put_response_of r) = OK, update_router (setDirectNode ?a) ?c, w((ip', port') \<mapsto> st'))"
    by (simp add: client_put_def Let_def put_req_def put_command_def del: fun_upd_apply)
  moreover have "client_call (world_env env clk) key (del_req key) ?c w = Inr (Some (moved_delete_reply ?a), ?c, w)"
    using kv_system.call_step [where w = w and m = "del_req key" and clk = clk, OF sys direct_client_addr(1) direct_client_addr(2) ips(1) member(1) fit fit reply(2)]
    by (simp add: same)
  then have "client_del (world_env env clk) key ?c w = Inr (False, ?c, w)"
    by (simp add: client_del_def Let_def del_req_def delete_command_def moved_delete_reply_def)
  ultimately show ?thesis by blast
qed

text \<open>A cluster of two: the first member follows the second, which leads.\<close>

definition leader_of_two :: "alist_db raft_service" where
  "leader_of_two = (RaftService 2 [(1, ''h1:1''), (2, ''h2:2'')] [] 0 150)
     \<lparr>rs_raft := (new_node 2 [1] 0 150)\<lparr>nodeState := LEADER, currentTerm := 1, leaderId := 2\<rparr>\<rparr>"

lemma leader_put_reply:
  assumes "rs_isLeader rs"
  shows "\<exists>st. dispatchClientRpc env (put_req key val) (Replicated rs) = ([ok_put_reply], st)"
  using propose_db [OF assms, of env "ser_rpc env (put_req key val)"] assms
  by (simp add: dispatchClientRpc_def put_req_def put_command_def handlePut_def Let_def case_prod_unfold
      ok_put_reply_def default_put_response_def default_put_request_def)

theorem client_follows_redirect_witness:
  "\<exists>c w. client_put (world_env ref_env (\<lambda>_. (0, 0, 150))) ''k'' ''v'' (direct_client ''h1'' 1)
       [(''h1'', 1) \<mapsto> Replicated follower_service, (''h2'', 2) \<mapsto> Replicated leader_of_two] = Inr (True, c, w)"
proof -
  have addr: "rs_getLeaderAddr follower_service = Some (join_addr ''h2'' 2)"
    and lead: "rs_isLeader leader_of_two" "\<not> rs_isLeader follower_service" by code_simp+
  from leader_put_reply [OF lead(1)] obtain st where st:
    "dispatchClientRpc ref_env (put_req ''k'' ''v'') (Replicated leader_of_two) = ([ok_put_reply], st)" by blast
  have "\<forall>m \<in> {put_req ''k'' ''v'', del_req ''k'', moved_put_reply (join_addr ''h2'' 2),
      moved_delete_reply (join_addr ''h2'' 2), ok_put_reply}. length (ser_rpc ref_env m) < 100" by code_simp
  then have f: "\<forall>m \<in> {put_req ''k'' ''v'', del_req ''k'', moved_put_reply (join_addr ''h2'' 2),
      moved_delete_reply (join_addr ''h2'' 2), ok_put_reply}. length (ser_rpc ref_env m) < 2 ^ 32 - 5" by simp
  let ?w = "[(''h1'', 1) \<mapsto> Replicated follower_service, (''h2'', 2) \<mapsto> Replicated leader_of_two]"
  have "?w (''h1'', 1) = Some (Replicated follower_service)" "?w (''h2'', 2) = Some (Replicated leader_of_two)"
    by simp_all
  from client_follows_redirect [OF ref_system.kv_system_axioms this(1) lead(2) addr this(2) _ st _ _ f, of "\<lambda>_. (0, 0, 150)"]
  show ?thesis using lead(1) by (simp add: ok_put_reply_def put_reply_def del: fun_upd_apply)
qed

end
