(* ===== verification/Mysql_Db.thy ===== *)
theory Mysql_Db
  imports Prelude
begin

text \<open>
  The wrapper around a MySQL connection that the chat server uses, \<open>chat/src/server/MysqlDB.cpp\<close>, over
  the MySQL C API as a parameter.
\<close>

subsection \<open>What can go wrong\<close>

text \<open>
  Exceptions that leave a function: one of the standard library, a thrown \<open>std::string\<close>, a type error or
  parse error of the JSON library; and the two kinds of undefined behaviour that the code can run into.
\<close>

datatype chat_exn = Std std_exn | Thrown string | Json_error | Null_deref | Out_of_bounds

text \<open>The \<open>std::string\<close> that is made from a character buffer: up to the first NUL.\<close>

definition NUL :: char where "NUL = CHR 0x00"

definition cstr :: "string \<Rightarrow> string" where
  "cstr s = takeWhile (\<lambda>c. c \<noteq> NUL) s"

definition read_buffer :: "string \<Rightarrow> chat_exn + string" where
  "read_buffer b = (if NUL \<in> set b then Inr (cstr b) else Inl Out_of_bounds)"

lemma read_buffer_terminated: "NUL \<notin> set s \<Longrightarrow> read_buffer (s @ NUL # rest) = Inr s"
  by (simp add: read_buffer_def cstr_def takeWhile_append)

text \<open>Conversion of an unsigned 64-bit number to \<open>int\<close>.\<close>

definition to_int32 :: "uint64 \<Rightarrow> int" where
  "to_int32 x = sint (ucast x :: 32 word)"

lemma to_int32_small: "0 \<le> i \<Longrightarrow> i < 2 ^ 31 \<Longrightarrow> to_int32 (word_of_int i) = i"
  by (simp add: to_int32_def ucast_eq sint_uint signed_take_bit_int_eq_self unsigned_of_int take_bit_int_eq_self)

text \<open>The decimal text of an \<open>int\<close>.\<close>

definition int_text :: "int \<Rightarrow> string" where
  "int_text i = (if i < 0 then CHR ''-'' # dec_string (nat (- i)) else dec_string (nat i))"

subsection \<open>Parameters of statements\<close>

text \<open>\<open>float\<close> and \<open>double\<close> are their bit patterns: the code only passes them on.\<close>

datatype sql_type = INT_param | STRING_param | LONG_param | DOUBLE_param | BOOL_param | FLOAT_param

record sqlparam =
  sp_type :: sql_type
  sp_int_val :: int
  sp_string_val :: string
  sp_long_val :: int
  sp_double_val :: uint64
  sp_bool_val :: bool
  sp_float_val :: uint32

definition empty_param :: sqlparam where
  "empty_param = \<lparr>sp_type = INT_param, sp_int_val = 0, sp_string_val = [], sp_long_val = 0,
     sp_double_val = 0, sp_bool_val = False, sp_float_val = 0\<rparr>"

definition makeparam_string :: "string \<Rightarrow> sqlparam" where
  "makeparam_string val = empty_param\<lparr>sp_type := STRING_param, sp_string_val := val\<rparr>"

definition makeparam_cstring :: "string \<Rightarrow> sqlparam" where
  "makeparam_cstring val = empty_param\<lparr>sp_type := STRING_param, sp_string_val := cstr val\<rparr>"

definition makeparam_int :: "int \<Rightarrow> sqlparam" where
  "makeparam_int val = empty_param\<lparr>sp_type := INT_param, sp_int_val := val\<rparr>"

definition makeparam_long :: "int \<Rightarrow> sqlparam" where
  "makeparam_long val = empty_param\<lparr>sp_type := LONG_param, sp_long_val := val\<rparr>"

definition makeparam_float :: "uint32 \<Rightarrow> sqlparam" where
  "makeparam_float val = empty_param\<lparr>sp_type := FLOAT_param, sp_float_val := val\<rparr>"

definition makeparam_bool :: "bool \<Rightarrow> sqlparam" where
  "makeparam_bool val = empty_param\<lparr>sp_type := BOOL_param, sp_bool_val := val\<rparr>"

definition makeparam_double :: "uint64 \<Rightarrow> sqlparam" where
  "makeparam_double val = empty_param\<lparr>sp_type := DOUBLE_param, sp_double_val := val\<rparr>"

text \<open>The arguments of a call; the type of each selects the overload of \<open>makeparam\<close>.\<close>

datatype sql_arg = ArgString string | ArgCString string | ArgInt int | ArgLong int | ArgFloat uint32
  | ArgBool bool | ArgDouble uint64

fun makeparam :: "sql_arg \<Rightarrow> sqlparam" where
  "makeparam (ArgString s) = makeparam_string s"
| "makeparam (ArgCString s) = makeparam_cstring s"
| "makeparam (ArgInt i) = makeparam_int i"
| "makeparam (ArgLong i) = makeparam_long i"
| "makeparam (ArgFloat f) = makeparam_float f"
| "makeparam (ArgBool b) = makeparam_bool b"
| "makeparam (ArgDouble d) = makeparam_double d"

text \<open>What one \<open>MYSQL_BIND\<close> passes to the server.\<close>

datatype my_bind = TYPE_STRING string | TYPE_LONG int | TYPE_BOOL bool | TYPE_FLOAT uint32
  | TYPE_DOUBLE uint64 | TYPE_LONGLONG int

definition bind_param :: "sqlparam \<Rightarrow> my_bind" where
  "bind_param p =
     (case sp_type p of
        STRING_param \<Rightarrow> TYPE_STRING (sp_string_val p)
      | INT_param \<Rightarrow> TYPE_LONG (sp_int_val p)
      | BOOL_param \<Rightarrow> TYPE_BOOL (sp_bool_val p)
      | FLOAT_param \<Rightarrow> TYPE_FLOAT (sp_float_val p)
      | DOUBLE_param \<Rightarrow> TYPE_DOUBLE (sp_double_val p)
      | LONG_param \<Rightarrow> TYPE_LONGLONG (sp_long_val p))"

lemma bind_makeparam [simp]:
  "bind_param (makeparam_string s) = TYPE_STRING s" "bind_param (makeparam_cstring s) = TYPE_STRING (cstr s)"
  "bind_param (makeparam_int i) = TYPE_LONG i" "bind_param (makeparam_long i) = TYPE_LONGLONG i"
  "bind_param (makeparam_bool b) = TYPE_BOOL b" "bind_param (makeparam_float f) = TYPE_FLOAT f"
  "bind_param (makeparam_double d) = TYPE_DOUBLE d"
  by (simp_all add: bind_param_def makeparam_string_def makeparam_cstring_def makeparam_int_def
      makeparam_long_def makeparam_bool_def makeparam_float_def makeparam_double_def)

subsection \<open>The MySQL C API\<close>

text \<open>
  A statement that was executed: the id of an inserted row, the number of columns of its result (none
  when it has no result set), and for each call of \<open>mysql_stmt_fetch\<close> with buffers of the given size its
  result and the buffers it leaves behind.
\<close>

record stmt_result =
  sr_insert_id :: uint64
  sr_metadata :: "nat option"
  sr_fetches :: "(int \<times> string list) list"

record 'w mysql_api =
  my_init :: "'w \<Rightarrow> nat option \<times> 'w"
  my_real_connect :: "nat \<Rightarrow> string \<times> string \<times> string \<times> string \<times> int \<Rightarrow> 'w \<Rightarrow> bool \<times> 'w"
  my_close :: "nat \<Rightarrow> 'w \<Rightarrow> 'w"
  my_stmt_init :: "nat \<Rightarrow> 'w \<Rightarrow> bool"
  my_stmt_prepare :: "nat \<Rightarrow> string \<Rightarrow> 'w \<Rightarrow> bool"
  my_stmt_execute :: "nat \<Rightarrow> nat \<Rightarrow> string \<Rightarrow> my_bind list \<Rightarrow> 'w \<Rightarrow> stmt_result option \<times> 'w"

subsection \<open>The class\<close>

text \<open>The members: the handle, null when \<open>mysql_init\<close> failed, and the time of the last use in nanoseconds.\<close>

record mysql_db =
  db_conn :: "nat option"
  db_last :: int

definition MysqlDB :: "'w mysql_api \<Rightarrow> 'w \<Rightarrow> mysql_db \<times> 'w" where
  "MysqlDB api w = (let (h, w) = my_init api w in (\<lparr>db_conn = h, db_last = 0\<rparr>, w))"

definition connection ::
  "'w mysql_api \<Rightarrow> string \<times> string \<times> string \<times> string \<times> int \<Rightarrow> mysql_db \<Rightarrow> 'w \<Rightarrow> bool \<times> 'w" where
  "connection api target d w =
     (case db_conn d of
        None \<Rightarrow> (False, w)
      | Some h \<Rightarrow> let (ok, w) = my_real_connect api h target w in
                  if \<not> ok then (False, my_close api h w) else (True, w))"

definition destroy_db :: "'w mysql_api \<Rightarrow> mysql_db \<Rightarrow> 'w \<Rightarrow> 'w" where
  "destroy_db api d w = (case db_conn d of None \<Rightarrow> w | Some h \<Rightarrow> my_close api h w)"

text \<open>The size of the buffers that \<open>query_base\<close> allocates for each column.\<close>

definition col_buffer :: nat where "col_buffer = 1024"

text \<open>
  \<open>execute_base\<close>: whether the statement succeeded and the id of the row it inserted, if it did. The
  handle is that of the connection; the null handle makes \<open>mysql_stmt_init\<close> fail.
\<close>

definition execute_base ::
  "'w mysql_api \<Rightarrow> mysql_db \<Rightarrow> string \<Rightarrow> sqlparam list \<Rightarrow> 'w \<Rightarrow> (bool \<times> int option) \<times> 'w" where
  "execute_base api d sql param w =
     (case db_conn d of
        None \<Rightarrow> ((False, None), w)
      | Some h \<Rightarrow>
          if \<not> my_stmt_init api h w then ((False, None), w)
          else if \<not> my_stmt_prepare api h sql w then ((False, None), w)
          else let (ret, w) = my_stmt_execute api h 0 sql (map bind_param param) w in
               case ret of
                 None \<Rightarrow> ((False, None), w)
               | Some r \<Rightarrow> ((True, Some (to_int32 (sr_insert_id r))), w))"

text \<open>The loop over the rows of the result, until a fetch does not return 0.\<close>

fun read_row :: "string list \<Rightarrow> chat_exn + string list" where
  "read_row [] = Inr []"
| "read_row (b # bs) = (case read_buffer b of Inl e \<Rightarrow> Inl e
     | Inr s \<Rightarrow> (case read_row bs of Inl e \<Rightarrow> Inl e | Inr r \<Rightarrow> Inr (s # r)))"

fun fetch_loop :: "(int \<times> string list) list \<Rightarrow> chat_exn + string list list" where
  "fetch_loop [] = Inr []"
| "fetch_loop ((status, bufs) # fs) =
     (if status \<noteq> 0 then Inr []
      else case read_row bufs of Inl e \<Rightarrow> Inl e
        | Inr r \<Rightarrow> (case fetch_loop fs of Inl e \<Rightarrow> Inl e | Inr rs \<Rightarrow> Inr (r # rs)))"

definition query_base ::
  "'w mysql_api \<Rightarrow> mysql_db \<Rightarrow> string \<Rightarrow> sqlparam list \<Rightarrow> 'w \<Rightarrow> (chat_exn + string list list) \<times> 'w" where
  "query_base api d sql param w =
     (case db_conn d of
        None \<Rightarrow> (Inr [], w)
      | Some h \<Rightarrow>
          if \<not> my_stmt_init api h w then (Inr [], w)
          else if \<not> my_stmt_prepare api h sql w then (Inr [], w)
          else let (ret, w) = my_stmt_execute api h col_buffer sql (map bind_param param) w in
               case ret of
                 None \<Rightarrow> (Inr [], w)
               | Some r \<Rightarrow> (case sr_metadata r of
                     None \<Rightarrow> (Inl Null_deref, w)
                   | Some cols \<Rightarrow> (fetch_loop (sr_fetches r), w)))"

definition setlasttime :: "int \<Rightarrow> mysql_db \<Rightarrow> mysql_db" where
  "setlasttime now d = d\<lparr>db_last := now\<rparr>"

text \<open>
  \<open>duration_cast\<close> to seconds truncates toward zero, and the result is converted to \<open>int\<close>; \<open>now\<close> is in
  nanoseconds since the epoch of the clock, at which \<open>last\<close> starts.
\<close>

definition resultfreetime :: "int \<Rightarrow> mysql_db \<Rightarrow> int" where
  "resultfreetime now d = signed_take_bit 31 ((now - db_last d) sdiv 1000000000)"

lemma resultfreetime_seconds:
  assumes "db_last d \<le> now" and "now - db_last d < 2 ^ 31 * 1000000000"
  shows "resultfreetime now d = (now - db_last d) div 1000000000"
proof -
  have "x div 1000000000 < 2147483648" if "x < 2147483648 * 1000000000" for x :: int using that by presburger
  then have "(now - db_last d) div 1000000000 < 2 ^ 31" using assms(2) by simp
  moreover have "0 \<le> (now - db_last d) div 1000000000" using assms(1) by (simp add: pos_imp_zdiv_nonneg_iff)
  ultimately show ?thesis using assms
    by (cases "now = db_last d") (simp_all add: resultfreetime_def signed_divide_int_def signed_take_bit_int_eq_self)
qed

definition db_execute :: "'w mysql_api \<Rightarrow> mysql_db \<Rightarrow> string \<Rightarrow> sql_arg list \<Rightarrow> 'w \<Rightarrow> bool \<times> 'w" where
  "db_execute api d sql args w =
     (let ((ok, i), w) = execute_base api d sql (map makeparam args) w in (ok, w))"

text \<open>\<open>execute_insert\<close> leaves its reference argument as it was when the statement fails.\<close>

definition db_execute_insert ::
  "'w mysql_api \<Rightarrow> mysql_db \<Rightarrow> string \<Rightarrow> int \<Rightarrow> sql_arg list \<Rightarrow> 'w \<Rightarrow> (bool \<times> int) \<times> 'w" where
  "db_execute_insert api d sql i args w =
     (let ((ok, r), w) = execute_base api d sql (map makeparam args) w
      in ((ok, case r of None \<Rightarrow> i | Some j \<Rightarrow> j), w))"

definition db_query ::
  "'w mysql_api \<Rightarrow> mysql_db \<Rightarrow> string \<Rightarrow> sql_arg list \<Rightarrow> 'w \<Rightarrow> (chat_exn + string list list) \<times> 'w" where
  "db_query api d sql args w = query_base api d sql (map makeparam args) w"

subsection \<open>Texts in UTF-8\<close>

text \<open>
  Well-formed UTF-8, as the tables store it and as the JSON library demands it of what it prints:
  sequences of one to four bytes, none longer than needed, no surrogates, nothing beyond \<open>U+10FFFF\<close>.
\<close>

definition continuation :: "nat \<Rightarrow> bool" where
  "continuation b \<longleftrightarrow> 0x80 \<le> b \<and> b < 0xC0"

fun utf8_bytes :: "nat list \<Rightarrow> bool" where
  "utf8_bytes [] = True"
| "utf8_bytes (a # bs) =
     (if a < 0x80 then utf8_bytes bs
      else if a < 0xC2 \<or> 0xF5 \<le> a then False
      else (case bs of [] \<Rightarrow> False | b # cs \<Rightarrow>
        continuation b \<and>
        (if a < 0xE0 then utf8_bytes cs
         else (case cs of [] \<Rightarrow> False | c # ds \<Rightarrow>
           continuation c \<and>
           (if a < 0xF0 then (a = 0xE0 \<longrightarrow> 0xA0 \<le> b) \<and> (a = 0xED \<longrightarrow> b < 0xA0) \<and> utf8_bytes ds
            else (case ds of [] \<Rightarrow> False | d # es \<Rightarrow>
              continuation d \<and> (a = 0xF0 \<longrightarrow> 0x90 \<le> b) \<and> (a = 0xF4 \<longrightarrow> b < 0x90) \<and> utf8_bytes es))))))"

definition utf8 :: "string \<Rightarrow> bool" where
  "utf8 s \<longleftrightarrow> utf8_bytes (map of_char s)"

lemma utf8_ascii: "\<forall>c \<in> set s. of_char c < (0x80 :: nat) \<Longrightarrow> utf8 s"
  unfolding utf8_def by (induction s) auto

end
