(* ===== verification/Connect_Pool.thy ===== *)
theory Connect_Pool
  imports Config_File Mysql_Db "HOL-Library.Multiset"
begin

text \<open>
  The connection pool of the chat server, \<open>chat/src/server/ConnectPool.cpp\<close>. The sections under \<open>_lock\<close>
  are the steps; \<open>now\<close> is the clock, in nanoseconds.
\<close>

subsection \<open>State and configuration\<close>

record conn_pool =
  cp_target :: "string \<times> string \<times> string \<times> string \<times> int"
  cp_queue :: "mysql_db list"
  cp_initSize :: int
  cp_curfreeSize :: int
  cp_curSize :: int
  cp_maxSize :: int
  cp_run :: bool

definition conf_line :: "string \<Rightarrow> (string \<rightharpoonup> string) \<Rightarrow> (string \<rightharpoonup> string)" where
  "conf_line l m = (case str_find (CHR ''='') l of None \<Rightarrow> m | Some pos \<Rightarrow> m(take pos l \<mapsto> drop (Suc pos) l))"

text \<open>\<open>m[key]\<close> of a map of strings.\<close>

definition conf_field :: "(string \<rightharpoonup> string) \<Rightarrow> string \<Rightarrow> string" where
  "conf_field m key = (case m key of None \<Rightarrow> [] | Some v \<Rightarrow> v)"

text \<open>
  \<open>readConf\<close> on the content of \<open>db.conf\<close>, if there is such a file: false, an exception of \<open>std::stoi\<close>, or
  the pool with its members set.
\<close>

definition readConf :: "string option \<Rightarrow> chat_exn + conn_pool option" where
  "readConf file =
     (case file of
        None \<Rightarrow> Inr None
      | Some content \<Rightarrow>
          let m = fold conf_line (getlines content) Map.empty in
          case stoi (conf_field m ''port'') of Inl e \<Rightarrow> Inl (Std e) | Inr port \<Rightarrow>
          case stoi (conf_field m ''maxsize'') of Inl e \<Rightarrow> Inl (Std e) | Inr maxs \<Rightarrow>
          case stoi (conf_field m ''initsize'') of Inl e \<Rightarrow> Inl (Std e) | Inr inits \<Rightarrow>
            Inr (Some \<lparr>cp_target = (conf_field m ''ip'', conf_field m ''user'', conf_field m ''password'',
                                     conf_field m ''dbname'', port),
                       cp_queue = [], cp_initSize = inits, cp_curfreeSize = 0, cp_curSize = 0,
                       cp_maxSize = maxs, cp_run = False\<rparr>))"

subsection \<open>Operations\<close>

text \<open>A new connection: \<open>None\<close> when it cannot be opened, after its object has been destroyed.\<close>

definition open_conn :: "'w mysql_api \<Rightarrow> conn_pool \<Rightarrow> 'w \<Rightarrow> mysql_db option \<times> 'w" where
  "open_conn api p w =
     (let (d, w) = MysqlDB api w; (ok, w) = connection api (cp_target p) d w
      in if ok then (Some d, w) else (None, destroy_db api d w))"

definition push_conn :: "mysql_db \<Rightarrow> conn_pool \<Rightarrow> conn_pool" where
  "push_conn d p = p\<lparr>cp_queue := cp_queue p @ [d], cp_curfreeSize := cp_curfreeSize p + 1,
     cp_curSize := cp_curSize p + 1\<rparr>"

text \<open>The loop of the constructor; when a connection fails the pool built so far is destroyed.\<close>

fun init_conns :: "'w mysql_api \<Rightarrow> nat \<Rightarrow> conn_pool \<Rightarrow> 'w \<Rightarrow> conn_pool option \<times> 'w" where
  "init_conns api 0 p w = (Some p, w)"
| "init_conns api (Suc k) p w =
     (case open_conn api p w of
        (None, w) \<Rightarrow> (None, fold (destroy_db api) (cp_queue p) w)
      | (Some d, w) \<Rightarrow> init_conns api k (push_conn d p) w)"

text \<open>The constructor throws one of two strings, which are \<open>''config''\<close> and \<open>''connect''\<close> here.\<close>

definition ConnectPool :: "'w mysql_api \<Rightarrow> string option \<Rightarrow> 'w \<Rightarrow> (chat_exn + conn_pool) \<times> 'w" where
  "ConnectPool api file w =
     (case readConf file of
        Inl e \<Rightarrow> (Inl e, w)
      | Inr None \<Rightarrow> (Inl (Thrown ''config''), w)
      | Inr (Some p) \<Rightarrow>
          (case init_conns api (nat (cp_initSize p)) p w of
             (None, w) \<Rightarrow> (Inl (Thrown ''connect''), w)
           | (Some p, w) \<Rightarrow> (Inr (p\<lparr>cp_run := True\<rparr>), w)))"

text \<open>
  \<open>getConnectPool\<close> returns a null pointer when the constructor throws a string; the exceptions of
  \<open>std::stoi\<close> are not caught.
\<close>

definition getConnectPool :: "'w mysql_api \<Rightarrow> string option \<Rightarrow> 'w \<Rightarrow> (chat_exn + conn_pool option) \<times> 'w" where
  "getConnectPool api file w =
     (case ConnectPool api file w of
        (Inl (Thrown msg), w) \<Rightarrow> (Inr None, w)
      | (Inl e, w) \<Rightarrow> (Inl e, w)
      | (Inr p, w) \<Rightarrow> (Inr (Some p), w))"

text \<open>One round of \<open>produceConnect\<close> when its wait is over.\<close>

definition produce_ready :: "conn_pool \<Rightarrow> bool" where
  "produce_ready p \<longleftrightarrow> \<not> cp_run p \<or> (cp_curfreeSize p = 0 \<and> cp_curSize p < cp_maxSize p)"

definition produceConnect :: "'w mysql_api \<Rightarrow> conn_pool \<Rightarrow> 'w \<Rightarrow> conn_pool \<times> 'w" where
  "produceConnect api p w =
     (if \<not> cp_run p then (p, w)
      else case open_conn api p w of
             (None, w) \<Rightarrow> (p, w)
           | (Some d, w) \<Rightarrow> (push_conn d p, w))"

text \<open>
  \<open>getconn\<close> when its wait is over: a null pointer after the second has passed without a free connection;
  the front of an empty queue is undefined behaviour.
\<close>

definition getconn :: "conn_pool \<Rightarrow> chat_exn + mysql_db option \<times> conn_pool" where
  "getconn p =
     (if \<not> cp_curfreeSize p > 0 then Inr (None, p)
      else case cp_queue p of
             [] \<Rightarrow> Inl Out_of_bounds
           | d # ds \<Rightarrow> Inr (Some d, p\<lparr>cp_queue := ds, cp_curfreeSize := cp_curfreeSize p - 1\<rparr>))"

text \<open>The deleter of the pointer that \<open>getconn\<close> returns.\<close>

definition return_conn :: "int \<Rightarrow> mysql_db \<Rightarrow> conn_pool \<Rightarrow> conn_pool" where
  "return_conn now d p = p\<lparr>cp_queue := cp_queue p @ [setlasttime now d],
     cp_curfreeSize := cp_curfreeSize p + 1\<rparr>"

text \<open>One round of \<open>freetimeover\<close>.\<close>

fun reap :: "'w mysql_api \<Rightarrow> int \<Rightarrow> mysql_db list \<Rightarrow> int \<Rightarrow> int \<Rightarrow> int \<Rightarrow> 'w
    \<Rightarrow> (mysql_db list \<times> int \<times> int) \<times> 'w" where
  "reap api now [] free cur ini w = (([], free, cur), w)"
| "reap api now (d # ds) free cur ini w =
     (if cur > ini \<and> resultfreetime now d > 10
      then reap api now ds (free - 1) (cur - 1) ini (destroy_db api d w)
      else ((d # ds, free, cur), w))"

definition freetimeover :: "'w mysql_api \<Rightarrow> int \<Rightarrow> conn_pool \<Rightarrow> 'w \<Rightarrow> conn_pool \<times> 'w" where
  "freetimeover api now p w =
     (let ((q, free, cur), w) = reap api now (cp_queue p) (cp_curfreeSize p) (cp_curSize p) (cp_initSize p) w
      in (p\<lparr>cp_queue := q, cp_curfreeSize := free, cp_curSize := cur\<rparr>, w))"

definition destroy_pool :: "conn_pool \<Rightarrow> conn_pool" where
  "destroy_pool p = p\<lparr>cp_run := False\<rparr>"

subsection \<open>Executions\<close>

text \<open>
  The pool, the connections that are in use, and the MySQL library. Besides the operations of the
  pool the users work with the connections they hold.
\<close>

type_synonym 'w pool_state = "conn_pool \<times> mysql_db list \<times> 'w"

inductive conn_step :: "'w mysql_api \<Rightarrow> 'w pool_state \<Rightarrow> 'w pool_state \<Rightarrow> bool" for api where
  get: "getconn p = Inr (Some d, p') \<Longrightarrow> conn_step api (p, us, w) (p', d # us, w)"
| get_none: "getconn p = Inr (None, p') \<Longrightarrow> conn_step api (p, us, w) (p', us, w)"
| give_back: "d \<in> set us \<Longrightarrow> conn_step api (p, us, w) (return_conn now d p, remove1 d us, w)"
| produce: "produce_ready p \<Longrightarrow> produceConnect api p w = (p', w') \<Longrightarrow> conn_step api (p, us, w) (p', us, w')"
| reap: "freetimeover api now p w = (p', w') \<Longrightarrow> conn_step api (p, us, w) (p', us, w')"
| work: "d \<in> set us \<Longrightarrow> conn_step api (p, us, w) (p, us, snd (execute_base api d sql ps w))"
| ask: "d \<in> set us \<Longrightarrow> conn_step api (p, us, w) (p, us, snd (query_base api d sql ps w))"

subsection \<open>Handles\<close>

text \<open>
  What is assumed of the library: \<open>mysql_init\<close> returns a new handle, \<open>mysql_close\<close> frees it, and nothing
  else changes which handles there are. When a connection cannot be established the source closes its
  handle twice, which the library leaves undefined; here the second call does nothing.
\<close>

locale mysql_handles =
  fixes api :: "'w mysql_api" and live :: "'w \<Rightarrow> nat set"
  assumes init_new: "my_init api w = (Some h, w') \<Longrightarrow> h \<notin> live w \<and> live w' = insert h (live w)"
    and init_fail: "my_init api w = (None, w') \<Longrightarrow> live w' = live w"
    and connect_live: "live (snd (my_real_connect api h t w)) = live w"
    and close_live: "live (my_close api h w) = live w - {h}"
    and execute_live: "live (snd (my_stmt_execute api h n sql bs w)) = live w"
begin

definition handle_of :: "mysql_db \<Rightarrow> nat" where
  "handle_of d = the (db_conn d)"

text \<open>
  The invariant: the counters are right, and the connections in the queue and in use are pairwise
  different and open.
\<close>

definition pool_inv :: "'w pool_state \<Rightarrow> bool" where
  "pool_inv s \<longleftrightarrow> (case s of (p, us, w) \<Rightarrow>
     cp_curfreeSize p = int (length (cp_queue p))
   \<and> cp_curSize p = int (length (cp_queue p) + length us)
   \<and> cp_curSize p \<le> max 0 (max (cp_initSize p) (cp_maxSize p))
   \<and> distinct (map handle_of (cp_queue p @ us))
   \<and> (\<forall>d \<in> set (cp_queue p @ us). db_conn d \<noteq> None \<and> handle_of d \<in> live w))"

lemma open_conn_new:
  assumes "open_conn api p w = (r, w')"
  shows "case r of None \<Rightarrow> live w' = live w
    | Some d \<Rightarrow> db_conn d \<noteq> None \<and> handle_of d \<notin> live w \<and> live w' = insert (handle_of d) (live w)"
proof -
  obtain h w1 where i: "my_init api w = (h, w1)" by force
  obtain ok w2 where c: "connection api (cp_target p) \<lparr>db_conn = h, db_last = 0\<rparr> w1 = (ok, w2)" by force
  show ?thesis
  proof (cases h)
    case None
    with assms i show ?thesis using init_fail by (auto simp: open_conn_def MysqlDB_def connection_def destroy_db_def)
  next
    case (Some k)
    have "live (snd (my_real_connect api k (cp_target p) w1)) = live w1" by (rule connect_live)
    with Some assms i c show ?thesis using init_new [of w k w1]
      by (auto simp: open_conn_def MysqlDB_def connection_def destroy_db_def handle_of_def close_live
          Let_def case_prod_unfold split: if_splits)
  qed
qed

lemma base_live [simp]:
  "live (snd (execute_base api d sql ps w)) = live w" "live (snd (query_base api d sql ps w)) = live w"
  by (auto simp: execute_base_def query_base_def Let_def case_prod_unfold execute_live split: option.split)

lemma push_inv:
  assumes "pool_inv (p, us, w)" and "open_conn api p w = (Some d, w')" and "cp_curSize p < max 0 (max (cp_initSize p) (cp_maxSize p))"
  shows "pool_inv (push_conn d p, us, w')"
  using assms(1,3) open_conn_new [OF assms(2)]
  by (auto simp: pool_inv_def push_conn_def)

lemma reap_inv:
  assumes "reap api now q free cur ini w = ((q', free', cur'), w')"
    and "distinct (map handle_of (q @ us))" and "\<forall>d \<in> set (q @ us). db_conn d \<noteq> None \<and> handle_of d \<in> live w"
  shows "distinct (map handle_of (q' @ us)) \<and> (\<forall>d \<in> set (q' @ us). db_conn d \<noteq> None \<and> handle_of d \<in> live w')
    \<and> free' - int (length q') = free - int (length q) \<and> cur' - int (length q') = cur - int (length q)
    \<and> cur' \<le> cur"
  using assms
proof (induction q arbitrary: free cur w)
  case (Cons d ds)
  show ?case
  proof (cases "cur > ini \<and> resultfreetime now d > 10")
    case True
    have "live (destroy_db api d w) = live w - {handle_of d}"
      using Cons.prems(3) by (auto simp: destroy_db_def handle_of_def close_live)
    moreover have "handle_of d \<notin> handle_of ` set (ds @ us)" using Cons.prems(2) by auto
    ultimately have "\<forall>e \<in> set (ds @ us). db_conn e \<noteq> None \<and> handle_of e \<in> live (destroy_db api d w)"
      using Cons.prems(3) by (auto simp: image_iff) (metis UnI1 UnI2)+
    with Cons.IH [of "free - 1" "cur - 1" "destroy_db api d w"] Cons.prems True show ?thesis by simp
  next
    case False
    then have "q' = d # ds \<and> free' = free \<and> cur' = cur \<and> w' = w" using Cons.prems(1) by (auto split: if_splits)
    with Cons.prems(2,3) show ?thesis by simp
  qed
qed simp

lemma step_inv: "conn_step api s s' \<Longrightarrow> pool_inv s \<Longrightarrow> pool_inv s'"
proof (induction rule: conn_step.induct)
  case (get p d p' us w)
  then show ?case by (auto simp: getconn_def pool_inv_def split: if_splits list.splits) (metis IntI emptyE imageI)
next
  case (get_none p p' us w)
  then show ?case by (auto simp: getconn_def split: if_splits list.splits)
next
  case (give_back d us p w now)
  have "mset (remove1 d us) = mset us - {#d#}" by simp
  then have m: "mset (map handle_of us) = add_mset (handle_of d) (mset (map handle_of (remove1 d us)))"
    using give_back.hyps by (metis image_mset_add_mset insert_DiffM mset_map set_mset_mset)
  have "mset (map handle_of ((cp_queue p @ [setlasttime now d]) @ remove1 d us)) = mset (map handle_of (cp_queue p @ us))"
    using m by (simp add: handle_of_def setlasttime_def)
  then have "distinct (map handle_of ((cp_queue p @ [setlasttime now d]) @ remove1 d us))
      = distinct (map handle_of (cp_queue p @ us))" by (rule mset_eq_imp_distinct_iff)
  then have "distinct (map handle_of ((cp_queue p @ [setlasttime now d]) @ remove1 d us))"
    using give_back.prems by (simp add: pool_inv_def)
  moreover have "length us = Suc (length (remove1 d us))"
    using give_back.hyps length_pos_if_in_set [OF give_back.hyps] by (simp add: length_remove1)
  moreover have "set (remove1 d us) \<subseteq> set us" by (rule set_remove1_subset)
  ultimately show ?case using give_back
    by (auto simp: pool_inv_def return_conn_def setlasttime_def handle_of_def)
next
  case (produce p w p' w' us)
  obtain r w1 where o: "open_conn api p w = (r, w1)" by force
  show ?case
  proof (cases "cp_run p")
    case True
    show ?thesis
    proof (cases r)
      case None
      with True o produce open_conn_new [OF o] show ?thesis by (auto simp: produceConnect_def pool_inv_def)
    next
      case (Some d)
      with True o produce push_inv [of p us w d w1] show ?thesis
        by (auto simp: produceConnect_def produce_ready_def)
    qed
  qed (use produce in \<open>simp add: produceConnect_def\<close>)
next
  case (reap now p w p' w' us)
  obtain q free cur w1 where r: "reap api now (cp_queue p) (cp_curfreeSize p) (cp_curSize p) (cp_initSize p) w
      = ((q, free, cur), w1)" by (metis prod.exhaust)
  from reap_inv [OF r, of us] reap r show ?case
    by (auto simp: freetimeover_def pool_inv_def) (metis IntI emptyE imageI)
qed (auto simp: pool_inv_def)

lemma steps_inv: "(conn_step api)\<^sup>*\<^sup>* s s' \<Longrightarrow> pool_inv s \<Longrightarrow> pool_inv s'"
  by (induction rule: rtranclp_induct) (auto intro: step_inv)

lemma init_conns_inv:
  assumes "init_conns api k p w = (Some p', w')" and "pool_inv (p, [], w)"
    and "cp_curSize p + int k \<le> max 0 (cp_initSize p)"
  shows "pool_inv (p', [], w') \<and> cp_curSize p' = cp_curSize p + int k"
  using assms
proof (induction k arbitrary: p w)
  case (Suc k)
  then obtain d w1 where o: "open_conn api p w = (Some d, w1)" "init_conns api k (push_conn d p) w1 = (Some p', w')"
    by (auto split: option.splits prod.splits)
  have "pool_inv (push_conn d p, [], w1)" using Suc.prems by (intro push_inv [OF _ o(1)]) auto
  from Suc.IH [OF o(2) this] Suc.prems show ?case by (simp add: push_conn_def)
qed simp

lemma ConnectPool_inv:
  assumes "ConnectPool api file w = (Inr p, w')"
  shows "pool_inv (p, [], w')"
proof -
  obtain p0 p1 where r: "readConf file = Inr (Some p0)" and i: "init_conns api (nat (cp_initSize p0)) p0 w = (Some p1, w')"
    and p: "p = p1\<lparr>cp_run := True\<rparr>"
    using assms by (auto simp: ConnectPool_def split: sum.splits option.splits prod.splits)
  have "cp_queue p0 = []" "cp_curfreeSize p0 = 0" "cp_curSize p0 = 0"
    using r by (auto simp: readConf_def Let_def split: option.splits sum.splits)
  then have "pool_inv (p0, [], w)" "cp_curSize p0 + int (nat (cp_initSize p0)) \<le> max 0 (cp_initSize p0)"
    by (auto simp: pool_inv_def)
  from init_conns_inv [OF i this] p show ?thesis by (simp add: pool_inv_def)
qed

lemma inv_exclusive:
  assumes "pool_inv (p, us, w)"
  shows "distinct (map db_conn (cp_queue p @ us))"
    and "\<forall>d \<in> set (cp_queue p @ us). \<exists>h \<in> live w. db_conn d = Some h"
    and "getconn p \<noteq> Inl Out_of_bounds"
proof -
  have "map db_conn (cp_queue p @ us) = map Some (map handle_of (cp_queue p @ us))"
    using assms by (auto simp: pool_inv_def handle_of_def)
  moreover have "distinct (map handle_of (cp_queue p @ us))" using assms by (simp add: pool_inv_def)
  ultimately show "distinct (map db_conn (cp_queue p @ us))" by (simp only: distinct_map) simp
  show "\<forall>d \<in> set (cp_queue p @ us). \<exists>h \<in> live w. db_conn d = Some h"
    using assms by (fastforce simp: pool_inv_def handle_of_def)
  show "getconn p \<noteq> Inl Out_of_bounds"
    using assms by (auto simp: pool_inv_def getconn_def split: list.splits)
qed

end

subsection \<open>A library in memory\<close>

text \<open>
  An executable instance of the C API: handles are numbers, connections always succeed, and the
  statements act on the data by a function that is left open.
\<close>

record 't mem_world =
  mw_next :: nat
  mw_live :: "nat list"
  mw_data :: 't

definition mem_api ::
  "(nat \<Rightarrow> string \<Rightarrow> my_bind list \<Rightarrow> 't \<Rightarrow> stmt_result option \<times> 't) \<Rightarrow> 't mem_world mysql_api" where
  "mem_api run = \<lparr>my_init = (\<lambda>w. (Some (mw_next w), w\<lparr>mw_next := mw_next w + 1, mw_live := mw_next w # mw_live w\<rparr>)),
     my_real_connect = (\<lambda>h t w. (True, w)),
     my_close = (\<lambda>h w. w\<lparr>mw_live := filter (\<lambda>k. k \<noteq> h) (mw_live w)\<rparr>),
     my_stmt_init = (\<lambda>h w. True), my_stmt_prepare = (\<lambda>h sql w. True),
     my_stmt_execute = (\<lambda>h n sql bs w. let (r, t) = run n sql bs (mw_data w) in (r, w\<lparr>mw_data := t\<rparr>))\<rparr>"

text \<open>The handles that are live in it; the bound of the numbers given out is part of what is fresh.\<close>

definition mem_live :: "'t mem_world \<Rightarrow> nat set" where
  "mem_live w = {h \<in> set (mw_live w). h < mw_next w}"

interpretation mem: mysql_handles "mem_api run" mem_live
  by unfold_locales (auto simp: mem_api_def mem_live_def Let_def case_prod_unfold)

subsection \<open>Properties\<close>

text \<open>
  C29. No connection is ever in two hands: at every moment of every execution of the pool the
  connections in the queue and those in use are pairwise different and open; the counters say how
  many there are, there are never more than configured, and \<open>getconn\<close> never takes from an empty queue.
\<close>

theorem pool_connections_exclusive:
  assumes "mysql_handles api live" and "ConnectPool api file w0 = (Inr p0, w1)"
    and "(conn_step api)\<^sup>*\<^sup>* (p0, [], w1) (p, us, w)"
  shows "distinct (map db_conn (cp_queue p @ us))
    \<and> (\<forall>d \<in> set (cp_queue p @ us). \<exists>h \<in> live w. db_conn d = Some h)
    \<and> cp_curfreeSize p = int (length (cp_queue p)) \<and> cp_curSize p = int (length (cp_queue p) + length us)
    \<and> cp_curSize p \<le> max 0 (max (cp_initSize p) (cp_maxSize p))
    \<and> getconn p \<noteq> Inl Out_of_bounds"
proof -
  have "mysql_handles.pool_inv live (p, us, w)"
    using mysql_handles.steps_inv [OF assms(1,3) mysql_handles.ConnectPool_inv [OF assms(1,2)]] .
  with mysql_handles.inv_exclusive [OF assms(1) this] show ?thesis
    by (simp add: mysql_handles.pool_inv_def [OF assms(1)])
qed

definition sample_conf :: string where
  "sample_conf = ''port=3306'' @ [CHR 0x0A] @ ''maxsize=2'' @ [CHR 0x0A] @ ''initsize=1'' @ [CHR 0x0A]"

definition no_sql :: "nat \<Rightarrow> string \<Rightarrow> my_bind list \<Rightarrow> unit \<Rightarrow> stmt_result option \<times> unit" where
  "no_sql n sql bs t = (None, t)"

definition sample_pool :: "conn_pool \<times> unit mem_world" where
  "sample_pool = (case ConnectPool (mem_api no_sql) (Some sample_conf) \<lparr>mw_next = 0, mw_live = [], mw_data = ()\<rparr> of
     (Inr p, w) \<Rightarrow> (p, w) | (Inl e, w) \<Rightarrow> (undefined, w))"

theorem pool_connections_exclusive_witness:
  "distinct (map db_conn (cp_queue (fst sample_pool))) \<and> cp_curSize (fst sample_pool) \<le> 2"
proof -
  have e: "ConnectPool (mem_api no_sql) (Some sample_conf) \<lparr>mw_next = 0, mw_live = [], mw_data = ()\<rparr>
      = (Inr (fst sample_pool), snd sample_pool)" by code_simp
  have "cp_initSize (fst sample_pool) = 1 \<and> cp_maxSize (fst sample_pool) = 2" by code_simp
  with pool_connections_exclusive [OF mem.mysql_handles_axioms e rtranclp.rtrancl_refl] show ?thesis by simp
qed

end
