(* ===== verification/Old_Pool.thy ===== *)
theory Old_Pool
  imports Connect_Pool
begin

text \<open>
  The first version of the connection pool, in \<open>src/MysqlDB.cpp\<close> and \<open>src/ConnectPool.cpp\<close> of the separate
  connection pool project. It has the classes of \<open>Mysql_Db\<close> and \<open>Connect_Pool\<close> and shares their
  records; the operations are translated from its own source and compared with those of the chat server.
\<close>

subsection \<open>The connection\<close>

definition old_MysqlDB :: "'w mysql_api \<Rightarrow> 'w \<Rightarrow> mysql_db \<times> 'w" where
  "old_MysqlDB api w = (case my_init api w of (h, w) \<Rightarrow> (\<lparr>db_conn = h, db_last = 0\<rparr>, w))"

definition old_connection ::
  "'w mysql_api \<Rightarrow> string \<times> string \<times> string \<times> string \<times> int \<Rightarrow> mysql_db \<Rightarrow> 'w \<Rightarrow> bool \<times> 'w" where
  "old_connection api target d w =
     (case db_conn d of
        None \<Rightarrow> (False, w)
      | Some h \<Rightarrow> (case my_real_connect api h target w of
            (False, w) \<Rightarrow> (False, my_close api h w)
          | (True, w) \<Rightarrow> (True, w)))"

definition old_destroy_db :: "'w mysql_api \<Rightarrow> mysql_db \<Rightarrow> 'w \<Rightarrow> 'w" where
  "old_destroy_db api d w = (if db_conn d \<noteq> None then my_close api (the (db_conn d)) w else w)"

fun old_makeparam :: "sql_arg \<Rightarrow> sqlparam" where
  "old_makeparam (ArgString s) = empty_param\<lparr>sp_type := STRING_param, sp_string_val := s\<rparr>"
| "old_makeparam (ArgCString s) = empty_param\<lparr>sp_type := STRING_param, sp_string_val := cstr s\<rparr>"
| "old_makeparam (ArgInt i) = empty_param\<lparr>sp_type := INT_param, sp_int_val := i\<rparr>"
| "old_makeparam (ArgLong i) = empty_param\<lparr>sp_type := LONG_param, sp_long_val := i\<rparr>"
| "old_makeparam (ArgFloat f) = empty_param\<lparr>sp_type := FLOAT_param, sp_float_val := f\<rparr>"
| "old_makeparam (ArgBool b) = empty_param\<lparr>sp_type := BOOL_param, sp_bool_val := b\<rparr>"
| "old_makeparam (ArgDouble d) = empty_param\<lparr>sp_type := DOUBLE_param, sp_double_val := d\<rparr>"

definition old_bind :: "sqlparam \<Rightarrow> my_bind" where
  "old_bind p =
     (case sp_type p of
        STRING_param \<Rightarrow> TYPE_STRING (sp_string_val p) | INT_param \<Rightarrow> TYPE_LONG (sp_int_val p)
      | BOOL_param \<Rightarrow> TYPE_BOOL (sp_bool_val p) | FLOAT_param \<Rightarrow> TYPE_FLOAT (sp_float_val p)
      | DOUBLE_param \<Rightarrow> TYPE_DOUBLE (sp_double_val p) | LONG_param \<Rightarrow> TYPE_LONGLONG (sp_long_val p))"

text \<open>\<open>mysql_stmt_execute\<close> returns 0 on success; here its result is returned as it is.\<close>

definition old_execute_base :: "'w mysql_api \<Rightarrow> mysql_db \<Rightarrow> string \<Rightarrow> sqlparam list \<Rightarrow> 'w \<Rightarrow> bool \<times> 'w" where
  "old_execute_base api d sql param w =
     (case db_conn d of
        None \<Rightarrow> (False, w)
      | Some h \<Rightarrow>
          if \<not> my_stmt_init api h w then (False, w)
          else if \<not> my_stmt_prepare api h sql w then (False, w)
          else let (r, w) = my_stmt_execute api h 0 sql (map old_bind param) w; ret = (r = None) in (ret, w))"

definition old_query_base ::
  "'w mysql_api \<Rightarrow> mysql_db \<Rightarrow> string \<Rightarrow> sqlparam list \<Rightarrow> 'w \<Rightarrow> (chat_exn + string list list) \<times> 'w" where
  "old_query_base api d sql param w =
     (case db_conn d of
        None \<Rightarrow> (Inr [], w)
      | Some h \<Rightarrow>
          if \<not> my_stmt_init api h w then (Inr [], w)
          else if \<not> my_stmt_prepare api h sql w then (Inr [], w)
          else let (r, w) = my_stmt_execute api h 1024 sql (map old_bind param) w in
               if r = None then (Inr [], w)
               else if sr_metadata (the r) = None then (Inl Null_deref, w)
               else (fetch_loop (sr_fetches (the r)), w))"

definition old_execute :: "'w mysql_api \<Rightarrow> mysql_db \<Rightarrow> string \<Rightarrow> sql_arg list \<Rightarrow> 'w \<Rightarrow> bool \<times> 'w" where
  "old_execute api d sql args w = old_execute_base api d sql (map old_makeparam args) w"

definition old_query ::
  "'w mysql_api \<Rightarrow> mysql_db \<Rightarrow> string \<Rightarrow> sql_arg list \<Rightarrow> 'w \<Rightarrow> (chat_exn + string list list) \<times> 'w" where
  "old_query api d sql args w = old_query_base api d sql (map old_makeparam args) w"

definition old_setlasttime :: "int \<Rightarrow> mysql_db \<Rightarrow> mysql_db" where
  "old_setlasttime now d = d\<lparr>db_last := now\<rparr>"

definition old_resultfreetime :: "int \<Rightarrow> mysql_db \<Rightarrow> int" where
  "old_resultfreetime now d = signed_take_bit 31 ((now - db_last d) sdiv 1000000000)"

subsection \<open>The pool\<close>

definition old_readConf :: "string option \<Rightarrow> chat_exn + conn_pool option" where
  "old_readConf file =
     (case file of
        None \<Rightarrow> Inr None
      | Some content \<Rightarrow>
          let m = fold (\<lambda>l m. case str_find (CHR ''='') l of None \<Rightarrow> m
                     | Some pos \<Rightarrow> m(take pos l \<mapsto> drop (Suc pos) l)) (getlines content) Map.empty;
              field = (\<lambda>k. case m k of None \<Rightarrow> [] | Some v \<Rightarrow> v)
          in case stoi (field ''port'') of Inl e \<Rightarrow> Inl (Std e) | Inr port \<Rightarrow>
             (case stoi (field ''maxsize'') of Inl e \<Rightarrow> Inl (Std e) | Inr maxs \<Rightarrow>
             (case stoi (field ''initsize'') of Inl e \<Rightarrow> Inl (Std e) | Inr inits \<Rightarrow>
               Inr (Some \<lparr>cp_target = (field ''ip'', field ''user'', field ''password'', field ''dbname'', port),
                          cp_queue = [], cp_initSize = inits, cp_curfreeSize = 0, cp_curSize = 0,
                          cp_maxSize = maxs, cp_run = False\<rparr>))))"

fun old_init_conns :: "'w mysql_api \<Rightarrow> nat \<Rightarrow> conn_pool \<Rightarrow> 'w \<Rightarrow> conn_pool option \<times> 'w" where
  "old_init_conns api 0 p w = (Some p, w)"
| "old_init_conns api (Suc k) p w =
     (let (d, w) = old_MysqlDB api w; (ok, w) = old_connection api (cp_target p) d w in
      if \<not> ok then (None, fold (old_destroy_db api) (cp_queue p) (old_destroy_db api d w))
      else old_init_conns api k (p\<lparr>cp_queue := cp_queue p @ [d], cp_curfreeSize := cp_curfreeSize p + 1,
             cp_curSize := cp_curSize p + 1\<rparr>) w)"

definition old_ConnectPool :: "'w mysql_api \<Rightarrow> string option \<Rightarrow> 'w \<Rightarrow> (chat_exn + conn_pool) \<times> 'w" where
  "old_ConnectPool api file w =
     (case old_readConf file of
        Inl e \<Rightarrow> (Inl e, w)
      | Inr None \<Rightarrow> (Inl (Thrown ''config''), w)
      | Inr (Some p) \<Rightarrow>
          (case old_init_conns api (nat (cp_initSize p)) p w of
             (None, w) \<Rightarrow> (Inl (Thrown ''connect''), w)
           | (Some p, w) \<Rightarrow> (Inr (p\<lparr>cp_run := True\<rparr>), w)))"

definition old_getConnectPool :: "'w mysql_api \<Rightarrow> string option \<Rightarrow> 'w \<Rightarrow> (chat_exn + conn_pool option) \<times> 'w" where
  "old_getConnectPool api file w =
     (case old_ConnectPool api file w of
        (Inl (Thrown msg), w) \<Rightarrow> (Inr None, w)
      | (Inl e, w) \<Rightarrow> (Inl e, w)
      | (Inr p, w) \<Rightarrow> (Inr (Some p), w))"

definition old_produceConnect :: "'w mysql_api \<Rightarrow> conn_pool \<Rightarrow> 'w \<Rightarrow> conn_pool \<times> 'w" where
  "old_produceConnect api p w =
     (if \<not> cp_run p then (p, w)
      else let (d, w) = old_MysqlDB api w; (ok, w) = old_connection api (cp_target p) d w in
           if \<not> ok then (p, old_destroy_db api d w)
           else (p\<lparr>cp_queue := cp_queue p @ [d], cp_curfreeSize := cp_curfreeSize p + 1,
                   cp_curSize := cp_curSize p + 1\<rparr>, w))"

definition old_getconn :: "conn_pool \<Rightarrow> chat_exn + mysql_db option \<times> conn_pool" where
  "old_getconn p =
     (if \<not> cp_curfreeSize p > 0 then Inr (None, p)
      else case cp_queue p of
             [] \<Rightarrow> Inl Out_of_bounds
           | d # ds \<Rightarrow> Inr (Some d, p\<lparr>cp_queue := ds, cp_curfreeSize := cp_curfreeSize p - 1\<rparr>))"

text \<open>The deleter puts the connection back into the queue and leaves the counter as it is.\<close>

definition old_return_conn :: "int \<Rightarrow> mysql_db \<Rightarrow> conn_pool \<Rightarrow> conn_pool" where
  "old_return_conn now d p = p\<lparr>cp_queue := cp_queue p @ [old_setlasttime now d]\<rparr>"

text \<open>The reaper does not stop at the initial size.\<close>

fun old_reap :: "'w mysql_api \<Rightarrow> int \<Rightarrow> mysql_db list \<Rightarrow> int \<Rightarrow> int \<Rightarrow> 'w \<Rightarrow> (mysql_db list \<times> int \<times> int) \<times> 'w" where
  "old_reap api now [] free cur w = (([], free, cur), w)"
| "old_reap api now (d # ds) free cur w =
     (if old_resultfreetime now d > 10
      then old_reap api now ds (free - 1) (cur - 1) (old_destroy_db api d w)
      else ((d # ds, free, cur), w))"

definition old_freetimeover :: "'w mysql_api \<Rightarrow> int \<Rightarrow> conn_pool \<Rightarrow> 'w \<Rightarrow> conn_pool \<times> 'w" where
  "old_freetimeover api now p w =
     (let ((q, free, cur), w) = old_reap api now (cp_queue p) (cp_curfreeSize p) (cp_curSize p) w
      in (p\<lparr>cp_queue := q, cp_curfreeSize := free, cp_curSize := cur\<rparr>, w))"

definition old_destroy_pool :: "conn_pool \<Rightarrow> conn_pool" where
  "old_destroy_pool p = p\<lparr>cp_run := False\<rparr>"

subsection \<open>The two versions compared\<close>

lemma old_conn_same:
  "old_MysqlDB api w = MysqlDB api w" "old_connection api t d w = connection api t d w"
  "old_destroy_db api d w = destroy_db api d w" "old_bind = bind_param"
  "old_setlasttime now d = setlasttime now d" "old_resultfreetime now d = resultfreetime now d"
  by (auto simp: old_MysqlDB_def MysqlDB_def old_connection_def connection_def old_destroy_db_def destroy_db_def
      old_bind_def bind_param_def old_setlasttime_def setlasttime_def old_resultfreetime_def
      resultfreetime_def fun_eq_iff Let_def split: option.splits bool.splits prod.splits)

lemma old_makeparam_same: "old_makeparam = makeparam"
proof
  fix a show "old_makeparam a = makeparam a"
    by (cases a) (simp_all add: makeparam_string_def makeparam_cstring_def makeparam_int_def
      makeparam_long_def makeparam_float_def makeparam_bool_def makeparam_double_def)
qed

lemma old_init_conns_same: "old_init_conns api k p w = init_conns api k p w"
proof (induction k arbitrary: p w)
  case (Suc k)
  then show ?case
    by (simp add: old_conn_same open_conn_def push_conn_def Let_def case_prod_unfold fun_eq_iff
        old_conn_same [abs_def])
qed simp

lemma old_query_base_same: "old_query_base api d sql ps w = query_base api d sql ps w"
  by (simp add: old_query_base_def query_base_def old_conn_same col_buffer_def Let_def case_prod_unfold
      split: option.split)

lemma old_readConf_same: "old_readConf file = readConf file"
  unfolding old_readConf_def readConf_def Let_def conf_line_def [abs_def] conf_field_def ..

text \<open>
  What the two versions of the pool have in common: reading the configuration, opening the
  connections, the constructor and the destructor, the producer, taking a connection and queries are the same
  function, although each project has its own copy of the code.
\<close>

theorem pools_agree:
  "old_readConf = readConf \<and> old_ConnectPool api file w = ConnectPool api file w
   \<and> old_produceConnect api p w = produceConnect api p w \<and> old_getconn p = getconn p
   \<and> old_query api d sql args w = db_query api d sql args w \<and> old_destroy_pool p = destroy_pool p"
proof (intro conjI)
  show "old_readConf = readConf" by (rule ext) (rule old_readConf_same)
  show "old_ConnectPool api file w = ConnectPool api file w"
    by (simp add: old_ConnectPool_def ConnectPool_def old_readConf_same old_init_conns_same
        split: sum.split option.split)
  show "old_produceConnect api p w = produceConnect api p w"
    by (simp add: old_produceConnect_def produceConnect_def open_conn_def push_conn_def old_conn_same Let_def
        case_prod_unfold)
  show "old_getconn p = getconn p" by (simp add: old_getconn_def getconn_def)
  show "old_query api d sql args w = db_query api d sql args w"
    by (simp add: old_query_def db_query_def old_query_base_same old_makeparam_same)
  show "old_destroy_pool p = destroy_pool p" by (simp add: old_destroy_pool_def destroy_pool_def)
qed

text \<open>A user that takes a connection and gives it back, \<open>n\<close> times; it stops when there is none.\<close>

fun old_use :: "nat \<Rightarrow> int \<Rightarrow> conn_pool \<Rightarrow> conn_pool" where
  "old_use 0 now p = p"
| "old_use (Suc n) now p =
     (case old_getconn p of
        Inr (Some d, p') \<Rightarrow> old_use n now (old_return_conn now d p')
      | _ \<Rightarrow> p)"

fun use :: "nat \<Rightarrow> int \<Rightarrow> conn_pool \<Rightarrow> conn_pool" where
  "use 0 now p = p"
| "use (Suc n) now p =
     (case getconn p of
        Inr (Some d, p') \<Rightarrow> use n now (return_conn now d p')
      | _ \<Rightarrow> p)"

lemma old_use_counts:
  assumes "int n \<le> cp_curfreeSize p" and "cp_queue p \<noteq> []"
  shows "cp_curfreeSize (old_use n now p) = cp_curfreeSize p - int n
    \<and> length (cp_queue (old_use n now p)) = length (cp_queue p)
    \<and> cp_curSize (old_use n now p) = cp_curSize p \<and> cp_maxSize (old_use n now p) = cp_maxSize p
    \<and> cp_run (old_use n now p) = cp_run p"
  using assms
proof (induction n arbitrary: p)
  case (Suc n)
  obtain d ds where q: "cp_queue p = d # ds" using Suc.prems by (cases "cp_queue p") auto
  let ?p = "old_return_conn now d (p\<lparr>cp_queue := ds, cp_curfreeSize := cp_curfreeSize p - 1\<rparr>)"
  have "old_use (Suc n) now p = old_use n now ?p" using q Suc.prems by (simp add: old_getconn_def)
  with Suc.IH [of ?p] Suc.prems q show ?case by (simp add: old_return_conn_def)
qed simp

lemma use_counts:
  assumes "cp_curfreeSize p = int (length (cp_queue p))" and "cp_queue p \<noteq> []"
  shows "cp_curfreeSize (use n now p) = cp_curfreeSize p
    \<and> length (cp_queue (use n now p)) = length (cp_queue p)"
  using assms
proof (induction n arbitrary: p)
  case (Suc n)
  obtain d ds where q: "cp_queue p = d # ds" using Suc.prems by (cases "cp_queue p") auto
  let ?p = "return_conn now d (p\<lparr>cp_queue := ds, cp_curfreeSize := cp_curfreeSize p - 1\<rparr>)"
  have "use (Suc n) now p = use n now ?p" using q Suc.prems by (simp add: getconn_def)
  with Suc.IH [of ?p] Suc.prems q show ?case by (simp add: return_conn_def)
qed simp

text \<open>
  The old pool runs dry although every connection is given back: once a pool with all its \<open>n\<close>
  connections open has been used \<open>n\<close> times, one after the other, \<open>getconn\<close> returns a null pointer, the
  producer does not wake up, and the queue holds \<open>n\<close> idle connections. In the new version the same
  use leaves the pool as it was.
\<close>

theorem old_pool_starves:
  assumes "cp_curfreeSize p = int n" and "length (cp_queue p) = n" and "0 < n"
    and "cp_curSize p = cp_maxSize p" and "cp_run p"
  shows "length (cp_queue (old_use n now p)) = n
    \<and> old_getconn (old_use n now p) = Inr (None, old_use n now p)
    \<and> \<not> produce_ready (old_use n now p)
    \<and> cp_curfreeSize (use n now p) = int n \<and> length (cp_queue (use n now p)) = n"
proof -
  have "cp_queue p \<noteq> []" using assms(2,3) by auto
  with old_use_counts [of n p now] use_counts [of p n now] assms show ?thesis
    by (auto simp: old_getconn_def produce_ready_def)
qed

theorem old_pool_starves_witness:
  "old_getconn (old_use 1 5 ((fst sample_pool)\<lparr>cp_maxSize := 1\<rparr>))
     = Inr (None, old_use 1 5 ((fst sample_pool)\<lparr>cp_maxSize := 1\<rparr>))"
proof -
  have "cp_curfreeSize (fst sample_pool) = 1 \<and> length (cp_queue (fst sample_pool)) = 1
      \<and> cp_curSize (fst sample_pool) = 1 \<and> cp_run (fst sample_pool)" by code_simp
  then show ?thesis using old_pool_starves [of "(fst sample_pool)\<lparr>cp_maxSize := 1\<rparr>" 1 5] by simp
qed

text \<open>
  The reaper of the old version closes connections that have never been used, since their time of last
  use is the epoch of the clock: the first round closes the whole initial pool.
\<close>

lemma old_reaper_empties_pool:
  assumes "\<forall>d \<in> set (cp_queue p). db_last d = 0" and "11 * 1000000000 \<le> now" and "now < 2 ^ 31 * 1000000000"
    and "cp_curfreeSize p = int (length (cp_queue p))"
  shows "cp_queue (fst (old_freetimeover api now p w)) = []
    \<and> cp_curfreeSize (fst (old_freetimeover api now p w)) = 0"
proof -
  have "11 \<le> now div 1000000000" using zdiv_mono1 [OF assms(2), of 1000000000] by simp
  then have idle: "old_resultfreetime now d > 10" if "db_last d = 0" for d
    using resultfreetime_seconds [of d now] that assms(2,3) by (simp add: old_conn_same)
  have "fst (old_reap api now q free cur w) = ([], free - int (length q), cur - int (length q))"
    if "\<forall>d \<in> set q. db_last d = 0" for q free cur w
    using that by (induction q arbitrary: free cur w) (auto simp: idle)
  from this [OF assms(1)] assms(4) show ?thesis by (simp add: old_freetimeover_def Let_def case_prod_unfold)
qed

text \<open>The result of \<open>execute\<close> is the wrong way round: a statement that succeeds answers false.\<close>

lemma old_execute_inverted:
  assumes "fst (db_execute api d sql args w)"
  shows "\<not> fst (old_execute api d sql args w)"
  using assms
  by (auto simp: db_execute_def old_execute_def execute_base_def old_execute_base_def old_makeparam_same
      old_conn_same Let_def case_prod_unfold split: option.splits if_splits)

end
