(* ===== verification/Entry_Points.thy ===== *)
theory Entry_Points
  imports Kv_Service Kv_Client Pd_Server Old_Pool
begin

text \<open>
  The programs of the store and of the older connection pool around their components: the arguments
  that \<open>main\<close> reads, the mode in which a data node starts, and the commands of the demonstration client.
\<close>

subsection \<open>The data node\<close>

record node_args =
  na_ip :: string
  na_port :: uint16
  na_db :: string
  na_nodeId :: uint64
  na_peers :: "uint64 \<rightharpoonup> string"

definition default_args :: node_args where
  "default_args = \<lparr>na_ip = ''127.0.0.1'', na_port = 9100, na_db = ''/tmp/dkv_node1'', na_nodeId = 0, na_peers = Map.empty\<rparr>"

text \<open>The arguments \<open><peerId>:<peerRaftAddr>\<close>; one without a colon is ignored.\<close>

fun read_peers :: "string list \<Rightarrow> (uint64 \<rightharpoonup> string) \<Rightarrow> std_exn + (uint64 \<rightharpoonup> string)" where
  "read_peers [] m = Inr m"
| "read_peers (a # as) m =
     (case str_find (CHR '':'') a of
        None \<Rightarrow> read_peers as m
      | Some colon \<Rightarrow> (case stoull (take colon a) of
            Inl e \<Rightarrow> Inl e
          | Inr pid \<Rightarrow> read_peers as (m(pid \<mapsto> drop (Suc colon) a))))"

definition add_self :: "node_args \<Rightarrow> node_args" where
  "add_self a = (if na_peers a (na_nodeId a) = None
     then a\<lparr>na_peers := (na_peers a)(na_nodeId a \<mapsto> na_ip a @ '':'' @ dec_string (unat (na_port a)))\<rparr> else a)"

text \<open>\<open>argv\<close> without the name of the program.\<close>

definition read_node_args :: "string list \<Rightarrow> std_exn + node_args" where
  "read_node_args argv =
     (case argv of
        ip # port # db # rest \<Rightarrow>
          (case stoi port of Inl e \<Rightarrow> Inl e | Inr p \<Rightarrow>
             let a = default_args\<lparr>na_ip := ip, na_port := to_uint16 p, na_db := db\<rparr> in
             (case rest of
                [] \<Rightarrow> Inr a
              | nid # peers \<Rightarrow>
                  (case stoull nid of Inl e \<Rightarrow> Inl e | Inr n \<Rightarrow>
                     (case read_peers peers Map.empty of Inl e \<Rightarrow> Inl e
                      | Inr m \<Rightarrow> Inr (add_self (a\<lparr>na_nodeId := n, na_peers := m\<rparr>))))))
      | _ \<Rightarrow> Inr default_args)"

datatype run_mode = Cluster uint64 "uint64 \<rightharpoonup> string" | Standalone

definition node_mode :: "node_args \<Rightarrow> run_mode" where
  "node_mode a = (if na_nodeId a > 0 \<and> na_peers a \<noteq> Map.empty then Cluster (na_nodeId a) (na_peers a) else Standalone)"

text \<open>\<open>main\<close>: the address, the path of the database, the mode, and whether the timer of Raft runs.\<close>

definition node_main :: "string list \<Rightarrow> std_exn + (string \<times> uint16) \<times> string \<times> run_mode \<times> bool" where
  "node_main argv = (case read_node_args argv of Inl e \<Rightarrow> Inl e
     | Inr a \<Rightarrow> Inr ((na_ip a, na_port a), na_db a, node_mode a, na_nodeId a > 0))"

text \<open>
  The two constructors of \<open>DataServer\<close>, for the database that its engine will have opened: \<open>order\<close> is the
  iteration order of the unordered map of peers, \<open>now\<close> and \<open>rnd\<close> the clock and random readings of the node.
\<close>

definition DataServer :: "run_mode \<Rightarrow> uint64 list \<Rightarrow> int \<Rightarrow> int \<Rightarrow> 'db \<Rightarrow> 'db kv_node" where
  "DataServer mode order now rnd db =
     (case mode of
        Standalone \<Rightarrow> Single db
      | Cluster nid peers \<Rightarrow> Replicated (RaftService nid (map (\<lambda>p. (p, the (peers p))) order) db now rnd))"

text \<open>
  The rest of \<open>main\<close> up to \<open>loop.loop()\<close>: the address, the server and whether the timer is set. An exception
  ends the program; a database that cannot be opened does not, the program then runs without a server.
\<close>

definition node_start ::
  "('db, 'b) raft_env \<Rightarrow> string list \<Rightarrow> uint64 list \<Rightarrow> int \<Rightarrow> int
     \<Rightarrow> std_exn + (string \<times> uint16) \<times> 'db kv_node option \<times> bool" where
  "node_start env argv order now rnd =
     (case node_main argv of
        Inl e \<Rightarrow> Inl e
      | Inr (addr, path, mode, timer) \<Rightarrow>
          (case server_start env path (DataServer mode order now rnd) of
             None \<Rightarrow> Inr (addr, None, timer)
           | Some (Inl e) \<Rightarrow> Inl e
           | Some (Inr server) \<Rightarrow> Inr (addr, Some server, timer)))"

text \<open>The callback of the timer, on a server that has started.\<close>

definition node_timer :: "('db, 'b) raft_env \<Rightarrow> bool \<Rightarrow> int \<Rightarrow> int \<Rightarrow> int \<Rightarrow> 'db kv_node \<Rightarrow> 'db kv_node" where
  "node_timer env timer now now' rnd server = (if timer then server_tick env now now' rnd server else server)"

subsection \<open>The placement driver\<close>

text \<open>The address, and the shard manager that the server starts with.\<close>

definition pd_main :: "string list \<Rightarrow> std_exn + (string \<times> uint16) \<times> shard_manager" where
  "pd_main argv =
     (let address = (case argv of ip # port # rest \<Rightarrow>
            (case stoi port of Inl e \<Rightarrow> Inl e | Inr p \<Rightarrow> Inr (ip, to_uint16 p)) | _ \<Rightarrow> Inr (''127.0.0.1'', 8100));
          shards = (case argv of ip # port # n # rest \<Rightarrow> stoi n | _ \<Rightarrow> Inr 1)
      in case address of Inl e \<Rightarrow> Inl e | Inr a \<Rightarrow>
         (case shards of Inl e \<Rightarrow> Inl e | Inr n \<Rightarrow> Inr (a, PdServer n 3)))"

subsection \<open>The event loops\<close>

text \<open>
  \<open>loop.loop()\<close> with the handler of SIGINT and SIGTERM, which asks the loop to end: the events in the order
  in which they come, a signal being \<open>None\<close>. The flag says whether \<open>main\<close> has gone on to return, and
  \<open>None\<close> is the end of the process by an assertion that failed.
\<close>

record event_loop =
  el_quit :: bool

definition onSigint :: "event_loop option \<Rightarrow> event_loop option" where
  "onSigint g_loop = map_option (\<lambda>l. l\<lparr>el_quit := True\<rparr>) g_loop"

fun run_loop :: "('e \<Rightarrow> 's \<Rightarrow> 's option) \<Rightarrow> 'e option list \<Rightarrow> event_loop \<Rightarrow> 's \<Rightarrow> (event_loop \<times> 's) option" where
  "run_loop h [] l s = Some (l, s)"
| "run_loop h (e # es) l s =
     (if el_quit l then Some (l, s)
      else case e of
        None \<Rightarrow> run_loop h es (the (onSigint (Some l))) s
      | Some e \<Rightarrow> (case h e s of None \<Rightarrow> None | Some s \<Rightarrow> run_loop h es l s))"

datatype 'b node_event = Node_timer int int int | Node_bytes "nat \<Rightarrow> int \<times> int \<times> int" 'b

text \<open>The state is what has been sent and the server.\<close>

fun on_node_event :: "('db, 'b) raft_env \<Rightarrow> bool \<Rightarrow> 'b node_event \<Rightarrow> string list \<times> 'db kv_node \<Rightarrow> (string list \<times> 'db kv_node) option" where
  "on_node_event env timer (Node_timer now now' rnd) (out, server) = Some (out, node_timer env timer now now' rnd server)"
| "on_node_event env timer (Node_bytes clk buf) (out, server) =
     (case server_onMessage env clk buf server of
        Some (buf', (c, out', server'), aborted) \<Rightarrow> if aborted then None else Some (out @ out', server')
      | None \<Rightarrow> None)"

datatype 'b pd_event = Pd_timer "uint64 list" "uint64 list" int | Pd_bytes "nat \<Rightarrow> int" 'b

fun on_pd_event :: "'b pd_env \<Rightarrow> 'b pd_event \<Rightarrow> string list \<times> shard_manager \<Rightarrow> (string list \<times> shard_manager) option" where
  "on_pd_event env (Pd_timer order order' now) (out, m) = Some (out, pd_tick order order' now m)"
| "on_pd_event env (Pd_bytes clk buf) (out, m) =
     (case pd_onMessage env clk buf m of
        Some (buf', (out', m'), aborted) \<Rightarrow> if aborted then None else Some (out @ out', m')
      | None \<Rightarrow> None)"

text \<open>
  A data node whose database could not be opened still runs its loop: it does not listen, so no bytes
  come; a node that stands alone has no timer; and the timer of a cluster member drives a Raft node that has recovered nothing,
  until its first election, whose first access to the database that is not there ends the process.
\<close>

definition unopened_node :: "run_mode \<Rightarrow> uint64 list \<Rightarrow> int \<Rightarrow> int \<Rightarrow> raft_node option" where
  "unopened_node mode order now rnd =
     (case DataServer mode order now rnd () of Single db \<Rightarrow> None | Replicated rs \<Rightarrow> Some (rs_raft rs))"

fun on_unopened_event :: "bool \<Rightarrow> 'b node_event \<Rightarrow> raft_node option \<Rightarrow> raft_node option option" where
  "on_unopened_event timer (Node_timer now now' rnd) raft =
     (case raft of None \<Rightarrow> Some None
      | Some n \<Rightarrow> if \<not> timer then Some raft
          else let (n, effs) = tick now now' rnd n in if effs = [] then Some (Some n) else None)"
| "on_unopened_event timer (Node_bytes clk buf) raft = Some raft"

text \<open>
  \<open>main\<close> of both programs as a whole, up to its return; a data node whose database could not be opened has no server.
\<close>

definition node_program ::
  "('db, 'b) raft_env \<Rightarrow> string list \<Rightarrow> uint64 list \<Rightarrow> int \<Rightarrow> int \<Rightarrow> 'b node_event option list
     \<Rightarrow> std_exn + (event_loop \<times> string list \<times> 'db kv_node option) option" where
  "node_program env argv order now rnd events =
     (case node_main argv of
        Inl e \<Rightarrow> Inl e
      | Inr (addr, path, mode, timer) \<Rightarrow>
          (case node_start env argv order now rnd of
             Inl e \<Rightarrow> Inl e
           | Inr (addr, None, timer) \<Rightarrow>
               Inr (map_option (\<lambda>(l, raft). (l, [], None))
                 (run_loop (on_unopened_event timer) events \<lparr>el_quit = False\<rparr> (unopened_node mode order now rnd)))
           | Inr (addr, Some server, timer) \<Rightarrow>
               Inr (map_option (\<lambda>(l, out, server). (l, out, Some server))
                 (run_loop (on_node_event env timer) events \<lparr>el_quit = False\<rparr> ([], server)))))"

definition pd_program :: "'b pd_env \<Rightarrow> string list \<Rightarrow> 'b pd_event option list
    \<Rightarrow> std_exn + (event_loop \<times> string list \<times> shard_manager) option" where
  "pd_program env argv events =
     (case pd_main argv of
        Inl e \<Rightarrow> Inl e
      | Inr (addr, m) \<Rightarrow> Inr (run_loop (on_pd_event env) events \<lparr>el_quit = False\<rparr> ([], m)))"

lemma quit_loop [simp]: "el_quit l \<Longrightarrow> run_loop h es l s = Some (l, s)"
  by (cases es) simp_all

text \<open>A signal ends the loop: what would come after it has no effect, and what came before it is done.\<close>

lemma run_loop_signal:
  assumes "\<not> el_quit l"
  shows "run_loop h (map Some es @ None # es') l s =
     map_option (\<lambda>(l', s'). (l\<lparr>el_quit := True\<rparr>, s')) (run_loop h (map Some es) l s)"
  using assms by (induction es arbitrary: s) (auto simp: onSigint_def split: option.split)

subsection \<open>The demonstration client\<close>

definition cli_address :: "string list \<Rightarrow> std_exn + string \<times> uint16" where
  "cli_address argv = (case argv of
     [ip, port] \<Rightarrow> (case stoi port of Inl e \<Rightarrow> Inl e | Inr p \<Rightarrow> Inr (ip, to_uint16 p))
   | _ \<Rightarrow> Inr (''127.0.0.1'', 9100))"

text \<open>\<open>iss >> word\<close>: blanks are skipped, the word ends before the next blank.\<close>

definition read_word :: "string \<Rightarrow> string \<times> string" where
  "read_word s = (let t = dropWhile is_space_char s in
     (takeWhile (\<lambda>c. \<not> is_space_char c) t, dropWhile (\<lambda>c. \<not> is_space_char c) t))"

datatype cli_answer = Usage string | Done | Failed | Found string | Not_found | Nothing
  | Results "(string \<times> string) list" | Unknown string | Help

definition cli_put :: "'w client_env \<Rightarrow> string \<Rightarrow> kv_client \<Rightarrow> 'w \<Rightarrow> std_exn + cli_answer \<times> kv_client \<times> 'w" where
  "cli_put env s c w =
     (let (key, s) = read_word s;
          val = (case s of x # t \<Rightarrow> if x = CHR '' '' then t else s | [] \<Rightarrow> [])
      in if key = [] \<or> val = [] then Inr (Usage ''put'', c, w)
         else (case client_put env key val c w of Inl e \<Rightarrow> Inl e | Inr (ok, c, w) \<Rightarrow> Inr (if ok then Done else Failed, c, w)))"

definition cli_get :: "'w client_env \<Rightarrow> string \<Rightarrow> kv_client \<Rightarrow> 'w \<Rightarrow> std_exn + cli_answer \<times> kv_client \<times> 'w" where
  "cli_get env s c w =
     (let (key, s) = read_word s
      in if key = [] then Inr (Usage ''get'', c, w)
         else (case client_get env key c w of Inl e \<Rightarrow> Inl e
           | Inr (v, c, w) \<Rightarrow> Inr (case v of None \<Rightarrow> Not_found | Some x \<Rightarrow> Found x, c, w)))"

definition cli_del :: "'w client_env \<Rightarrow> string \<Rightarrow> kv_client \<Rightarrow> 'w \<Rightarrow> std_exn + cli_answer \<times> kv_client \<times> 'w" where
  "cli_del env s c w =
     (let (key, s) = read_word s
      in if key = [] then Inr (Usage ''del'', c, w)
         else (case client_del env key c w of Inl e \<Rightarrow> Inl e | Inr (ok, c, w) \<Rightarrow> Inr (if ok then Done else Not_found, c, w)))"

definition cli_scan :: "'w client_env \<Rightarrow> string \<Rightarrow> kv_client \<Rightarrow> 'w \<Rightarrow> std_exn + cli_answer \<times> kv_client \<times> 'w" where
  "cli_scan env s c w =
     (let (start, s) = read_word s; (end_key, s) = read_word s
      in case client_scan env start end_key 100 c w of Inl e \<Rightarrow> Inl e
         | Inr (kvs, c, w) \<Rightarrow> Inr (if kvs = [] then Nothing else Results kvs, c, w))"

definition cli_line :: "'w client_env \<Rightarrow> string \<Rightarrow> kv_client \<Rightarrow> 'w \<Rightarrow> std_exn + cli_answer \<times> kv_client \<times> 'w" where
  "cli_line env line c w =
     (let (cmd, s) = read_word line in
      if cmd = ''put'' then cli_put env s c w
      else if cmd = ''get'' then cli_get env s c w
      else if cmd = ''del'' then cli_del env s c w
      else if cmd = ''scan'' then cli_scan env s c w
      else if cmd = ''help'' then Inr (Help, c, w)
      else Inr (Unknown cmd, c, w))"

fun cli_loop :: "'w client_env \<Rightarrow> string list \<Rightarrow> kv_client \<Rightarrow> 'w \<Rightarrow> std_exn + cli_answer list \<times> kv_client \<times> 'w" where
  "cli_loop env [] c w = Inr ([], client_close c, w)"
| "cli_loop env (line # ls) c w =
     (if line = ''quit'' then Inr ([], client_close c, w)
      else if line = [] then cli_loop env ls c w
      else case cli_line env line c w of Inl e \<Rightarrow> Inl e
        | Inr (a, c, w) \<Rightarrow> (case cli_loop env ls c w of Inl e \<Rightarrow> Inl e | Inr (as, r) \<Rightarrow> Inr (a # as, r)))"

definition cli_main :: "'w client_env \<Rightarrow> string list \<Rightarrow> string list \<Rightarrow> 'w \<Rightarrow> std_exn + (int \<times> cli_answer list) \<times> 'w" where
  "cli_main env argv input w =
     (case cli_address argv of Inl e \<Rightarrow> Inl e
      | Inr (ip, port) \<Rightarrow>
          let (ok, c) = client_connect ip port KvClient in
          if \<not> ok then Inr ((- 1, []), w)
          else (case cli_loop env input c w of Inl e \<Rightarrow> Inl e | Inr (as, c, w) \<Rightarrow> Inr ((0, as), w)))"

subsection \<open>The program of the older pool\<close>

text \<open>What it prints is the result of one insertion; a pool or connection that is null is dereferenced.\<close>

definition sql_insert_student :: string where
  "sql_insert_student = ''insert into student(name,age) values(?,?)''"

definition old_main :: "'w mysql_api \<Rightarrow> string option \<Rightarrow> 'w \<Rightarrow> (chat_exn + bool) \<times> 'w" where
  "old_main api conf w =
     (case old_getConnectPool api conf w of
        (Inl e, w) \<Rightarrow> (Inl e, w)
      | (Inr None, w) \<Rightarrow> (Inl Null_deref, w)
      | (Inr (Some p), w) \<Rightarrow>
          (case old_getconn p of
             Inl e \<Rightarrow> (Inl e, w)
           | Inr (None, p) \<Rightarrow> (Inl Null_deref, w)
           | Inr (Some d, p) \<Rightarrow> let (re, w) = old_execute api d sql_insert_student [ArgCString ''hsj'', ArgInt 22] w in (Inr re, w)))"

subsection \<open>Properties\<close>

lemma read_word_append:
  assumes "k \<noteq> []" and "list_all (\<lambda>c. \<not> is_space_char c) k" and "s = [] \<or> is_space_char (hd s)"
  shows "read_word (k @ s) = (k, s)"
proof -
  have "dropWhile is_space_char (k @ s) = k @ s" using assms(1,2) by (cases k) auto
  moreover have "takeWhile (\<lambda>c. \<not> is_space_char c) (k @ s) = k" "dropWhile (\<lambda>c. \<not> is_space_char c) (k @ s) = s"
    using assms(2,3) by (cases s; auto simp: takeWhile_append2 dropWhile_append2 list_all_iff)+
  ultimately show ?thesis by (simp add: read_word_def)
qed

lemma read_word_blank: "read_word (CHR '' '' # s) = read_word s"
  by (simp add: read_word_def is_space_char_def)

lemma cmd_word [simp]:
  "read_word (''put'' @ CHR '' '' # s) = (''put'', CHR '' '' # s)" "read_word (''get'' @ CHR '' '' # s) = (''get'', CHR '' '' # s)"
  by (rule read_word_append; simp add: is_space_char_def)+

text \<open>
  The line \<open>put key value\<close> stores exactly this value under this key, whatever characters the value has,
  and \<open>get key\<close> asks for exactly this key, when the key is a word without blanks.
\<close>

lemma cli_put_get_lines:
  assumes "key \<noteq> []" and "list_all (\<lambda>c. \<not> is_space_char c) key" and "val \<noteq> []"
  shows "cli_line env (''put'' @ CHR '' '' # key @ CHR '' '' # val) c w
      = (case client_put env key val c w of Inl e \<Rightarrow> Inl e | Inr (ok, c, w) \<Rightarrow> Inr (if ok then Done else Failed, c, w))"
    and "cli_line env (''get'' @ CHR '' '' # key) c w
      = (case client_get env key c w of Inl e \<Rightarrow> Inl e
         | Inr (v, c, w) \<Rightarrow> Inr (case v of None \<Rightarrow> Not_found | Some x \<Rightarrow> Found x, c, w))"
proof -
  have "read_word (key @ CHR '' '' # val) = (key, CHR '' '' # val)" "read_word (key @ []) = (key, [])"
    using assms(1,2) by (simp_all add: read_word_append is_space_char_def del: append_Nil2)
  then show "cli_line env (''put'' @ CHR '' '' # key @ CHR '' '' # val) c w
      = (case client_put env key val c w of Inl e \<Rightarrow> Inl e | Inr (ok, c, w) \<Rightarrow> Inr (if ok then Done else Failed, c, w))"
    and "cli_line env (''get'' @ CHR '' '' # key) c w
      = (case client_get env key c w of Inl e \<Rightarrow> Inl e
         | Inr (v, c, w) \<Rightarrow> Inr (case v of None \<Rightarrow> Not_found | Some x \<Rightarrow> Found x, c, w))"
    using assms(1,3) by (simp_all add: cli_line_def cli_put_def cli_get_def read_word_blank del: append_Cons)
qed

text \<open>
  A node that is started with a node id other than 0 runs Raft and knows an address for itself; every other
  node stands alone.
\<close>

lemma node_main_mode:
  assumes "node_main argv = Inr (addr, db, mode, timer)"
  shows "case mode of Cluster n m \<Rightarrow> timer \<and> n > 0 \<and> m n \<noteq> None | Standalone \<Rightarrow> \<not> timer"
proof -
  from assms obtain a where a: "read_node_args argv = Inr a" "mode = node_mode a" "timer = (na_nodeId a > 0)"
    by (auto simp: node_main_def split: sum.splits)
  have "na_nodeId a > 0 \<longrightarrow> na_peers a (na_nodeId a) \<noteq> None"
    using a(1) by (auto simp: read_node_args_def default_args_def add_self_def Let_def split: list.splits sum.splits if_splits)
  then show ?thesis using a by (auto simp: node_mode_def)
qed

text \<open>
  A member of a cluster that has started is a follower under its own id; its table of addresses is what the
  arguments say, and its peers are all the other members, each once, so that the majorities it counts are
  majorities of the members. The timer drives it.
\<close>

lemma rs_start_node:
  assumes "rs_start env rs = Inr rs'"
  shows "\<exists>n. rs' = rs\<lparr>rs_raft := n\<rparr> \<and> nodeState n = nodeState (rs_raft rs)
      \<and> nodeId n = nodeId (rs_raft rs) \<and> peerIds n = peerIds (rs_raft rs)"
  using assms by (auto simp: rs_start_def recoverRaftState_def loadPersistedState_def Let_def
      split: sum.splits if_splits)

lemma server_start_Some:
  "server_start env path mk = Some (Inr server) \<longleftrightarrow>
     (\<exists>db. db_Open (env_db env) path = (Ok, db) \<and>
       (case mk db of Single d \<Rightarrow> server = Single d
        | Replicated rs \<Rightarrow> \<exists>rs'. rs_start env rs = Inr rs' \<and> server = Replicated rs'))"
proof (cases "db_Open (env_db env) path")
  case (Pair s db)
  then show ?thesis
    by (cases s) (auto simp: server_start_def engine_open_def RocksEngine_def split: kv_node.splits sum.splits)
qed

lemma node_start_Some:
  "node_main argv = Inr (addr, path, mode, timer) \<Longrightarrow>
     node_start env argv order now rnd = Inr (addr', Some server, timer') \<longleftrightarrow>
       server_start env path (DataServer mode order now rnd) = Some (Inr server) \<and> addr' = addr \<and> timer' = timer"
  by (auto simp: node_start_def split: option.splits sum.splits)

theorem member_started:
  assumes "node_start env argv order now rnd = Inr (addr, Some (Replicated rs), timer)"
    and "node_main argv = Inr (addr, path, Cluster nid peers, timer)"
    and "distinct order" and "set order = dom peers"
  shows "timer \<and> rs_nodeId rs = nid \<and> map_of (rs_peerAddrs rs) = peers \<and> nodeState (rs_raft rs) = FOLLOWER
      \<and> nodeId (rs_raft rs) = nid \<and> distinct (peerIds (rs_raft rs)) \<and> set (peerIds (rs_raft rs)) = dom peers - {nid}
      \<and> length (peerIds (rs_raft rs)) + 1 = card (dom peers)"
proof -
  let ?addrs = "map (\<lambda>p. (p, the (peers p))) order"
  obtain db rs0 where rs0: "rs0 = RaftService nid ?addrs db now rnd" "rs_start env rs0 = Inr rs"
    using assms(1) unfolding node_start_Some [OF assms(2)] server_start_Some by (auto simp: DataServer_def)
  have ids: "map fst (filter (\<lambda>p. fst p \<noteq> nid) ?addrs) = filter (\<lambda>p. p \<noteq> nid) order"
    by (simp add: filter_map comp_def)
  have "map_of ?addrs = peers"
    using assms(4) by (auto simp: map_of_map_key fun_eq_iff)
  moreover have "timer" "nid \<in> dom peers" using node_main_mode [OF assms(2)] by auto
  moreover have "length (filter (\<lambda>p. p \<noteq> nid) order) + 1 = card (dom peers)"
  proof -
    have "set (filter (\<lambda>p. p \<noteq> nid) order) = dom peers - {nid}" using assms(4) by auto
    then have "length (filter (\<lambda>p. p \<noteq> nid) order) = card (dom peers - {nid})"
      using distinct_card [of "filter (\<lambda>p. p \<noteq> nid) order"] assms(3) by simp
    moreover have "finite (dom peers)" using assms(4) [symmetric] by simp
    ultimately show ?thesis using card_Suc_Diff1 [of "dom peers" nid] \<open>nid \<in> dom peers\<close> by linarith
  qed
  ultimately show ?thesis
    using rs_start_node [OF rs0(2)] rs0(1) ids assms(3,4)
    by (auto simp: RaftService_def new_node_def)
qed

text \<open>Three arguments start a node that stands alone, with the database of the third, and nothing ever ticks.\<close>

theorem standalone_started:
  assumes "stoi port = Inr p" and "db_Open (env_db env) path = (Ok, db)"
  shows "node_start env [ip, port, path] order now rnd = Inr ((ip, to_uint16 p), Some (Single db), False)"
    and "node_timer env False t t' r server = server"
  using assms by (simp_all add: node_start_def node_main_def read_node_args_def node_mode_def default_args_def
      server_start_def DataServer_def engine_open_def RocksEngine_def node_timer_def)

end
