(* ===== verification/Chat_Model.thy ===== *)
theory Chat_Model
  imports Connect_Pool
begin

text \<open>
  Users, messages and friends of the chat server: \<open>user.cpp\<close>, \<open>message.cpp\<close> and \<open>usermodel.cpp\<close>, over the
  connection pool. The database is what the MySQL library reaches; its statements are the SQL
  texts of the source.
\<close>

subsection \<open>Functions that may throw\<close>

type_synonym ('a, 's) action = "'s \<Rightarrow> (chat_exn + 'a) \<times> 's"

definition act_return :: "'a \<Rightarrow> ('a, 's) action" where
  "act_return x s = (Inr x, s)"

definition act_throw :: "chat_exn \<Rightarrow> ('a, 's) action" where
  "act_throw e s = (Inl e, s)"

definition act_bind :: "('a, 's) action \<Rightarrow> ('a \<Rightarrow> ('b, 's) action) \<Rightarrow> ('b, 's) action" where
  "act_bind m f s = (case m s of (Inl e, s) \<Rightarrow> (Inl e, s) | (Inr x, s) \<Rightarrow> f x s)"

lemma act_simps [simp]:
  "act_bind (act_return x) f = f x" "act_bind (act_throw e) f = act_throw e"
  "act_return x s = (Inr x, s)" "act_throw e s = (Inl e, s)"
  by (simp_all add: act_bind_def act_return_def act_throw_def fun_eq_iff)

lemma act_bind_step:
  "m s = (Inr x, s') \<Longrightarrow> act_bind m f s = f x s'" "m s = (Inl e, s') \<Longrightarrow> act_bind m f s = (Inl e, s')"
  by (simp_all add: act_bind_def)

fun map_exn :: "('a \<Rightarrow> chat_exn + 'b) \<Rightarrow> 'a list \<Rightarrow> chat_exn + 'b list" where
  "map_exn f [] = Inr []"
| "map_exn f (x # xs) = (case f x of Inl e \<Rightarrow> Inl e
     | Inr y \<Rightarrow> (case map_exn f xs of Inl e \<Rightarrow> Inl e | Inr ys \<Rightarrow> Inr (y # ys)))"

lemma map_exn_Inr: "(\<And>x. x \<in> set xs \<Longrightarrow> f x = Inr (g x)) \<Longrightarrow> map_exn f xs = Inr (map g xs)"
  by (induction xs) auto

lemma map_exn_all:
  "\<forall>x \<in> set xs. \<exists>y. f x = Inr y \<Longrightarrow> \<exists>ys. map_exn f xs = Inr ys \<and> set ys = {y. \<exists>x \<in> set xs. f x = Inr y}"
proof (induction xs)
  case (Cons x xs)
  then obtain y ys where "f x = Inr y" "map_exn f xs = Inr ys" "set ys = {y. \<exists>x \<in> set xs. f x = Inr y}" by auto
  then show ?case by auto
qed simp

text \<open>\<open>row[k]\<close> and \<open>stoi(row[k])\<close>; a column that does not exist is out of bounds.\<close>

definition col :: "string list \<Rightarrow> nat \<Rightarrow> chat_exn + string" where
  "col row k = (if k < length row then Inr (row ! k) else Inl Out_of_bounds)"

definition int_col :: "string list \<Rightarrow> nat \<Rightarrow> chat_exn + int" where
  "int_col row k = (case col row k of Inl e \<Rightarrow> Inl e
     | Inr s \<Rightarrow> (case stoi s of Inl e \<Rightarrow> Inl (Std e) | Inr i \<Rightarrow> Inr i))"

subsection \<open>Users, messages, friend entries\<close>

record user =
  us_id :: int
  us_name :: string
  us_pwd :: string
  us_state :: string

definition User :: "int \<Rightarrow> string \<Rightarrow> string \<Rightarrow> string \<Rightarrow> user" where
  "User i name pwd state = \<lparr>us_id = i, us_name = name, us_pwd = pwd, us_state = state\<rparr>"

definition default_user :: user where
  "default_user = User (- 1) [] [] ''offline''"

definition setid :: "int \<Rightarrow> user \<Rightarrow> user" where "setid i u = u\<lparr>us_id := i\<rparr>"
definition setname :: "string \<Rightarrow> user \<Rightarrow> user" where "setname s u = u\<lparr>us_name := s\<rparr>"
definition setpwd :: "string \<Rightarrow> user \<Rightarrow> user" where "setpwd s u = u\<lparr>us_pwd := s\<rparr>"
definition setstate :: "string \<Rightarrow> user \<Rightarrow> user" where "setstate s u = u\<lparr>us_state := s\<rparr>"

record message =
  ms_msgid :: int
  ms_fromid :: int
  ms_toid :: int
  ms_content :: string
  ms_time :: string

definition Message :: message where
  "Message = \<lparr>ms_msgid = - 1, ms_fromid = - 1, ms_toid = - 1, ms_content = [], ms_time = []\<rparr>"

definition Message_of :: "int \<Rightarrow> int \<Rightarrow> int \<Rightarrow> string \<Rightarrow> string \<Rightarrow> message" where
  "Message_of i f t c tm = \<lparr>ms_msgid = i, ms_fromid = f, ms_toid = t, ms_content = c, ms_time = tm\<rparr>"

definition setMsgid :: "int \<Rightarrow> message \<Rightarrow> message" where "setMsgid i m = m\<lparr>ms_msgid := i\<rparr>"
definition setFromid :: "int \<Rightarrow> message \<Rightarrow> message" where "setFromid i m = m\<lparr>ms_fromid := i\<rparr>"
definition setToid :: "int \<Rightarrow> message \<Rightarrow> message" where "setToid i m = m\<lparr>ms_toid := i\<rparr>"
definition setContent :: "string \<Rightarrow> message \<Rightarrow> message" where "setContent s m = m\<lparr>ms_content := s\<rparr>"
definition setTime :: "string \<Rightarrow> message \<Rightarrow> message" where "setTime s m = m\<lparr>ms_time := s\<rparr>"

record friend_apply =
  fa_userId :: int
  fa_userName :: string
  fa_applyTime :: string
  fa_remark :: string

subsection \<open>The pool as the server uses it\<close>

text \<open>
  The static pool object, built by the first call that succeeds, the configuration file and the
  library.
\<close>

record 'w backend =
  bk_pool :: "conn_pool option"
  bk_conf :: "string option"
  bk_world :: 'w

text \<open>\<open>ConnectPool::getConnectPool()->getconn()\<close>: a null pool or a null connection is dereferenced.\<close>

definition use_pool :: "'w mysql_api \<Rightarrow> (conn_pool, 'w backend) action" where
  "use_pool api bk =
     (case bk_pool bk of
        Some p \<Rightarrow> (Inr p, bk)
      | None \<Rightarrow> (case getConnectPool api (bk_conf bk) (bk_world bk) of
            (Inl e, w) \<Rightarrow> (Inl e, bk\<lparr>bk_world := w\<rparr>)
          | (Inr None, w) \<Rightarrow> (Inl Null_deref, bk\<lparr>bk_world := w\<rparr>)
          | (Inr (Some p), w) \<Rightarrow> (Inr p, bk\<lparr>bk_pool := Some p, bk_world := w\<rparr>)))"

definition take_conn :: "'w mysql_api \<Rightarrow> (mysql_db, 'w backend) action" where
  "take_conn api = act_bind (use_pool api) (\<lambda>p bk.
     (case getconn p of
        Inl e \<Rightarrow> (Inl e, bk)
      | Inr (None, p) \<Rightarrow> (Inl Null_deref, bk)
      | Inr (Some d, p) \<Rightarrow> (Inr d, bk\<lparr>bk_pool := Some p\<rparr>)))"

text \<open>The connection goes back to the pool when the function ends, also with an exception.\<close>

definition with_conn ::
  "'w mysql_api \<Rightarrow> int \<Rightarrow> (mysql_db \<Rightarrow> 'w \<Rightarrow> (chat_exn + 'a) \<times> 'w) \<Rightarrow> ('a, 'w backend) action" where
  "with_conn api now f = act_bind (take_conn api) (\<lambda>d bk.
     let (r, w) = f d (bk_world bk)
     in (r, bk\<lparr>bk_pool := map_option (return_conn now d) (bk_pool bk), bk_world := w\<rparr>))"

subsection \<open>The statements\<close>

definition sql_insert_user :: string where
  "sql_insert_user = ''INSERT INTO user (username,password) VALUES (?,?)''"
definition sql_select_user :: string where
  "sql_select_user = ''SELECT * FROM user WHERE id = ?''"
definition sql_update_state :: string where
  "sql_update_state = ''UPDATE user SET state=? where id=?''"
definition sql_insert_message :: string where
  "sql_insert_message = ''INSERT INTO message (fromid, toid, content) VALUES (?,?,?)''"
definition sql_select_time :: string where
  "sql_select_time = ''SELECT createtime FROM message WHERE msgid =  ?''"
definition sql_ack_message :: string where
  "sql_ack_message = ''update message set status=1 where msgid=?''"
definition sql_select_offline :: string where
  "sql_select_offline = ''select msgid,fromid,content,createtime from message where toid =? and status=0''"
definition sql_apply_friend :: string where
  "sql_apply_friend = ''insert into friend(user_id,friend_id,status) values(?,?,0)''"
definition sql_accept_friend :: string where
  "sql_accept_friend = ''update friend set status=1 where user_id=? and friend_id=?''"
definition sql_add_friend :: string where
  "sql_add_friend = ''INSERT INTO friend(user_id, friend_id, status) VALUES(?, ?, 1) ON DUPLICATE KEY UPDATE status = 1''"
definition sql_delete_friend :: string where
  "sql_delete_friend = ''DELETE FROM friend WHERE user_id=? AND friend_id=?''"
definition sql_select_applies :: string where
  "sql_select_applies = ''SELECT f.user_id, u.username, f.add_time FROM friend f JOIN user u ON f.user_id = u.id WHERE f.friend_id = ? AND status = 0''"
definition sql_select_friends :: string where
  "sql_select_friends = ''SELECT f.friend_id, u.username, f.remark, f.add_time FROM friend f JOIN user u ON f.friend_id = u.id WHERE f.user_id = ? AND status = 1;''"

subsection \<open>UserModel\<close>

text \<open>\<open>now\<close> is the clock when the connection goes back. \<open>insert\<close> sets the id also when it fails, to 0.\<close>

definition um_insert :: "'w mysql_api \<Rightarrow> int \<Rightarrow> user \<Rightarrow> (bool \<times> user, 'w backend) action" where
  "um_insert api now u = with_conn api now (\<lambda>d w.
     let ((ret, i), w) = db_execute_insert api d sql_insert_user 0 [ArgString (us_name u), ArgString (us_pwd u)] w
     in (Inr (ret, setid i u), w))"

definition user_of_row :: "string list \<Rightarrow> chat_exn + user" where
  "user_of_row r =
     (case int_col r 0 of Inl e \<Rightarrow> Inl e | Inr i \<Rightarrow> case col r 1 of Inl e \<Rightarrow> Inl e | Inr name \<Rightarrow>
      case col r 2 of Inl e \<Rightarrow> Inl e | Inr pwd \<Rightarrow> case col r 3 of Inl e \<Rightarrow> Inl e | Inr state \<Rightarrow>
        Inr (User i name pwd state))"

definition um_query :: "'w mysql_api \<Rightarrow> int \<Rightarrow> int \<Rightarrow> (user, 'w backend) action" where
  "um_query api now i = with_conn api now (\<lambda>d w.
     let (ret, w) = db_query api d sql_select_user [ArgInt i] w
     in (case ret of Inl e \<Rightarrow> Inl e | Inr [] \<Rightarrow> Inr default_user | Inr (r # rs) \<Rightarrow> user_of_row r, w))"

definition updateStates :: "'w mysql_api \<Rightarrow> int \<Rightarrow> int \<Rightarrow> string \<Rightarrow> (bool, 'w backend) action" where
  "updateStates api now i state = with_conn api now (\<lambda>d w.
     let (ret, w) = db_execute api d sql_update_state [ArgString state, ArgInt i] w in (Inr ret, w))"

definition insertMessage :: "'w mysql_api \<Rightarrow> int \<Rightarrow> int \<Rightarrow> int \<Rightarrow> string \<Rightarrow> (message, 'w backend) action" where
  "insertMessage api now fromid toid msg = with_conn api now (\<lambda>d w.
     let ((ok, i), w) = db_execute_insert api d sql_insert_message 0 [ArgInt fromid, ArgInt toid, ArgString msg] w;
         m = setMsgid i Message;
         (ret, w) = db_query api d sql_select_time [ArgInt i] w
     in (case ret of Inl e \<Rightarrow> Inl e | Inr [] \<Rightarrow> Inr m
           | Inr (r # rs) \<Rightarrow> (case col r 0 of Inl e \<Rightarrow> Inl e | Inr t \<Rightarrow> Inr (setTime t m)), w))"

definition updateMesStatus :: "'w mysql_api \<Rightarrow> int \<Rightarrow> int \<Rightarrow> (bool, 'w backend) action" where
  "updateMesStatus api now messageID = with_conn api now (\<lambda>d w.
     let (ret, w) = db_execute api d sql_ack_message [ArgInt messageID] w in (Inr ret, w))"

definition message_of_row :: "string list \<Rightarrow> chat_exn + message" where
  "message_of_row r =
     (case int_col r 0 of Inl e \<Rightarrow> Inl e | Inr i \<Rightarrow> case int_col r 1 of Inl e \<Rightarrow> Inl e | Inr from \<Rightarrow>
      case col r 2 of Inl e \<Rightarrow> Inl e | Inr content \<Rightarrow> case col r 3 of Inl e \<Rightarrow> Inl e | Inr t \<Rightarrow>
        Inr (setTime t (setContent content (setFromid from (setMsgid i Message)))))"

definition getofflineMessage :: "'w mysql_api \<Rightarrow> int \<Rightarrow> int \<Rightarrow> (message list, 'w backend) action" where
  "getofflineMessage api now i = with_conn api now (\<lambda>d w.
     let (ret, w) = db_query api d sql_select_offline [ArgInt i] w
     in (case ret of Inl e \<Rightarrow> Inl e | Inr rows \<Rightarrow> map_exn message_of_row rows, w))"

definition applyFriend :: "'w mysql_api \<Rightarrow> int \<Rightarrow> int \<Rightarrow> int \<Rightarrow> (bool, 'w backend) action" where
  "applyFriend api now u_id f_id = with_conn api now (\<lambda>d w.
     let (ret, w) = db_execute api d sql_apply_friend [ArgInt u_id, ArgInt f_id] w in (Inr ret, w))"

definition agreeFriend :: "'w mysql_api \<Rightarrow> int \<Rightarrow> int \<Rightarrow> int \<Rightarrow> (bool, 'w backend) action" where
  "agreeFriend api now u_id f_id = with_conn api now (\<lambda>d w.
     let (ret, w) = db_execute api d sql_accept_friend [ArgInt u_id, ArgInt f_id] w in
     if ret then let (retc, w) = db_execute api d sql_add_friend [ArgInt f_id, ArgInt u_id] w in (Inr retc, w)
     else (Inr ret, w))"

definition refuseFriend :: "'w mysql_api \<Rightarrow> int \<Rightarrow> int \<Rightarrow> int \<Rightarrow> (bool, 'w backend) action" where
  "refuseFriend api now u_id f_id = with_conn api now (\<lambda>d w.
     let (ret, w) = db_execute api d sql_delete_friend [ArgInt u_id, ArgInt f_id] w in (Inr ret, w))"

text \<open>The \<open>remark\<close> of an entry of the list of applications stays empty.\<close>

definition apply_of_row :: "string list \<Rightarrow> chat_exn + friend_apply" where
  "apply_of_row r =
     (case int_col r 0 of Inl e \<Rightarrow> Inl e | Inr i \<Rightarrow> case col r 1 of Inl e \<Rightarrow> Inl e | Inr name \<Rightarrow>
      case col r 2 of Inl e \<Rightarrow> Inl e | Inr t \<Rightarrow>
        Inr \<lparr>fa_userId = i, fa_userName = name, fa_applyTime = t, fa_remark = []\<rparr>)"

definition getApplyList :: "'w mysql_api \<Rightarrow> int \<Rightarrow> int \<Rightarrow> (friend_apply list, 'w backend) action" where
  "getApplyList api now u_id = with_conn api now (\<lambda>d w.
     let (ret, w) = db_query api d sql_select_applies [ArgInt u_id] w
     in (case ret of Inl e \<Rightarrow> Inl e | Inr rows \<Rightarrow> map_exn apply_of_row rows, w))"

definition friend_of_row :: "string list \<Rightarrow> chat_exn + friend_apply" where
  "friend_of_row r =
     (case int_col r 0 of Inl e \<Rightarrow> Inl e | Inr i \<Rightarrow> case col r 1 of Inl e \<Rightarrow> Inl e | Inr name \<Rightarrow>
      case col r 2 of Inl e \<Rightarrow> Inl e | Inr remark \<Rightarrow> case col r 3 of Inl e \<Rightarrow> Inl e | Inr t \<Rightarrow>
        Inr \<lparr>fa_userId = i, fa_userName = name, fa_applyTime = t, fa_remark = remark\<rparr>)"

definition getFriendList :: "'w mysql_api \<Rightarrow> int \<Rightarrow> int \<Rightarrow> (friend_apply list, 'w backend) action" where
  "getFriendList api now u_id = with_conn api now (\<lambda>d w.
     let (ret, w) = db_query api d sql_select_friends [ArgInt u_id] w
     in (case ret of Inl e \<Rightarrow> Inl e | Inr rows \<Rightarrow> map_exn friend_of_row rows, w))"

end
