(* ===== verification/Chat_Db.thy ===== *)
theory Chat_Db
  imports Chat_Model
begin

text \<open>
  What \<open>UserModel\<close> does to the tables of the chat database. The behaviour of MySQL on the statements of
  the source is assumed, for a database that answers; the operations are then shown to act on the
  tables as intended, or not.
\<close>

subsection \<open>The tables\<close>

record msg_row =
  mr_id :: int
  mr_from :: int
  mr_to :: int
  mr_content :: string
  mr_read :: bool
  mr_time :: string

record chat_tables =
  ct_users :: "int \<rightharpoonup> string \<times> string \<times> string"
  ct_messages :: "msg_row list"
  ct_friends :: "int \<times> int \<rightharpoonup> bool \<times> string \<times> string"

lemma stoi_int_text: "0 \<le> i \<Longrightarrow> i < 2 ^ 31 \<Longrightarrow> stoi (int_text i) = Inr i"
  using stoi_dec_string [of "nat i"] by (simp add: int_text_def)

definition user_cells :: "int \<Rightarrow> string \<times> string \<times> string \<Rightarrow> string list" where
  "user_cells i u = (case u of (name, pwd, state) \<Rightarrow> [int_text i, name, pwd, state])"

definition message_cells :: "msg_row \<Rightarrow> string list" where
  "message_cells m = [int_text (mr_id m), int_text (mr_from m), mr_content m, mr_time m]"

definition unread_for :: "int \<Rightarrow> chat_tables \<Rightarrow> msg_row list" where
  "unread_for i t = filter (\<lambda>m. mr_to m = i \<and> \<not> mr_read m) (ct_messages t)"

text \<open>The rows of the two joins on friends and users.\<close>

definition apply_rows :: "int \<Rightarrow> chat_tables \<Rightarrow> string list set" where
  "apply_rows f t = {row. \<exists>k. (case k of (u, name, tm) \<Rightarrow>
     \<exists>pwd st rm. ct_friends t (u, f) = Some (False, rm, tm) \<and> ct_users t u = Some (name, pwd, st))
     \<and> row = (case k of (u, name, tm) \<Rightarrow> [int_text u, name, tm])}"

definition friend_rows :: "int \<Rightarrow> chat_tables \<Rightarrow> string list set" where
  "friend_rows u t = {row. \<exists>k. (case k of (f, name, rm, tm) \<Rightarrow>
     \<exists>pwd st. ct_friends t (u, f) = Some (True, rm, tm) \<and> ct_users t f = Some (name, pwd, st))
     \<and> row = (case k of (f, name, rm, tm) \<Rightarrow> [int_text f, name, rm, tm])}"

definition set_user_state :: "int \<Rightarrow> string \<Rightarrow> chat_tables \<Rightarrow> chat_tables" where
  "set_user_state i s t = (case ct_users t i of None \<Rightarrow> t
     | Some (name, pwd, st) \<Rightarrow> t\<lparr>ct_users := (ct_users t)(i \<mapsto> (name, pwd, s))\<rparr>)"

definition set_read :: "int \<Rightarrow> chat_tables \<Rightarrow> chat_tables" where
  "set_read i t = t\<lparr>ct_messages := map (\<lambda>m. if mr_id m = i then m\<lparr>mr_read := True\<rparr> else m) (ct_messages t)\<rparr>"

definition set_accepted :: "int \<times> int \<Rightarrow> chat_tables \<Rightarrow> chat_tables" where
  "set_accepted k t = (case ct_friends t k of None \<Rightarrow> t
     | Some (a, rm, tm) \<Rightarrow> t\<lparr>ct_friends := (ct_friends t)(k \<mapsto> (True, rm, tm))\<rparr>)"

subsection \<open>Tables whose cells fit the buffers\<close>

lemma length_dec_string: "n < 10 ^ k \<Longrightarrow> 0 < k \<Longrightarrow> length (dec_string n) \<le> k"
proof (induction n arbitrary: k rule: dec_string.induct)
  case (1 n)
  show ?case
  proof (cases "n < 10")
    case False
    then have "1 < k" using 1(2,3) by (cases k; cases "k - 1") auto
    with 1(1) [OF False, of "k - 1"] 1(2) have "length (dec_string (n div 10)) \<le> k - 1"
      by (cases k) auto
    with False \<open>1 < k\<close> show ?thesis by (subst dec_string.simps) simp
  qed (use 1(3) in \<open>simp add: dec_string.simps\<close>)
qed

definition short_text :: "string \<Rightarrow> bool" where
  "short_text s \<longleftrightarrow> length s < col_buffer \<and> NUL \<notin> set s"

definition id_ok :: "int \<Rightarrow> bool" where
  "id_ok i \<longleftrightarrow> 0 \<le> i \<and> i < 2 ^ 31"

text \<open>A time as MySQL prints it: digits and separators.\<close>

definition time_text :: "string \<Rightarrow> bool" where
  "time_text s \<longleftrightarrow> short_text s \<and> (\<forall>c \<in> set s. is_digit_char c \<or> c \<in> set ''-:. '')"

lemma time_text_short: "time_text s \<Longrightarrow> short_text s"
  by (simp add: time_text_def)

lemma time_text_utf8: "time_text s \<Longrightarrow> utf8 s"
  by (rule utf8_ascii) (auto simp: time_text_def is_digit_char_def)

lemma time_text_chars: "time_text s \<Longrightarrow> CHR 0x5C \<notin> set s"
  by (auto simp: time_text_def is_digit_char_def)

lemma short_int_text: "id_ok i \<Longrightarrow> short_text (int_text i)"
proof -
  assume i: "id_ok i"
  then have "nat i < 10 ^ 10" by (simp add: id_ok_def nat_less_iff)
  then have "length (dec_string (nat i)) \<le> 10" by (rule length_dec_string) simp
  moreover have "NUL \<notin> set (dec_string (nat i))"
    using dec_string_digits [of "nat i"] by (auto simp: list_all_iff is_digit_char_def NUL_def)
  ultimately show ?thesis using i by (simp add: short_text_def int_text_def id_ok_def col_buffer_def)
qed

definition tables_fit :: "chat_tables \<Rightarrow> bool" where
  "tables_fit t \<longleftrightarrow>
     (\<forall>i name pwd st. ct_users t i = Some (name, pwd, st) \<longrightarrow> id_ok i \<and> short_text name \<and> short_text pwd \<and> short_text st)
   \<and> (\<forall>m \<in> set (ct_messages t). id_ok (mr_id m) \<and> id_ok (mr_from m) \<and> short_text (mr_content m) \<and> short_text (mr_time m))
   \<and> (\<forall>k a rm tm. ct_friends t k = Some (a, rm, tm) \<longrightarrow> short_text rm \<and> short_text tm)"

lemma tables_fit_user:
  "tables_fit t \<Longrightarrow> ct_users t i = Some (name, pwd, st) \<Longrightarrow> id_ok i \<and> short_text name \<and> short_text pwd \<and> short_text st"
  unfolding tables_fit_def by blast

lemma tables_fit_message:
  "tables_fit t \<Longrightarrow> m \<in> set (ct_messages t) \<Longrightarrow>
     id_ok (mr_id m) \<and> id_ok (mr_from m) \<and> short_text (mr_content m) \<and> short_text (mr_time m)"
  unfolding tables_fit_def by blast

lemma tables_fit_friend:
  "tables_fit t \<Longrightarrow> ct_friends t k = Some (a, rm, tm) \<Longrightarrow> short_text rm \<and> short_text tm"
  unfolding tables_fit_def by (cases k) blast

lemma stoi_id: "id_ok i \<Longrightarrow> stoi (int_text i) = Inr i"
  using stoi_int_text by (simp add: id_ok_def)

lemma user_of_cells: "id_ok i \<Longrightarrow> user_of_row (user_cells i (name, pwd, st)) = Inr (User i name pwd st)"
  by (simp add: user_of_row_def user_cells_def int_col_def col_def stoi_id)

definition message_of :: "msg_row \<Rightarrow> message" where
  "message_of m = Message_of (mr_id m) (mr_from m) (- 1) (mr_content m) (mr_time m)"

lemma message_of_cells:
  "id_ok (mr_id m) \<Longrightarrow> id_ok (mr_from m) \<Longrightarrow> message_of_row (message_cells m) = Inr (message_of m)"
  by (simp add: message_of_row_def message_cells_def int_col_def col_def stoi_id message_of_def Message_of_def
      Message_def setTime_def setContent_def setFromid_def setMsgid_def)

text \<open>The lists of applications and of friends, as sets of entries.\<close>

lemma map_exn_rows:
  assumes "set rows = {row. \<exists>k. P k \<and> row = cells k}" and "\<And>k. P k \<Longrightarrow> conv (cells k) = Inr (g k)"
  shows "\<exists>ys. map_exn conv rows = Inr ys \<and> set ys = {y. \<exists>k. P k \<and> y = g k}"
proof -
  have "\<forall>x \<in> set rows. \<exists>y. conv x = Inr y" using assms by auto
  from map_exn_all [OF this] obtain ys where "map_exn conv rows = Inr ys" "set ys = {y. \<exists>x \<in> set rows. conv x = Inr y}" by blast
  moreover have "{y. \<exists>x \<in> set rows. conv x = Inr y} = {y. \<exists>k. P k \<and> y = g k}" using assms by auto
  ultimately show ?thesis by simp
qed

definition applies_of :: "int \<Rightarrow> chat_tables \<Rightarrow> friend_apply set" where
  "applies_of f t = {y. \<exists>k. (case k of (u, name, tm) \<Rightarrow>
     \<exists>pwd st rm. ct_friends t (u, f) = Some (False, rm, tm) \<and> ct_users t u = Some (name, pwd, st))
     \<and> y = (case k of (u, name, tm) \<Rightarrow> \<lparr>fa_userId = u, fa_userName = name, fa_applyTime = tm, fa_remark = []\<rparr>)}"

definition friends_of :: "int \<Rightarrow> chat_tables \<Rightarrow> friend_apply set" where
  "friends_of u t = {y. \<exists>k. (case k of (f, name, rm, tm) \<Rightarrow>
     \<exists>pwd st. ct_friends t (u, f) = Some (True, rm, tm) \<and> ct_users t f = Some (name, pwd, st))
     \<and> y = (case k of (f, name, rm, tm) \<Rightarrow> \<lparr>fa_userId = f, fa_userName = name, fa_applyTime = tm, fa_remark = rm\<rparr>)}"

text \<open>A pool that has a connection to give.\<close>

definition backend_ok :: "'w backend \<Rightarrow> bool" where
  "backend_ok bk \<longleftrightarrow> (\<exists>p. bk_pool bk = Some p \<and> cp_curfreeSize p = int (length (cp_queue p))
     \<and> cp_queue p \<noteq> [] \<and> (\<forall>d \<in> set (cp_queue p). db_conn d \<noteq> None))"

subsection \<open>Fetching rows\<close>

text \<open>
  \<open>mysql_stmt_fetch\<close> into string buffers of \<open>n\<close> bytes: cells that are shorter than the buffer are copied
  with a terminating NUL and the call returns 0; a cell that does not fit makes it report truncation.
\<close>

locale stmt_fetch =
  fixes fetch :: "nat \<Rightarrow> string list \<Rightarrow> int \<times> string list"
  assumes fetch_fits: "\<forall>s \<in> set row. length s < n \<Longrightarrow>
      fst (fetch n row) = 0 \<and> list_all2 (\<lambda>s b. \<exists>rest. b = s @ NUL # rest) row (snd (fetch n row))"
    and fetch_truncates: "\<exists>s \<in> set row. n < length s \<Longrightarrow> fst (fetch n row) \<noteq> 0"
begin

definition short_cells :: "string list \<Rightarrow> bool" where
  "short_cells row \<longleftrightarrow> (\<forall>s \<in> set row. length s < col_buffer \<and> NUL \<notin> set s)"

lemma read_row_cells:
  assumes "list_all2 (\<lambda>s b. \<exists>rest. b = s @ NUL # rest) row bufs" and "\<forall>s \<in> set row. NUL \<notin> set s"
  shows "read_row bufs = Inr row"
  using assms
proof (induction rule: list_all2_induct)
  case (Cons s row b bufs)
  from Cons.hyps(1) obtain rest where "b = s @ NUL # rest" by blast
  with Cons show ?case using read_buffer_terminated [of s rest] by simp
qed simp

lemma fetch_rows:
  assumes "\<forall>row \<in> set rows. short_cells row" and "tail = [] \<or> fst (hd tail) \<noteq> 0"
  shows "fetch_loop (map (fetch col_buffer) rows @ tail) = Inr rows"
  using assms(1)
proof (induction rows)
  case Nil
  then show ?case using assms(2) by (cases tail) auto
next
  case (Cons row rows)
  have "fst (fetch col_buffer row) = 0 \<and> list_all2 (\<lambda>s b. \<exists>rest. b = s @ NUL # rest) row (snd (fetch col_buffer row))"
    using Cons.prems by (intro fetch_fits) (auto simp: short_cells_def)
  moreover from this have "read_row (snd (fetch col_buffer row)) = Inr row"
    using Cons.prems by (intro read_row_cells) (auto simp: short_cells_def)
  ultimately show ?case using Cons by (cases "fetch col_buffer row") simp
qed

lemma fetch_stops:
  assumes "\<forall>row \<in> set rows. short_cells row" and "\<exists>s \<in> set long. col_buffer < length s"
  shows "fetch_loop (map (fetch col_buffer) (rows @ long # rest) @ tail) = Inr rows"
  using fetch_rows [OF assms(1), of "map (fetch col_buffer) (long # rest) @ tail"] fetch_truncates [OF assms(2)]
  by simp

end

subsection \<open>The database\<close>

text \<open>Whether the database takes the row of a message, over whichever connection it is asked.\<close>

definition insert_accepted :: "'w mysql_api \<Rightarrow> int \<Rightarrow> int \<Rightarrow> string \<Rightarrow> 'w \<Rightarrow> bool \<Rightarrow> bool" where
  "insert_accepted api f t c w acc \<longleftrightarrow>
     (\<forall>h. (fst (my_stmt_execute api h 0 sql_insert_message [TYPE_LONG f, TYPE_LONG t, TYPE_STRING c] w) \<noteq> None) = acc)"

text \<open>
  \<open>rows_result\<close>: the statement has a result set with these rows. The order of the rows of a
  \<open>SELECT\<close> is not specified.
\<close>

definition rows_result :: "(nat \<Rightarrow> string list \<Rightarrow> int \<times> string list) \<Rightarrow> nat \<Rightarrow> stmt_result option \<Rightarrow> string list list \<Rightarrow> bool" where
  "rows_result fetch n r rows \<longleftrightarrow> (\<exists>s tail. r = Some s \<and> sr_metadata s \<noteq> None
     \<and> sr_fetches s = map (fetch n) rows @ tail \<and> (tail = [] \<or> fst (hd tail) \<noteq> 0))"

text \<open>
  The documented behaviour of the statements of the source on tables in which \<open>id\<close> and \<open>msgid\<close> are generated keys,
  \<open>(user_id, friend_id)\<close> is a key, \<open>state\<close> defaults to \<open>offline\<close>, \<open>status\<close> to 0 and \<open>remark\<close> to the empty
  string. The insertion of a user or a message may fail; all other statements succeed, apart from a
  second application.
\<close>

definition chat_sql :: "string set" where
  "chat_sql = {sql_insert_user, sql_select_user, sql_update_state, sql_insert_message, sql_select_time, sql_ack_message,
     sql_select_offline, sql_apply_friend, sql_accept_friend, sql_add_friend, sql_delete_friend, sql_select_applies,
     sql_select_friends}"

lemma chat_sql_texts [simp]:
  "sql_insert_user \<in> chat_sql" "sql_select_user \<in> chat_sql" "sql_update_state \<in> chat_sql" "sql_insert_message \<in> chat_sql"
  "sql_select_time \<in> chat_sql" "sql_ack_message \<in> chat_sql" "sql_select_offline \<in> chat_sql" "sql_apply_friend \<in> chat_sql"
  "sql_accept_friend \<in> chat_sql" "sql_add_friend \<in> chat_sql" "sql_delete_friend \<in> chat_sql" "sql_select_applies \<in> chat_sql"
  "sql_select_friends \<in> chat_sql"
  by (simp_all add: chat_sql_def)

locale chat_database = stmt_fetch fetch for fetch :: "nat \<Rightarrow> string list \<Rightarrow> int \<times> string list" +
  fixes api :: "'w mysql_api" and tables :: "'w \<Rightarrow> chat_tables"
  assumes stmt_ready: "my_stmt_init api h w" "sql \<in> chat_sql \<Longrightarrow> my_stmt_prepare api h sql w"
    and insert_user: "my_stmt_execute api h n sql_insert_user [TYPE_STRING name, TYPE_STRING pwd] w = (r, w') \<Longrightarrow>
      (case r of None \<Rightarrow> tables w' = tables w
       | Some s \<Rightarrow> \<exists>i. sr_insert_id s = word_of_int i \<and> 0 < i \<and> i < 2 ^ 31 \<and> ct_users (tables w) i = None
           \<and> tables w' = (tables w)\<lparr>ct_users := (ct_users (tables w))(i \<mapsto> (name, pwd, ''offline''))\<rparr>)"
    and select_user: "my_stmt_execute api h n sql_select_user [TYPE_LONG i] w = (r, w') \<Longrightarrow>
      tables w' = tables w \<and> rows_result fetch n r
        (case ct_users (tables w) i of None \<Rightarrow> [] | Some u \<Rightarrow> [user_cells i u])"
    and update_state: "my_stmt_execute api h n sql_update_state [TYPE_STRING st, TYPE_LONG i] w = (r, w') \<Longrightarrow>
      r \<noteq> None \<and> tables w' = set_user_state i st (tables w)"
    and insert_message: "my_stmt_execute api h n sql_insert_message [TYPE_LONG f, TYPE_LONG t, TYPE_STRING c] w = (r, w') \<Longrightarrow>
      (case r of None \<Rightarrow> tables w' = tables w
       | Some s \<Rightarrow> \<exists>i tm. sr_insert_id s = word_of_int i \<and> 0 < i \<and> i < 2 ^ 31 \<and> time_text tm
        \<and> i \<notin> mr_id ` set (ct_messages (tables w))
        \<and> tables w' = (tables w)\<lparr>ct_messages := ct_messages (tables w) @
            [\<lparr>mr_id = i, mr_from = f, mr_to = t, mr_content = c, mr_read = False, mr_time = tm\<rparr>]\<rparr>)"
    and select_time: "my_stmt_execute api h n sql_select_time [TYPE_LONG i] w = (r, w') \<Longrightarrow>
      tables w' = tables w \<and> (\<exists>rows. rows_result fetch n r rows
        \<and> mset rows = mset (map (\<lambda>m. [mr_time m]) (filter (\<lambda>m. mr_id m = i) (ct_messages (tables w)))))"
    and ack_message: "my_stmt_execute api h n sql_ack_message [TYPE_LONG i] w = (r, w') \<Longrightarrow>
      r \<noteq> None \<and> tables w' = set_read i (tables w)"
    and select_offline: "my_stmt_execute api h n sql_select_offline [TYPE_LONG i] w = (r, w') \<Longrightarrow>
      tables w' = tables w \<and> (\<exists>ms. rows_result fetch n r (map message_cells ms)
        \<and> mset ms = mset (unread_for i (tables w)))"
    and apply_friend: "my_stmt_execute api h n sql_apply_friend [TYPE_LONG u, TYPE_LONG f] w = (r, w') \<Longrightarrow>
      (case ct_friends (tables w) (u, f) of Some e \<Rightarrow> r = None \<and> tables w' = tables w
       | None \<Rightarrow> r \<noteq> None \<and> (\<exists>tm. short_text tm \<and> tables w' = (tables w)\<lparr>ct_friends := (ct_friends (tables w))((u, f) \<mapsto> (False, [], tm))\<rparr>))"
    and accept_friend: "my_stmt_execute api h n sql_accept_friend [TYPE_LONG u, TYPE_LONG f] w = (r, w') \<Longrightarrow>
      r \<noteq> None \<and> tables w' = set_accepted (u, f) (tables w)"
    and add_friend: "my_stmt_execute api h n sql_add_friend [TYPE_LONG u, TYPE_LONG f] w = (r, w') \<Longrightarrow>
      r \<noteq> None \<and> (case ct_friends (tables w) (u, f) of
          Some e \<Rightarrow> tables w' = set_accepted (u, f) (tables w)
        | None \<Rightarrow> \<exists>tm. short_text tm \<and> tables w' = (tables w)\<lparr>ct_friends := (ct_friends (tables w))((u, f) \<mapsto> (True, [], tm))\<rparr>)"
    and delete_friend: "my_stmt_execute api h n sql_delete_friend [TYPE_LONG u, TYPE_LONG f] w = (r, w') \<Longrightarrow>
      r \<noteq> None \<and> tables w' = (tables w)\<lparr>ct_friends := (ct_friends (tables w))((u, f) := None)\<rparr>"
    and select_applies: "my_stmt_execute api h n sql_select_applies [TYPE_LONG f] w = (r, w') \<Longrightarrow>
      tables w' = tables w \<and> (\<exists>rows. rows_result fetch n r rows \<and> set rows = apply_rows f (tables w))"
    and select_friends: "my_stmt_execute api h n sql_select_friends [TYPE_LONG u] w = (r, w') \<Longrightarrow>
      tables w' = tables w \<and> (\<exists>rows. rows_result fetch n r rows \<and> set rows = friend_rows u (tables w))"
begin

abbreviation tabs :: "'w backend \<Rightarrow> chat_tables" where
  "tabs bk \<equiv> tables (bk_world bk)"

lemma with_conn_ok:
  assumes "backend_ok bk"
  obtains d h bk' where "with_conn api now f bk = (fst (f d (bk_world bk)), bk')" and "db_conn d = Some h"
    and "bk_world bk' = snd (f d (bk_world bk))" and "backend_ok bk'"
proof -
  from assms obtain p d ds where p: "bk_pool bk = Some p" "cp_curfreeSize p = int (length (cp_queue p))"
    "cp_queue p = d # ds" and c: "\<forall>d \<in> set (cp_queue p). db_conn d \<noteq> None"
    by (auto simp: backend_ok_def neq_Nil_conv)
  from c p(3) obtain h where h: "db_conn d = Some h" by auto
  let ?p = "return_conn now d (p\<lparr>cp_queue := ds, cp_curfreeSize := cp_curfreeSize p - 1\<rparr>)"
  let ?bk = "bk\<lparr>bk_pool := Some ?p, bk_world := snd (f d (bk_world bk))\<rparr>"
  have "take_conn api bk = (Inr d, bk\<lparr>bk_pool := Some (p\<lparr>cp_queue := ds, cp_curfreeSize := cp_curfreeSize p - 1\<rparr>)\<rparr>)"
    using p by (simp add: take_conn_def act_bind_def use_pool_def getconn_def)
  then have "with_conn api now f bk = (fst (f d (bk_world bk)), ?bk)"
    by (simp add: with_conn_def act_bind_def case_prod_unfold Let_def)
  moreover have "backend_ok ?bk"
    using p c by (simp add: backend_ok_def return_conn_def setlasttime_def)
  ultimately show thesis using that [of d ?bk h] h by simp
qed

text \<open>Statements over an open connection.\<close>

lemma execute_step:
  assumes "db_conn d = Some h" and "my_stmt_execute api h 0 sql (map (bind_param \<circ> makeparam) args) w = (r, w')"
    and "sql \<in> chat_sql"
  shows "db_execute api d sql args w = (r \<noteq> None, w')"
    and "db_execute_insert api d sql i args w =
      ((r \<noteq> None, case r of None \<Rightarrow> i | Some s \<Rightarrow> to_int32 (sr_insert_id s)), w')"
  using assms stmt_ready
  by (auto simp: db_execute_def db_execute_insert_def execute_base_def split: option.splits)

lemma query_step:
  assumes "db_conn d = Some h" and "my_stmt_execute api h col_buffer sql (map (bind_param \<circ> makeparam) args) w = (r, w')"
    and "rows_result fetch col_buffer r rows" and "\<forall>row \<in> set rows. short_cells row" and "sql \<in> chat_sql"
  shows "db_query api d sql args w = (Inr rows, w')"
proof -
  from assms(3) obtain s tail where r: "r = Some s" "sr_metadata s \<noteq> None"
    "sr_fetches s = map (fetch col_buffer) rows @ tail" "tail = [] \<or> fst (hd tail) \<noteq> 0"
    by (auto simp: rows_result_def)
  with fetch_rows [OF assms(4) r(4)] show ?thesis using assms(1,2,5) stmt_ready
    by (auto simp: db_query_def query_base_def split: option.splits)
qed

end

context chat_database
begin

lemma short_cells_text: "short_cells row \<longleftrightarrow> (\<forall>s \<in> set row. short_text s)"
  by (simp add: short_cells_def short_text_def)

text \<open>What holds of an action on a connection holds of it on the pool.\<close>

lemma with_conn_rule:
  assumes "backend_ok bk"
    and "\<And>d h. db_conn d = Some h \<Longrightarrow> \<exists>x w'. f d (bk_world bk) = (Inr x, w') \<and> Q x (tables w')"
  shows "\<exists>x bk'. with_conn api now f bk = (Inr x, bk') \<and> backend_ok bk' \<and> Q x (tabs bk')"
proof -
  obtain d h bk' where c: "with_conn api now f bk = (fst (f d (bk_world bk)), bk')" "db_conn d = Some h"
    "bk_world bk' = snd (f d (bk_world bk))" "backend_ok bk'"
    using with_conn_ok [OF assms(1), of now f] by metis
  from assms(2) [OF c(2)] c show ?thesis by auto
qed

lemma exec_law:
  assumes "db_conn d = Some h" and "sql \<in> chat_sql"
    and "\<And>r w'. my_stmt_execute api h 0 sql (map (bind_param \<circ> makeparam) args) w = (r, w') \<Longrightarrow> r \<noteq> None \<and> Q (tables w')"
  shows "\<exists>w'. db_execute api d sql args w = (True, w') \<and> Q (tables w')"
proof -
  obtain r w' where e: "my_stmt_execute api h 0 sql (map (bind_param \<circ> makeparam) args) w = (r, w')" by force
  from assms(3) [OF e] execute_step(1) [OF assms(1) e assms(2)] show ?thesis by auto
qed

lemma select_law:
  assumes "db_conn d = Some h" and "sql \<in> chat_sql"
    and "\<And>r w'. my_stmt_execute api h col_buffer sql (map (bind_param \<circ> makeparam) args) w = (r, w') \<Longrightarrow>
      tables w' = tables w \<and> (\<exists>rows. rows_result fetch col_buffer r rows \<and> (\<forall>row \<in> set rows. short_cells row) \<and> Q rows)"
  shows "\<exists>rows w'. db_query api d sql args w = (Inr rows, w') \<and> tables w' = tables w \<and> Q rows"
proof -
  obtain r w' where e: "my_stmt_execute api h col_buffer sql (map (bind_param \<circ> makeparam) args) w = (r, w')" by force
  from assms(3) [OF e] query_step [OF assms(1) e _ _ assms(2)] show ?thesis by blast
qed

lemma um_insert_ok:
  assumes "backend_ok bk"
  shows "\<exists>x bk'. um_insert api now u bk = (Inr x, bk') \<and> backend_ok bk' \<and>
    (if fst x then \<exists>i. id_ok i \<and> snd x = setid i u \<and> ct_users (tabs bk) i = None
       \<and> tabs bk' = (tabs bk)\<lparr>ct_users := (ct_users (tabs bk))(i \<mapsto> (us_name u, us_pwd u, ''offline''))\<rparr>
     else tabs bk' = tabs bk)"
  unfolding um_insert_def
proof (rule with_conn_rule [OF assms])
  fix d :: mysql_db and h assume d: "db_conn d = Some h"
  obtain r w' where e: "my_stmt_execute api h 0 sql_insert_user [TYPE_STRING (us_name u), TYPE_STRING (us_pwd u)] (bk_world bk) = (r, w')"
    by force
  have x: "db_execute_insert api d sql_insert_user 0 [ArgString (us_name u), ArgString (us_pwd u)] (bk_world bk)
      = ((r \<noteq> None, case r of None \<Rightarrow> 0 | Some s \<Rightarrow> to_int32 (sr_insert_id s)), w')"
    using e by (intro execute_step(2) [OF d]) simp_all
  let ?Q = "\<lambda>x t. if fst x then \<exists>i. id_ok i \<and> snd x = setid i u \<and> ct_users (tabs bk) i = None
       \<and> t = (tabs bk)\<lparr>ct_users := (ct_users (tabs bk))(i \<mapsto> (us_name u, us_pwd u, ''offline''))\<rparr>
     else t = tabs bk"
  have "?Q (r \<noteq> None, setid (case r of None \<Rightarrow> 0 | Some s \<Rightarrow> to_int32 (sr_insert_id s)) u) (tables w')"
  proof (cases r)
    case (Some s)
    with insert_user [OF e] obtain i where "sr_insert_id s = word_of_int i" "0 < i" "i < 2 ^ 31" "ct_users (tabs bk) i = None"
      "tables w' = (tabs bk)\<lparr>ct_users := (ct_users (tabs bk))(i \<mapsto> (us_name u, us_pwd u, ''offline''))\<rparr>"
      by auto
    moreover from this have "to_int32 (sr_insert_id s) = i" "id_ok i" by (simp_all add: to_int32_small id_ok_def)
    ultimately show ?thesis using Some by auto
  qed (use insert_user [OF e] in simp)
  with x show "\<exists>x w'. (let ((ret, i), w) = db_execute_insert api d sql_insert_user 0
      [ArgString (us_name u), ArgString (us_pwd u)] (bk_world bk) in (Inr (ret, setid i u), w)) = (Inr x, w')
    \<and> ?Q x (tables w')"
    by (cases r) auto
qed

lemma um_query_ok:
  assumes "backend_ok bk" and "tables_fit (tabs bk)"
  shows "\<exists>bk'. um_query api now i bk = (Inr (case ct_users (tabs bk) i of None \<Rightarrow> default_user
      | Some (name, pwd, st) \<Rightarrow> User i name pwd st), bk') \<and> backend_ok bk' \<and> tabs bk' = tabs bk"
proof -
  let ?rows = "case ct_users (tabs bk) i of None \<Rightarrow> [] | Some u \<Rightarrow> [user_cells i u]"
  have short: "\<forall>row \<in> set ?rows. short_cells row"
  proof (cases "ct_users (tabs bk) i")
    case (Some u)
    then show ?thesis using tables_fit_user [OF assms(2)]
      by (cases u) (simp add: short_cells_text user_cells_def short_int_text)
  qed simp
  have "\<exists>x bk'. um_query api now i bk = (Inr x, bk') \<and> backend_ok bk' \<and> (x = (case ct_users (tabs bk) i of None \<Rightarrow> default_user
      | Some (name, pwd, st) \<Rightarrow> User i name pwd st) \<and> tabs bk' = tabs bk)"
    unfolding um_query_def
  proof (rule with_conn_rule [OF assms(1)])
    fix d :: mysql_db and h assume d: "db_conn d = Some h"
    have "\<exists>rows w'. db_query api d sql_select_user [ArgInt i] (bk_world bk) = (Inr rows, w')
        \<and> tables w' = tables (bk_world bk) \<and> rows = ?rows"
      using select_user short by (intro select_law [OF d chat_sql_texts(2)]) fastforce
    then obtain w' where "db_query api d sql_select_user [ArgInt i] (bk_world bk) = (Inr ?rows, w')" "tables w' = tabs bk"
      by blast
    then show "\<exists>x w'. (let (ret, w) = db_query api d sql_select_user [ArgInt i] (bk_world bk)
         in (case ret of Inl e \<Rightarrow> Inl e | Inr [] \<Rightarrow> Inr default_user | Inr (r # rs) \<Rightarrow> user_of_row r, w)) = (Inr x, w')
      \<and> (x = (case ct_users (tabs bk) i of None \<Rightarrow> default_user | Some (name, pwd, st) \<Rightarrow> User i name pwd st) \<and> tables w' = tabs bk)"
      using tables_fit_user [OF assms(2), of i] by (auto simp: user_of_cells split: option.splits)
  qed
  then show ?thesis by blast
qed

text \<open>A single statement that always succeeds.\<close>

lemma execute_conn:
  assumes "backend_ok bk" and "sql \<in> chat_sql"
    and "\<And>h r w'. my_stmt_execute api h 0 sql (map (bind_param \<circ> makeparam) args) (bk_world bk) = (r, w') \<Longrightarrow>
      r \<noteq> None \<and> Q (tables w')"
  shows "\<exists>bk'. with_conn api now (\<lambda>d w. let (ret, w) = db_execute api d sql args w in (Inr ret, w)) bk = (Inr True, bk')
    \<and> backend_ok bk' \<and> Q (tabs bk')"
proof -
  have "\<exists>x bk'. with_conn api now (\<lambda>d w. let (ret, w) = db_execute api d sql args w in (Inr ret, w)) bk = (Inr x, bk')
    \<and> backend_ok bk' \<and> (x = True \<and> Q (tabs bk'))"
  proof (rule with_conn_rule [OF assms(1)])
    fix d :: mysql_db and h assume d: "db_conn d = Some h"
    have "\<exists>w'. db_execute api d sql args (bk_world bk) = (True, w') \<and> Q (tables w')"
      by (rule exec_law [OF d assms(2)]) (rule assms(3))
    then show "\<exists>x w'. (let (ret, w) = db_execute api d sql args (bk_world bk) in (Inr ret, w)) = (Inr x, w') \<and> (x = True \<and> Q (tables w'))"
      by auto
  qed
  then show ?thesis by blast
qed

text \<open>A query whose rows are all converted.\<close>

lemma select_conn:
  assumes "backend_ok bk" and "sql \<in> chat_sql"
    and "\<And>h r w'. my_stmt_execute api h col_buffer sql (map (bind_param \<circ> makeparam) args) (bk_world bk) = (r, w') \<Longrightarrow>
      tables w' = tabs bk \<and> (\<exists>rows. rows_result fetch col_buffer r rows \<and> (\<forall>row \<in> set rows. short_cells row)
        \<and> (\<exists>ys. map_exn conv rows = Inr ys \<and> Q ys))"
  shows "\<exists>ys bk'. with_conn api now (\<lambda>d w. let (ret, w) = db_query api d sql args w
      in (case ret of Inl e \<Rightarrow> Inl e | Inr rows \<Rightarrow> map_exn conv rows, w)) bk = (Inr ys, bk')
    \<and> backend_ok bk' \<and> (tabs bk' = tabs bk \<and> Q ys)"
proof (rule with_conn_rule [OF assms(1)])
  fix d :: mysql_db and h assume d: "db_conn d = Some h"
  have "\<exists>rows w'. db_query api d sql args (bk_world bk) = (Inr rows, w') \<and> tables w' = tables (bk_world bk)
      \<and> (\<exists>ys. map_exn conv rows = Inr ys \<and> Q ys)"
    using assms(3) by (intro select_law [OF d assms(2)]) blast
  then show "\<exists>x w'. (let (ret, w) = db_query api d sql args (bk_world bk)
      in (case ret of Inl e \<Rightarrow> Inl e | Inr rows \<Rightarrow> map_exn conv rows, w)) = (Inr x, w') \<and> (tables w' = tabs bk \<and> Q x)"
    by auto
qed

lemma updateStates_ok:
  assumes "backend_ok bk"
  shows "\<exists>bk'. updateStates api now i st bk = (Inr True, bk') \<and> backend_ok bk' \<and> tabs bk' = set_user_state i st (tabs bk)"
  unfolding updateStates_def using update_state by (intro execute_conn [OF assms]) simp_all

lemma updateMesStatus_ok:
  assumes "backend_ok bk"
  shows "\<exists>bk'. updateMesStatus api now i bk = (Inr True, bk') \<and> backend_ok bk' \<and> tabs bk' = set_read i (tabs bk)"
  unfolding updateMesStatus_def using ack_message by (intro execute_conn [OF assms]) simp_all

lemma refuseFriend_ok:
  assumes "backend_ok bk"
  shows "\<exists>bk'. refuseFriend api now u f bk = (Inr True, bk') \<and> backend_ok bk'
    \<and> tabs bk' = (tabs bk)\<lparr>ct_friends := (ct_friends (tabs bk))((u, f) := None)\<rparr>"
  unfolding refuseFriend_def using delete_friend by (intro execute_conn [OF assms]) (simp_all del: fun_upd_apply)

lemma getofflineMessage_ok:
  assumes "backend_ok bk" and "tables_fit (tabs bk)"
  shows "\<exists>ms bk'. getofflineMessage api now i bk = (Inr ms, bk') \<and> backend_ok bk'
    \<and> (tabs bk' = tabs bk \<and> mset ms = mset (map message_of (unread_for i (tabs bk))))"
  unfolding getofflineMessage_def
proof (rule select_conn [OF assms(1) chat_sql_texts(7)])
  fix h r w' assume "my_stmt_execute api h col_buffer sql_select_offline (map (bind_param \<circ> makeparam) [ArgInt i]) (bk_world bk) = (r, w')"
  then have "my_stmt_execute api h col_buffer sql_select_offline [TYPE_LONG i] (bk_world bk) = (r, w')" by simp
  from select_offline [OF this] obtain ms where ms: "tables w' = tabs bk" "rows_result fetch col_buffer r (map message_cells ms)"
    "mset ms = mset (unread_for i (tabs bk))" by blast
  have fit: "id_ok (mr_id m) \<and> id_ok (mr_from m) \<and> short_text (mr_content m) \<and> short_text (mr_time m)" if "m \<in> set ms" for m
    using tables_fit_message [OF assms(2)] that mset_eq_setD [OF ms(3)] by (auto simp: unread_for_def)
  have "map_exn message_of_row (map message_cells ms) = Inr (map message_of ms)"
    using fit by (induction ms) (auto simp: message_of_cells)
  moreover have "\<forall>row \<in> set (map message_cells ms). short_cells row"
    using fit by (auto simp: short_cells_text message_cells_def short_int_text)
  ultimately show "tables w' = tabs bk \<and> (\<exists>rows. rows_result fetch col_buffer r rows \<and> (\<forall>row \<in> set rows. short_cells row)
      \<and> (\<exists>ys. map_exn message_of_row rows = Inr ys \<and> mset ys = mset (map message_of (unread_for i (tabs bk)))))"
    using ms by (metis mset_map)
qed

lemma getApplyList_ok:
  assumes "backend_ok bk" and "tables_fit (tabs bk)"
  shows "\<exists>l bk'. getApplyList api now f bk = (Inr l, bk') \<and> backend_ok bk'
    \<and> (tabs bk' = tabs bk \<and> set l = applies_of f (tabs bk))"
  unfolding getApplyList_def
proof (rule select_conn [OF assms(1) chat_sql_texts(12)])
  fix h r w' assume "my_stmt_execute api h col_buffer sql_select_applies (map (bind_param \<circ> makeparam) [ArgInt f]) (bk_world bk) = (r, w')"
  then have "my_stmt_execute api h col_buffer sql_select_applies [TYPE_LONG f] (bk_world bk) = (r, w')" by simp
  from select_applies [OF this] obtain rows where rows: "tables w' = tabs bk" "rows_result fetch col_buffer r rows"
    "set rows = apply_rows f (tabs bk)" by blast
  have fit: "id_ok u \<and> short_text name \<and> short_text tm"
    if "ct_friends (tabs bk) (u, f) = Some (False, rm, tm)" "ct_users (tabs bk) u = Some (name, pwd, st)" for u name pwd st rm tm
    using tables_fit_user [OF assms(2) that(2)] tables_fit_friend [OF assms(2) that(1)] by simp
  have "\<exists>ys. map_exn apply_of_row rows = Inr ys \<and> set ys = applies_of f (tabs bk)"
    unfolding applies_of_def
  proof (rule map_exn_rows [where cells = "\<lambda>k. case k of (u, name, tm) \<Rightarrow> [int_text u, name, tm]"])
    show "set rows = {row. \<exists>k. (case k of (u, name, tm) \<Rightarrow>
         \<exists>pwd st rm. ct_friends (tabs bk) (u, f) = Some (False, rm, tm) \<and> ct_users (tabs bk) u = Some (name, pwd, st))
         \<and> row = (case k of (u, name, tm) \<Rightarrow> [int_text u, name, tm])}"
      using rows(3) by (simp only: apply_rows_def)
  qed (auto simp: apply_of_row_def int_col_def col_def stoi_id dest: fit)
  moreover have "\<forall>row \<in> set rows. short_cells row"
    using rows(3) fit by (auto simp: apply_rows_def short_cells_text short_int_text)
  ultimately show "tables w' = tabs bk \<and> (\<exists>rows. rows_result fetch col_buffer r rows \<and> (\<forall>row \<in> set rows. short_cells row)
      \<and> (\<exists>ys. map_exn apply_of_row rows = Inr ys \<and> set ys = applies_of f (tabs bk)))"
    using rows(1,2) by blast
qed

lemma getFriendList_ok:
  assumes "backend_ok bk" and "tables_fit (tabs bk)"
  shows "\<exists>l bk'. getFriendList api now u bk = (Inr l, bk') \<and> backend_ok bk'
    \<and> (tabs bk' = tabs bk \<and> set l = friends_of u (tabs bk))"
  unfolding getFriendList_def
proof (rule select_conn [OF assms(1) chat_sql_texts(13)])
  fix h r w' assume "my_stmt_execute api h col_buffer sql_select_friends (map (bind_param \<circ> makeparam) [ArgInt u]) (bk_world bk) = (r, w')"
  then have "my_stmt_execute api h col_buffer sql_select_friends [TYPE_LONG u] (bk_world bk) = (r, w')" by simp
  from select_friends [OF this] obtain rows where rows: "tables w' = tabs bk" "rows_result fetch col_buffer r rows"
    "set rows = friend_rows u (tabs bk)" by blast
  have fit: "id_ok f \<and> short_text name \<and> short_text rm \<and> short_text tm"
    if "ct_friends (tabs bk) (u, f) = Some (True, rm, tm)" "ct_users (tabs bk) f = Some (name, pwd, st)" for f name pwd st rm tm
    using tables_fit_user [OF assms(2) that(2)] tables_fit_friend [OF assms(2) that(1)] by simp
  have "\<exists>ys. map_exn friend_of_row rows = Inr ys \<and> set ys = friends_of u (tabs bk)"
    unfolding friends_of_def
  proof (rule map_exn_rows [where cells = "\<lambda>k. case k of (f, name, rm, tm) \<Rightarrow> [int_text f, name, rm, tm]"])
    show "set rows = {row. \<exists>k. (case k of (f, name, rm, tm) \<Rightarrow>
         \<exists>pwd st. ct_friends (tabs bk) (u, f) = Some (True, rm, tm) \<and> ct_users (tabs bk) f = Some (name, pwd, st))
         \<and> row = (case k of (f, name, rm, tm) \<Rightarrow> [int_text f, name, rm, tm])}"
      using rows(3) by (simp only: friend_rows_def)
  qed (auto simp: friend_of_row_def int_col_def col_def stoi_id dest: fit)
  moreover have "\<forall>row \<in> set rows. short_cells row"
    using rows(3) fit by (auto simp: friend_rows_def short_cells_text short_int_text)
  ultimately show "tables w' = tabs bk \<and> (\<exists>rows. rows_result fetch col_buffer r rows \<and> (\<forall>row \<in> set rows. short_cells row)
      \<and> (\<exists>ys. map_exn friend_of_row rows = Inr ys \<and> set ys = friends_of u (tabs bk)))"
    using rows(1,2) by blast
qed

lemma applyFriend_ok:
  assumes "backend_ok bk"
  shows "\<exists>x bk'. applyFriend api now u f bk = (Inr x, bk') \<and> backend_ok bk'
    \<and> (case ct_friends (tabs bk) (u, f) of Some e \<Rightarrow> \<not> x \<and> tabs bk' = tabs bk
       | None \<Rightarrow> x \<and> (\<exists>tm. short_text tm \<and> tabs bk' = (tabs bk)\<lparr>ct_friends := (ct_friends (tabs bk))((u, f) \<mapsto> (False, [], tm))\<rparr>))"
  unfolding applyFriend_def
proof (rule with_conn_rule [OF assms])
  fix d :: mysql_db and h assume d: "db_conn d = Some h"
  obtain r w' where e: "my_stmt_execute api h 0 sql_apply_friend [TYPE_LONG u, TYPE_LONG f] (bk_world bk) = (r, w')" by force
  then have "db_execute api d sql_apply_friend [ArgInt u, ArgInt f] (bk_world bk) = (r \<noteq> None, w')"
    by (intro execute_step(1) [OF d]) simp_all
  with apply_friend [OF e] show "\<exists>x w'. (let (ret, w) = db_execute api d sql_apply_friend [ArgInt u, ArgInt f] (bk_world bk)
      in (Inr ret, w)) = (Inr x, w')
    \<and> (case ct_friends (tabs bk) (u, f) of Some e \<Rightarrow> \<not> x \<and> tables w' = tabs bk
       | None \<Rightarrow> x \<and> (\<exists>tm. short_text tm \<and> tables w' = (tabs bk)\<lparr>ct_friends := (ct_friends (tabs bk))((u, f) \<mapsto> (False, [], tm))\<rparr>))"
    by (auto split: option.splits)
qed

lemma agreeFriend_ok:
  assumes "backend_ok bk"
  shows "\<exists>x bk'. agreeFriend api now u f bk = (Inr x, bk') \<and> backend_ok bk'
    \<and> (x \<and> (let t = set_accepted (u, f) (tabs bk) in
        case ct_friends t (f, u) of Some e \<Rightarrow> tabs bk' = set_accepted (f, u) t
       | None \<Rightarrow> \<exists>tm. short_text tm \<and> tabs bk' = t\<lparr>ct_friends := (ct_friends t)((f, u) \<mapsto> (True, [], tm))\<rparr>))"
  unfolding agreeFriend_def
proof (rule with_conn_rule [OF assms])
  fix d :: mysql_db and h assume d: "db_conn d = Some h"
  obtain r w1 where e: "my_stmt_execute api h 0 sql_accept_friend [TYPE_LONG u, TYPE_LONG f] (bk_world bk) = (r, w1)" by force
  then have x: "db_execute api d sql_accept_friend [ArgInt u, ArgInt f] (bk_world bk) = (r \<noteq> None, w1)"
    by (intro execute_step(1) [OF d]) simp_all
  obtain r' w2 where e': "my_stmt_execute api h 0 sql_add_friend [TYPE_LONG f, TYPE_LONG u] w1 = (r', w2)" by force
  then have "db_execute api d sql_add_friend [ArgInt f, ArgInt u] w1 = (r' \<noteq> None, w2)"
    by (intro execute_step(1) [OF d]) simp_all
  with x accept_friend [OF e] add_friend [OF e']
  show "\<exists>x w'. (let (ret, w) = db_execute api d sql_accept_friend [ArgInt u, ArgInt f] (bk_world bk) in
       if ret then let (retc, w) = db_execute api d sql_add_friend [ArgInt f, ArgInt u] w in (Inr retc, w)
       else (Inr ret, w)) = (Inr x, w')
    \<and> (x \<and> (let t = set_accepted (u, f) (tabs bk) in
        case ct_friends t (f, u) of Some e \<Rightarrow> tables w' = set_accepted (f, u) t
       | None \<Rightarrow> \<exists>tm. short_text tm \<and> tables w' = t\<lparr>ct_friends := (ct_friends t)((f, u) \<mapsto> (True, [], tm))\<rparr>))"
    by (auto simp: Let_def split: option.splits)
qed

lemma select_time_ok:
  assumes d: "db_conn d = Some h" and short: "\<And>m. m \<in> set (ct_messages (tables w)) \<Longrightarrow> short_text (mr_time m)"
  shows "\<exists>rows w'. db_query api d sql_select_time [ArgInt i] w = (Inr rows, w') \<and> tables w' = tables w
    \<and> mset rows = mset (map (\<lambda>m. [mr_time m]) (filter (\<lambda>m. mr_id m = i) (ct_messages (tables w))))"
proof (rule select_law [OF d chat_sql_texts(5)])
  fix r w' assume "my_stmt_execute api h col_buffer sql_select_time (map (bind_param \<circ> makeparam) [ArgInt i]) w = (r, w')"
  then have "my_stmt_execute api h col_buffer sql_select_time [TYPE_LONG i] w = (r, w')" by simp
  from select_time [OF this] obtain rows where rows: "tables w' = tables w" "rows_result fetch col_buffer r rows"
    "mset rows = mset (map (\<lambda>m. [mr_time m]) (filter (\<lambda>m. mr_id m = i) (ct_messages (tables w))))" by blast
  from short have "\<forall>row \<in> set rows. short_cells row"
    using mset_eq_setD [OF rows(3)] by (auto simp: short_cells_text)
  with rows show "tables w' = tables w \<and> (\<exists>rows. rows_result fetch col_buffer r rows \<and> (\<forall>row \<in> set rows. short_cells row)
      \<and> mset rows = mset (map (\<lambda>m. [mr_time m]) (filter (\<lambda>m. mr_id m = i) (ct_messages (tables w)))))" by blast
qed

lemma insertMessage_ok:
  assumes "backend_ok bk" and "tables_fit (tabs bk)" and "\<forall>m \<in> set (ct_messages (tabs bk)). 0 < mr_id m"
  shows "\<exists>m bk'. insertMessage api now f t c bk = (Inr m, bk') \<and> backend_ok bk'
    \<and> (if ms_msgid m = 0 then m = setMsgid 0 Message \<and> tabs bk' = tabs bk
       else id_ok (ms_msgid m) \<and> time_text (ms_time m) \<and> m = setTime (ms_time m) (setMsgid (ms_msgid m) Message)
         \<and> 0 < ms_msgid m \<and> ms_msgid m \<notin> mr_id ` set (ct_messages (tabs bk))
         \<and> tabs bk' = (tabs bk)\<lparr>ct_messages := ct_messages (tabs bk) @ [\<lparr>mr_id = ms_msgid m, mr_from = f, mr_to = t,
             mr_content = c, mr_read = False, mr_time = ms_time m\<rparr>]\<rparr>)
    \<and> (\<forall>acc. insert_accepted api f t c (bk_world bk) acc \<longrightarrow> (ms_msgid m \<noteq> 0 \<longleftrightarrow> acc))"
  unfolding insertMessage_def
proof (rule with_conn_rule [OF assms(1)])
  fix d :: mysql_db and h assume d: "db_conn d = Some h"
  let ?w = "bk_world bk" and ?args = "[ArgInt f, ArgInt t, ArgString c]"
  obtain r w1 where e: "my_stmt_execute api h 0 sql_insert_message [TYPE_LONG f, TYPE_LONG t, TYPE_STRING c] ?w = (r, w1)" by force
  define i where "i = (case r of None \<Rightarrow> 0 | Some s \<Rightarrow> to_int32 (sr_insert_id s))"
  have x: "db_execute_insert api d sql_insert_message 0 ?args ?w = ((r \<noteq> None, i), w1)"
    using e unfolding i_def by (intro execute_step(2) [OF d]) simp_all
  have "short_text (mr_time m)" if "m \<in> set (ct_messages (tables w1))" for m
    using insert_message [OF e] that tables_fit_message [OF assms(2)] by (auto split: option.splits simp: time_text_short)
  then obtain rows w2 where q: "db_query api d sql_select_time [ArgInt i] w1 = (Inr rows, w2)" "tables w2 = tables w1"
    "mset rows = mset (map (\<lambda>m. [mr_time m]) (filter (\<lambda>m. mr_id m = i) (ct_messages (tables w1))))"
    using select_time_ok [OF d, of w1 i] by blast
  let ?Q = "\<lambda>m t'. (if ms_msgid m = 0 then m = setMsgid 0 Message \<and> t' = tabs bk
       else id_ok (ms_msgid m) \<and> time_text (ms_time m) \<and> m = setTime (ms_time m) (setMsgid (ms_msgid m) Message)
         \<and> 0 < ms_msgid m \<and> ms_msgid m \<notin> mr_id ` set (ct_messages (tabs bk))
         \<and> t' = (tabs bk)\<lparr>ct_messages := ct_messages (tabs bk) @ [\<lparr>mr_id = ms_msgid m, mr_from = f, mr_to = t,
             mr_content = c, mr_read = False, mr_time = ms_time m\<rparr>]\<rparr>)
       \<and> (\<forall>acc. insert_accepted api f t c ?w acc \<longrightarrow> (ms_msgid m \<noteq> 0 \<longleftrightarrow> acc))"
  have acc: "\<forall>acc. insert_accepted api f t c ?w acc \<longrightarrow> (r \<noteq> None \<longleftrightarrow> acc)"
    using e unfolding insert_accepted_def by (metis fst_conv)
  have "\<exists>m. (case rows of [] \<Rightarrow> Inr (setMsgid i Message) | r # rs \<Rightarrow>
      (case col r 0 of Inl e \<Rightarrow> Inl e | Inr tm \<Rightarrow> Inr (setTime tm (setMsgid i Message)))) = Inr m \<and> ?Q m (tables w2)"
  proof (cases r)
    case None
    then have "tables w1 = tabs bk" "i = 0" using insert_message [OF e] by (simp_all add: i_def)
    moreover from this have "filter (\<lambda>m. mr_id m = i) (ct_messages (tables w1)) = []" using assms(3) by (fastforce simp: filter_empty_conv)
    ultimately show ?thesis using q acc None by (simp add: setMsgid_def)
  next
    case (Some s)
    with insert_message [OF e] obtain j tm where j: "sr_insert_id s = word_of_int j" "0 < j" "j < 2 ^ 31" "time_text tm"
      "j \<notin> mr_id ` set (ct_messages (tabs bk))" "tables w1 = (tabs bk)\<lparr>ct_messages := ct_messages (tabs bk) @
            [\<lparr>mr_id = j, mr_from = f, mr_to = t, mr_content = c, mr_read = False, mr_time = tm\<rparr>]\<rparr>" by auto
    have "i = j" using j Some by (simp add: i_def to_int32_small)
    moreover have "filter (\<lambda>m. mr_id m = j) (ct_messages (tabs bk)) = []" using j(5) by (auto simp: filter_empty_conv image_iff)
    ultimately have "mset rows = {#[tm]#}" using q(3) j(6) by simp
    then have "rows = [[tm]]" by simp
    with \<open>i = j\<close> j q(2) acc Some show ?thesis by (simp add: col_def setTime_def setMsgid_def id_ok_def)
  qed
  with x q(1) show "\<exists>m w'. (let ((ok, i), w) = db_execute_insert api d sql_insert_message 0 ?args ?w;
         m = setMsgid i Message; (ret, w) = db_query api d sql_select_time [ArgInt i] w
     in (case ret of Inl e \<Rightarrow> Inl e | Inr [] \<Rightarrow> Inr m
           | Inr (r # rs) \<Rightarrow> (case col r 0 of Inl e \<Rightarrow> Inl e | Inr t \<Rightarrow> Inr (setTime t m)), w)) = (Inr m, w') \<and> ?Q m (tables w')"
    by (cases rows) auto
qed

end

end
