(* ===== verification/Chat_Ref.thy ===== *)
theory Chat_Ref
  imports Chat_Db "HOL-Library.AList"
begin

text \<open>
  A chat database in memory that obeys the laws of \<open>Chat_Db\<close>, and what follows for the users of the
  server: accounts, messages and friends.
\<close>

subsection \<open>The database in memory\<close>

record chat_data =
  cd_users :: "(int \<times> string \<times> string \<times> string) list"
  cd_messages :: "msg_row list"
  cd_friends :: "((int \<times> int) \<times> bool \<times> string \<times> string) list"

definition data_tables :: "chat_data \<Rightarrow> chat_tables" where
  "data_tables t = \<lparr>ct_users = map_of (cd_users t), ct_messages = cd_messages t, ct_friends = map_of (cd_friends t)\<rparr>"

definition new_key :: "int list \<Rightarrow> int" where
  "new_key ks = 1 + fold max ks 0"

lemma fold_max_le: "m \<le> fold max ks (m :: int) \<and> (\<forall>k \<in> set ks. k \<le> fold max ks m)"
  by (induction ks arbitrary: m) (auto, (meson max.bounded_iff)+)

lemma new_key_fresh: "0 < new_key ks" "new_key ks \<notin> set ks"
  using fold_max_le [of 0 ks] by (auto simp: new_key_def)

definition ref_fetch :: "nat \<Rightarrow> string list \<Rightarrow> int \<times> string list" where
  "ref_fetch n row = (if list_all (\<lambda>s. length s < n) row then (0, map (\<lambda>s. s @ [NUL]) row) else (101, []))"

interpretation ref_fetch: stmt_fetch ref_fetch
proof
  fix row :: "string list" and n assume "\<forall>s \<in> set row. length s < n"
  then show "fst (ref_fetch n row) = 0 \<and> list_all2 (\<lambda>s b. \<exists>rest. b = s @ NUL # rest) row (snd (ref_fetch n row))"
    by (auto simp: ref_fetch_def list_all_iff list.rel_map intro!: list.rel_refl_strong)
next
  fix row :: "string list" and n assume "\<exists>s \<in> set row. n < length s"
  then show "fst (ref_fetch n row) \<noteq> 0" by (auto simp: ref_fetch_def list_all_iff intro!: bexI)
qed

definition done_result :: "int \<Rightarrow> stmt_result option" where
  "done_result i = Some \<lparr>sr_insert_id = word_of_int i, sr_metadata = None, sr_fetches = []\<rparr>"

definition select_result :: "nat \<Rightarrow> string list list \<Rightarrow> stmt_result option" where
  "select_result n rows = Some \<lparr>sr_insert_id = 0, sr_metadata = Some 0, sr_fetches = map (ref_fetch n) rows @ [(100, [])]\<rparr>"

lemma select_result_rows: "rows_result ref_fetch n (select_result n rows) rows"
  by (auto simp: rows_result_def select_result_def intro!: exI [of _ "[(100, [])]"])

text \<open>The tables after the statements that change them; the clock of the database stands still.\<close>

definition ref_time :: string where "ref_time = ''2024-01-01 00:00:00''"

definition ref_insert_user :: "string \<Rightarrow> string \<Rightarrow> chat_data \<Rightarrow> stmt_result option \<times> chat_data" where
  "ref_insert_user name pwd t = (let i = new_key (map fst (cd_users t)) in
     if i < 2 ^ 31 then (done_result i, t\<lparr>cd_users := (i, name, pwd, ''offline'') # cd_users t\<rparr>) else (None, t))"

definition ref_insert_message :: "int \<Rightarrow> int \<Rightarrow> string \<Rightarrow> chat_data \<Rightarrow> stmt_result option \<times> chat_data" where
  "ref_insert_message f to c t = (let i = new_key (map mr_id (cd_messages t)) in
     if i < 2 ^ 31 then (done_result i, t\<lparr>cd_messages := cd_messages t @
       [\<lparr>mr_id = i, mr_from = f, mr_to = to, mr_content = c, mr_read = False, mr_time = ref_time\<rparr>]\<rparr>) else (None, t))"

definition ref_state :: "string \<Rightarrow> int \<Rightarrow> chat_data \<Rightarrow> chat_data" where
  "ref_state s i t = (case map_of (cd_users t) i of None \<Rightarrow> t
     | Some (name, pwd, st) \<Rightarrow> t\<lparr>cd_users := AList.update i (name, pwd, s) (cd_users t)\<rparr>)"

definition ref_read :: "int \<Rightarrow> chat_data \<Rightarrow> chat_data" where
  "ref_read i t = t\<lparr>cd_messages := map (\<lambda>m. if mr_id m = i then m\<lparr>mr_read := True\<rparr> else m) (cd_messages t)\<rparr>"

definition ref_accept :: "int \<times> int \<Rightarrow> chat_data \<Rightarrow> chat_data" where
  "ref_accept k t = (case map_of (cd_friends t) k of None \<Rightarrow> t
     | Some (a, rm, tm) \<Rightarrow> t\<lparr>cd_friends := AList.update k (True, rm, tm) (cd_friends t)\<rparr>)"

definition ref_friend :: "int \<times> int \<Rightarrow> bool \<Rightarrow> chat_data \<Rightarrow> chat_data" where
  "ref_friend k a t = t\<lparr>cd_friends := AList.update k (a, [], ref_time) (cd_friends t)\<rparr>"

definition apply_row :: "int \<Rightarrow> chat_data \<Rightarrow> int \<times> int \<Rightarrow> string list list" where
  "apply_row f t k = (case (map_of (cd_friends t) k, map_of (cd_users t) (fst k)) of
     (Some (a, rm, tm), Some (name, pwd, st)) \<Rightarrow> if snd k = f \<and> \<not> a then [[int_text (fst k), name, tm]] else []
   | _ \<Rightarrow> [])"

definition friend_row :: "int \<Rightarrow> chat_data \<Rightarrow> int \<times> int \<Rightarrow> string list list" where
  "friend_row u t k = (case (map_of (cd_friends t) k, map_of (cd_users t) (snd k)) of
     (Some (a, rm, tm), Some (name, pwd, st)) \<Rightarrow> if fst k = u \<and> a then [[int_text (snd k), name, rm, tm]] else []
   | _ \<Rightarrow> [])"

definition ref_applies :: "int \<Rightarrow> chat_data \<Rightarrow> string list list" where
  "ref_applies f t = concat (map (apply_row f t) (map fst (cd_friends t)))"

definition ref_friends :: "int \<Rightarrow> chat_data \<Rightarrow> string list list" where
  "ref_friends u t = concat (map (friend_row u t) (map fst (cd_friends t)))"

fun ref_run :: "nat \<Rightarrow> string \<Rightarrow> my_bind list \<Rightarrow> chat_data \<Rightarrow> stmt_result option \<times> chat_data" where
  "ref_run n sql [TYPE_STRING name, TYPE_STRING pwd] t =
     (if sql = sql_insert_user then ref_insert_user name pwd t else (None, t))"
| "ref_run n sql [TYPE_STRING s, TYPE_LONG i] t =
     (if sql = sql_update_state then (done_result 0, ref_state s i t) else (None, t))"
| "ref_run n sql [TYPE_LONG f, TYPE_LONG to, TYPE_STRING c] t =
     (if sql = sql_insert_message then ref_insert_message f to c t else (None, t))"
| "ref_run n sql [TYPE_LONG u, TYPE_LONG f] t =
     (if sql = sql_apply_friend then
        (if map_of (cd_friends t) (u, f) = None then (done_result 0, ref_friend (u, f) False t) else (None, t))
      else if sql = sql_accept_friend then (done_result 0, ref_accept (u, f) t)
      else if sql = sql_add_friend then
        (done_result 0, if map_of (cd_friends t) (u, f) = None then ref_friend (u, f) True t else ref_accept (u, f) t)
      else if sql = sql_delete_friend then (done_result 0, t\<lparr>cd_friends := AList.delete (u, f) (cd_friends t)\<rparr>)
      else (None, t))"
| "ref_run n sql [TYPE_LONG i] t =
     (if sql = sql_ack_message then (done_result 0, ref_read i t)
      else (if sql = sql_select_user then
              select_result n (case map_of (cd_users t) i of None \<Rightarrow> [] | Some u \<Rightarrow> [user_cells i u])
            else if sql = sql_select_time then
              select_result n (map (\<lambda>m. [mr_time m]) (filter (\<lambda>m. mr_id m = i) (cd_messages t)))
            else if sql = sql_select_offline then select_result n (map message_cells (unread_for i (data_tables t)))
            else if sql = sql_select_applies then select_result n (ref_applies i t)
            else if sql = sql_select_friends then select_result n (ref_friends i t)
            else None, t))"
| "ref_run n sql bs t = (None, t)"

lemma sql_distinct:
  "distinct [sql_select_friends, sql_select_applies, sql_select_offline, sql_select_time, sql_select_user, sql_ack_message]"
  "distinct [sql_delete_friend, sql_add_friend, sql_accept_friend, sql_apply_friend]"
  by code_simp+

text \<open>The tables of the data.\<close>

lemma data_tables_simps [simp]:
  "ct_users (data_tables t) = map_of (cd_users t)" "ct_messages (data_tables t) = cd_messages t"
  "ct_friends (data_tables t) = map_of (cd_friends t)"
  by (simp_all add: data_tables_def)

lemma time_ref_time: "time_text ref_time"
  by code_simp

lemma short_ref_time: "short_text ref_time"
  by code_simp

lemma tables_ref_state: "data_tables (ref_state s i t) = set_user_state i s (data_tables t)"
  by (auto simp: ref_state_def set_user_state_def data_tables_def update_conv' split: option.splits)

lemma tables_ref_read: "data_tables (ref_read i t) = set_read i (data_tables t)"
  by (simp add: ref_read_def set_read_def data_tables_def)

lemma tables_ref_accept: "data_tables (ref_accept k t) = set_accepted k (data_tables t)"
  by (cases k) (auto simp: ref_accept_def set_accepted_def data_tables_def update_conv' split: option.splits)

lemma tables_ref_friend:
  "data_tables (ref_friend k a t) = (data_tables t)\<lparr>ct_friends := (ct_friends (data_tables t))(k \<mapsto> (a, [], ref_time))\<rparr>"
  by (simp add: ref_friend_def data_tables_def update_conv')

lemma in_concat_rows:
  assumes "\<And>k x. x \<in> set (g k) \<Longrightarrow> map_of es k \<noteq> None"
  shows "set (concat (map g (map fst es))) = {x. \<exists>k. x \<in> set (g k)}"
  using assms by (auto simp: map_of_eq_None_iff)

lemma in_apply_row: "x \<in> set (apply_row f t k) \<longleftrightarrow>
  (\<exists>u name tm pwd st rm. k = (u, f) \<and> map_of (cd_friends t) (u, f) = Some (False, rm, tm)
    \<and> map_of (cd_users t) u = Some (name, pwd, st) \<and> x = [int_text u, name, tm])"
  by (cases k) (auto simp: apply_row_def split: option.splits, metis+)

lemma in_friend_row: "x \<in> set (friend_row u t k) \<longleftrightarrow>
  (\<exists>f name rm tm pwd st. k = (u, f) \<and> map_of (cd_friends t) (u, f) = Some (True, rm, tm)
    \<and> map_of (cd_users t) f = Some (name, pwd, st) \<and> x = [int_text f, name, rm, tm])"
  by (cases k) (auto simp: friend_row_def split: option.splits, metis+)

lemma set_ref_applies: "set (ref_applies f t) = apply_rows f (data_tables t)"
proof -
  have "set (ref_applies f t) = {x. \<exists>k. x \<in> set (apply_row f t k)}"
    unfolding ref_applies_def by (rule in_concat_rows) (auto simp: in_apply_row)
  then show ?thesis by (auto simp: in_apply_row apply_rows_def)
qed

lemma set_ref_friends: "set (ref_friends u t) = friend_rows u (data_tables t)"
proof -
  have "set (ref_friends u t) = {x. \<exists>k. x \<in> set (friend_row u t k)}"
    unfolding ref_friends_def by (rule in_concat_rows) (auto simp: in_friend_row)
  then show ?thesis by (auto simp: in_friend_row friend_rows_def)
qed

text \<open>The database in memory obeys the laws.\<close>

abbreviation ref_api :: "chat_data mem_world mysql_api" where
  "ref_api \<equiv> mem_api ref_run"

lemma ref_execute:
  "my_stmt_execute ref_api h n sql bs w = (r, w') \<longleftrightarrow>
     r = fst (ref_run n sql bs (mw_data w)) \<and> w' = w\<lparr>mw_data := snd (ref_run n sql bs (mw_data w))\<rparr>"
  by (auto simp: mem_api_def Let_def case_prod_unfold)

lemma ref_insert_user_law:
  "ref_insert_user name pwd t = (r, t') \<Longrightarrow>
    (case r of None \<Rightarrow> data_tables t' = data_tables t
     | Some s \<Rightarrow> \<exists>i. sr_insert_id s = word_of_int i \<and> 0 < i \<and> i < 2 ^ 31 \<and> ct_users (data_tables t) i = None
         \<and> data_tables t' = (data_tables t)\<lparr>ct_users := (ct_users (data_tables t))(i \<mapsto> (name, pwd, ''offline''))\<rparr>)"
  using new_key_fresh [of "map fst (cd_users t)"]
  by (auto simp: ref_insert_user_def done_result_def data_tables_def map_of_eq_None_iff Let_def split: if_splits)

lemma ref_insert_message_law:
  "ref_insert_message f to c t = (r, t') \<Longrightarrow>
    (case r of None \<Rightarrow> data_tables t' = data_tables t
     | Some s \<Rightarrow> \<exists>i tm. sr_insert_id s = word_of_int i \<and> 0 < i \<and> i < 2 ^ 31 \<and> time_text tm
      \<and> i \<notin> mr_id ` set (ct_messages (data_tables t))
      \<and> data_tables t' = (data_tables t)\<lparr>ct_messages := ct_messages (data_tables t) @
          [\<lparr>mr_id = i, mr_from = f, mr_to = to, mr_content = c, mr_read = False, mr_time = tm\<rparr>]\<rparr>)"
  using new_key_fresh [of "map mr_id (cd_messages t)"] time_ref_time
  by (auto simp: ref_insert_message_def done_result_def data_tables_def Let_def split: if_splits)

lemma ref_run_select:
  "ref_run n sql_select_user [TYPE_LONG i] t =
     (select_result n (case map_of (cd_users t) i of None \<Rightarrow> [] | Some u \<Rightarrow> [user_cells i u]), t)"
  "ref_run n sql_select_time [TYPE_LONG i] t =
     (select_result n (map (\<lambda>m. [mr_time m]) (filter (\<lambda>m. mr_id m = i) (cd_messages t))), t)"
  "ref_run n sql_select_offline [TYPE_LONG i] t = (select_result n (map message_cells (unread_for i (data_tables t))), t)"
  "ref_run n sql_select_applies [TYPE_LONG i] t = (select_result n (ref_applies i t), t)"
  "ref_run n sql_select_friends [TYPE_LONG i] t = (select_result n (ref_friends i t), t)"
  using sql_distinct(1) by simp_all

lemma ref_run_change:
  "ref_run n sql_insert_user [TYPE_STRING name, TYPE_STRING pwd] t = ref_insert_user name pwd t"
  "ref_run n sql_update_state [TYPE_STRING s, TYPE_LONG i] t = (done_result 0, ref_state s i t)"
  "ref_run n sql_insert_message [TYPE_LONG f, TYPE_LONG to, TYPE_STRING c] t = ref_insert_message f to c t"
  "ref_run n sql_ack_message [TYPE_LONG i] t = (done_result 0, ref_read i t)"
  "ref_run n sql_apply_friend [TYPE_LONG u, TYPE_LONG f] t =
     (if map_of (cd_friends t) (u, f) = None then (done_result 0, ref_friend (u, f) False t) else (None, t))"
  "ref_run n sql_accept_friend [TYPE_LONG u, TYPE_LONG f] t = (done_result 0, ref_accept (u, f) t)"
  "ref_run n sql_add_friend [TYPE_LONG u, TYPE_LONG f] t =
     (done_result 0, if map_of (cd_friends t) (u, f) = None then ref_friend (u, f) True t else ref_accept (u, f) t)"
  "ref_run n sql_delete_friend [TYPE_LONG u, TYPE_LONG f] t =
     (done_result 0, t\<lparr>cd_friends := AList.delete (u, f) (cd_friends t)\<rparr>)"
  using sql_distinct(2) by simp_all

declare ref_run.simps [simp del]

lemma tables_delete_friend:
  "data_tables (t\<lparr>cd_friends := AList.delete k (cd_friends t)\<rparr>)
     = (data_tables t)\<lparr>ct_friends := (ct_friends (data_tables t))(k := None)\<rparr>"
  by (simp add: data_tables_def delete_conv')

lemmas ref_simps = ref_execute ref_run_select ref_run_change o_apply mem_world.simps
  tables_ref_state tables_ref_read tables_ref_accept tables_ref_friend tables_delete_friend
lemmas ref_rows = set_ref_applies set_ref_friends select_result_rows

interpretation ref: chat_database ref_fetch ref_api "data_tables \<circ> mw_data"
proof (unfold_locales, goal_cases)
  case (3 h n name pwd w r w')
  then show ?case using ref_insert_user_law [OF surjective_pairing, of name pwd "mw_data w"] by (auto simp: ref_simps simp del: fun_upd_apply split: option.splits)
next
  case (6 h n f t c w r w')
  then show ?case using ref_insert_message_law [OF surjective_pairing, of f t c "mw_data w"] by (auto simp: ref_simps split: option.splits)
next
  case (7 h n i w r w')
  then have e: "r = select_result n (map (\<lambda>m. [mr_time m]) (filter (\<lambda>m. mr_id m = i) (cd_messages (mw_data w))))" "w' = w" by (simp_all add: ref_simps)
  show ?case unfolding e o_apply by (intro conjI exI, rule refl, rule select_result_rows) simp
next
  case (9 h n i w r w')
  then have e: "r = select_result n (map message_cells (unread_for i (data_tables (mw_data w))))" "w' = w" by (simp_all add: ref_simps)
  show ?case unfolding e o_apply by (intro conjI exI, rule refl, rule select_result_rows) simp
next
  case (10 h n u f w r w')
  then show ?case using short_ref_time by (auto simp: ref_simps done_result_def simp del: fun_upd_apply split: option.splits)
next
  case (12 h n u f w r w')
  then show ?case using short_ref_time by (auto simp: ref_simps done_result_def simp del: fun_upd_apply split: option.splits)
next
  case (14 h n f w r w')
  then have e: "r = select_result n (ref_applies f (mw_data w))" "w' = w" by (simp_all add: ref_simps)
  show ?case unfolding e o_apply by (intro conjI exI, rule refl, rule select_result_rows) (rule set_ref_applies)
next
  case (15 h n u w r w')
  then have e: "r = select_result n (ref_friends u (mw_data w))" "w' = w" by (simp_all add: ref_simps)
  show ?case unfolding e o_apply by (intro conjI exI, rule refl, rule select_result_rows) (rule set_ref_friends)
qed (simp_all add: mem_api_def, simp_all add: ref_simps select_result_rows done_result_def del: fun_upd_apply)

subsection \<open>Accounts, messages and friends\<close>

text \<open>The tables keep fitting the buffers when what is written into them does.\<close>

lemma tables_fit_add_user:
  "tables_fit t \<Longrightarrow> id_ok i \<Longrightarrow> short_text name \<Longrightarrow> short_text pwd \<Longrightarrow> short_text st \<Longrightarrow>
    tables_fit (t\<lparr>ct_users := (ct_users t)(i \<mapsto> (name, pwd, st))\<rparr>)"
  unfolding tables_fit_def by simp

lemma tables_fit_add_message:
  "tables_fit t \<Longrightarrow> id_ok (mr_id m) \<Longrightarrow> id_ok (mr_from m) \<Longrightarrow> short_text (mr_content m) \<Longrightarrow> short_text (mr_time m) \<Longrightarrow>
    tables_fit (t\<lparr>ct_messages := ct_messages t @ [m]\<rparr>)"
  unfolding tables_fit_def by simp

lemma tables_fit_set_read: "tables_fit t \<Longrightarrow> tables_fit (set_read i t)"
  unfolding tables_fit_def set_read_def by auto

lemma tables_fit_add_friend:
  "tables_fit t \<Longrightarrow> short_text rm \<Longrightarrow> short_text tm \<Longrightarrow> tables_fit (t\<lparr>ct_friends := (ct_friends t)(k \<mapsto> (a, rm, tm))\<rparr>)"
  unfolding tables_fit_def by (cases k) simp

lemma tables_fit_set_accepted: "tables_fit t \<Longrightarrow> tables_fit (set_accepted k t)"
  by (auto simp: set_accepted_def split: option.splits intro!: tables_fit_add_friend dest: tables_fit_friend)

lemma short_text_simps [simp]: "short_text []" "short_text ''offline''"
  by (simp_all add: short_text_def col_buffer_def NUL_def)

lemma message_rows:
  "\<forall>m \<in> set ms. id_ok (mr_id m) \<and> id_ok (mr_from m) \<Longrightarrow> map_exn message_of_row (map message_cells ms) = Inr (map message_of ms)"
  by (induction ms) (auto simp: message_of_cells)

lemma unread_for_add:
  "unread_for i (t\<lparr>ct_messages := ct_messages t @ [m]\<rparr>) =
     unread_for i t @ (if mr_to m = i \<and> \<not> mr_read m then [m] else [])"
  by (simp add: unread_for_def)

lemma unread_for_set_read: "unread_for i (set_read k t) = filter (\<lambda>m. mr_id m \<noteq> k) (unread_for i t)"
proof -
  have "filter (\<lambda>m. mr_to m = i \<and> \<not> mr_read m) (map (\<lambda>m. if mr_id m = k then m\<lparr>mr_read := True\<rparr> else m) ms)
      = filter (\<lambda>m. mr_id m \<noteq> k) (filter (\<lambda>m. mr_to m = i \<and> \<not> mr_read m) ms)" for ms
    by (induction ms) auto
  then show ?thesis by (simp add: unread_for_def set_read_def)
qed

context chat_database
begin

lemma registered_found:
  assumes "backend_ok bk" and "tables_fit (tabs bk)" and "short_text (us_name u)" and "short_text (us_pwd u)"
    and "um_insert api now u bk = (Inr (True, u'), bk1)"
  shows "ct_users (tabs bk) (us_id u') = None
    \<and> (\<exists>bk2. um_query api now' (us_id u') bk1 = (Inr (User (us_id u') (us_name u) (us_pwd u) ''offline''), bk2))
    \<and> (\<forall>j. j \<noteq> us_id u' \<longrightarrow> fst (um_query api now' j bk1) = fst (um_query api now' j bk))"
proof -
  from um_insert_ok [OF assms(1), of now u] assms(5) obtain i where i: "backend_ok bk1" "id_ok i" "u' = setid i u"
    "ct_users (tabs bk) i = None"
    "tabs bk1 = (tabs bk)\<lparr>ct_users := (ct_users (tabs bk))(i \<mapsto> (us_name u, us_pwd u, ''offline''))\<rparr>" by auto
  have fit: "tables_fit (tabs bk1)" unfolding i(5) using assms i(2) by (intro tables_fit_add_user) auto
  have e: "us_id u' = i" using i(3) by (simp add: setid_def)
  have same: "fst (um_query api now' j bk1) = fst (um_query api now' j bk)" if "j \<noteq> i" for j
    using um_query_ok [OF i(1) fit, of now' j] um_query_ok [OF assms(1,2), of now' j] that i(5) by auto
  have "\<exists>bk2. um_query api now' i bk1 = (Inr (User i (us_name u) (us_pwd u) ''offline''), bk2)"
    using um_query_ok [OF i(1) fit, of now' i] i(5) by auto
  with e i(4) same show ?thesis by simp
qed

lemma message_waits:
  assumes "backend_ok bk" and "tables_fit (tabs bk)" and "\<forall>m \<in> set (ct_messages (tabs bk)). 0 < mr_id m"
    and "id_ok f" and "short_text c" and "insertMessage api now f t c bk = (Inr m, bk1)" and "ms_msgid m \<noteq> 0"
  shows "\<exists>old new later bk0 bk2 bk3 bk4. getofflineMessage api now t bk = (Inr old, bk0)
    \<and> getofflineMessage api now t bk1 = (Inr new, bk2)
    \<and> mset new = add_mset (Message_of (ms_msgid m) f (- 1) c (ms_time m)) (mset old)
    \<and> updateMesStatus api now (ms_msgid m) bk2 = (Inr True, bk3)
    \<and> getofflineMessage api now t bk3 = (Inr later, bk4) \<and> mset later = mset old"
proof -
  let ?m = "\<lparr>mr_id = ms_msgid m, mr_from = f, mr_to = t, mr_content = c, mr_read = False, mr_time = ms_time m\<rparr>"
  from insertMessage_ok [OF assms(1-3), of now f t c] assms(6,7) have m: "backend_ok bk1" "id_ok (ms_msgid m)" "short_text (ms_time m)"
    "ms_msgid m \<notin> mr_id ` set (ct_messages (tabs bk))"
    "tabs bk1 = (tabs bk)\<lparr>ct_messages := ct_messages (tabs bk) @ [?m]\<rparr>" by (auto split: if_splits dest: time_text_short)
  have fit: "tables_fit (tabs bk1)" unfolding m(5) using assms m by (intro tables_fit_add_message) auto
  have u: "unread_for t (tabs bk1) = unread_for t (tabs bk) @ [?m]" unfolding m(5) by (simp add: unread_for_add)
  from getofflineMessage_ok [OF assms(1,2)] obtain old bk0 where old: "getofflineMessage api now t bk = (Inr old, bk0)"
    "mset old = mset (map message_of (unread_for t (tabs bk)))" by blast
  from getofflineMessage_ok [OF m(1) fit] obtain new bk2 where new: "getofflineMessage api now t bk1 = (Inr new, bk2)"
    "backend_ok bk2" "tabs bk2 = tabs bk1" "mset new = mset (map message_of (unread_for t (tabs bk1)))" by blast
  from updateMesStatus_ok [OF new(2)] new(3) obtain bk3 where ack: "updateMesStatus api now (ms_msgid m) bk2 = (Inr True, bk3)"
    "backend_ok bk3" "tabs bk3 = set_read (ms_msgid m) (tabs bk1)" by metis
  have "tables_fit (tabs bk3)" unfolding ack(3) by (rule tables_fit_set_read [OF fit])
  from getofflineMessage_ok [OF ack(2) this] obtain later bk4 where later: "getofflineMessage api now t bk3 = (Inr later, bk4)"
    "mset later = mset (map message_of (unread_for t (tabs bk3)))" by blast
  have "filter (\<lambda>x. mr_id x \<noteq> ms_msgid m) (unread_for t (tabs bk)) = unread_for t (tabs bk)"
    using m(4) by (intro filter_True) (auto simp: unread_for_def image_iff)
  then have "unread_for t (tabs bk3) = unread_for t (tabs bk)" by (simp add: ack(3) unread_for_set_read u)
  with old new ack later u show ?thesis by (auto simp: message_of_def)
qed

lemma agreed_one_sided:
  assumes "backend_ok bk" and "tables_fit (tabs bk)" and "u \<noteq> f"
    and "ct_friends (tabs bk) (u, f) = None" and "ct_friends (tabs bk) (f, u) = None"
    and "ct_users (tabs bk) u = Some (nu, pu, su)" and "ct_users (tabs bk) f = Some (nf, pf, sf)"
  shows "\<exists>bk1 bk2 bk3 bk4 lf lu. applyFriend api now u f bk = (Inr True, bk1)
    \<and> agreeFriend api now f u bk1 = (Inr True, bk2)
    \<and> getFriendList api now u bk2 = (Inr lu, bk3) \<and> f \<in> fa_userId ` set lu
    \<and> getFriendList api now f bk3 = (Inr lf, bk4) \<and> u \<notin> fa_userId ` set lf"
proof -
  from applyFriend_ok [OF assms(1), of now u f] assms(4) obtain bk1 tm where a: "applyFriend api now u f bk = (Inr True, bk1)"
    "backend_ok bk1" "short_text tm" "tabs bk1 = (tabs bk)\<lparr>ct_friends := (ct_friends (tabs bk))((u, f) \<mapsto> (False, [], tm))\<rparr>" by auto
  have "set_accepted (f, u) (tabs bk1) = tabs bk1" using assms(3,5) by (simp add: set_accepted_def a(4))
  with agreeFriend_ok [OF a(2), of now f u] a(4) obtain bk2 where g: "agreeFriend api now f u bk1 = (Inr True, bk2)"
    "backend_ok bk2" "tabs bk2 = set_accepted (u, f) (tabs bk1)" by auto
  have t: "tabs bk2 = (tabs bk)\<lparr>ct_friends := (ct_friends (tabs bk))((u, f) \<mapsto> (True, [], tm))\<rparr>"
    by (simp add: g(3) a(4) set_accepted_def)
  have fit: "tables_fit (tabs bk2)" unfolding t using a(3) assms(2) by (intro tables_fit_add_friend) auto
  from getFriendList_ok [OF g(2) fit] obtain lu bk3 where lu: "getFriendList api now u bk2 = (Inr lu, bk3)" "backend_ok bk3"
    "tabs bk3 = tabs bk2" "set lu = friends_of u (tabs bk2)" by blast
  from getFriendList_ok [OF lu(2), of now f] fit lu(3) obtain lf bk4 where lf: "getFriendList api now f bk3 = (Inr lf, bk4)"
    "set lf = friends_of f (tabs bk2)" by auto
  have "\<lparr>fa_userId = f, fa_userName = nf, fa_applyTime = tm, fa_remark = []\<rparr> \<in> set lu"
    using assms(7) by (simp add: lu(4) friends_of_def t)
  then have "f \<in> fa_userId ` set lu" by force
  moreover have "u \<notin> fa_userId ` set lf" using assms(3,5) by (auto simp: lf(2) friends_of_def t)
  ultimately show ?thesis using a(1) g(1) lu(1) lf(1) by blast
qed

lemma refused_stays:
  assumes "backend_ok bk" and "tables_fit (tabs bk)" and "u \<noteq> f"
    and "ct_friends (tabs bk) (u, f) = Some (False, rm, tm)" and "ct_users (tabs bk) u = Some (nu, pu, su)"
  shows "\<exists>bk1 bk2 l. refuseFriend api now f u bk = (Inr True, bk1)
    \<and> getApplyList api now f bk1 = (Inr l, bk2) \<and> u \<in> fa_userId ` set l"
proof -
  from refuseFriend_ok [OF assms(1), of now f u] obtain bk1 where r: "refuseFriend api now f u bk = (Inr True, bk1)"
    "backend_ok bk1" "tabs bk1 = (tabs bk)\<lparr>ct_friends := (ct_friends (tabs bk))((f, u) := None)\<rparr>" by blast
  have "tables_fit (tabs bk1)" using assms(2) unfolding tables_fit_def r(3) by simp
  from getApplyList_ok [OF r(2) this] obtain l bk2 where l: "getApplyList api now f bk1 = (Inr l, bk2)"
    "set l = applies_of f (tabs bk1)" by blast
  have "\<lparr>fa_userId = u, fa_userName = nu, fa_applyTime = tm, fa_remark = []\<rparr> \<in> set l"
    using assms(3-5) by (simp add: l(2) applies_of_def r(3))
  then have "u \<in> fa_userId ` set l" by force
  with r(1) l(1) show ?thesis by blast
qed

end

context stmt_fetch
begin

text \<open>Rows that fit or do not: the loop stops at the first that does not.\<close>

lemma fetch_prefix:
  assumes "\<forall>row \<in> set rows. short_cells row \<or> (\<exists>s \<in> set row. col_buffer < length s)" and "tail = [] \<or> fst (hd tail) \<noteq> 0"
  shows "fetch_loop (map (fetch col_buffer) rows @ tail) = Inr (takeWhile short_cells rows)"
proof (cases "\<forall>row \<in> set rows. short_cells row")
  case True
  then have "takeWhile short_cells rows = rows" by (simp add: takeWhile_eq_all_conv)
  with fetch_rows [OF True assms(2)] show ?thesis by (simp only:)
next
  case False
  then have "\<exists>row \<in> set rows. \<not> short_cells row" by blast
  from split_list_first_prop [OF this]
  obtain xs long ys where rows: "rows = xs @ long # ys" "\<not> short_cells long" "\<forall>x \<in> set xs. short_cells x" by auto
  then have "\<exists>s \<in> set long. col_buffer < length s" using assms(1) by auto
  from fetch_stops [OF rows(3) this] rows(2,3) show ?thesis
    by (simp add: rows(1) takeWhile_tail takeWhile_append2)
qed

end

context chat_database
begin

lemma query_prefix:
  assumes "db_conn d = Some h" and "my_stmt_execute api h col_buffer sql (map (bind_param \<circ> makeparam) args) w = (r, w')"
    and "rows_result fetch col_buffer r rows" and "\<forall>row \<in> set rows. short_cells row \<or> (\<exists>s \<in> set row. col_buffer < length s)"
    and "sql \<in> chat_sql"
  shows "db_query api d sql args w = (Inr (takeWhile short_cells rows), w')"
proof -
  from assms(3) obtain s tail where r: "r = Some s" "sr_metadata s \<noteq> None"
    "sr_fetches s = map (fetch col_buffer) rows @ tail" "tail = [] \<or> fst (hd tail) \<noteq> 0"
    by (auto simp: rows_result_def)
  with fetch_prefix [OF assms(4) r(4)] show ?thesis using assms(1,2,5) stmt_ready
    by (auto simp: db_query_def query_base_def split: option.splits)
qed

lemma long_not_fetched:
  assumes "backend_ok bk"
    and "\<forall>m \<in> set (unread_for i (tabs bk)). id_ok (mr_id m) \<and> id_ok (mr_from m) \<and> short_text (mr_time m)
      \<and> (short_text (mr_content m) \<or> col_buffer < length (mr_content m))"
  shows "\<exists>ms bk'. getofflineMessage api now i bk = (Inr ms, bk') \<and> backend_ok bk'
    \<and> ((\<forall>x \<in> set ms. length (ms_content x) < col_buffer) \<and> tabs bk' = tabs bk)"
  unfolding getofflineMessage_def
proof (rule with_conn_rule [OF assms(1)])
  fix d :: mysql_db and h assume d: "db_conn d = Some h"
  obtain r w' where e: "my_stmt_execute api h col_buffer sql_select_offline [TYPE_LONG i] (bk_world bk) = (r, w')" by force
  from select_offline [OF e] obtain ms where ms: "tables w' = tabs bk" "rows_result fetch col_buffer r (map message_cells ms)"
    "mset ms = mset (unread_for i (tabs bk))" by blast
  have fit: "id_ok (mr_id m) \<and> id_ok (mr_from m) \<and> short_text (mr_time m)
      \<and> (short_text (mr_content m) \<or> col_buffer < length (mr_content m))" if "m \<in> set ms" for m
    using assms(2) that mset_eq_setD [OF ms(3)] by blast
  let ?ms = "takeWhile (short_cells \<circ> message_cells) ms"
  have "\<forall>row \<in> set (map message_cells ms). short_cells row \<or> (\<exists>s \<in> set row. col_buffer < length s)"
    using fit by (auto simp: short_cells_text message_cells_def short_int_text)
  from query_prefix [OF d _ ms(2) this chat_sql_texts(7), of "[ArgInt i]" "bk_world bk" w'] e
  have q: "db_query api d sql_select_offline [ArgInt i] (bk_world bk) = (Inr (map message_cells ?ms), w')"
    by (simp add: takeWhile_map)
  have in_ms: "m \<in> set ms \<and> short_cells (message_cells m)" if "m \<in> set ?ms" for m
    using set_takeWhileD [OF that] by simp
  then have "map_exn message_of_row (map message_cells ?ms) = Inr (map message_of ?ms)"
    using fit by (intro message_rows) blast
  moreover have "length (ms_content x) < col_buffer" if "x \<in> set (map message_of ?ms)" for x
    using that in_ms by (auto simp: message_of_def Message_of_def message_cells_def short_cells_def)
  ultimately show "\<exists>x w'. (let (ret, w) = db_query api d sql_select_offline [ArgInt i] (bk_world bk)
      in (case ret of Inl e \<Rightarrow> Inl e | Inr rows \<Rightarrow> map_exn message_of_row rows, w)) = (Inr x, w')
    \<and> ((\<forall>x \<in> set x. length (ms_content x) < col_buffer) \<and> tables w' = tabs bk)"
    using q ms(1) by auto
qed

end

subsection \<open>Sample states\<close>

text \<open>A server with one connection on the database in memory.\<close>

definition ref_backend :: "chat_data \<Rightarrow> chat_data mem_world backend" where
  "ref_backend t = \<lparr>bk_pool = Some \<lparr>cp_target = ([], [], [], [], 0), cp_queue = [\<lparr>db_conn = Some 0, db_last = 0\<rparr>],
       cp_initSize = 1, cp_curfreeSize = 1, cp_curSize = 1, cp_maxSize = 1, cp_run = True\<rparr>,
     bk_conf = None, bk_world = \<lparr>mw_next = 1, mw_live = [0], mw_data = t\<rparr>\<rparr>"

lemma ref_backend_ok [simp]: "backend_ok (ref_backend t)"
  by (simp add: backend_ok_def ref_backend_def)

lemma ref_backend_data [simp]: "mw_data (bk_world (ref_backend t)) = t"
  by (simp add: ref_backend_def)

text \<open>Two users.\<close>

definition two_users :: chat_data where
  "two_users = \<lparr>cd_users = [(1, ''ann'', ''x'', ''offline''), (2, ''bob'', ''y'', ''offline'')], cd_messages = [], cd_friends = []\<rparr>"

lemma data_fit:
  assumes "\<forall>(i, name, pwd, st) \<in> set (cd_users t). id_ok i \<and> short_text name \<and> short_text pwd \<and> short_text st"
    and "\<forall>m \<in> set (cd_messages t). id_ok (mr_id m) \<and> id_ok (mr_from m) \<and> short_text (mr_content m) \<and> short_text (mr_time m)"
    and "\<forall>(k, a, rm, tm) \<in> set (cd_friends t). short_text rm \<and> short_text tm"
  shows "tables_fit (data_tables t)"
  using assms unfolding tables_fit_def by (auto dest!: map_of_SomeD)

lemma two_users_fit [simp]: "tables_fit (data_tables two_users)"
  by (rule data_fit) code_simp+

end
