(* ===== verification/Chat_Props.thy ===== *)
theory Chat_Props
  imports Chat_Ref
begin

text \<open>
  What the users of the chat server can rely on, and what they cannot: accounts are found again,
  messages wait until they are acknowledged, friendships are one-sided and long messages are lost.
\<close>



text \<open>
  A message that was stored waits for its receiver: it is among the messages that the next login
  of the receiver delivers, once, beside those that were there before, and after the receiver has
  acknowledged it, it is not delivered again, while the others still are.
\<close>

theorem message_waits_for_ack:
  assumes "chat_database fetch api tables" and "backend_ok bk" and "tables_fit (tables (bk_world bk))"
    and "\<forall>m \<in> set (ct_messages (tables (bk_world bk))). 0 < mr_id m"
    and "id_ok f" and "short_text c" and "insertMessage api now f t c bk = (Inr m, bk1)" and "ms_msgid m \<noteq> 0"
  shows "\<exists>old new later bk0 bk2 bk3 bk4. getofflineMessage api now t bk = (Inr old, bk0)
    \<and> getofflineMessage api now t bk1 = (Inr new, bk2)
    \<and> mset new = add_mset (Message_of (ms_msgid m) f (- 1) c (ms_time m)) (mset old)
    \<and> updateMesStatus api now (ms_msgid m) bk2 = (Inr True, bk3)
    \<and> getofflineMessage api now t bk3 = (Inr later, bk4) \<and> mset later = mset old"
  using chat_database.message_waits [OF assms] .

theorem message_waits_for_ack_witness:
  "\<exists>new bk2. getofflineMessage ref_api 0 2 (snd (insertMessage ref_api 0 1 2 ''hi'' (ref_backend two_users))) = (Inr new, bk2)
    \<and> Message_of 1 1 (- 1) ''hi'' ref_time \<in> set new"
proof -
  let ?m = "Message_of 1 (- 1) (- 1) [] ref_time"
  have "insertMessage ref_api 0 1 2 ''hi'' (ref_backend two_users)
      = (Inr ?m, snd (insertMessage ref_api 0 1 2 ''hi'' (ref_backend two_users)))" by code_simp
  moreover have "\<forall>m \<in> set (ct_messages (data_tables two_users)). 0 < mr_id m" by (simp add: two_users_def)
  ultimately have "\<exists>old new later bk0 bk2 bk3 bk4. getofflineMessage ref_api 0 2 (ref_backend two_users) = (Inr old, bk0)
    \<and> getofflineMessage ref_api 0 2 (snd (insertMessage ref_api 0 1 2 ''hi'' (ref_backend two_users))) = (Inr new, bk2)
    \<and> mset new = add_mset (Message_of (ms_msgid ?m) 1 (- 1) ''hi'' (ms_time ?m)) (mset old)
    \<and> updateMesStatus ref_api 0 (ms_msgid ?m) bk2 = (Inr True, bk3)
    \<and> getofflineMessage ref_api 0 2 bk3 = (Inr later, bk4) \<and> mset later = mset old"
    by (intro message_waits_for_ack [OF ref.chat_database_axioms]) (auto simp: id_ok_def short_text_def col_buffer_def NUL_def Message_of_def)
  then obtain old new bk2 where new: "getofflineMessage ref_api 0 2 (snd (insertMessage ref_api 0 1 2 ''hi'' (ref_backend two_users))) = (Inr new, bk2)"
    "mset new = add_mset (Message_of 1 1 (- 1) ''hi'' ref_time) (mset old)" by (auto simp: Message_of_def)
  from mset_eq_setD [of new "Message_of 1 1 (- 1) ''hi'' ref_time # old"] new(2) have "Message_of 1 1 (- 1) ''hi'' ref_time \<in> set new" by simp
  with new(1) show ?thesis by blast
qed

text \<open>
  Two users become friends on one side only. When user \<open>f\<close> agrees to an application of user \<open>u\<close>, the
  client sends \<open>f\<close> as \<open>user_id\<close> and \<open>u\<close> as \<open>friend_id\<close>; then \<open>f\<close> is in the list of friends of \<open>u\<close>, but \<open>u\<close> is
  not in the list of \<open>f\<close>. When \<open>f\<close> refuses instead, the application stays in the list of \<open>f\<close>.
\<close>

theorem friendship_one_sided:
  assumes "chat_database fetch api tables" and "backend_ok bk" and "tables_fit (tables (bk_world bk))" and "u \<noteq> f"
    and "ct_friends (tables (bk_world bk)) (u, f) = None" and "ct_friends (tables (bk_world bk)) (f, u) = None"
    and "ct_users (tables (bk_world bk)) u = Some (nu, pu, su)" and "ct_users (tables (bk_world bk)) f = Some (nf, pf, sf)"
  shows "\<exists>bk1. applyFriend api now u f bk = (Inr True, bk1)
    \<and> (\<exists>bk2 bk3 bk4 lf lu. agreeFriend api now f u bk1 = (Inr True, bk2)
        \<and> getFriendList api now u bk2 = (Inr lu, bk3) \<and> f \<in> fa_userId ` set lu
        \<and> getFriendList api now f bk3 = (Inr lf, bk4) \<and> u \<notin> fa_userId ` set lf)
    \<and> (\<exists>bk2 bk3 l. refuseFriend api now f u bk1 = (Inr True, bk2)
        \<and> getApplyList api now f bk2 = (Inr l, bk3) \<and> u \<in> fa_userId ` set l)"
proof -
  from chat_database.applyFriend_ok [OF assms(1,2), of now u f] assms(5) obtain bk1 tm where a:
    "applyFriend api now u f bk = (Inr True, bk1)" "backend_ok bk1" "short_text tm"
    "tables (bk_world bk1) = (tables (bk_world bk))\<lparr>ct_friends := (ct_friends (tables (bk_world bk)))((u, f) \<mapsto> (False, [], tm))\<rparr>" by auto
  have "tables_fit (tables (bk_world bk1))" unfolding a(4) using a(3) assms(3) by (intro tables_fit_add_friend) auto
  from chat_database.refused_stays [OF assms(1) a(2) this assms(4), of "[]" tm nu pu su now] a(4) assms(7)
    chat_database.agreed_one_sided [OF assms, of now] a(1)
  show ?thesis by auto
qed

theorem friendship_one_sided_witness:
  "\<exists>bk1 bk2. applyFriend ref_api 0 1 2 (ref_backend two_users) = (Inr True, bk1) \<and> agreeFriend ref_api 0 2 1 bk1 = (Inr True, bk2)
    \<and> (\<exists>bk3 l. getFriendList ref_api 0 1 bk2 = (Inr l, bk3) \<and> 2 \<in> fa_userId ` set l)"
proof -
  have "map_of (cd_users two_users) 1 = Some (''ann'', ''x'', ''offline'')" "map_of (cd_users two_users) 2 = Some (''bob'', ''y'', ''offline'')"
    "cd_friends two_users = []" by (simp_all add: two_users_def)
  with friendship_one_sided [OF ref.chat_database_axioms, of "ref_backend two_users" 1 2 "''ann''" "''x''" "''offline''" "''bob''" "''y''" "''offline''" 0]
  show ?thesis by simp blast
qed

text \<open>
  A message that does not fit the 1024 bytes of the buffer is never delivered to a receiver who
  was not connected: every login fetches only messages that are shorter, and the tables do not
  change, so the message stays unread.
\<close>

theorem long_message_never_delivered:
  assumes "chat_database fetch api tables" and "backend_ok bk"
    and "\<forall>m \<in> set (unread_for i (tables (bk_world bk))). id_ok (mr_id m) \<and> id_ok (mr_from m) \<and> short_text (mr_time m)
      \<and> (short_text (mr_content m) \<or> col_buffer < length (mr_content m))"
    and "m \<in> set (unread_for i (tables (bk_world bk)))" and "col_buffer < length (mr_content m)"
  shows "\<exists>ms bk'. getofflineMessage api now i bk = (Inr ms, bk')
    \<and> mr_content m \<notin> ms_content ` set ms \<and> m \<in> set (unread_for i (tables (bk_world bk')))"
  using chat_database.long_not_fetched [OF assms(1-3), of now] assms(4,5) by (metis (no_types, lifting) imageE less_asym)

definition long_unread :: chat_data where
  "long_unread = two_users\<lparr>cd_messages :=
     [\<lparr>mr_id = 1, mr_from = 1, mr_to = 2, mr_content = replicate 1025 (CHR ''a''), mr_read = False, mr_time = ref_time\<rparr>]\<rparr>"

theorem long_message_never_delivered_witness:
  "\<exists>ms bk'. getofflineMessage ref_api 0 2 (ref_backend long_unread) = (Inr ms, bk')
    \<and> replicate 1025 (CHR ''a'') \<notin> ms_content ` set ms"
proof -
  have "unread_for 2 (data_tables long_unread) = cd_messages long_unread" by (simp add: unread_for_def long_unread_def)
  moreover have "cd_messages long_unread = [\<lparr>mr_id = 1, mr_from = 1, mr_to = 2, mr_content = replicate 1025 (CHR ''a''),
      mr_read = False, mr_time = ref_time\<rparr>]" by (simp add: long_unread_def)
  ultimately show ?thesis
    using long_message_never_delivered [OF ref.chat_database_axioms, of "ref_backend long_unread" 2 "hd (cd_messages long_unread)" 0]
    by (auto simp: id_ok_def short_ref_time col_buffer_def)
qed

end
