(* ===== verification/Json_Value.thy ===== *)
theory Json_Value
  imports Complex_Main Mysql_Db
begin

text \<open>
  The values of the JSON library as the chat server and its client use them. Parsing and printing
  belong to the library and are parameters of the programs; the access to members, the implicit
  conversions and the comparison with a number are modelled.
\<close>

text \<open>An object is a map ordered by key; a floating-point number is finite.\<close>

datatype json = JNull | JBool bool | JInt int | JFloat rat | JStr string | JArr "json list"
  | JObj "(string \<times> json) list"

fun obj_put :: "string \<Rightarrow> 'v \<Rightarrow> (string \<times> 'v) list \<Rightarrow> (string \<times> 'v) list" where
  "obj_put k v [] = [(k, v)]"
| "obj_put k v ((k', v') # kvs) =
     (if k = k' then (k, v) # kvs else if k < k' then (k, v) # (k', v') # kvs else (k', v') # obj_put k v kvs)"

lemma map_of_obj_put [simp]: "map_of (obj_put k v kvs) = (map_of kvs)(k \<mapsto> v)"
  by (induction k v kvs rule: obj_put.induct) auto

text \<open>
  \<open>js[k]\<close> on a mutable value. A missing member is created as null; no function that meets one goes on to
  use the object as a whole.
\<close>

definition json_at :: "json \<Rightarrow> string \<Rightarrow> chat_exn + json" where
  "json_at j k = (case j of
      JNull \<Rightarrow> Inr JNull
    | JObj kvs \<Rightarrow> Inr (case map_of kvs k of None \<Rightarrow> JNull | Some v \<Rightarrow> v)
    | _ \<Rightarrow> Inl Json_error)"

text \<open>\<open>js[k]\<close> on a constant value must not miss.\<close>

definition json_const_at :: "json \<Rightarrow> string \<Rightarrow> chat_exn + json" where
  "json_const_at j k = (case j of
      JObj kvs \<Rightarrow> (case map_of kvs k of None \<Rightarrow> Inl Out_of_bounds | Some v \<Rightarrow> Inr v)
    | _ \<Rightarrow> Inl Json_error)"

text \<open>The assignment \<open>js[k] = v\<close>, to an object or to a value that is still null.\<close>

definition json_set :: "string \<Rightarrow> json \<Rightarrow> json \<Rightarrow> json" where
  "json_set k v j = (case j of JObj kvs \<Rightarrow> JObj (obj_put k v kvs) | _ \<Rightarrow> JObj [(k, v)])"

definition json_object :: "(string \<times> json) list \<Rightarrow> json" where
  "json_object kvs = fold (\<lambda>(k, v). json_set k v) kvs JNull"

definition json_contains :: "json \<Rightarrow> string \<Rightarrow> bool" where
  "json_contains j k = (case j of JObj kvs \<Rightarrow> map_of kvs k \<noteq> None | _ \<Rightarrow> False)"

text \<open>
  The conversion to \<open>int\<close>: 64-bit numbers keep their low half, a fraction is cut off, and what does not
  fit after that is undefined.
\<close>

definition rat_to_int :: "rat \<Rightarrow> chat_exn + int" where
  "rat_to_int x = (let i = (if x < 0 then - \<lfloor>- x\<rfloor> else \<lfloor>x\<rfloor>)
     in if - (2 ^ 31) \<le> i \<and> i < 2 ^ 31 then Inr i else Inl Out_of_bounds)"

definition json_int :: "json \<Rightarrow> chat_exn + int" where
  "json_int j = (case j of
      JInt i \<Rightarrow> Inr (signed_take_bit 31 i)
    | JBool b \<Rightarrow> Inr (if b then 1 else 0)
    | JFloat x \<Rightarrow> rat_to_int x
    | _ \<Rightarrow> Inl Json_error)"

definition json_string :: "json \<Rightarrow> chat_exn + string" where
  "json_string j = (case j of JStr s \<Rightarrow> Inr s | _ \<Rightarrow> Inl Json_error)"

text \<open>\<open>js.value(k, d)\<close>.\<close>

definition json_value_int :: "json \<Rightarrow> string \<Rightarrow> int \<Rightarrow> chat_exn + int" where
  "json_value_int j k d = (case j of
      JObj kvs \<Rightarrow> (case map_of kvs k of None \<Rightarrow> Inr d | Some v \<Rightarrow> json_int v) | _ \<Rightarrow> Inl Json_error)"

definition json_value_string :: "json \<Rightarrow> string \<Rightarrow> string \<Rightarrow> chat_exn + string" where
  "json_value_string j k d = (case j of
      JObj kvs \<Rightarrow> (case map_of kvs k of None \<Rightarrow> Inr d | Some v \<Rightarrow> json_string v) | _ \<Rightarrow> Inl Json_error)"

text \<open>The comparison with 0.\<close>

definition json_is_zero :: "json \<Rightarrow> bool" where
  "json_is_zero j = (case j of JInt i \<Rightarrow> i = 0 | JFloat x \<Rightarrow> x = 0 | _ \<Rightarrow> False)"

text \<open>Members of objects that are built by assignment.\<close>

lemma fold_json_set: "fold (\<lambda>(k, v). json_set k v) kvs (JObj kvs') = JObj (fold (\<lambda>(k, v). obj_put k v) kvs kvs')"
  by (induction kvs arbitrary: kvs') (auto simp: json_set_def)

lemma map_of_fold_obj_put: "map_of (fold (\<lambda>(k, v). obj_put k v) kvs kvs') k = map_of (rev kvs @ kvs') k"
  by (induction kvs arbitrary: kvs') (auto simp: map_add_def split: option.splits)

lemma json_object_obj: "kvs \<noteq> [] \<Longrightarrow> json_object kvs = JObj (fold (\<lambda>(k, v). obj_put k v) kvs [])"
  by (cases kvs) (auto simp: json_object_def json_set_def fold_json_set)

lemma json_at_object [simp]:
  "json_at (json_object kvs) k = Inr (case map_of (rev kvs) k of None \<Rightarrow> JNull | Some v \<Rightarrow> v)"
proof (cases kvs)
  case (Cons kv kvs1)
  then show ?thesis
    by (cases kv) (simp add: json_object_obj json_at_def map_of_fold_obj_put)
qed (simp add: json_object_def json_at_def)

lemma json_int_simps [simp]: "json_int (JInt i) = Inr (signed_take_bit 31 i)" "json_string (JStr s) = Inr s"
  "json_int JNull = Inl Json_error" "json_string JNull = Inl Json_error"
  by (simp_all add: json_int_def json_string_def)

end
