(* ===== verification/Chat_Client.thy ===== *)
theory Chat_Client
  imports Json_Value Chat_Model
begin

text \<open>
  The chat client, \<open>chat_client.cpp\<close>: the thread that receives, which cuts the stream of bytes into JSON
  objects, and the main thread with its menus. The texts on the console are abstracted to what they
  say. Parsing and printing of JSON are parameters.
\<close>

subsection \<open>State\<close>

datatype console =
    Disconnected
  | Send_failed
  | Registered json
  | Register_failed string
  | Welcome string
  | Login_failed string
  | New_message int string string int
  | Friend_failed string
  | Friend_sent
  | Apply_line json json string
  | Friend_line json json string string
  | Pre_login_menu
  | Main_menu
  | Said string

text \<open>
  The global variables; \<open>cl_sock\<close> says whether the connection still takes data, \<open>cl_sent\<close> what was sent;
  \<open>cl_buffer\<close> is the buffer of the receiving thread; \<open>cl_waiting\<close>: the main thread is in \<open>waitForResponse\<close>.
\<close>

record chat_client =
  cl_running :: bool
  cl_loggedIn :: bool
  cl_myId :: int
  cl_myName :: string
  cl_sock :: bool
  cl_sent :: "string list"
  cl_arrived :: bool
  cl_buffer :: string
  cl_waiting :: bool
  cl_console :: "console list"

definition client_start :: chat_client where
  "client_start = \<lparr>cl_running = True, cl_loggedIn = False, cl_myId = - 1, cl_myName = [], cl_sock = True, cl_sent = [],
     cl_arrived = False, cl_buffer = [], cl_waiting = False, cl_console = []\<rparr>"

definition say :: "console \<Rightarrow> chat_client \<Rightarrow> chat_client" where
  "say l c = c\<lparr>cl_console := cl_console c @ [l]\<rparr>"

definition sendJson :: "(json \<Rightarrow> string option) \<Rightarrow> json \<Rightarrow> (unit, chat_client) action" where
  "sendJson dump js c =
     (case dump js of None \<Rightarrow> (Inl Json_error, c)
      | Some t \<Rightarrow> (Inr (), if cl_sock c then c\<lparr>cl_sent := cl_sent c @ [t]\<rparr> else say Send_failed c))"

definition safeGetFrom :: "json \<Rightarrow> chat_exn + int" where
  "safeGetFrom js =
     (if json_contains js ''from'' then (case json_const_at js ''from'' of Inl e \<Rightarrow> Inl e | Inr v \<Rightarrow> json_int v)
      else if json_contains js ''fromid'' then (case json_const_at js ''fromid'' of Inl e \<Rightarrow> Inl e | Inr v \<Rightarrow> json_int v)
      else Inr (- 1))"

definition safeGetTo :: "json \<Rightarrow> chat_exn + int" where
  "safeGetTo js =
     (if json_contains js ''to'' then (case json_const_at js ''to'' of Inl e \<Rightarrow> Inl e | Inr v \<Rightarrow> json_int v)
      else if json_contains js ''toid'' then (case json_const_at js ''toid'' of Inl e \<Rightarrow> Inl e | Inr v \<Rightarrow> json_int v)
      else Inr (- 1))"

definition lift :: "chat_exn + 'a \<Rightarrow> ('a, 's) action" where
  "lift x s = (x, s)"

definition unknown_text :: string where
  "unknown_text = [CHR 0xE6, CHR 0x9C, CHR 0xAA, CHR 0xE7, CHR 0x9F, CHR 0xA5]"

text \<open>\<open>showMessage\<close> prints the message and acknowledges it.\<close>

definition showMessage :: "(json \<Rightarrow> string option) \<Rightarrow> json \<Rightarrow> (unit, chat_client) action" where
  "showMessage dump js =
     act_bind (lift (safeGetFrom js)) (\<lambda>from. act_bind (lift (json_value_string js ''time'' unknown_text)) (\<lambda>time.
     act_bind (lift (json_value_string js ''message'' [])) (\<lambda>body. act_bind (lift (json_value_int js ''messageID'' (- 1))) (\<lambda>i.
     act_bind (\<lambda>c. (Inr (), say (New_message from time body i) c)) (\<lambda>_.
     act_bind (lift (json_const_at js ''messageID'')) (\<lambda>v.
     sendJson dump (json_object [(''msgtype'', JInt 6), (''messageID'', v)])))))))"

subsection \<open>The stream\<close>

text \<open>
  The loop that matches the braces: the position of the brace that closes the object, if it is there.
  \<open>prev\<close> is the character before, \<open>depth\<close> and \<open>inStr\<close> are the variables of the loop.
\<close>

fun scan_object :: "nat \<Rightarrow> char option \<Rightarrow> int \<Rightarrow> bool \<Rightarrow> string \<Rightarrow> nat option" where
  "scan_object i prev depth inStr [] = None"
| "scan_object i prev depth inStr (c # cs) =
     (let inStr = (if c = CHR 0x22 \<and> prev \<noteq> Some (CHR 0x5C) then \<not> inStr else inStr);
          depth = (if inStr then depth else if c = CHR ''{'' then depth + 1 else if c = CHR ''}'' then depth - 1 else depth)
      in if \<not> inStr \<and> depth = 0 then Some i else scan_object (Suc i) (Some c) depth inStr cs)"

lemma scan_object_bound: "scan_object i prev depth inStr s = Some e \<Longrightarrow> i \<le> e \<and> e < i + length s"
  by (induction i prev depth inStr s rule: scan_object.induct) (fastforce simp: Let_def split: if_splits)+

text \<open>A part that does not parse is dropped; any other exception of the parser leaves the function.\<close>

function extractJsonObjects :: "(string \<Rightarrow> chat_exn + json) \<Rightarrow> string \<Rightarrow> chat_exn + json list \<times> string" where
  "extractJsonObjects parse buffer =
     (if buffer = [] then Inr ([], [])
      else case str_find (CHR ''{'') buffer of
        None \<Rightarrow> Inr ([], [])
      | Some start \<Rightarrow>
          (case scan_object 0 None 0 False (drop start buffer) of
             None \<Rightarrow> Inr ([], drop start buffer)
           | Some e \<Rightarrow>
               (case parse (take (Suc e) (drop start buffer)) of
                  Inl x \<Rightarrow> (if x = Json_error then extractJsonObjects parse (drop (Suc e) (drop start buffer)) else Inl x)
                | Inr j \<Rightarrow> (case extractJsonObjects parse (drop (Suc e) (drop start buffer)) of
                    Inl x \<Rightarrow> Inl x | Inr (js, rest) \<Rightarrow> Inr (j # js, rest)))))"
  by pat_completeness auto
termination
  by (relation "measure (length \<circ> snd)") auto

declare extractJsonObjects.simps [simp del]

subsection \<open>The receiving thread\<close>

definition notify_main :: "chat_client \<Rightarrow> chat_client" where
  "notify_main c = c\<lparr>cl_arrived := True\<rparr>"

text \<open>The cases of the \<open>switch\<close> of \<open>recvThread\<close>. \<open>js[k]\<close> is on a mutable object here.\<close>

definition on_ref_ack :: "json \<Rightarrow> (unit, chat_client) action" where
  "on_ref_ack js = act_bind (lift (json_at js ''error'')) (\<lambda>err.
     if json_is_zero err
     then act_bind (lift (json_at js ''id'')) (\<lambda>i c. (Inr (), notify_main (say (Registered i) c)))
     else act_bind (lift (json_value_string js ''error_message'' [])) (\<lambda>t c. (Inr (), notify_main (say (Register_failed t) c))))"

definition on_login_ack :: "json \<Rightarrow> (unit, chat_client) action" where
  "on_login_ack js = act_bind (lift (json_at js ''error'')) (\<lambda>err.
     if json_is_zero err
     then act_bind (\<lambda>c. (Inr (), c\<lparr>cl_loggedIn := True\<rparr>)) (\<lambda>_.
          act_bind (lift (case json_at js ''name'' of Inl e \<Rightarrow> Inl e | Inr v \<Rightarrow> json_string v)) (\<lambda>name c.
          (Inr (), notify_main (say (Welcome name) (c\<lparr>cl_myName := name\<rparr>)))))
     else act_bind (lift (json_value_string js ''error_message'' [])) (\<lambda>t c. (Inr (), notify_main (say (Login_failed t) c))))"

definition failed_text :: string where
  "failed_text = [CHR 0xE5, CHR 0xA4, CHR 0xB1, CHR 0xE8, CHR 0xB4, CHR 0xA5]"

definition on_add_friend_ack :: "json \<Rightarrow> (unit, chat_client) action" where
  "on_add_friend_ack js = act_bind (lift (json_value_int js ''error'' 0)) (\<lambda>err.
     if err = 1
     then act_bind (lift (json_value_string js ''error_message'' failed_text)) (\<lambda>t c. (Inr (), notify_main (say (Friend_failed t) c)))
     else (\<lambda>c. (Inr (), notify_main (say Friend_sent c))))"

definition on_addlist :: "json \<Rightarrow> (unit, chat_client) action" where
  "on_addlist js = act_bind (lift (json_at js ''user_id'')) (\<lambda>i. act_bind (lift (json_at js ''user_name'')) (\<lambda>name.
     act_bind (lift (json_value_string js ''time'' [])) (\<lambda>t c. (Inr (), say (Apply_line i name t) c))))"

definition on_frilist :: "json \<Rightarrow> (unit, chat_client) action" where
  "on_frilist js = act_bind (lift (json_at js ''user_id'')) (\<lambda>i. act_bind (lift (json_at js ''user_name'')) (\<lambda>name.
     act_bind (lift (json_value_string js ''remark'' [])) (\<lambda>rm. act_bind (lift (json_value_string js ''time'' [])) (\<lambda>t c.
     (Inr (), say (Friend_line i name rm t) c)))))"

definition on_object :: "(json \<Rightarrow> string option) \<Rightarrow> json \<Rightarrow> (unit, chat_client) action" where
  "on_object dump js =
     act_bind (lift (case json_at js ''msgtype'' of Inl e \<Rightarrow> Inl e | Inr v \<Rightarrow> json_int v)) (\<lambda>msgtype.
       if msgtype = 3 then on_ref_ack js
       else if msgtype = 4 then on_login_ack js
       else if msgtype = 5 then showMessage dump js
       else if msgtype = 6 then act_return ()
       else if msgtype = 8 then on_add_friend_ack js
       else if msgtype = 11 then on_addlist js
       else if msgtype = 12 then on_frilist js
       else act_return ())"

fun on_objects :: "(json \<Rightarrow> string option) \<Rightarrow> json list \<Rightarrow> (unit, chat_client) action" where
  "on_objects dump [] = act_return ()"
| "on_objects dump (j # js) = act_bind (on_object dump j) (\<lambda>_. on_objects dump js)"

text \<open>
  One round of \<open>recvThread\<close>: \<open>None\<close> when \<open>recv\<close> fails or the server has closed the connection. What arrives
  is appended as a C string.
\<close>

definition recv_round ::
  "(string \<Rightarrow> chat_exn + json) \<Rightarrow> (json \<Rightarrow> string option) \<Rightarrow> string option \<Rightarrow> (unit, chat_client) action" where
  "recv_round parse dump data c =
     (case data of
        None \<Rightarrow> (Inr (), notify_main ((say Disconnected c)\<lparr>cl_running := False\<rparr>))
      | Some bytes \<Rightarrow>
          (case extractJsonObjects parse (cl_buffer c @ cstr bytes) of
             Inl e \<Rightarrow> (Inl e, c)
           | Inr (js, rest) \<Rightarrow> on_objects dump js (c\<lparr>cl_buffer := rest\<rparr>)))"

fun recvThread ::
  "(string \<Rightarrow> chat_exn + json) \<Rightarrow> (json \<Rightarrow> string option) \<Rightarrow> string option list \<Rightarrow> (unit, chat_client) action" where
  "recvThread parse dump [] = act_return ()"
| "recvThread parse dump (d # ds) = (\<lambda>c.
     if \<not> cl_running c then (Inr (), c)
     else act_bind (recv_round parse dump d) (\<lambda>_. recvThread parse dump ds) c)"

subsection \<open>The main thread\<close>

definition showPreLoginMenu :: "chat_client \<Rightarrow> chat_client" where
  "showPreLoginMenu = say Pre_login_menu"

definition showMainMenu :: "chat_client \<Rightarrow> chat_client" where
  "showMainMenu = say Main_menu"

text \<open>The beginning of \<open>waitForResponse\<close>, and its end, when a response has come or five seconds have passed.\<close>

definition wait_begin :: "chat_client \<Rightarrow> chat_client" where
  "wait_begin c = c\<lparr>cl_waiting := True\<rparr>"

definition wait_end :: "chat_client \<Rightarrow> chat_client" where
  "wait_end c = c\<lparr>cl_arrived := False, cl_waiting := False\<rparr>"

text \<open>\<open>getline\<close> on the rest of the input; at its end the string stays empty.\<close>

definition next_line :: "string list \<Rightarrow> string \<times> string list" where
  "next_line ls = (case ls of [] \<Rightarrow> ([], []) | l # ls \<Rightarrow> (l, ls))"

definition stoi_exn :: "string \<Rightarrow> chat_exn + int" where
  "stoi_exn s = (case stoi s of Inl e \<Rightarrow> Inl (Std e) | Inr i \<Rightarrow> Inr i)"

text \<open>The commands before the login.\<close>

definition cmd_login :: "(json \<Rightarrow> string option) \<Rightarrow> string list \<Rightarrow> (string list, chat_client) action" where
  "cmd_login dump ls = (let (sid, ls) = next_line ls; (pwd, ls) = next_line ls in
     act_bind (lift (stoi_exn sid)) (\<lambda>i. act_bind (\<lambda>c. (Inr (), c\<lparr>cl_myId := i\<rparr>)) (\<lambda>_.
     act_bind (sendJson dump (json_object [(''msgtype'', JInt 1), (''id'', JInt i), (''password'', JStr pwd)])) (\<lambda>_ c.
     (Inr ls, wait_begin c)))))"

definition cmd_register :: "(json \<Rightarrow> string option) \<Rightarrow> string list \<Rightarrow> (string list, chat_client) action" where
  "cmd_register dump ls = (let (name, ls) = next_line ls; (pwd, ls) = next_line ls in
     act_bind (sendJson dump (json_object [(''msgtype'', JInt 2), (''name'', JStr name), (''password'', JStr pwd)])) (\<lambda>_ c.
     (Inr ls, wait_begin c)))"

text \<open>The commands after the login. Three of them send the id of the user and that of another one.\<close>

definition cmd_message :: "(json \<Rightarrow> string option) \<Rightarrow> string list \<Rightarrow> (string list, chat_client) action" where
  "cmd_message dump ls = (\<lambda>c. let (toid, ls) = next_line ls; (body, ls) = next_line ls in
     act_bind (lift (stoi_exn toid)) (\<lambda>i.
     act_bind (sendJson dump (json_object [(''msgtype'', JInt 5), (''fromid'', JInt (cl_myId c)), (''toid'', JInt i), (''message'', JStr body)])) (\<lambda>_ c.
     (Inr ls, say (Said ''sent'') c))) c)"

definition cmd_add_friend :: "(json \<Rightarrow> string option) \<Rightarrow> string list \<Rightarrow> (string list, chat_client) action" where
  "cmd_add_friend dump ls = (\<lambda>c. let (fid, ls) = next_line ls in
     act_bind (lift (stoi_exn fid)) (\<lambda>i.
     act_bind (sendJson dump (json_object [(''msgtype'', JInt 7), (''user_id'', JInt (cl_myId c)), (''friend_id'', JInt i)])) (\<lambda>_.
     act_return ls)) c)"

definition cmd_list :: "int \<Rightarrow> (json \<Rightarrow> string option) \<Rightarrow> string list \<Rightarrow> (string list, chat_client) action" where
  "cmd_list msgtype dump ls = (\<lambda>c.
     act_bind (sendJson dump (json_object [(''msgtype'', JInt msgtype), (''user_id'', JInt (cl_myId c))])) (\<lambda>_. act_return ls) c)"

definition cmd_agree :: "(json \<Rightarrow> string option) \<Rightarrow> string list \<Rightarrow> (string list, chat_client) action" where
  "cmd_agree dump ls = (\<lambda>c. let (fid, ls) = next_line ls in
     act_bind (lift (stoi_exn fid)) (\<lambda>i.
     act_bind (sendJson dump (json_object [(''msgtype'', JInt 9), (''user_id'', JInt (cl_myId c)), (''friend_id'', JInt i)])) (\<lambda>_ c.
     (Inr ls, say (Said ''agreed'') c))) c)"

definition cmd_refuse :: "(json \<Rightarrow> string option) \<Rightarrow> string list \<Rightarrow> (string list, chat_client) action" where
  "cmd_refuse dump ls = (\<lambda>c. let (fid, ls) = next_line ls in
     act_bind (lift (stoi_exn fid)) (\<lambda>i.
     act_bind (sendJson dump (json_object [(''msgtype'', JInt 10), (''user_id'', JInt (cl_myId c)), (''friend_id'', JInt i)])) (\<lambda>_ c.
     (Inr ls, say (Said ''refused'') c))) c)"

definition cmd_logout :: "string list \<Rightarrow> (string list, chat_client) action" where
  "cmd_logout ls c = (Inr ls, say (Said ''logged out'') (c\<lparr>cl_loggedIn := False, cl_myId := - 1, cl_myName := []\<rparr>))"

text \<open>
  One round of the main loop: the menu, a line, the command. \<open>None\<close> ends the loop: at the end of the input,
  or by the command to quit.
\<close>

definition main_round :: "(json \<Rightarrow> string option) \<Rightarrow> string list \<Rightarrow> (string list option, chat_client) action" where
  "main_round dump ls c =
     (let c = (if \<not> cl_loggedIn c then showPreLoginMenu c else showMainMenu c) in
      case ls of [] \<Rightarrow> (Inr None, c)
      | input # ls \<Rightarrow>
          let go = (\<lambda>f. act_bind f (\<lambda>ls. act_return (Some ls)) c) in
          if input = [] then (Inr (Some ls), c)
          else if \<not> cl_loggedIn c then
            if input = ''1'' then go (cmd_login dump ls)
            else if input = ''2'' then go (cmd_register dump ls)
            else if input = ''3'' then (Inr None, say (Said ''bye'') (c\<lparr>cl_running := False\<rparr>))
            else (Inr (Some ls), c)
          else
            if input = ''1'' then go (cmd_message dump ls)
            else if input = ''2'' then go (cmd_add_friend dump ls)
            else if input = ''3'' then go (cmd_list 11 dump ls)
            else if input = ''4'' then go (cmd_agree dump ls)
            else if input = ''5'' then go (cmd_refuse dump ls)
            else if input = ''6'' then go (cmd_list 12 dump ls)
            else if input = ''7'' then go (cmd_logout ls)
            else (Inr (Some ls), c))"

text \<open>
  \<open>main\<close> up to the loop. \<open>sock\<close> is the result of \<open>socket\<close>, \<open>addr_ok\<close> says whether \<open>inet_pton\<close> takes the address,
  \<open>conn\<close> whether \<open>connect\<close> succeeds; the result is the address or the code that \<open>main\<close> returns.
\<close>

definition client_address :: "string list \<Rightarrow> chat_exn + string \<times> int" where
  "client_address argv = (case argv of
     [prog, ip, port] \<Rightarrow> (case stoi_exn port of Inl e \<Rightarrow> Inl e | Inr p \<Rightarrow> Inr (ip, p))
   | _ \<Rightarrow> Inr (''127.0.0.1'', 8000))"

definition client_setup :: "int \<Rightarrow> (string \<Rightarrow> bool) \<Rightarrow> (string \<Rightarrow> uint16 \<Rightarrow> bool) \<Rightarrow> string list \<Rightarrow> chat_exn + (int + string \<times> uint16)" where
  "client_setup sock addr_ok conn argv =
     (case client_address argv of Inl e \<Rightarrow> Inl e
      | Inr (ip, port) \<Rightarrow>
          if sock < 0 then Inr (Inl (- 1))
          else if \<not> addr_ok (cstr ip) then Inr (Inl (- 1))
          else if \<not> conn (cstr ip) (to_uint16 port) then Inr (Inl (- 1))
          else Inr (Inr (ip, to_uint16 port)))"

definition client_cleanup :: "chat_client \<Rightarrow> chat_client" where
  "client_cleanup c = c\<lparr>cl_running := False, cl_sock := False\<rparr>"

end
