(* ===== verification/Redis_Client.thy ===== *)
theory Redis_Client
  imports Mysql_Db
begin

text \<open>
  The Redis client of the chat server, \<open>redis.cpp\<close>, over hiredis as a parameter. Commands that change the
  subscriptions are queued and executed by the thread of \<open>subLoop\<close>, the only one that works with the
  subscribing context. The sections of that thread are steps: the commands of the queue, \<open>poll\<close>, the
  reading of a reply, and the end of the loop.
\<close>

subsection \<open>hiredis\<close>

text \<open>A reply: an array, one with a text, or one without, whose \<open>str\<close> is null.\<close>

datatype redis_reply = RArray "redis_reply list" | RText string | ROther

text \<open>
  \<open>redisConnect\<close> returns a null pointer or a context with its error flag; \<open>redisCommand\<close> says whether there
  was a reply; \<open>redisGetReply\<close> fails, or succeeds with a reply or a null pointer.
\<close>

record 'r redis_api =
  ra_connect :: "string \<Rightarrow> int \<Rightarrow> 'r \<Rightarrow> (nat \<times> bool) option \<times> 'r"
  ra_command :: "nat \<Rightarrow> string list \<Rightarrow> 'r \<Rightarrow> bool \<times> 'r"
  ra_poll :: "nat \<Rightarrow> 'r \<Rightarrow> int \<times> 'r"
  ra_get_reply :: "nat \<Rightarrow> 'r \<Rightarrow> redis_reply option option \<times> 'r"
  ra_free :: "nat \<Rightarrow> 'r \<Rightarrow> 'r"

text \<open>\<open>atoi\<close> converts what \<open>strtol\<close> returns.\<close>

definition atoi :: "string \<Rightarrow> int" where
  "atoi s = (case scan_decimal (cstr s) of Inl e \<Rightarrow> 0
     | Inr (neg, n) \<Rightarrow> signed_take_bit 31 (max (- (2 ^ 63)) (min (2 ^ 63 - 1) (if neg then - int n else int n))))"

lemma cstr_no_NUL [simp]: "NUL \<notin> set s \<Longrightarrow> cstr s = s"
  by (simp add: cstr_def takeWhile_eq_all_conv) metis

lemma atoi_int_text: "0 \<le> i \<Longrightarrow> i < 2 ^ 31 \<Longrightarrow> atoi (int_text i) = i"
proof -
  assume i: "0 \<le> i" "i < 2 ^ 31"
  have "NUL \<notin> set (dec_string (nat i))"
    using dec_string_digits [of "nat i"] by (auto simp: list_all_iff is_digit_char_def NUL_def)
  then show ?thesis using i
    by (simp add: atoi_def int_text_def scan_decimal_dec_string signed_take_bit_int_eq_self)
qed

subsection \<open>The class\<close>

datatype cmd_type = SUBSCRIBE | UNSUBSCRIBE

record cmd_request =
  cr_type :: cmd_type
  cr_channel :: int
  cr_done :: bool
  cr_result :: bool

text \<open>
  Where the thread stands: at the head of the loop, before \<open>poll\<close>, in \<open>poll\<close> on the descriptor of a
  context, before \<open>redisGetReply\<close>, after the loop, at its end.
\<close>

datatype sub_pc = Head | Poll | Polling nat | Read | Exit | Gone

text \<open>
  \<open>rd_reqs\<close> are all the requests that were ever made, \<open>_cmdQueue\<close> holds their positions; \<open>rd_thread\<close> is
  \<open>None\<close> while \<open>_subThread\<close> is not joinable.
\<close>

record redis_client =
  rd_pub :: "nat option"
  rd_sub :: "nat option"
  rd_callback :: bool
  rd_running :: bool
  rd_reqs :: "cmd_request list"
  rd_queue :: "nat list"
  rd_thread :: "sub_pc option"

definition RedisClient :: redis_client where
  "RedisClient = \<lparr>rd_pub = None, rd_sub = None, rd_callback = False, rd_running = False,
     rd_reqs = [], rd_queue = [], rd_thread = None\<rparr>"

definition redis_connect :: "'r redis_api \<Rightarrow> string \<Rightarrow> int \<Rightarrow> redis_client \<Rightarrow> 'r \<Rightarrow> (bool \<times> redis_client) \<times> 'r" where
  "redis_connect ra host port c r =
     (let (p, r) = ra_connect ra (cstr host) port r; (s, r) = ra_connect ra (cstr host) port r
      in ((p \<noteq> None \<and> s \<noteq> None \<and> \<not> snd (the p) \<and> \<not> snd (the s),
           c\<lparr>rd_pub := map_option fst p, rd_sub := map_option fst s\<rparr>), r))"

text \<open>The arguments that hiredis makes of the format \<open>PUBLISH %d %s\<close>.\<close>

definition publish_args :: "int \<Rightarrow> string \<Rightarrow> string list" where
  "publish_args channel msg = [''PUBLISH'', int_text channel, cstr msg]"

definition publish :: "'r redis_api \<Rightarrow> int \<Rightarrow> string \<Rightarrow> redis_client \<Rightarrow> 'r \<Rightarrow> bool \<times> 'r" where
  "publish ra channel msg c r =
     (case rd_pub c of None \<Rightarrow> (False, r)
      | Some h \<Rightarrow> ra_command ra h (publish_args channel msg) r)"

text \<open>
  \<open>subscribe\<close> and \<open>unsubscribe\<close> up to the wait: \<open>None\<close> when they return false at once, otherwise the
  request they wait for, which \<open>push_request\<close> has put into the queue. \<open>request_result\<close> is what they return when the wait is
  over, after three seconds at most. The test of \<open>_running\<close> is not in the critical section of the push: the executions
  below have a step for a push whose test came earlier.
\<close>

definition push_request :: "cmd_type \<Rightarrow> int \<Rightarrow> redis_client \<Rightarrow> nat option \<times> redis_client" where
  "push_request ty channel c =
     (let i = length (rd_reqs c) in
      (Some i, c\<lparr>rd_reqs := rd_reqs c @ [\<lparr>cr_type = ty, cr_channel = channel, cr_done = False, cr_result = False\<rparr>],
                 rd_queue := rd_queue c @ [i]\<rparr>))"

definition subscribe :: "int \<Rightarrow> redis_client \<Rightarrow> nat option \<times> redis_client" where
  "subscribe channel c = (if \<not> rd_running c then (None, c) else push_request SUBSCRIBE channel c)"

definition unsubscribe :: "int \<Rightarrow> redis_client \<Rightarrow> nat option \<times> redis_client" where
  "unsubscribe channel c = (if \<not> rd_running c then (None, c) else push_request UNSUBSCRIBE channel c)"

definition request_result :: "nat option \<Rightarrow> redis_client \<Rightarrow> bool" where
  "request_result i c = (case i of None \<Rightarrow> False | Some i \<Rightarrow> cr_done (rd_reqs c ! i) \<and> cr_result (rd_reqs c ! i))"

definition setMsgCallback :: "redis_client \<Rightarrow> redis_client" where
  "setMsgCallback c = c\<lparr>rd_callback := True\<rparr>"

subsection \<open>The loop\<close>

definition answer :: "nat \<Rightarrow> bool \<Rightarrow> redis_client \<Rightarrow> redis_client" where
  "answer i res c = c\<lparr>rd_reqs := (rd_reqs c)[i := (rd_reqs c ! i)\<lparr>cr_result := res, cr_done := True\<rparr>]\<rparr>"

definition cmd_text :: "cmd_request \<Rightarrow> string list" where
  "cmd_text q = [case cr_type q of SUBSCRIBE \<Rightarrow> ''SUBSCRIBE'' | UNSUBSCRIBE \<Rightarrow> ''UNSUBSCRIBE'', int_text (cr_channel q)]"

fun run_commands :: "'r redis_api \<Rightarrow> nat \<Rightarrow> nat list \<Rightarrow> redis_client \<Rightarrow> 'r \<Rightarrow> redis_client \<times> 'r" where
  "run_commands ra h [] c r = (c, r)"
| "run_commands ra h (i # is) c r =
     (let (ok, r) = ra_command ra h (cmd_text (rd_reqs c ! i)) r in run_commands ra h is (answer i ok c) r)"

text \<open>The head of the loop: the test of \<open>_running\<close>, the commands, the test of the context.\<close>

definition sub_head :: "'r redis_api \<Rightarrow> redis_client \<Rightarrow> 'r \<Rightarrow> (chat_exn + redis_client) \<times> 'r" where
  "sub_head ra c r =
     (if \<not> rd_running c then (Inr (c\<lparr>rd_thread := Some Exit\<rparr>), r)
      else case rd_sub c of
        None \<Rightarrow> (if rd_queue c \<noteq> [] then Inl Null_deref else Inr (c\<lparr>rd_thread := Some Exit\<rparr>), r)
      | Some h \<Rightarrow> let (c, r) = run_commands ra h (rd_queue c) c r
                  in (Inr (c\<lparr>rd_queue := [], rd_thread := Some Poll\<rparr>), r))"

definition sub_poll :: "redis_client \<Rightarrow> chat_exn + redis_client" where
  "sub_poll c = (case rd_sub c of None \<Rightarrow> Inl Null_deref | Some h \<Rightarrow> Inr (c\<lparr>rd_thread := Some (Polling h)\<rparr>))"

definition sub_wake :: "'r redis_api \<Rightarrow> nat \<Rightarrow> redis_client \<Rightarrow> 'r \<Rightarrow> redis_client \<times> 'r" where
  "sub_wake ra h c r =
     (let (ret, r) = ra_poll ra h r
      in (c\<lparr>rd_thread := Some (if ret < 0 then Exit else if ret = 0 then Head else Read)\<rparr>, r))"

text \<open>What a reply means: no message, a message on a channel, or a null pointer that is read as text.\<close>

definition reply_str :: "redis_reply \<Rightarrow> chat_exn + string" where
  "reply_str x = (case x of RText s \<Rightarrow> Inr (cstr s) | _ \<Rightarrow> Inl Null_deref)"

definition reply_message :: "redis_reply option \<Rightarrow> chat_exn + (int \<times> string) option" where
  "reply_message x = (case x of
      Some (RArray [a, b, m]) \<Rightarrow>
        (case reply_str a of Inl e \<Rightarrow> Inl e | Inr ty \<Rightarrow>
          if ty \<noteq> ''message'' then Inr None
          else case reply_str b of Inl e \<Rightarrow> Inl e | Inr ch \<Rightarrow>
            (case reply_str m of Inl e \<Rightarrow> Inl e | Inr msg \<Rightarrow> Inr (Some (atoi ch, msg))))
    | _ \<Rightarrow> Inr None)"

text \<open>The message for the callback, if there is one.\<close>

definition sub_read :: "'r redis_api \<Rightarrow> redis_client \<Rightarrow> 'r \<Rightarrow> (chat_exn + (int \<times> string) option \<times> redis_client) \<times> 'r" where
  "sub_read ra c r =
     (case rd_sub c of None \<Rightarrow> (Inl Null_deref, r)
      | Some h \<Rightarrow> let (x, r) = ra_get_reply ra h r in
          case x of
            None \<Rightarrow> (Inr (None, c\<lparr>rd_thread := Some Exit\<rparr>), r)
          | Some reply \<Rightarrow> (case reply_message reply of Inl e \<Rightarrow> Inl e
              | Inr m \<Rightarrow> Inr (if rd_callback c then m else None, c\<lparr>rd_thread := Some Head\<rparr>), r))"

fun fail_commands :: "nat list \<Rightarrow> redis_client \<Rightarrow> redis_client" where
  "fail_commands [] c = c"
| "fail_commands (i # is) c = fail_commands is (answer i False c)"

definition sub_exit :: "redis_client \<Rightarrow> redis_client" where
  "sub_exit c = (fail_commands (rd_queue c) c)\<lparr>rd_queue := [], rd_thread := Some Gone\<rparr>"

text \<open>
  The assignment to \<open>_subThread\<close> terminates the process when the thread is still joinable, which is when
  another caller is between the two halves of \<open>stopSubscribeLoop\<close>: \<open>start_terminates\<close>.
\<close>

definition start_terminates :: "redis_client \<Rightarrow> bool" where
  "start_terminates c \<longleftrightarrow> \<not> rd_running c \<and> rd_thread c \<noteq> None"

definition startSubscribeLoop :: "redis_client \<Rightarrow> redis_client" where
  "startSubscribeLoop c = (if rd_running c then c else c\<lparr>rd_running := True, rd_thread := Some Head\<rparr>)"

text \<open>\<open>stopSubscribeLoop\<close> up to the join, and after it.\<close>

definition stop_begin :: "'r redis_api \<Rightarrow> redis_client \<Rightarrow> 'r \<Rightarrow> redis_client \<times> 'r" where
  "stop_begin ra c r =
     (if \<not> rd_running c then (c, r)
      else (c\<lparr>rd_running := False, rd_sub := None\<rparr>, case rd_sub c of None \<Rightarrow> r | Some h \<Rightarrow> ra_free ra h r))"

definition stop_end :: "'r redis_api \<Rightarrow> redis_client \<Rightarrow> 'r \<Rightarrow> redis_client \<times> 'r" where
  "stop_end ra c r = (c\<lparr>rd_thread := None, rd_pub := None\<rparr>, case rd_pub c of None \<Rightarrow> r | Some h \<Rightarrow> ra_free ra h r)"

subsection \<open>Executions\<close>

text \<open>
  The steps of the threads that use the client, and of the thread of the loop, as long as none crashes.
  \<open>late\<close> is the push of a caller that saw \<open>_running\<close> set earlier, at whatever point the loop is by now.
\<close>

inductive loop_step :: "'r redis_api \<Rightarrow> redis_client \<times> 'r \<Rightarrow> redis_client \<times> 'r \<Rightarrow> bool" for ra where
  subscribe: "loop_step ra (c, r) (snd (subscribe ch c), r)"
| unsubscribe: "loop_step ra (c, r) (snd (unsubscribe ch c), r)"
| publish: "loop_step ra (c, r) (c, snd (publish ra ch m c r))"
| late: "loop_step ra (c, r) (snd (push_request ty ch c), r)"
| start: "\<not> start_terminates c \<Longrightarrow> loop_step ra (c, r) (startSubscribeLoop c, r)"
| head: "rd_thread c = Some Head \<Longrightarrow> sub_head ra c r = (Inr c', r') \<Longrightarrow> loop_step ra (c, r) (c', r')"
| poll: "rd_thread c = Some Poll \<Longrightarrow> sub_poll c = Inr c' \<Longrightarrow> loop_step ra (c, r) (c', r)"
| wake: "rd_thread c = Some (Polling h) \<Longrightarrow> sub_wake ra h c r = (c', r') \<Longrightarrow> loop_step ra (c, r) (c', r')"
| read: "rd_thread c = Some Read \<Longrightarrow> sub_read ra c r = (Inr (m, c'), r') \<Longrightarrow> loop_step ra (c, r) (c', r')"
| exit: "rd_thread c = Some Exit \<Longrightarrow> loop_step ra (c, r) (sub_exit c, r)"

inductive redis_step :: "'r redis_api \<Rightarrow> redis_client \<times> 'r \<Rightarrow> redis_client \<times> 'r \<Rightarrow> bool" for ra where
  loop: "loop_step ra s s' \<Longrightarrow> redis_step ra s s'"
| connect: "rd_thread c = None \<Longrightarrow> redis_connect ra host port c r = ((ok, c'), r') \<Longrightarrow> redis_step ra (c, r) (c', r')"
| callback: "redis_step ra (c, r) (setMsgCallback c, r)"
| stop_begin: "stop_begin ra c r = (c', r') \<Longrightarrow> redis_step ra (c, r) (c', r')"
| stop_end: "\<not> rd_running c \<Longrightarrow> rd_thread c = Some Gone \<Longrightarrow> stop_end ra c r = (c', r') \<Longrightarrow> redis_step ra (c, r) (c', r')"

text \<open>The requests that are not answered are those of the queue, in the order in which they were made.\<close>

definition reqs_ok :: "nat \<Rightarrow> redis_client \<Rightarrow> bool" where
  "reqs_ok k c \<longleftrightarrow> k \<le> length (rd_reqs c) \<and> rd_queue c = [k..<length (rd_reqs c)]
     \<and> (\<forall>i < length (rd_reqs c). cr_done (rd_reqs c ! i) \<longleftrightarrow> i < k)"

lemma answer_simps [simp]:
  "length (rd_reqs (answer i res c)) = length (rd_reqs c)" "rd_queue (answer i res c) = rd_queue c"
  "rd_running (answer i res c) = rd_running c" "rd_sub (answer i res c) = rd_sub c" "rd_thread (answer i res c) = rd_thread c"
  by (simp_all add: answer_def)

lemma answer_nth:
  "j < length (rd_reqs c) \<Longrightarrow> cr_done (rd_reqs (answer i res c) ! j) \<longleftrightarrow> j = i \<or> cr_done (rd_reqs c ! j)"
  "j < length (rd_reqs c) \<Longrightarrow> cmd_text (rd_reqs (answer i res c) ! j) = cmd_text (rd_reqs c ! j)"
  by (cases "i = j"; simp add: answer_def cmd_text_def)+

lemma run_commands_ok:
  assumes "run_commands ra h is c r = (c', r')" and "\<forall>i \<in> set is. i < length (rd_reqs c)"
  shows "length (rd_reqs c') = length (rd_reqs c) \<and> rd_queue c' = rd_queue c \<and> rd_running c' = rd_running c
    \<and> rd_sub c' = rd_sub c
    \<and> (\<forall>j < length (rd_reqs c). cr_done (rd_reqs c' ! j) \<longleftrightarrow> j \<in> set is \<or> cr_done (rd_reqs c ! j))
    \<and> r' = fold (\<lambda>i r. snd (ra_command ra h (cmd_text (rd_reqs c ! i)) r)) is r"
  using assms
proof (induction "is" arbitrary: c r)
  case (Cons i "is")
  obtain ok r1 where a: "ra_command ra h (cmd_text (rd_reqs c ! i)) r = (ok, r1)" by force
  have rest: "run_commands ra h is (answer i ok c) r1 = (c', r')" using Cons.prems(1) a by simp
  have e: "fold (\<lambda>j r. snd (ra_command ra h (cmd_text (rd_reqs (answer i ok c) ! j)) r)) is r1
      = fold (\<lambda>j r. snd (ra_command ra h (cmd_text (rd_reqs c ! j)) r)) is r1"
    using Cons.prems(2) by (intro fold_cong) (simp_all add: answer_nth)
  have "\<forall>j \<in> set is. j < length (rd_reqs (answer i ok c))" using Cons.prems(2) by simp
  from Cons.IH [OF rest this] e a show ?case by (auto simp: answer_nth(1))
qed simp

lemma fail_commands_ok:
  "\<forall>i \<in> set is. i < length (rd_reqs c) \<Longrightarrow>
    length (rd_reqs (fail_commands is c)) = length (rd_reqs c) \<and> rd_queue (fail_commands is c) = rd_queue c
    \<and> rd_running (fail_commands is c) = rd_running c
    \<and> (\<forall>j < length (rd_reqs c). cr_done (rd_reqs (fail_commands is c) ! j) \<longleftrightarrow> j \<in> set is \<or> cr_done (rd_reqs c ! j))"
  by (induction "is" arbitrary: c) (auto simp: answer_nth(1))

lemma sub_head_ok:
  assumes "sub_head ra c r = (Inr c', r')" and "reqs_ok k c" and "rd_running c" and "rd_sub c = Some h"
  shows "reqs_ok (length (rd_reqs c)) c' \<and> length (rd_reqs c') = length (rd_reqs c) \<and> rd_queue c' = []
    \<and> r' = fold (\<lambda>i r. snd (ra_command ra h (cmd_text (rd_reqs c ! i)) r)) [k..<length (rd_reqs c)] r"
proof -
  obtain c1 r1 where e: "run_commands ra h (rd_queue c) c r = (c1, r1)" by force
  have "\<forall>i \<in> set (rd_queue c). i < length (rd_reqs c)" using assms(2) by (simp add: reqs_ok_def)
  from run_commands_ok [OF e this] assms e show ?thesis by (auto simp: sub_head_def reqs_ok_def)
qed

lemma sub_exit_ok: "reqs_ok k c \<Longrightarrow> reqs_ok (length (rd_reqs c)) (sub_exit c) \<and> length (rd_reqs (sub_exit c)) = length (rd_reqs c)"
  using fail_commands_ok [of "rd_queue c" c] by (auto simp: sub_exit_def reqs_ok_def)

lemma request_ok:
  assumes "reqs_ok k c"
  shows "reqs_ok k (snd (subscribe ch c))" "reqs_ok k (snd (unsubscribe ch c))"
    "reqs_ok k (snd (push_request ty ch c))"
  using assms by (auto simp: subscribe_def unsubscribe_def push_request_def reqs_ok_def Let_def nth_append less_Suc_eq)

lemma redis_step_ok: "redis_step ra s s' \<Longrightarrow> reqs_ok k (fst s) \<Longrightarrow> \<exists>k. reqs_ok k (fst s')"
proof (induction rule: redis_step.induct)
  case (loop s s')
  then show ?case
  proof (induction rule: loop_step.induct)
    case (head c r c' r')
    show ?case
    proof (cases "rd_running c \<and> rd_sub c \<noteq> None")
      case True
      with sub_head_ok [OF head(2)] head(3) show ?thesis by auto
    next
      case False
      with head show ?thesis by (auto simp: sub_head_def reqs_ok_def split: option.splits if_splits)
    qed
  next
    case (exit c r)
    with sub_exit_ok show ?case by fastforce
  next
    case (read c r m c' r')
    then show ?case by (auto simp: sub_read_def reqs_ok_def case_prod_unfold Let_def split: option.splits sum.splits)
  next
    case (poll c c' r)
    then show ?case by (auto simp: sub_poll_def reqs_ok_def split: option.splits)
  next
    case (wake c h r c' r')
    then show ?case by (auto simp: sub_wake_def reqs_ok_def case_prod_unfold Let_def)
  next
    case (start c r)
    then show ?case by (auto simp: startSubscribeLoop_def reqs_ok_def)
  qed (auto intro: request_ok)
qed (auto simp: stop_begin_def stop_end_def setMsgCallback_def redis_connect_def reqs_ok_def Let_def case_prod_unfold split: if_splits)

lemma redis_run_ok: "(redis_step ra)\<^sup>*\<^sup>* s s' \<Longrightarrow> \<exists>k. reqs_ok k (fst s) \<Longrightarrow> \<exists>k. reqs_ok k (fst s')"
  by (induction rule: rtranclp_induct) (auto dest: redis_step_ok)

subsection \<open>Properties\<close>

text \<open>
  C36. No request is lost and none overtakes another: in every execution of the client the requests
  that are not answered yet are those in the queue, in the order in which they were made. When the
  thread comes to the head of its loop it sends their commands to Redis in that order and answers all
  of them; and when it leaves the loop it answers all of them as failed.
\<close>

theorem redis_requests_answered:
  assumes "(redis_step ra)\<^sup>*\<^sup>* (RedisClient, r0) (c, r)"
  shows "rd_queue c = filter (\<lambda>i. \<not> cr_done (rd_reqs c ! i)) [0..<length (rd_reqs c)]
    \<and> (\<forall>h c' r'. rd_running c \<and> rd_sub c = Some h \<and> sub_head ra c r = (Inr c', r') \<longrightarrow>
         list_all cr_done (rd_reqs c') \<and> length (rd_reqs c') = length (rd_reqs c)
       \<and> r' = fold (\<lambda>i r. snd (ra_command ra h (cmd_text (rd_reqs c ! i)) r)) (rd_queue c) r)
    \<and> list_all cr_done (rd_reqs (sub_exit c))"
proof -
  have "reqs_ok 0 RedisClient" by (simp add: reqs_ok_def RedisClient_def)
  then obtain k where k: "reqs_ok k c" using redis_run_ok [OF assms] by auto
  then have "[0..<length (rd_reqs c)] = [0..<k] @ [k..<length (rd_reqs c)]"
    by (metis le0 le_add_diff_inverse reqs_ok_def upt_add_eq_append)
  then have "filter (\<lambda>i. \<not> cr_done (rd_reqs c ! i)) [0..<length (rd_reqs c)] = rd_queue c"
    using k by (simp add: reqs_ok_def filter_empty_conv filter_id_conv)
  moreover have "list_all cr_done (rd_reqs c')" if "reqs_ok (length (rd_reqs c')) c'" for c'
    using that by (simp add: reqs_ok_def list_all_length)
  ultimately show ?thesis using sub_head_ok [OF _ k, of ra r] sub_exit_ok [OF k] k
    by (auto simp: reqs_ok_def)
qed

text \<open>A server in memory that logs the commands it gets and never has a message.\<close>

definition log_api :: "string list list redis_api" where
  "log_api = \<lparr>ra_connect = (\<lambda>host port r. (Some (0, False), r)), ra_command = (\<lambda>h cmd r. (True, r @ [cmd])),
     ra_poll = (\<lambda>h r. (- 1, r)), ra_get_reply = (\<lambda>h r. (None, r)), ra_free = (\<lambda>h r. r)\<rparr>"

definition log_client :: redis_client where
  "log_client = startSubscribeLoop (snd (fst (redis_connect log_api ''127.0.0.1'' 6379 RedisClient [])))"

lemma log_client_run: "(redis_step log_api)\<^sup>*\<^sup>* (RedisClient, []) (log_client, [])"
proof -
  have "redis_step log_api (RedisClient, []) (snd (fst (redis_connect log_api ''127.0.0.1'' 6379 RedisClient [])), [])"
    by (rule redis_step.connect [where host = "''127.0.0.1''" and port = 6379])
      (simp_all add: RedisClient_def redis_connect_def log_api_def)
  moreover have "redis_step log_api (snd (fst (redis_connect log_api ''127.0.0.1'' 6379 RedisClient [])), []) (log_client, [])"
    unfolding log_client_def
    by (intro redis_step.loop loop_step.start) (simp add: start_terminates_def RedisClient_def redis_connect_def log_api_def)
  ultimately show ?thesis by simp
qed

theorem redis_requests_answered_witness:
  "snd (sub_head log_api (snd (unsubscribe 8 (snd (subscribe 7 log_client)))) [])
     = [[''SUBSCRIBE'', ''7''], [''UNSUBSCRIBE'', ''8'']]
   \<and> list_all cr_done (rd_reqs (sub_exit (snd (unsubscribe 8 (snd (subscribe 7 log_client))))))"
proof -
  have "(redis_step log_api)\<^sup>*\<^sup>* (RedisClient, []) (snd (unsubscribe 8 (snd (subscribe 7 log_client))), [])"
    using log_client_run by (meson redis_step.loop loop_step.subscribe loop_step.unsubscribe rtranclp.rtrancl_into_rtrancl)
  from conjunct2 [OF conjunct2 [OF redis_requests_answered [OF this]]]
  have "list_all cr_done (rd_reqs (sub_exit (snd (unsubscribe 8 (snd (subscribe 7 log_client))))))" .
  moreover have "snd (sub_head log_api (snd (unsubscribe 8 (snd (subscribe 7 log_client)))) [])
     = [[''SUBSCRIBE'', ''7''], [''UNSUBSCRIBE'', ''8'']]" by code_simp
  ultimately show ?thesis by (simp only:)
qed

text \<open>A thread that has left its loop while \<open>_running\<close> is still set.\<close>

lemma gone_step:
  assumes "loop_step ra s s'" and "rd_thread (fst s) = Some Gone" and "rd_running (fst s)"
  shows "rd_thread (fst s') = Some Gone \<and> rd_running (fst s') \<and> (\<exists>new. rd_reqs (fst s') = rd_reqs (fst s) @ new \<and> \<not> list_ex cr_done new)"
  using assms by (induction rule: loop_step.induct) (auto simp: subscribe_def unsubscribe_def push_request_def startSubscribeLoop_def Let_def)

text \<open>
  When the connection to Redis breaks, the subscriptions of this server end for good: the loop
  terminates, but \<open>_running\<close> stays set, so \<open>startSubscribeLoop\<close> does not start it again; every later
  call of \<open>subscribe\<close> or \<open>unsubscribe\<close> is queued and is never answered, which means that it blocks its
  caller for three seconds and reports failure.
\<close>

theorem broken_loop_never_answers:
  assumes "rd_running c" and "rd_thread c = Some (Polling h)" and "fst (ra_poll ra h r) < 0"
    and "(loop_step ra)\<^sup>*\<^sup>* (sub_exit (fst (sub_wake ra h c r)), r') (c1, r1)"
    and "(i, c2) \<in> {subscribe ch c1, unsubscribe ch c1}" and "(loop_step ra)\<^sup>*\<^sup>* (c2, r1) (c3, r3)"
  shows "rd_thread (fst (sub_wake ra h c r)) = Some Exit \<and> rd_thread c3 = Some Gone \<and> startSubscribeLoop c3 = c3 \<and> i \<noteq> None \<and> \<not> cr_done (rd_reqs c3 ! the i) \<and> \<not> request_result i c3"
proof -
  have gone: "rd_thread c' = Some Gone \<and> rd_running c' \<and> (\<exists>new. rd_reqs c' = rd_reqs c0 @ new \<and> \<not> list_ex cr_done new)"
    if "(loop_step ra)\<^sup>*\<^sup>* (c0, r0) (c', r')" "rd_thread c0 = Some Gone" "rd_running c0" for c0 r0 c' r'
    using that
  proof (induction "(c', r')" arbitrary: c' r' rule: rtranclp_induct)
    case (step s)
    then show ?case using gone_step [OF step(2)] by (cases s) force
  qed auto
  have run: "rd_running (fail_commands is d) = rd_running d" for "is" d by (induction "is" arbitrary: d) auto
  have "rd_running (sub_exit (fst (sub_wake ra h c r)))"
    using assms(1) by (simp add: sub_exit_def run sub_wake_def Let_def case_prod_unfold)
  with gone [OF assms(4)] have c1: "rd_thread c1 = Some Gone" "rd_running c1" by (simp_all add: sub_exit_def)
  let ?n = "length (rd_reqs c1)"
  have i: "i = Some ?n" "rd_thread c2 = Some Gone" "rd_running c2" "length (rd_reqs c2) = Suc ?n" "\<not> cr_done (rd_reqs c2 ! ?n)"
    using assms(5) c1 by (auto simp: subscribe_def unsubscribe_def push_request_def Let_def nth_append)
  from gone [OF assms(6) i(2,3)] obtain new where n: "rd_thread c3 = Some Gone" "rd_running c3" "rd_reqs c3 = rd_reqs c2 @ new" by auto
  then have "rd_reqs c3 ! ?n = rd_reqs c2 ! ?n" using i(4) by (simp add: nth_append)
  moreover have "rd_thread (fst (sub_wake ra h c r)) = Some Exit"
    using assms(3) by (simp add: sub_wake_def Let_def case_prod_unfold)
  ultimately show ?thesis using n i by (simp add: startSubscribeLoop_def request_result_def)
qed

theorem broken_loop_never_answers_witness:
  "let c = log_client\<lparr>rd_thread := Some (Polling 0)\<rparr>; c1 = sub_exit (fst (sub_wake log_api 0 c []))
   in \<not> request_result (fst (subscribe 7 c1)) (snd (subscribe 7 c1)) \<and> startSubscribeLoop c1 = c1"
proof -
  define c1 where "c1 = sub_exit (fst (sub_wake log_api 0 (log_client\<lparr>rd_thread := Some (Polling 0)\<rparr>) []))"
  have "rd_running (log_client\<lparr>rd_thread := Some (Polling 0)\<rparr>)" "rd_running c1" unfolding c1_def by code_simp+
  with broken_loop_never_answers [of "log_client\<lparr>rd_thread := Some (Polling 0)\<rparr>" 0 log_api "[]" "[]" c1 "[]"
      "fst (subscribe 7 c1)" "snd (subscribe 7 c1)" 7 "snd (subscribe 7 c1)" "[]"]
  show ?thesis unfolding c1_def [symmetric] Let_def by (simp add: log_api_def c1_def startSubscribeLoop_def)
qed

end
