(* ===== verification/Chat_Service.thy ===== *)
theory Chat_Service
  imports Chat_Model Redis_Client Json_Value
begin

text \<open>
  The service of the chat server, \<open>chatservice.cpp\<close>: a handler for each kind of request, over the user
  model, the Redis client and the table of the connections of the users that are logged in. A
  handler is an action on the state of the service; it reads the request, may throw, and sends texts
  to connections. Connections are numbers; the MySQL library, hiredis and the printing of JSON are
  parameters.
\<close>

subsection \<open>State\<close>

datatype MsgType = LOGIN | REF | REF_ACK | LOGIN_ACK | ONE_MESSAGE | ACK_MESSAGE
  | ADD_FRIEND | ADD_FRIEND_ACK | AGREE_FRIEND | REFUSE_FRIEND | GET_ADDLIST | GET_FRILIST

primrec msg_code :: "MsgType \<Rightarrow> int" where
  "msg_code LOGIN = 1"
| "msg_code REF = 2"
| "msg_code REF_ACK = 3"
| "msg_code LOGIN_ACK = 4"
| "msg_code ONE_MESSAGE = 5"
| "msg_code ACK_MESSAGE = 6"
| "msg_code ADD_FRIEND = 7"
| "msg_code ADD_FRIEND_ACK = 8"
| "msg_code AGREE_FRIEND = 9"
| "msg_code REFUSE_FRIEND = 10"
| "msg_code GET_ADDLIST = 11"
| "msg_code GET_FRILIST = 12"

text \<open>
  \<open>_usermodel\<close>, \<open>_redis\<close>, \<open>_userIdConn\<close>, and what was sent on which connection, in the order of the calls.
\<close>

record ('w, 'r) chat_service =
  sv_backend :: "'w backend"
  sv_redis :: redis_client
  sv_rworld :: 'r
  sv_conns :: "int \<rightharpoonup> nat"
  sv_out :: "(nat \<times> string) list"

text \<open>The libraries.\<close>

record ('w, 'r) chat_libs =
  lib_mysql :: "'w mysql_api"
  lib_redis :: "'r redis_api"
  lib_dump :: "json \<Rightarrow> string option"

type_synonym ('a, 'w, 'r) service_act = "('a, ('w, 'r) chat_service) action"

subsection \<open>Effects of handlers\<close>

definition check :: "chat_exn + 'a \<Rightarrow> ('a, 's) action" where
  "check x s = (x, s)"

definition get_int :: "json \<Rightarrow> string \<Rightarrow> (int, 's) action" where
  "get_int js k = check (case json_at js k of Inl e \<Rightarrow> Inl e | Inr v \<Rightarrow> json_int v)"

definition get_str :: "json \<Rightarrow> string \<Rightarrow> (string, 's) action" where
  "get_str js k = check (case json_at js k of Inl e \<Rightarrow> Inl e | Inr v \<Rightarrow> json_string v)"

definition on_backend :: "('a, 'w backend) action \<Rightarrow> ('a, 'w, 'r) service_act" where
  "on_backend f s = (let (x, bk) = f (sv_backend s) in (x, s\<lparr>sv_backend := bk\<rparr>))"

definition change :: "('s \<Rightarrow> 's) \<Rightarrow> (unit, 's) action" where
  "change f s = (Inr (), f s)"

text \<open>\<open>js.dump()\<close> throws on a text that is not UTF-8.\<close>

definition dump_json :: "('w, 'r) chat_libs \<Rightarrow> json \<Rightarrow> (string, 's) action" where
  "dump_json L js = check (case lib_dump L js of None \<Rightarrow> Inl Json_error | Some t \<Rightarrow> Inr t)"

definition send :: "nat \<Rightarrow> string \<Rightarrow> (unit, 'w, 'r) service_act" where
  "send conn t = change (\<lambda>s. s\<lparr>sv_out := sv_out s @ [(conn, t)]\<rparr>)"

definition send_json :: "('w, 'r) chat_libs \<Rightarrow> nat \<Rightarrow> json \<Rightarrow> (unit, 'w, 'r) service_act" where
  "send_json L conn js = act_bind (dump_json L js) (send conn)"

fun send_all :: "('w, 'r) chat_libs \<Rightarrow> nat \<Rightarrow> json list \<Rightarrow> (unit, 'w, 'r) service_act" where
  "send_all L conn [] = act_return ()"
| "send_all L conn (j # js) = act_bind (send_json L conn j) (\<lambda>_. send_all L conn js)"

subsection \<open>Handlers\<close>

text \<open>The texts of the error messages, in UTF-8.\<close>

definition already_online_text :: string where
  "already_online_text = [CHR 0xE5, CHR 0xB7, CHR 0xB2, CHR 0xE7, CHR 0x99, CHR 0xBB, CHR 0xE5, CHR 0xBD, CHR 0x95, CHR 0xEF, CHR 0xBC, CHR 0x8C, CHR 0xE4, CHR 0xB8, CHR 0x8D, CHR 0xE5, CHR 0x85, CHR 0x81, CHR 0xE8, CHR 0xAE, CHR 0xB8, CHR 0xE9, CHR 0x87, CHR 0x8D, CHR 0xE5, CHR 0xA4, CHR 0x8D, CHR 0xE7, CHR 0x99, CHR 0xBB, CHR 0xE9, CHR 0x99, CHR 0x86]"

definition bad_login_text :: string where
  "bad_login_text = [CHR 0xE8, CHR 0xB4, CHR 0xA6, CHR 0xE5, CHR 0x8F, CHR 0xB7, CHR 0xE6, CHR 0x88, CHR 0x96, CHR 0xE5, CHR 0xAF, CHR 0x86, CHR 0xE7, CHR 0xA0, CHR 0x81, CHR 0xE9, CHR 0x94, CHR 0x99, CHR 0xE8, CHR 0xAF, CHR 0xAF]"

definition ref_failed_text :: string where
  "ref_failed_text = [CHR 0xE6, CHR 0xB3, CHR 0xA8, CHR 0xE5, CHR 0x86, CHR 0x8C, CHR 0xE5, CHR 0xA4, CHR 0xB1, CHR 0xE8, CHR 0xB4, CHR 0xA5]"

definition already_applied_text :: string where
  "already_applied_text = [CHR 0xE5, CHR 0xB7, CHR 0xB2, CHR 0xE7, CHR 0x94, CHR 0xB3, CHR 0xE8, CHR 0xAF, CHR 0xB7, CHR 0xE8, CHR 0xBF, CHR 0x87, CHR 0xEF, CHR 0xBC, CHR 0x8C, CHR 0xE5, CHR 0xAF, CHR 0xB9, CHR 0xE6, CHR 0x96, CHR 0xB9, CHR 0xE8, CHR 0xBF, CHR 0x98, CHR 0xE6, CHR 0x9C, CHR 0xAA, CHR 0xE5, CHR 0x90, CHR 0x8C, CHR 0xE6, CHR 0x84, CHR 0x8F]"

text \<open>
  \<open>login\<close>. \<open>now k\<close> is the clock when the \<open>k\<close>-th connection of the handler goes back to the pool. The result
  of \<open>subscribe\<close> is not used, the handler only waits for it.
\<close>

definition offline_json :: "int \<Rightarrow> message \<Rightarrow> json" where
  "offline_json i m = json_object [(''msgtype'', JInt (msg_code ONE_MESSAGE)), (''messageID'', JInt (ms_msgid m)),
     (''from'', JInt (ms_fromid m)), (''to'', JInt i), (''message'', JStr (ms_content m)), (''time'', JStr (ms_time m))]"

definition login_error :: "string \<Rightarrow> json" where
  "login_error text = json_object [(''msgtype'', JInt (msg_code LOGIN_ACK)), (''error'', JInt 1), (''error_message'', JStr text)]"

definition login :: "('w, 'r) chat_libs \<Rightarrow> (nat \<Rightarrow> int) \<Rightarrow> nat \<Rightarrow> json \<Rightarrow> (unit, 'w, 'r) service_act" where
  "login L now conn js =
     act_bind (get_int js ''id'') (\<lambda>i. act_bind (get_str js ''password'') (\<lambda>pwd.
     act_bind (on_backend (um_query (lib_mysql L) (now 0) i)) (\<lambda>user.
     if us_id user \<noteq> - 1 \<and> us_pwd user = pwd then
       if us_state user = ''offline'' then
         act_bind (change (\<lambda>s. s\<lparr>sv_conns := (sv_conns s)(i \<mapsto> conn)\<rparr>)) (\<lambda>_.
         act_bind (change (\<lambda>s. s\<lparr>sv_redis := snd (subscribe i (sv_redis s))\<rparr>)) (\<lambda>_.
         act_bind (on_backend (updateStates (lib_mysql L) (now 1) i ''online'')) (\<lambda>_.
         act_bind (send_json L conn (json_object [(''msgtype'', JInt (msg_code LOGIN_ACK)), (''error'', JInt 0),
             (''name'', JStr (us_name user))])) (\<lambda>_.
         act_bind (on_backend (getofflineMessage (lib_mysql L) (now 2) i)) (\<lambda>m.
         send_all L conn (map (offline_json i) m))))))
       else send_json L conn (login_error already_online_text)
     else send_json L conn (login_error bad_login_text))))"

definition ref :: "('w, 'r) chat_libs \<Rightarrow> (nat \<Rightarrow> int) \<Rightarrow> nat \<Rightarrow> json \<Rightarrow> (unit, 'w, 'r) service_act" where
  "ref L now conn js =
     act_bind (get_str js ''name'') (\<lambda>name. act_bind (get_str js ''password'') (\<lambda>pwd.
     act_bind (on_backend (um_insert (lib_mysql L) (now 0) (setpwd pwd (setname name default_user)))) (\<lambda>(ok, user).
     if ok then send_json L conn (json_object [(''msgtype'', JInt (msg_code REF_ACK)), (''error'', JInt 0), (''id'', JInt (us_id user))])
     else send_json L conn (json_object [(''msgtype'', JInt (msg_code REF_ACK)), (''error'', JInt 1),
        (''error_message'', JStr ref_failed_text)]))))"

definition onemessage :: "('w, 'r) chat_libs \<Rightarrow> (nat \<Rightarrow> int) \<Rightarrow> nat \<Rightarrow> json \<Rightarrow> (unit, 'w, 'r) service_act" where
  "onemessage L now conn js =
     act_bind (get_int js ''fromid'') (\<lambda>fromid. act_bind (get_int js ''toid'') (\<lambda>toid. act_bind (get_str js ''message'') (\<lambda>text.
     act_bind (on_backend (insertMessage (lib_mysql L) (now 0) fromid toid text)) (\<lambda>m.
     if ms_msgid m = - 1 then act_return ()
     else let js = json_set ''time'' (JStr (ms_time m)) (json_set ''messageID'' (JInt (ms_msgid m)) js) in
       (\<lambda>s. (case sv_conns s toid of
          Some c \<Rightarrow> send_json L c js
        | None \<Rightarrow> act_bind (on_backend (um_query (lib_mysql L) (now 1) toid)) (\<lambda>user.
            if us_id user \<noteq> - 1 \<and> us_state user = ''online'' then
              act_bind (dump_json L js) (\<lambda>t. change (\<lambda>s. s\<lparr>sv_rworld := snd (publish (lib_redis L) toid t (sv_redis s) (sv_rworld s))\<rparr>))
            else act_return ())) s)))))"

text \<open>
  \<open>clientColse\<close>: the first entry of \<open>_userIdConn\<close> with this connection, in the order in which the hash
  table is traversed; without one the id stays 0.
\<close>

definition close_id :: "int list \<Rightarrow> nat \<Rightarrow> (int \<rightharpoonup> nat) \<Rightarrow> int option" where
  "close_id order conn m = List.find (\<lambda>i. m i = Some conn) order"

definition clientColse :: "('w, 'r) chat_libs \<Rightarrow> (nat \<Rightarrow> int) \<Rightarrow> int list \<Rightarrow> nat \<Rightarrow> (unit, 'w, 'r) service_act" where
  "clientColse L now order conn s =
     (case close_id order conn (sv_conns s) of
        Some i \<Rightarrow> act_bind (change (\<lambda>s. s\<lparr>sv_conns := (sv_conns s)(i := None)\<rparr>)) (\<lambda>_.
           act_bind (change (\<lambda>s. s\<lparr>sv_redis := snd (unsubscribe i (sv_redis s))\<rparr>)) (\<lambda>_.
           act_bind (on_backend (updateStates (lib_mysql L) (now 0) i ''offline'')) (\<lambda>_. act_return ()))) s
      | None \<Rightarrow> act_bind (on_backend (updateStates (lib_mysql L) (now 0) 0 ''offline'')) (\<lambda>_. act_return ()) s)"

definition ackMessage :: "('w, 'r) chat_libs \<Rightarrow> (nat \<Rightarrow> int) \<Rightarrow> nat \<Rightarrow> json \<Rightarrow> (unit, 'w, 'r) service_act" where
  "ackMessage L now conn js = act_bind (get_int js ''messageID'') (\<lambda>i.
     act_bind (on_backend (updateMesStatus (lib_mysql L) (now 0) i)) (\<lambda>_. act_return ()))"

text \<open>The reply of \<open>addfriend\<close> has its code under \<open>msgid\<close>.\<close>

definition friend_error :: json where
  "friend_error = json_object [(''msgid'', JInt (msg_code ADD_FRIEND_ACK)), (''error'', JInt 1),
     (''error_message'', JStr already_applied_text)]"

definition addfriend :: "('w, 'r) chat_libs \<Rightarrow> (nat \<Rightarrow> int) \<Rightarrow> nat \<Rightarrow> json \<Rightarrow> (unit, 'w, 'r) service_act" where
  "addfriend L now conn js =
     act_bind (get_int js ''user_id'') (\<lambda>u. act_bind (get_int js ''friend_id'') (\<lambda>f.
     act_bind (on_backend (applyFriend (lib_mysql L) (now 0) u f)) (\<lambda>ok.
     if \<not> ok then send_json L conn friend_error else act_return ())))"

definition agreefiend :: "('w, 'r) chat_libs \<Rightarrow> (nat \<Rightarrow> int) \<Rightarrow> nat \<Rightarrow> json \<Rightarrow> (unit, 'w, 'r) service_act" where
  "agreefiend L now conn js =
     act_bind (get_int js ''user_id'') (\<lambda>u. act_bind (get_int js ''friend_id'') (\<lambda>f.
     act_bind (on_backend (agreeFriend (lib_mysql L) (now 0) u f)) (\<lambda>_. act_return ())))"

definition refusefriend :: "('w, 'r) chat_libs \<Rightarrow> (nat \<Rightarrow> int) \<Rightarrow> nat \<Rightarrow> json \<Rightarrow> (unit, 'w, 'r) service_act" where
  "refusefriend L now conn js =
     act_bind (get_int js ''user_id'') (\<lambda>u. act_bind (get_int js ''friend_id'') (\<lambda>f.
     act_bind (on_backend (refuseFriend (lib_mysql L) (now 0) u f)) (\<lambda>_. act_return ())))"

definition apply_json :: "friend_apply \<Rightarrow> json" where
  "apply_json f = json_object [(''msgtype'', JInt (msg_code GET_ADDLIST)), (''user_id'', JInt (fa_userId f)),
     (''user_name'', JStr (fa_userName f)), (''time'', JStr (fa_applyTime f))]"

definition getaddlist :: "('w, 'r) chat_libs \<Rightarrow> (nat \<Rightarrow> int) \<Rightarrow> nat \<Rightarrow> json \<Rightarrow> (unit, 'w, 'r) service_act" where
  "getaddlist L now conn js = act_bind (get_int js ''user_id'') (\<lambda>u.
     act_bind (on_backend (getApplyList (lib_mysql L) (now 0) u)) (\<lambda>fs. send_all L conn (map apply_json fs)))"

definition friend_json :: "friend_apply \<Rightarrow> json" where
  "friend_json f = json_object [(''msgtype'', JInt (msg_code GET_FRILIST)), (''user_id'', JInt (fa_userId f)),
     (''user_name'', JStr (fa_userName f)), (''remark'', JStr (fa_remark f)), (''time'', JStr (fa_applyTime f))]"

definition getfriendlist :: "('w, 'r) chat_libs \<Rightarrow> (nat \<Rightarrow> int) \<Rightarrow> nat \<Rightarrow> json \<Rightarrow> (unit, 'w, 'r) service_act" where
  "getfriendlist L now conn js = act_bind (get_int js ''user_id'') (\<lambda>u.
     act_bind (on_backend (getFriendList (lib_mysql L) (now 0) u)) (\<lambda>fs. send_all L conn (map friend_json fs)))"

text \<open>The callback of the Redis client.\<close>

definition redisHandler :: "int \<Rightarrow> string \<Rightarrow> (unit, 'w, 'r) service_act" where
  "redisHandler channel msg s = (case sv_conns s channel of None \<Rightarrow> (Inr (), s) | Some c \<Rightarrow> send c msg s)"

subsection \<open>Construction and dispatch\<close>

text \<open>The constructor fills the table of handlers and connects to Redis.\<close>

definition handlers :: "('w, 'r) chat_libs \<Rightarrow> (int \<times> ((nat \<Rightarrow> int) \<Rightarrow> nat \<Rightarrow> json \<Rightarrow> (unit, 'w, 'r) service_act)) list" where
  "handlers L = [(msg_code LOGIN, login L), (msg_code REF, ref L), (msg_code ONE_MESSAGE, onemessage L),
     (msg_code ACK_MESSAGE, ackMessage L), (msg_code ADD_FRIEND, addfriend L), (msg_code AGREE_FRIEND, agreefiend L),
     (msg_code REFUSE_FRIEND, refusefriend L), (msg_code GET_ADDLIST, getaddlist L), (msg_code GET_FRILIST, getfriendlist L)]"

definition ChatService :: "('w, 'r) chat_libs \<Rightarrow> 'w backend \<Rightarrow> 'r \<Rightarrow> ('w, 'r) chat_service" where
  "ChatService L bk r =
     (let ((ok, c), r) = redis_connect (lib_redis L) ''127.0.0.1'' 6379 RedisClient r;
          c = (if ok then startSubscribeLoop (setMsgCallback c) else c)
      in \<lparr>sv_backend = bk, sv_redis = c, sv_rworld = r, sv_conns = Map.empty, sv_out = []\<rparr>)"

text \<open>A request of an unknown kind is only logged.\<close>

definition getHandler :: "('w, 'r) chat_libs \<Rightarrow> int \<Rightarrow> (nat \<Rightarrow> int) \<Rightarrow> nat \<Rightarrow> json \<Rightarrow> (unit, 'w, 'r) service_act" where
  "getHandler L msgtype = (case map_of (handlers L) msgtype of Some h \<Rightarrow> h | None \<Rightarrow> (\<lambda>now conn js. act_return ()))"

end
