(* ===== verification/Json_Text.thy ===== *)
theory Json_Text
  imports Json_Value
begin

text \<open>
  The texts of JSON values. What the programs rely on of the JSON library when it prints: it prints
  every value whose strings are UTF-8, and the text of an object is an object by the grammar of JSON.
  The grammar is stated here on its own, down to strings, escapes and nested braces; a printer that
  obeys the laws is given.
\<close>

definition quote_char :: char where "quote_char = CHR 0x22"
definition backslash :: char where "backslash = CHR 0x5C"

subsection \<open>Strings of a value\<close>

text \<open>All strings of a value are UTF-8; no string of a value ends in a backslash.\<close>

fun json_utf8 :: "json \<Rightarrow> bool" where
  "json_utf8 (JStr s) = utf8 s"
| "json_utf8 (JArr js) = list_all json_utf8 js"
| "json_utf8 (JObj kvs) = list_all (\<lambda>(k, v). utf8 k \<and> json_utf8 v) kvs"
| "json_utf8 _ = True"

definition ends_plain :: "string \<Rightarrow> bool" where
  "ends_plain s \<longleftrightarrow> s = [] \<or> last s \<noteq> backslash"

fun json_plain_ends :: "json \<Rightarrow> bool" where
  "json_plain_ends (JStr s) = ends_plain s"
| "json_plain_ends (JArr js) = list_all json_plain_ends js"
| "json_plain_ends (JObj kvs) = list_all (\<lambda>(k, v). ends_plain k \<and> json_plain_ends v) kvs"
| "json_plain_ends _ = True"

lemma list_all_obj_put:
  "list_all P kvs \<Longrightarrow> P (k, v) \<Longrightarrow> list_all P (obj_put k v kvs)"
  by (induction k v kvs rule: obj_put.induct) auto

lemma list_all_json_object:
  "list_all P kvs' \<Longrightarrow> list_all P kvs \<Longrightarrow> list_all P (fold (\<lambda>(k, v). obj_put k v) kvs kvs')"
  by (induction kvs arbitrary: kvs') (auto simp: list_all_obj_put)

lemma json_utf8_set: "json_utf8 j \<Longrightarrow> utf8 k \<Longrightarrow> json_utf8 v \<Longrightarrow> json_utf8 (json_set k v j)"
  by (cases j) (simp_all add: json_set_def list_all_obj_put)

lemma json_utf8_object:
  "list_all (\<lambda>(k, v). utf8 k \<and> json_utf8 v) kvs \<Longrightarrow> json_utf8 (json_object kvs)"
proof (cases "kvs = []")
  case False
  assume "list_all (\<lambda>(k, v). utf8 k \<and> json_utf8 v) kvs"
  from list_all_json_object [OF _ this, of "[]"] show ?thesis by (simp add: json_object_obj [OF False])
qed (simp add: json_object_def)

lemma json_utf8_at: "json_utf8 j \<Longrightarrow> json_at j k = Inr v \<Longrightarrow> json_utf8 v"
  by (cases j) (auto simp: json_at_def list_all_iff split: option.splits dest!: map_of_SomeD)

lemma json_plain_ends_set: "json_plain_ends j \<Longrightarrow> ends_plain k \<Longrightarrow> json_plain_ends v \<Longrightarrow> json_plain_ends (json_set k v j)"
  by (cases j) (simp_all add: json_set_def list_all_obj_put)

lemma json_plain_ends_object:
  "list_all (\<lambda>(k, v). ends_plain k \<and> json_plain_ends v) kvs \<Longrightarrow> json_plain_ends (json_object kvs)"
proof (cases "kvs = []")
  case False
  assume "list_all (\<lambda>(k, v). ends_plain k \<and> json_plain_ends v) kvs"
  from list_all_json_object [OF _ this, of "[]"] show ?thesis by (simp add: json_object_obj [OF False])
qed (simp add: json_object_def)

subsection \<open>The grammar of objects\<close>

text \<open>
  Between its quotes a string has plain characters and escapes, a backslash with the character after
  it. The text of an object is a pair of braces around members; for its structure these are strings,
  nested objects, and other characters. Of the strings those are left out that end in an escaped backslash.
\<close>

inductive string_body :: "string \<Rightarrow> bool" where
  body_end: "string_body []"
| body_plain: "c \<noteq> quote_char \<Longrightarrow> c \<noteq> backslash \<Longrightarrow> string_body s \<Longrightarrow> string_body (c # s)"
| body_escape: "string_body s \<Longrightarrow> string_body (backslash # c # s)"

inductive object_text :: "string \<Rightarrow> bool" and members_text :: "string \<Rightarrow> bool" where
  braces: "members_text s \<Longrightarrow> object_text (CHR ''{'' # s @ ''}'')"
| no_members: "members_text []"
| other_char: "c \<notin> {quote_char, backslash, CHR ''{'', CHR ''}''} \<Longrightarrow> members_text s \<Longrightarrow> members_text (c # s)"
| string_member: "string_body b \<Longrightarrow> ends_plain b \<Longrightarrow> members_text s \<Longrightarrow> members_text (quote_char # b @ quote_char # s)"
| object_member: "object_text t \<Longrightarrow> members_text s \<Longrightarrow> members_text (t @ s)"

lemma members_append: "members_text a \<Longrightarrow> members_text b \<Longrightarrow> members_text (a @ b)"
  by (induction a rule: object_text_members_text.inducts(2) [where ?P1.0 = "\<lambda>t. True"])
    (auto intro: other_char string_member [simplified] object_member simp: string_member)

lemma object_members: "object_text t \<Longrightarrow> members_text t"
  using object_member [OF _ no_members] by simp

subsection \<open>A printer\<close>

text \<open>Compact JSON as the library prints it, for texts in UTF-8 and without fractions.\<close>

definition escape_char :: "char \<Rightarrow> string" where
  "escape_char c =
     (if c = quote_char \<or> c = backslash then [backslash, c]
      else if c = CHR 0x08 then [backslash, CHR ''b''] else if c = CHR 0x0C then [backslash, CHR ''f'']
      else if c = CHR 0x0A then [backslash, CHR ''n''] else if c = CHR 0x0D then [backslash, CHR ''r'']
      else if c = CHR 0x09 then [backslash, CHR ''t'']
      else if of_char c < (32 :: nat) then backslash # ''u00'' @ dec_string (of_char c div 16)
        @ [(''0123456789abcdef'' ! (of_char c mod 16))]
      else [c])"

definition string_text :: "string \<Rightarrow> string" where
  "string_text s = quote_char # concat (map escape_char s) @ [quote_char]"

fun join :: "string list \<Rightarrow> string" where
  "join [] = []"
| "join [x] = x"
| "join (x # xs) = x @ '','' @ join xs"

fun json_text :: "json \<Rightarrow> string" where
  "json_text JNull = ''null''"
| "json_text (JBool b) = (if b then ''true'' else ''false'')"
| "json_text (JInt i) = int_text i"
| "json_text (JFloat x) = int_text \<lfloor>x\<rfloor> @ ''.0''"
| "json_text (JStr s) = string_text s"
| "json_text (JArr js) = ''['' @ join (map json_text js) @ '']''"
| "json_text (JObj kvs) = ''{'' @ join (map (\<lambda>(k, v). string_text k @ '':'' @ json_text v) kvs) @ ''}''"

lemma body_append: "string_body a \<Longrightarrow> string_body b \<Longrightarrow> string_body (a @ b)"
  by (induction rule: string_body.induct) (auto intro: string_body.intros)

definition word_char :: "char \<Rightarrow> bool" where
  "word_char c \<longleftrightarrow> c \<notin> {quote_char, backslash, CHR ''{'', CHR ''}'', NUL}"

lemma body_words: "\<forall>c \<in> set s. word_char c \<Longrightarrow> string_body s"
  by (induction s) (auto intro: string_body.intros simp: word_char_def)

lemma members_words: "\<forall>c \<in> set s. word_char c \<Longrightarrow> members_text s"
  by (induction s) (auto intro: object_text_members_text.intros simp: word_char_def)

lemma digit_word: "is_digit_char c \<Longrightarrow> word_char c"
  by (auto simp: is_digit_char_def word_char_def quote_char_def backslash_def NUL_def)

lemma dash_word: "word_char (CHR ''-'')"
  by (simp add: word_char_def quote_char_def backslash_def NUL_def)

lemma int_text_words: "c \<in> set (int_text i) \<Longrightarrow> word_char c"
  using dec_string_digits [of "nat i"] dec_string_digits [of "nat (- i)"] dash_word
  by (auto simp: int_text_def list_all_iff digit_word split: if_splits)

lemma hex_words: "k < 16 \<Longrightarrow> word_char (''0123456789abcdef'' ! k)"
proof -
  assume "k < 16"
  then have "''0123456789abcdef'' ! k \<in> set ''0123456789abcdef''" by (intro nth_mem) simp
  moreover have "\<forall>c \<in> set ''0123456789abcdef''. word_char c" by code_simp
  ultimately show ?thesis by blast
qed

lemma escape_unicode:
  "\<forall>c \<in> set (''u00'' @ dec_string n @ [''0123456789abcdef'' ! (k mod 16)]). word_char c"
  using dec_string_digits [of n] hex_words [of "k mod 16"]
  by (auto simp: list_all_iff digit_word) (simp_all add: word_char_def quote_char_def backslash_def NUL_def)

lemma escape_char_cases:
  obtains x where "escape_char c = [backslash, x]" and "x \<noteq> NUL" and "x = backslash \<longrightarrow> c = backslash"
  | s where "escape_char c = backslash # s" and "s \<noteq> []" and "\<forall>x \<in> set s. word_char x"
  | "escape_char c = [c]" and "c \<noteq> quote_char" and "c \<noteq> backslash" and "c \<noteq> NUL"
proof -
  consider "c = quote_char \<or> c = backslash" | "c \<noteq> quote_char" "c \<noteq> backslash" "c \<in> {CHR 0x08, CHR 0x0C, CHR 0x0A, CHR 0x0D, CHR 0x09}"
    | "c \<noteq> quote_char" "c \<noteq> backslash" "c \<notin> {CHR 0x08, CHR 0x0C, CHR 0x0A, CHR 0x0D, CHR 0x09}" "of_char c < (32 :: nat)"
    | "c \<noteq> quote_char" "c \<noteq> backslash" "c \<notin> {CHR 0x08, CHR 0x0C, CHR 0x0A, CHR 0x0D, CHR 0x09}" "\<not> of_char c < (32 :: nat)"
    by blast
  then show thesis
  proof cases
    case 1
    then show ?thesis by (intro that(1) [of c]) (auto simp: escape_char_def quote_char_def backslash_def NUL_def)
  next
    case 2
    have "\<exists>x. escape_char c = [backslash, x] \<and> x \<noteq> NUL \<and> x \<noteq> backslash"
      using 2 unfolding escape_char_def by (auto simp: NUL_def quote_char_def backslash_def)
    then show ?thesis using that(1) by blast
  next
    case 3
    then show ?thesis
      by (intro that(2) [of "''u00'' @ dec_string (of_char c div 16) @ [''0123456789abcdef'' ! (of_char c mod 16)]"])
        (use escape_unicode [of "of_char c div 16" "of_char c"] in \<open>auto simp: escape_char_def\<close>)
  next
    case 4
    then show ?thesis by (intro that(3)) (auto simp: escape_char_def NUL_def)
  qed
qed

lemma escape_char_body: "string_body (escape_char c)"
proof (cases c rule: escape_char_cases)
  case (2 s)
  then obtain x xs where "escape_char c = backslash # x # xs" "\<forall>y \<in> set xs. word_char y" by (cases s) auto
  then show ?thesis by (simp add: body_escape body_words)
qed (auto intro: string_body.intros)

lemma escape_body: "string_body (concat (map escape_char s))"
  by (induction s) (auto intro: string_body.intros body_append escape_char_body)

lemma escape_char_last: "escape_char c \<noteq> [] \<and> (last (escape_char c) = backslash \<longrightarrow> c = backslash)"
  by (cases c rule: escape_char_cases) (auto simp: word_char_def last_in_set dest: last_in_set)

lemma escape_ends: "ends_plain s \<Longrightarrow> ends_plain (concat (map escape_char s))"
proof (cases s rule: rev_cases)
  case (snoc xs c)
  then show "ends_plain s \<Longrightarrow> ?thesis" using escape_char_last [of c] by (simp add: ends_plain_def)
qed (simp add: ends_plain_def)

lemma string_text_members: "ends_plain s \<Longrightarrow> members_text (string_text s)"
  using string_member [OF escape_body escape_ends no_members] by (simp add: string_text_def)

lemma members_join: "\<forall>x \<in> set xs. members_text x \<Longrightarrow> members_text (join xs)"
proof (induction xs rule: join.induct)
  case (3 x y xs)
  have "members_text (CHR '','' # join (y # xs))"
    using 3 by (intro other_char) (auto simp: quote_char_def backslash_def)
  with 3 show ?case by (simp add: members_append)
qed (auto intro: object_text_members_text.intros)

lemma member_text: "ends_plain k \<Longrightarrow> members_text v \<Longrightarrow> members_text (string_text k @ CHR '':'' # v)"
  by (intro members_append string_text_members other_char) (simp_all add: quote_char_def backslash_def)

lemma json_text_members: "json_plain_ends j \<Longrightarrow> members_text (json_text j)"
proof (induction j rule: json_text.induct)
  case (4 x)
  have "members_text ''.0''" by (rule members_words) (simp add: word_char_def quote_char_def backslash_def NUL_def)
  moreover have "members_text (int_text \<lfloor>x\<rfloor>)" using int_text_words by (intro members_words) blast
  ultimately show ?case by (simp only: json_text.simps members_append)
next
  case (6 js)
  have "members_text ''[''" "members_text '']''"
    by (rule members_words, simp add: word_char_def quote_char_def backslash_def NUL_def)+
  moreover have "members_text (join (map json_text js))" using 6 by (intro members_join) (auto simp: list_all_iff)
  ultimately show ?case unfolding json_text.simps by (intro members_append)
next
  case (7 kvs)
  have "members_text (join (map (\<lambda>(k, v). string_text k @ '':'' @ json_text v) kvs))"
    using 7 by (intro members_join) (auto simp: list_all_iff intro!: member_text)
  from object_members [OF braces [OF this]] show ?case by simp
qed (auto intro!: members_words string_text_members members_append dest: int_text_words,
  simp_all add: word_char_def quote_char_def backslash_def NUL_def)

lemma json_text_object:
  assumes "json_plain_ends (JObj kvs)"
  shows "object_text (json_text (JObj kvs))"
proof -
  have "members_text (join (map (\<lambda>(k, v). string_text k @ '':'' @ json_text v) kvs))"
    using assms by (intro members_join) (auto simp: list_all_iff intro!: member_text json_text_members)
  from braces [OF this] show ?thesis by simp
qed

lemma escape_no_NUL: "NUL \<notin> set (string_text s)"
proof -
  have "NUL \<notin> set (escape_char c)" for c
    by (cases c rule: escape_char_cases) (auto simp: word_char_def backslash_def NUL_def)
  then show ?thesis by (simp add: string_text_def quote_char_def NUL_def)
qed

lemma join_no_NUL: "\<forall>x \<in> set xs. NUL \<notin> set x \<Longrightarrow> NUL \<notin> set (join xs)"
  by (induction xs rule: join.induct) (auto simp: NUL_def)

lemma json_text_no_NUL: "NUL \<notin> set (json_text j)"
proof (induction j rule: json_text.induct)
  case (6 js)
  then show ?case using join_no_NUL [of "map json_text js"] by (auto simp: NUL_def)
next
  case (7 kvs)
  have "NUL \<notin> set (join (map (\<lambda>(k, v). string_text k @ '':'' @ json_text v) kvs))"
    using 7 escape_no_NUL by (intro join_no_NUL) (auto simp: NUL_def)
  then show ?case by (auto simp: NUL_def)
qed (use escape_no_NUL in \<open>auto dest: int_text_words simp: word_char_def, simp_all add: NUL_def\<close>)

subsection \<open>The library\<close>

text \<open>
  \<open>dump\<close> prints what is UTF-8, and throws otherwise. The text of an object is one by the grammar; it has
  no zero byte, as control characters are escaped.
\<close>

locale json_printer =
  fixes dump :: "json \<Rightarrow> string option" and enc :: "json \<Rightarrow> string"
  assumes dump_utf8: "json_utf8 j \<Longrightarrow> dump j = Some (enc j)"

locale json_texts = json_printer +
  assumes enc_object: "json_utf8 (JObj kvs) \<Longrightarrow> json_plain_ends (JObj kvs) \<Longrightarrow> object_text (enc (JObj kvs))"
    and enc_no_NUL: "json_utf8 j \<Longrightarrow> NUL \<notin> set (enc j)"

definition ref_dump :: "json \<Rightarrow> string option" where
  "ref_dump j = (if json_utf8 j then Some (json_text j) else None)"

interpretation ref_json: json_texts ref_dump json_text
  by unfold_locales (simp_all add: ref_dump_def json_text_object json_text_no_NUL del: json_text.simps)

end
