(* ===== verification/Service_Props.thy ===== *)
theory Service_Props
  imports Chat_Service Chat_Ref Json_Text
begin

text \<open>
  The handlers of the chat service on a database that answers: what each sends to whom and what it
  does to the tables, to the connections of the users and to the subscriptions.
\<close>

subsection \<open>Steps of handlers\<close>

lemma check_step: "check (Inr x) s = (Inr x, s)" "check (Inl e) s = (Inl e, s)"
  by (simp_all add: check_def)

lemma on_backend_step: "f (sv_backend s) = (Inr x, bk) \<Longrightarrow> on_backend f s = (Inr x, s\<lparr>sv_backend := bk\<rparr>)"
  by (simp add: on_backend_def)

lemma change_bind [simp]: "act_bind (change g) f s = f () (g s)"
  by (simp add: act_bind_def change_def)

lemma get_step:
  "json_at js k = Inr (JInt i) \<Longrightarrow> id_ok i \<Longrightarrow> act_bind (get_int js k) f s = f i s"
  "json_at js k = Inr (JStr t) \<Longrightarrow> act_bind (get_str js k) g s = g t s"
  by (simp_all add: get_int_def get_str_def act_bind_def check_def id_ok_def signed_take_bit_int_eq_self)

lemma backend_step:
  "f (sv_backend s) = (Inr x, bk) \<Longrightarrow> act_bind (on_backend f) g s = g x (s\<lparr>sv_backend := bk\<rparr>)"
  by (simp add: act_bind_def on_backend_step)

lemma send_json_step:
  "lib_dump L j = Some t \<Longrightarrow> send_json L conn j s = (Inr (), s\<lparr>sv_out := sv_out s @ [(conn, t)]\<rparr>)"
  by (simp add: send_json_def act_bind_def dump_json_def check_def send_def change_def)

lemma send_all_step:
  "(\<And>j. j \<in> set js \<Longrightarrow> lib_dump L j = Some (enc j)) \<Longrightarrow>
    send_all L conn js s = (Inr (), s\<lparr>sv_out := sv_out s @ map (\<lambda>j. (conn, enc j)) js\<rparr>)"
  by (induction js arbitrary: s) (simp_all add: act_bind_def send_json_step)

lemma dump_step: "lib_dump L j = Some t \<Longrightarrow> act_bind (dump_json L j) f s = f t s"
  by (simp add: act_bind_def dump_json_def check_def)

lemma change_run [simp]: "change g s = (Inr (), g s)"
  by (simp add: change_def)

lemmas handler_steps = dump_step get_step backend_step change_bind send_json_step send_all_step act_bind_step

lemma tables_fit_set_state: "tables_fit t \<Longrightarrow> short_text st \<Longrightarrow> tables_fit (set_user_state i st t)"
  by (auto simp: set_user_state_def split: option.splits intro!: tables_fit_add_user dest: tables_fit_user)

lemma unread_for_set_state [simp]: "unread_for i (set_user_state k st t) = unread_for i t"
  by (simp add: unread_for_def set_user_state_def split: option.splits)

text \<open>The texts of the tables that the handlers send are UTF-8, as the columns of the database are.\<close>

definition tables_utf8 :: "chat_tables \<Rightarrow> bool" where
  "tables_utf8 t \<longleftrightarrow> (\<forall>i name pwd st. ct_users t i = Some (name, pwd, st) \<longrightarrow> utf8 name)
   \<and> (\<forall>m \<in> set (ct_messages t). utf8 (mr_content m) \<and> utf8 (mr_time m))"

lemma tables_utf8_user: "tables_utf8 t \<Longrightarrow> ct_users t i = Some (name, pwd, st) \<Longrightarrow> utf8 name"
  unfolding tables_utf8_def by blast

lemma tables_utf8_message: "tables_utf8 t \<Longrightarrow> m \<in> set (ct_messages t) \<Longrightarrow> utf8 (mr_content m) \<and> utf8 (mr_time m)"
  unfolding tables_utf8_def by blast

lemma tables_utf8_set_state: "tables_utf8 t \<Longrightarrow> tables_utf8 (set_user_state i st t)"
  by (auto simp: set_user_state_def tables_utf8_def split: option.splits)

lemma tables_utf8_add_message:
  "tables_utf8 t \<Longrightarrow> utf8 (mr_content m) \<Longrightarrow> utf8 (mr_time m) \<Longrightarrow> tables_utf8 (t\<lparr>ct_messages := ct_messages t @ [m]\<rparr>)"
  unfolding tables_utf8_def by auto

lemma utf8_words [simp]: "utf8 already_online_text" "utf8 bad_login_text" "utf8 already_applied_text" "utf8 ref_failed_text"
  by code_simp+

lemma utf8_keys [simp]:
  "utf8 ''msgtype''" "utf8 ''error''" "utf8 ''name''" "utf8 ''error_message''" "utf8 ''messageID''" "utf8 ''from''" "utf8 ''to''"
  "utf8 ''message''" "utf8 ''time''" "utf8 ''fromid''" "utf8 ''toid''" "utf8 ''id''" "utf8 ''password''" "utf8 ''msgid''"
  by code_simp+

lemma json_utf8_replies [simp]:
  "json_utf8 (login_error text) \<longleftrightarrow> utf8 text" "json_utf8 friend_error"
  by (simp_all add: login_error_def friend_error_def json_object_def json_set_def)

lemma json_utf8_offline: "json_utf8 (offline_json i (message_of m)) \<longleftrightarrow> utf8 (mr_content m) \<and> utf8 (mr_time m)"
  by (auto simp: offline_json_def json_object_def json_set_def message_of_def Message_of_def)

lemma short_online [simp]: "short_text ''online''"
  by (simp add: short_text_def col_buffer_def NUL_def)

subsection \<open>The server and its libraries\<close>

text \<open>
  A service over a chat database, whose JSON library prints all that is UTF-8.
\<close>

locale chat_env = chat_database fetch api tables + json_printer "lib_dump L" enc
  for fetch :: "nat \<Rightarrow> string list \<Rightarrow> int \<times> string list" and api :: "'w mysql_api" and tables :: "'w \<Rightarrow> chat_tables"
    and L :: "('w, 'r) chat_libs" and enc :: "json \<Rightarrow> string" +
  assumes lib_mysql: "lib_mysql L = api"
begin

abbreviation stabs :: "('w, 'r) chat_service \<Rightarrow> chat_tables" where
  "stabs s \<equiv> tables (bk_world (sv_backend s))"

abbreviation service_ok :: "('w, 'r) chat_service \<Rightarrow> bool" where
  "service_ok s \<equiv> backend_ok (sv_backend s) \<and> tables_fit (stabs s) \<and> tables_utf8 (stabs s)"

lemma login_accepts:
  assumes "service_ok s" and "json_at js ''id'' = Inr (JInt i)" and "id_ok i" and "json_at js ''password'' = Inr (JStr pwd)"
    and "ct_users (stabs s) i = Some (name, pwd, ''offline'')"
  shows "\<exists>s' ms. login L now conn js s = (Inr (), s') \<and> service_ok s'
    \<and> sv_conns s' = (sv_conns s)(i \<mapsto> conn) \<and> sv_redis s' = snd (subscribe i (sv_redis s)) \<and> sv_rworld s' = sv_rworld s
    \<and> stabs s' = set_user_state i ''online'' (stabs s)
    \<and> sv_out s' = sv_out s @ (conn, enc (json_object [(''msgtype'', JInt 4), (''error'', JInt 0), (''name'', JStr name)]))
        # map (\<lambda>m. (conn, enc (offline_json i m))) ms
    \<and> mset ms = mset (map message_of (unread_for i (stabs s)))"
proof -
  from um_query_ok [of "sv_backend s" "now 0" i] assms(1,5) obtain bk1 where
    q: "um_query api (now 0) i (sv_backend s) = (Inr (User i name pwd ''offline''), bk1)" "backend_ok bk1" "tabs bk1 = stabs s" by auto
  from updateStates_ok [OF q(2)] q(3) obtain bk2 where
    u: "updateStates api (now 1) i ''online'' bk1 = (Inr True, bk2)" "backend_ok bk2" "tabs bk2 = set_user_state i ''online'' (stabs s)" by metis
  have fit: "tables_fit (tabs bk2)" unfolding u(3) using assms(1) by (intro tables_fit_set_state) auto
  from getofflineMessage_ok [OF u(2) fit] u(3) obtain ms bk3 where
    g: "getofflineMessage api (now 2) i bk2 = (Inr ms, bk3)" "backend_ok bk3" "tabs bk3 = tabs bk2"
    "mset ms = mset (map message_of (unread_for i (stabs s)))" by (metis unread_for_set_state)
  have name: "utf8 name" using tables_utf8_user assms(1,5) by blast
  have texts: "json_utf8 (offline_json i m)" if "m \<in> set ms" for m
    using that mset_eq_setD [OF g(4)] tables_utf8_message [of "stabs s"] assms(1) by (auto simp: unread_for_def json_utf8_offline)
  have utf: "tables_utf8 (tabs bk2)" unfolding u(3) using assms(1) by (simp add: tables_utf8_set_state)
  let ?ack = "json_object [(''msgtype'', JInt 4), (''error'', JInt 0), (''name'', JStr name)]"
  have ack: "lib_dump L ?ack = Some (enc ?ack)"
    by (rule dump_utf8) (simp add: json_object_def json_set_def name)
  have sent: "send_all L conn (map (offline_json i) ms) s0
      = (Inr (), s0\<lparr>sv_out := sv_out s0 @ map (\<lambda>m. (conn, enc (offline_json i m))) ms\<rparr>)" for s0 :: "('w, 'r) chat_service"
    using send_all_step [of "map (offline_json i) ms" L enc conn s0] texts dump_utf8 by (auto simp: comp_def)
  let ?s = "s\<lparr>sv_backend := bk3, sv_conns := (sv_conns s)(i \<mapsto> conn), sv_redis := snd (subscribe i (sv_redis s)),
    sv_out := sv_out s @ (conn, enc (json_object [(''msgtype'', JInt 4), (''error'', JInt 0), (''name'', JStr name)]))
        # map (\<lambda>m. (conn, enc (offline_json i m))) ms\<rparr>"
  have "us_id (User i name pwd ''offline'') \<noteq> - 1" using assms(3) by (simp add: User_def id_ok_def)
  then have "login L now conn js s = (Inr (), ?s)"
    using q(1) u(1) g(1) assms(2-4) ack sent
    by (simp add: login_def get_step backend_step send_json_step act_bind_step lib_mysql User_def comp_def)
  then show ?thesis using g u fit utf by (intro exI [of _ ?s] exI [of _ ms]) simp
qed

lemma login_rejects:
  assumes "service_ok s" and "json_at js ''id'' = Inr (JInt i)" and "id_ok i" and "json_at js ''password'' = Inr (JStr pwd)"
    and "\<forall>name. ct_users (stabs s) i \<noteq> Some (name, pwd, ''offline'')"
  shows "\<exists>s' text. login L now conn js s = (Inr (), s') \<and> service_ok s'
    \<and> sv_conns s' = sv_conns s \<and> sv_redis s' = sv_redis s \<and> stabs s' = stabs s
    \<and> sv_out s' = sv_out s @ [(conn, enc (login_error text))]
    \<and> text = (if \<exists>name st. ct_users (stabs s) i = Some (name, pwd, st) then already_online_text else bad_login_text)"
proof -
  define u where "u = (case ct_users (stabs s) i of None \<Rightarrow> default_user | Some (name, pwd, st) \<Rightarrow> User i name pwd st)"
  from um_query_ok [of "sv_backend s" "now 0" i] assms(1) obtain bk1 where
    q: "um_query api (now 0) i (sv_backend s) = (Inr u, bk1)" "backend_ok bk1" "tabs bk1 = stabs s" by (auto simp: u_def)
  let ?text = "if \<exists>name st. ct_users (stabs s) i = Some (name, pwd, st) then already_online_text else bad_login_text"
  let ?s = "s\<lparr>sv_backend := bk1, sv_out := sv_out s @ [(conn, enc (login_error ?text))]\<rparr>"
  have "login L now conn js s = (Inr (), ?s)"
    using q(1) assms(2-5) unfolding u_def
    by (auto simp: login_def handler_steps lib_mysql dump_utf8 User_def default_user_def id_ok_def split: option.splits)
  with q assms(1) show ?thesis by (intro exI [of _ ?s]) auto
qed

lemma onemessage_ok:
  assumes "service_ok s" and "\<forall>m \<in> set (ct_messages (stabs s)). 0 < mr_id m"
    and "json_at js ''fromid'' = Inr (JInt f)" and "id_ok f" and "json_at js ''toid'' = Inr (JInt t)" and "id_ok t"
    and "json_at js ''message'' = Inr (JStr body)" and "short_text body" and "json_utf8 js"
  shows "\<exists>s'. \<exists>m :: message. onemessage L now conn js s = (Inr (), s') \<and> service_ok s' \<and> sv_conns s' = sv_conns s \<and> sv_redis s' = sv_redis s
    \<and> id_ok (ms_msgid m) \<and> time_text (ms_time m) \<and> ms_msgid m \<notin> mr_id ` set (ct_messages (stabs s))
    \<and> (\<forall>acc. insert_accepted api f t body (bk_world (sv_backend s)) acc \<longrightarrow> (ms_msgid m \<noteq> 0 \<longleftrightarrow> acc))
    \<and> (ms_msgid m = 0 \<longrightarrow> ms_time m = [])
    \<and> stabs s' = (if ms_msgid m = 0 then stabs s else (stabs s)\<lparr>ct_messages := ct_messages (stabs s) @
        [\<lparr>mr_id = ms_msgid m, mr_from = f, mr_to = t, mr_content = body, mr_read = False, mr_time = ms_time m\<rparr>]\<rparr>)
    \<and> (let reply = enc (json_set ''time'' (JStr (ms_time m)) (json_set ''messageID'' (JInt (ms_msgid m)) js)) in
       case sv_conns s t of
         Some c \<Rightarrow> sv_out s' = sv_out s @ [(c, reply)] \<and> sv_rworld s' = sv_rworld s
       | None \<Rightarrow> sv_out s' = sv_out s \<and> sv_rworld s' =
           (if \<exists>name pwd. ct_users (stabs s) t = Some (name, pwd, ''online'')
            then snd (publish (lib_redis L) t reply (sv_redis s) (sv_rworld s)) else sv_rworld s))"
proof -
  from insertMessage_ok [of "sv_backend s" "now 0" f t body] assms(1,2) obtain m bk1 where
    i: "insertMessage api (now 0) f t body (sv_backend s) = (Inr m, bk1)" "backend_ok bk1"
    "if ms_msgid m = 0 then m = setMsgid 0 Message \<and> tabs bk1 = stabs s
       else id_ok (ms_msgid m) \<and> time_text (ms_time m) \<and> m = setTime (ms_time m) (setMsgid (ms_msgid m) Message)
         \<and> 0 < ms_msgid m \<and> ms_msgid m \<notin> mr_id ` set (ct_messages (stabs s))
         \<and> tabs bk1 = (stabs s)\<lparr>ct_messages := ct_messages (stabs s) @ [\<lparr>mr_id = ms_msgid m, mr_from = f, mr_to = t,
             mr_content = body, mr_read = False, mr_time = ms_time m\<rparr>]\<rparr>"
    "\<forall>acc. insert_accepted api f t body (bk_world (sv_backend s)) acc \<longrightarrow> (ms_msgid m \<noteq> 0 \<longleftrightarrow> acc)" by (metis (no_types, lifting))
  have m: "ms_msgid m \<noteq> - 1" using i(3) by (auto split: if_splits)
  have unset: "ms_time m = []" if "ms_msgid m = 0"
  proof -
    have "m = setMsgid 0 Message" using i(3) that by simp
    from arg_cong [OF this, of ms_time] show ?thesis by (simp add: setMsgid_def Message_def)
  qed
  have time: "time_text (ms_time m)"
  proof (cases "ms_msgid m = 0")
    case True
    have "time_text []" by (simp add: time_text_def)
    then show ?thesis unfolding unset [OF True] .
  qed (use i(3) in simp)
  have fresh: "id_ok (ms_msgid m)" "ms_msgid m \<notin> mr_id ` set (ct_messages (stabs s))"
    using i(3) assms(2) by (auto simp: id_ok_def split: if_splits)
  have fit: "tables_fit (tabs bk1)" "tables_utf8 (tabs bk1)"
    using i(3) assms(1,4,8) time json_utf8_at [OF assms(9,7)] tables_fit_add_message [of "stabs s"] tables_utf8_add_message [of "stabs s"]
    by (auto simp: time_text_short time_text_utf8 split: if_splits)
  have tb: "tabs bk1 = (if ms_msgid m = 0 then stabs s else (stabs s)\<lparr>ct_messages := ct_messages (stabs s) @
      [\<lparr>mr_id = ms_msgid m, mr_from = f, mr_to = t, mr_content = body, mr_read = False, mr_time = ms_time m\<rparr>]\<rparr>)"
    using i(3) by (simp split: if_splits)
  have users: "ct_users (tabs bk1) = ct_users (stabs s)" using i(3) by (auto split: if_splits)
  define j where "j = json_set ''time'' (JStr (ms_time m)) (json_set ''messageID'' (JInt (ms_msgid m)) js)"
  have dump: "lib_dump L j = Some (enc j)"
    unfolding j_def by (intro dump_utf8 json_utf8_set assms(9)) (simp_all add: time_text_utf8 [OF time])
  show ?thesis
  proof (cases "sv_conns s t")
    case (Some c)
    let ?s = "s\<lparr>sv_backend := bk1, sv_out := sv_out s @ [(c, enc j)]\<rparr>"
    have "onemessage L now conn js s = (Inr (), ?s)"
      using i(1) m assms(3-7) Some dump by (simp add: onemessage_def handler_steps lib_mysql Let_def j_def [symmetric])
    then show ?thesis using i(2,4) tb fit fresh Some time unset
      by (intro exI [of _ ?s], intro exI [of _ m]) (simp add: j_def [symmetric] del: if_split)
  next
    case None
    define u where "u = (case ct_users (stabs s) t of None \<Rightarrow> default_user | Some (name, pwd, st) \<Rightarrow> User t name pwd st)"
    from um_query_ok [OF i(2) fit(1), of "now 1" t] obtain bk2 where q: "um_query api (now 1) t bk1 = (Inr u, bk2)" "backend_ok bk2"
      "tabs bk2 = tabs bk1" by (auto simp: users u_def)
    have on: "us_id u \<noteq> - 1 \<and> us_state u = ''online'' \<longleftrightarrow> (\<exists>name pwd. ct_users (stabs s) t = Some (name, pwd, ''online''))"
      using assms(6) by (auto simp: u_def User_def default_user_def id_ok_def split: option.splits)
    let ?s = "s\<lparr>sv_backend := bk2, sv_rworld := (if \<exists>name pwd. ct_users (stabs s) t = Some (name, pwd, ''online'')
      then snd (publish (lib_redis L) t (enc j) (sv_redis s) (sv_rworld s)) else sv_rworld s)\<rparr>"
    have "onemessage L now conn js s = (Inr (), ?s)"
      using i(1) m assms(3-7) None q(1) dump
      by (auto simp: onemessage_def handler_steps lib_mysql Let_def j_def [symmetric] on)
    then show ?thesis using q(2,3) i(4) tb fit fresh None time unset
      by (intro exI [of _ ?s], intro exI [of _ m]) (simp add: j_def [symmetric] del: if_split)
  qed
qed

lemma clientColse_ok:
  assumes "backend_ok (sv_backend s)" and "set order = dom (sv_conns s)"
  shows "\<exists>s'. clientColse L now order conn s = (Inr (), s') \<and> backend_ok (sv_backend s') \<and> sv_out s' = sv_out s
    \<and> (case close_id order conn (sv_conns s) of
         Some i \<Rightarrow> sv_conns s i = Some conn \<and> sv_conns s' = (sv_conns s)(i := None) \<and> stabs s' = set_user_state i ''offline'' (stabs s)
           \<and> sv_redis s' = snd (unsubscribe i (sv_redis s))
       | None \<Rightarrow> conn \<notin> ran (sv_conns s) \<and> sv_conns s' = sv_conns s \<and> stabs s' = set_user_state 0 ''offline'' (stabs s) \<and> sv_redis s' = sv_redis s)"
proof (cases "close_id order conn (sv_conns s)")
  case None
  then have n: "conn \<notin> ran (sv_conns s)"
    using assms(2) by (auto simp: close_id_def find_None_iff ran_def)
  from updateStates_ok [OF assms(1), of "now 0" 0 "''offline''"] None n show ?thesis
    by (auto simp: clientColse_def handler_steps lib_mysql)
next
  case (Some i)
  then have n: "sv_conns s i = Some conn" by (auto simp: close_id_def find_Some_iff)
  from updateStates_ok [OF assms(1), of "now 0" i "''offline''"] Some n show ?thesis
    by (auto simp: clientColse_def handler_steps lib_mysql)
qed

end

subsection \<open>The server on the database in memory\<close>

definition ref_libs :: "(chat_data mem_world, string list list) chat_libs" where
  "ref_libs = \<lparr>lib_mysql = ref_api, lib_redis = log_api, lib_dump = ref_dump\<rparr>"

interpretation ref_env: chat_env ref_fetch ref_api "data_tables \<circ> mw_data" ref_libs json_text
  by unfold_locales (simp_all add: ref_libs_def ref_json.dump_utf8)

definition ref_service :: "chat_data \<Rightarrow> (int \<rightharpoonup> nat) \<Rightarrow> (chat_data mem_world, string list list) chat_service" where
  "ref_service t conns = \<lparr>sv_backend = ref_backend t, sv_redis = log_client, sv_rworld = [], sv_conns = conns, sv_out = []\<rparr>"

lemma ref_service_fields [simp]:
  "sv_backend (ref_service t cs) = ref_backend t" "sv_conns (ref_service t cs) = cs" "sv_out (ref_service t cs) = []"
  "sv_redis (ref_service t cs) = log_client" "sv_rworld (ref_service t cs) = []"
  by (simp_all add: ref_service_def)

lemma data_utf8:
  assumes "\<forall>(i, name, pwd, st) \<in> set (cd_users t). utf8 name"
    and "\<forall>m \<in> set (cd_messages t). utf8 (mr_content m) \<and> utf8 (mr_time m)"
  shows "tables_utf8 (data_tables t)"
  using assms unfolding tables_utf8_def by (auto dest!: map_of_SomeD)

lemma two_users_utf8 [simp]: "tables_utf8 (data_tables two_users)"
  by (rule data_utf8) code_simp+

subsection \<open>Properties\<close>

text \<open>
  C23. Login, on tables whose texts are UTF-8 and shorter than the buffers of 1024 bytes. With the right
  password of an account that is not logged in, the connection is recorded for the user, the channel of
  the user is subscribed, the account is marked as online, and the client gets the acknowledgement with
  the name and after it every unread message, each once. In all other cases nothing changes and the
  client gets one error reply, which tells a wrong account or password from an account that is already
  logged in.
\<close>

theorem login_correct:
  assumes "chat_env fetch api tables L enc" and "backend_ok (sv_backend s)" and "tables_fit (tables (bk_world (sv_backend s)))"
    and "tables_utf8 (tables (bk_world (sv_backend s)))"
    and "json_at js ''id'' = Inr (JInt i)" and "id_ok i" and "json_at js ''password'' = Inr (JStr pwd)"
  shows "\<exists>s'. login L now conn js s = (Inr (), s') \<and> backend_ok (sv_backend s') \<and>
    (if \<exists>name. ct_users (tables (bk_world (sv_backend s))) i = Some (name, pwd, ''offline'')
     then sv_conns s' = (sv_conns s)(i \<mapsto> conn) \<and> sv_redis s' = snd (subscribe i (sv_redis s))
       \<and> tables (bk_world (sv_backend s')) = set_user_state i ''online'' (tables (bk_world (sv_backend s)))
       \<and> (\<exists>name ms. ct_users (tables (bk_world (sv_backend s))) i = Some (name, pwd, ''offline'')
          \<and> mset ms = mset (map message_of (unread_for i (tables (bk_world (sv_backend s)))))
          \<and> sv_out s' = sv_out s @ (conn, enc (json_object [(''msgtype'', JInt 4), (''error'', JInt 0), (''name'', JStr name)]))
              # map (\<lambda>m. (conn, enc (offline_json i m))) ms)
     else sv_conns s' = sv_conns s \<and> sv_redis s' = sv_redis s
       \<and> tables (bk_world (sv_backend s')) = tables (bk_world (sv_backend s))
       \<and> sv_out s' = sv_out s @ [(conn, enc (login_error
           (if \<exists>name st. ct_users (tables (bk_world (sv_backend s))) i = Some (name, pwd, st)
            then already_online_text else bad_login_text)))])"
proof (cases "\<exists>name. ct_users (tables (bk_world (sv_backend s))) i = Some (name, pwd, ''offline'')")
  case True
  then obtain name where n: "ct_users (tables (bk_world (sv_backend s))) i = Some (name, pwd, ''offline'')" by blast
  from chat_env.login_accepts [OF assms(1) conjI [OF assms(2) conjI [OF assms(3,4)]] assms(5-7) n, of now conn] n show ?thesis by auto
next
  case False
  then have "\<forall>name. ct_users (tables (bk_world (sv_backend s))) i \<noteq> Some (name, pwd, ''offline'')" by blast
  from chat_env.login_rejects [OF assms(1) conjI [OF assms(2) conjI [OF assms(3,4)]] assms(5-7) this, of now conn] False show ?thesis by auto
qed

definition login_request :: "int \<Rightarrow> string \<Rightarrow> json" where
  "login_request i pwd = json_object [(''msgtype'', JInt 1), (''id'', JInt i), (''password'', JStr pwd)]"

theorem login_correct_witness:
  "\<exists>s'. login ref_libs (\<lambda>k. 0) 5 (login_request 1 ''x'') (ref_service two_users Map.empty) = (Inr (), s') \<and> sv_conns s' = [1 \<mapsto> 5]"
proof -
  have "map_of (cd_users two_users) 1 = Some (''ann'', ''x'', ''offline'')" by (simp add: two_users_def)
  with login_correct [OF ref_env.chat_env_axioms, of "ref_service two_users Map.empty" "login_request 1 ''x''" 1 "''x''" "\<lambda>k. 0" 5]
  show ?thesis by (auto simp: login_request_def id_ok_def)
qed

text \<open>
  C24. Delivery of a message, of less than 1024 bytes, on tables whose texts fit and are UTF-8. When the
  database accepts it, it is stored with its sender, receiver and text, unread, as the last message and
  under an id that no other message has. When the receiver has a connection to this server the request,
  with the id and the time of the stored message, is sent on that connection and nowhere else; when the
  receiver is online elsewhere, the same text is published on the channel of the receiver; otherwise
  nothing is sent. When the database refuses it nothing is stored, but the message is sent or published
  all the same, with the id 0 and an empty time.
\<close>

theorem message_routed:
  assumes "chat_env fetch api tables L enc" and "backend_ok (sv_backend s)" and "tables_fit (tables (bk_world (sv_backend s)))"
    and "tables_utf8 (tables (bk_world (sv_backend s)))"
    and "\<forall>m \<in> set (ct_messages (tables (bk_world (sv_backend s)))). 0 < mr_id m"
    and "json_at js ''fromid'' = Inr (JInt f)" and "id_ok f" and "json_at js ''toid'' = Inr (JInt t)" and "id_ok t"
    and "json_at js ''message'' = Inr (JStr body)" and "short_text body" and "json_utf8 js"
    and "insert_accepted api f t body (bk_world (sv_backend s)) accepted"
  shows "\<exists>s' i tm. onemessage L now conn js s = (Inr (), s')
    \<and> (let old = tables (bk_world (sv_backend s)); new = tables (bk_world (sv_backend s')) in
        if accepted
        then 0 < i \<and> i \<notin> mr_id ` set (ct_messages old) \<and> new = old\<lparr>ct_messages := ct_messages old @
          [\<lparr>mr_id = i, mr_from = f, mr_to = t, mr_content = body, mr_read = False, mr_time = tm\<rparr>]\<rparr>
        else i = 0 \<and> tm = [] \<and> new = old)
    \<and> (let reply = enc (json_set ''time'' (JStr tm) (json_set ''messageID'' (JInt i) js)) in
       case sv_conns s t of
         Some c \<Rightarrow> sv_out s' = sv_out s @ [(c, reply)] \<and> sv_rworld s' = sv_rworld s
       | None \<Rightarrow> sv_out s' = sv_out s \<and> sv_rworld s' =
           (if \<exists>name pwd. ct_users (tables (bk_world (sv_backend s))) t = Some (name, pwd, ''online'')
            then snd (publish (lib_redis L) t reply (sv_redis s) (sv_rworld s)) else sv_rworld s))"
proof -
  from chat_env.onemessage_ok [OF assms(1) conjI [OF assms(2) conjI [OF assms(3,4)]] assms(5-12), of now conn]
  obtain s' and m :: message where o: "onemessage L now conn js s = (Inr (), s')" "id_ok (ms_msgid m)"
    "ms_msgid m \<notin> mr_id ` set (ct_messages (tables (bk_world (sv_backend s))))" "ms_msgid m \<noteq> 0 \<longleftrightarrow> accepted"
    "ms_msgid m = 0 \<longrightarrow> ms_time m = []"
    "tables (bk_world (sv_backend s')) = (let old = tables (bk_world (sv_backend s)) in
        if ms_msgid m = 0 then old else old\<lparr>ct_messages := ct_messages old @
          [\<lparr>mr_id = ms_msgid m, mr_from = f, mr_to = t, mr_content = body, mr_read = False, mr_time = ms_time m\<rparr>]\<rparr>)"
    "let reply = enc (json_set ''time'' (JStr (ms_time m)) (json_set ''messageID'' (JInt (ms_msgid m)) js)) in
       case sv_conns s t of
         Some c \<Rightarrow> sv_out s' = sv_out s @ [(c, reply)] \<and> sv_rworld s' = sv_rworld s
       | None \<Rightarrow> sv_out s' = sv_out s \<and> sv_rworld s' =
           (if \<exists>name pwd. ct_users (tables (bk_world (sv_backend s))) t = Some (name, pwd, ''online'')
            then snd (publish (lib_redis L) t reply (sv_redis s) (sv_rworld s)) else sv_rworld s)"
    using assms(13) unfolding Let_def by blast
  then show ?thesis
    by (intro exI [of _ s'] exI [of _ "ms_msgid m"] exI [of _ "ms_time m"]) (auto simp: Let_def id_ok_def)
qed

definition message_request :: "int \<Rightarrow> int \<Rightarrow> string \<Rightarrow> json" where
  "message_request f t body = json_object [(''msgtype'', JInt 5), (''fromid'', JInt f), (''toid'', JInt t), (''message'', JStr body)]"

lemma message_request_utf8: "utf8 body \<Longrightarrow> json_utf8 (message_request f t body)"
  unfolding message_request_def by (intro json_utf8_object) simp

theorem message_routed_witness:
  "\<exists>s' i reply. onemessage ref_libs (\<lambda>k. 0) 5 (message_request 1 2 ''hi'') (ref_service two_users [2 \<mapsto> 9]) = (Inr (), s')
    \<and> sv_out s' = [(9, reply)] \<and> 0 < i \<and> map mr_id (cd_messages (mw_data (bk_world (sv_backend s')))) = [i]"
proof -
  have "\<forall>m \<in> set (ct_messages (data_tables two_users)). 0 < mr_id m" "ct_messages (data_tables two_users) = []"
    by (simp_all add: two_users_def)
  moreover have "insert_accepted ref_api 1 2 ''hi'' (bk_world (ref_backend two_users)) True"
  proof -
    have "fst (ref_run 0 sql_insert_message [TYPE_LONG 1, TYPE_LONG 2, TYPE_STRING ''hi''] two_users) \<noteq> None" by code_simp
    then show ?thesis by (simp add: insert_accepted_def mem_api_def Let_def case_prod_unfold)
  qed
  moreover have "json_utf8 (message_request 1 2 ''hi'')" by (rule message_request_utf8) code_simp
  ultimately obtain s' i tm where r: "onemessage ref_libs (\<lambda>k. 0) 5 (message_request 1 2 ''hi'') (ref_service two_users [2 \<mapsto> 9]) = (Inr (), s')"
    "0 < i" "data_tables (mw_data (bk_world (sv_backend s'))) = (data_tables two_users)\<lparr>ct_messages :=
      [\<lparr>mr_id = i, mr_from = 1, mr_to = 2, mr_content = ''hi'', mr_read = False, mr_time = tm\<rparr>]\<rparr>" "\<exists>reply. sv_out s' = [(9, reply)]"
    using message_routed [OF ref_env.chat_env_axioms, of "ref_service two_users [2 \<mapsto> 9]" "message_request 1 2 ''hi''" 1 2 "''hi''" True "\<lambda>k. 0" 5]
    by (auto simp: message_request_def id_ok_def Let_def short_text_def col_buffer_def NUL_def)
  have "map mr_id (cd_messages (mw_data (bk_world (sv_backend s')))) = [i]" using arg_cong [OF r(3), of ct_messages] by simp
  moreover obtain reply where "sv_out s' = [(9, reply)]" using r(4) by blast
  ultimately show ?thesis using r(1,2) by (intro exI [of _ s'] exI [of _ i] exI [of _ reply]) simp
qed

text \<open>
  C28. A message crosses servers unchanged. What \<open>publish\<close> hands to Redis on one server is, when Redis
  passes it on as a message of that channel, sent by the callback on the other server to the
  connection of the receiver, as exactly the text that was published.
\<close>

theorem published_message_arrives:
  assumes "id_ok t" and "NUL \<notin> set reply" and "rd_pub ca = Some h" and "sv_conns s t = Some conn"
    and "rd_sub (sv_redis s) = Some k" and "rd_callback (sv_redis s)" and "publish_args t reply = [cmd, ch, m]"
    and "ra_get_reply rb k (sv_rworld s) = (Some (Some (RArray [RText ''message'', RText ch, RText m])), r')"
  shows "publish ra t reply ca r = ra_command ra h [cmd, ch, m] r
    \<and> (\<exists>c'. sub_read rb (sv_redis s) (sv_rworld s) = (Inr (Some (t, reply), c'), r')
        \<and> redisHandler t reply (s\<lparr>sv_redis := c', sv_rworld := r'\<rparr>)
          = (Inr (), s\<lparr>sv_redis := c', sv_rworld := r', sv_out := sv_out s @ [(conn, reply)]\<rparr>))"
proof -
  have m: "ch = int_text t" "m = reply" using assms(2,7) by (simp_all add: publish_args_def)
  have "atoi (cstr (int_text t)) = t"
    using assms(1) short_int_text [OF assms(1)] by (simp add: atoi_int_text id_ok_def short_text_def)
  moreover have "cstr ''message'' = ''message''" by (simp add: NUL_def)
  ultimately have "sub_read rb (sv_redis s) (sv_rworld s) = (Inr (Some (t, reply), (sv_redis s)\<lparr>rd_thread := Some Head\<rparr>), r')"
    using assms(2,5,6) by (simp add: sub_read_def assms(8) m reply_message_def reply_str_def)
  then show ?thesis using assms(3,4,7) by (simp add: redisHandler_def send_def publish_def)
qed

theorem published_message_arrives_witness:
  "\<exists>c'. sub_read (log_api\<lparr>ra_get_reply := \<lambda>h r. (Some (Some (RArray [RText ''message'', RText ''2'', RText ''hi''])), r)\<rparr>)
       (setMsgCallback log_client) [] = (Inr (Some (2, ''hi''), c'), [])"
proof -
  have "publish_args 2 ''hi'' = [''PUBLISH'', ''2'', ''hi'']" "rd_pub log_client = Some 0" "rd_sub (setMsgCallback log_client) = Some 0"
    "rd_callback (setMsgCallback log_client)" by code_simp+
  with published_message_arrives [of 2 "''hi''" log_client 0 "(ref_service two_users [2 \<mapsto> 9])\<lparr>sv_redis := setMsgCallback log_client\<rparr>" 9 0
      "''PUBLISH''" "''2''" "''hi''" "log_api\<lparr>ra_get_reply := \<lambda>h r. (Some (Some (RArray [RText ''message'', RText ''2'', RText ''hi''])), r)\<rparr>" "[]" log_api "[]"]
  show ?thesis by (auto simp: id_ok_def NUL_def ref_service_def)
qed

text \<open>
  C38. A connection that breaks is logged out: when it belongs to one user, that user and no other loses
  the entry in the table of connections and becomes offline, and the channel is unsubscribed. A
  connection of which no user is known changes neither connections nor subscriptions.
\<close>

theorem disconnect_logs_out:
  assumes "chat_env fetch api tables L enc" and "backend_ok (sv_backend s)" and "set order = dom (sv_conns s)"
    and "\<forall>i j. sv_conns s i = Some conn \<and> sv_conns s j = Some conn \<longrightarrow> i = j"
  shows "\<exists>s'. clientColse L now order conn s = (Inr (), s') \<and> sv_out s' = sv_out s \<and> conn \<notin> ran (sv_conns s')
    \<and> (\<forall>i. sv_conns s i \<noteq> Some conn \<longrightarrow> sv_conns s' i = sv_conns s i)
    \<and> (\<forall>i. sv_conns s i = Some conn \<longrightarrow> sv_redis s' = snd (unsubscribe i (sv_redis s))
        \<and> tables (bk_world (sv_backend s')) = set_user_state i ''offline'' (tables (bk_world (sv_backend s))))
    \<and> (conn \<notin> ran (sv_conns s) \<longrightarrow> sv_conns s' = sv_conns s \<and> sv_redis s' = sv_redis s
        \<and> tables (bk_world (sv_backend s')) = set_user_state 0 ''offline'' (tables (bk_world (sv_backend s))))"
proof -
  from chat_env.clientColse_ok [OF assms(1-3), of now conn] obtain s' where c: "clientColse L now order conn s = (Inr (), s')"
    "sv_out s' = sv_out s" "case close_id order conn (sv_conns s) of
         Some i \<Rightarrow> sv_conns s i = Some conn \<and> sv_conns s' = (sv_conns s)(i := None)
           \<and> tables (bk_world (sv_backend s')) = set_user_state i ''offline'' (tables (bk_world (sv_backend s)))
           \<and> sv_redis s' = snd (unsubscribe i (sv_redis s))
       | None \<Rightarrow> conn \<notin> ran (sv_conns s) \<and> sv_conns s' = sv_conns s
           \<and> tables (bk_world (sv_backend s')) = set_user_state 0 ''offline'' (tables (bk_world (sv_backend s))) \<and> sv_redis s' = sv_redis s"
    by blast
  show ?thesis
  proof (cases "close_id order conn (sv_conns s)")
    case (Some i)
    with c(3) have i: "sv_conns s i = Some conn" "sv_conns s' = (sv_conns s)(i := None)" by auto
    then have "conn \<notin> ran (sv_conns s')" using assms(4) by (auto simp: ran_def)
    moreover have "conn \<in> ran (sv_conns s)" using i(1) by (rule ranI)
    moreover have "\<forall>j. sv_conns s j \<noteq> Some conn \<longrightarrow> sv_conns s' j = sv_conns s j" using i by simp
    moreover have "\<forall>j. sv_conns s j = Some conn \<longrightarrow> sv_redis s' = snd (unsubscribe j (sv_redis s))
        \<and> tables (bk_world (sv_backend s')) = set_user_state j ''offline'' (tables (bk_world (sv_backend s)))"
    proof (intro allI impI)
      fix j assume "sv_conns s j = Some conn"
      then have "j = i" using assms(4) i(1) by blast
      with c(3) Some show "sv_redis s' = snd (unsubscribe j (sv_redis s))
        \<and> tables (bk_world (sv_backend s')) = set_user_state j ''offline'' (tables (bk_world (sv_backend s)))" by simp
    qed
    ultimately show ?thesis using c(1,2) by blast
  next
    case None
    with c(3) have n: "conn \<notin> ran (sv_conns s)" "sv_conns s' = sv_conns s" "sv_redis s' = sv_redis s"
      "tables (bk_world (sv_backend s')) = set_user_state 0 ''offline'' (tables (bk_world (sv_backend s)))" by simp_all
    have "sv_conns s i \<noteq> Some conn" for i using n(1) by (metis ranI)
    with n c(1,2) show ?thesis by simp
  qed
qed

theorem disconnect_logs_out_witness:
  "\<exists>s'. clientColse ref_libs (\<lambda>k. 0) [2] 9 (ref_service two_users [2 \<mapsto> 9]) = (Inr (), s') \<and> 9 \<notin> ran (sv_conns s')"
proof -
  have "\<exists>s'. clientColse ref_libs (\<lambda>k. 0) [2] 9 (ref_service two_users [2 \<mapsto> 9]) = (Inr (), s')
    \<and> sv_out s' = sv_out (ref_service two_users [2 \<mapsto> 9]) \<and> 9 \<notin> ran (sv_conns s')
    \<and> (\<forall>i. sv_conns (ref_service two_users [2 \<mapsto> 9]) i \<noteq> Some 9 \<longrightarrow> sv_conns s' i = sv_conns (ref_service two_users [2 \<mapsto> 9]) i)
    \<and> (\<forall>i. sv_conns (ref_service two_users [2 \<mapsto> 9]) i = Some 9 \<longrightarrow>
        sv_redis s' = snd (unsubscribe i (sv_redis (ref_service two_users [2 \<mapsto> 9])))
        \<and> (data_tables \<circ> mw_data) (bk_world (sv_backend s'))
          = set_user_state i ''offline'' ((data_tables \<circ> mw_data) (bk_world (sv_backend (ref_service two_users [2 \<mapsto> 9])))))
    \<and> (9 \<notin> ran (sv_conns (ref_service two_users [2 \<mapsto> 9])) \<longrightarrow> sv_conns s' = sv_conns (ref_service two_users [2 \<mapsto> 9])
        \<and> sv_redis s' = sv_redis (ref_service two_users [2 \<mapsto> 9]) \<and> (data_tables \<circ> mw_data) (bk_world (sv_backend s'))
          = set_user_state 0 ''offline'' ((data_tables \<circ> mw_data) (bk_world (sv_backend (ref_service two_users [2 \<mapsto> 9])))))"
    by (rule disconnect_logs_out [OF ref_env.chat_env_axioms]) (simp_all split: if_splits)
  then show ?thesis by blast
qed

end
