(* ===== verification/Client_Props.thy ===== *)
theory Client_Props
  imports Chat_Client Service_Props
begin

text \<open>
  The stream of the client, and client and server together: however the network cuts the bytes, the
  client sees the same objects; a friend application that was made before makes the client fail; and
  a client that has logged out cannot log in again.
\<close>

subsection \<open>The stream\<close>

lemma scan_object_append:
  "scan_object i prev depth inStr s = Some e \<Longrightarrow> scan_object i prev depth inStr (s @ t) = Some e"
  by (induction i prev depth inStr s rule: scan_object.induct) (auto simp: Let_def split: if_splits)

lemma str_find_skip: "c \<notin> set pre \<Longrightarrow> str_find c (pre @ s) = map_option (\<lambda>k. length pre + k) (str_find c s)"
  by (induction pre) (auto simp: str_find_def takeWhile_append2)

text \<open>What follows the first brace, and how it is taken apart.\<close>

definition take_object ::
  "(string \<Rightarrow> chat_exn + json) \<Rightarrow> string \<Rightarrow> nat \<Rightarrow> chat_exn + json list \<times> string \<Rightarrow> chat_exn + json list \<times> string" where
  "take_object parse s e later = (case parse (take (Suc e) s) of
      Inl x \<Rightarrow> (if x = Json_error then later else Inl x)
    | Inr j \<Rightarrow> (case later of Inl x \<Rightarrow> Inl x | Inr (js, rest) \<Rightarrow> Inr (j # js, rest)))"

lemma extract_at:
  assumes "str_find (CHR ''{'') buffer = Some k" and "drop k buffer = s"
  shows "extractJsonObjects parse buffer =
    (case scan_object 0 None 0 False s of None \<Rightarrow> Inr ([], s)
     | Some e \<Rightarrow> take_object parse s e (extractJsonObjects parse (drop (Suc e) s)))"
proof -
  have "buffer \<noteq> []" using assms(1) by (auto simp: str_find_def)
  then show ?thesis
    unfolding extractJsonObjects.simps [of parse buffer] assms(1) option.case assms(2) take_object_def by simp
qed

lemma extract_none: "CHR ''{'' \<notin> set s \<Longrightarrow> extractJsonObjects parse s = Inr ([], [])"
  by (subst extractJsonObjects.simps) (simp add: str_find_def)

lemma extract_skip:
  assumes "CHR ''{'' \<notin> set pre"
  shows "extractJsonObjects parse (pre @ s) = extractJsonObjects parse s"
proof (cases "str_find (CHR ''{'') s")
  case None
  then have "CHR ''{'' \<notin> set s" by (simp add: str_find_None)
  with assms show ?thesis by (simp add: extract_none)
next
  case (Some k)
  with assms have "str_find (CHR ''{'') (pre @ s) = Some (length pre + k)" by (simp add: str_find_skip)
  from extract_at [OF this, of "drop k s" parse] extract_at [OF Some refl, of parse] show ?thesis by simp
qed

lemma extract_brace:
  "extractJsonObjects parse (CHR ''{'' # s) =
    (case scan_object 0 None 0 False (CHR ''{'' # s) of None \<Rightarrow> Inr ([], CHR ''{'' # s)
     | Some e \<Rightarrow> take_object parse (CHR ''{'' # s) e (extractJsonObjects parse (drop (Suc e) (CHR ''{'' # s))))"
  by (rule extract_at [where k = 0]) (simp_all add: str_find_def)

definition then_extract ::
  "(string \<Rightarrow> chat_exn + json) \<Rightarrow> chat_exn + json list \<times> string \<Rightarrow> string \<Rightarrow> chat_exn + json list \<times> string" where
  "then_extract parse r b = (case r of Inl x \<Rightarrow> Inl x
     | Inr (js, rest) \<Rightarrow> (case extractJsonObjects parse (rest @ b) of
         Inl x \<Rightarrow> Inl x | Inr (js', rest') \<Rightarrow> Inr (js @ js', rest')))"

lemma extract_append: "extractJsonObjects parse (a @ b) = then_extract parse (extractJsonObjects parse a) b"
proof (induction a rule: length_induct)
  case (1 a)
  show ?case
  proof (cases "CHR ''{'' \<in> set a")
    case False
    with extract_skip [OF False] extract_none [OF False] show ?thesis
      by (simp add: then_extract_def split: sum.splits prod.splits)
  next
    case True
    then obtain pre s' where a: "a = pre @ CHR ''{'' # s'" and pre: "CHR ''{'' \<notin> set pre" by (metis split_list_first)
    let ?s = "CHR ''{'' # s'"
    have l: "extractJsonObjects parse a = extractJsonObjects parse ?s"
      "extractJsonObjects parse (a @ b) = extractJsonObjects parse (?s @ b)"
      using extract_skip [OF pre] by (simp_all add: a)
    show ?thesis
    proof (cases "scan_object 0 None 0 False ?s")
      case None
      have "extractJsonObjects parse ?s = Inr ([], ?s)" unfolding extract_brace None by simp
      with l show ?thesis by (simp add: then_extract_def split: sum.splits prod.splits)
    next
      case (Some e)
      have e: "e < length ?s" using scan_object_bound [OF Some] by simp
      have sc: "scan_object 0 None 0 False (?s @ b) = Some e" using scan_object_append [OF Some] .
      have "length (drop (Suc e) ?s) < length a" by (simp add: a)
      then have ih: "extractJsonObjects parse (drop (Suc e) ?s @ b) = then_extract parse (extractJsonObjects parse (drop (Suc e) ?s)) b"
        using 1 by blast
      have "extractJsonObjects parse (?s @ b) = take_object parse ?s e (extractJsonObjects parse (drop (Suc e) ?s @ b))"
        using extract_brace [of parse "s' @ b"] sc e by (simp add: take_object_def)
      moreover have "extractJsonObjects parse ?s = take_object parse ?s e (extractJsonObjects parse (drop (Suc e) ?s))"
        unfolding extract_brace Some by simp
      ultimately show ?thesis unfolding l ih
        by (auto simp: take_object_def then_extract_def split: sum.splits prod.splits)
    qed
  qed
qed

lemma extract_rest: "extractJsonObjects parse a = Inr (js, rest) \<Longrightarrow> extractJsonObjects parse rest = Inr ([], rest)"
  using extract_append [of parse a "[]"] by (auto simp: then_extract_def split: sum.splits)

text \<open>The handling of an object does not look at the buffer, and it does not stop the thread.\<close>

definition keeps_buffer :: "('a, chat_client) action \<Rightarrow> bool" where
  "keeps_buffer m \<longleftrightarrow> (\<forall>c b. m (c\<lparr>cl_buffer := b\<rparr>) = (fst (m c), (snd (m c))\<lparr>cl_buffer := b\<rparr>) \<and> cl_running (snd (m c)) = cl_running c)"

lemma keeps_bind:
  assumes "keeps_buffer m" and "\<And>x. keeps_buffer (f x)"
  shows "keeps_buffer (act_bind m f)"
  unfolding keeps_buffer_def
proof (intro allI)
  fix c b
  obtain x c1 where m: "m c = (x, c1)" by force
  then have "m (c\<lparr>cl_buffer := b\<rparr>) = (x, c1\<lparr>cl_buffer := b\<rparr>)" "cl_running c1 = cl_running c"
    using assms(1) by (auto simp: keeps_buffer_def dest: spec [of _ c])
  with m assms(2) show "act_bind m f (c\<lparr>cl_buffer := b\<rparr>) = (fst (act_bind m f c), (snd (act_bind m f c))\<lparr>cl_buffer := b\<rparr>)
    \<and> cl_running (snd (act_bind m f c)) = cl_running c"
    by (cases x) (auto simp: act_bind_def keeps_buffer_def)
qed

lemma keeps_basic [simp]:
  "keeps_buffer (lift x)" "keeps_buffer (act_return y)" "keeps_buffer (Pair (Inr y))"
  by (simp_all add: keeps_buffer_def lift_def)

lemma keeps_say [simp]:
  "keeps_buffer (\<lambda>c. (Inr (), say l c))" "keeps_buffer (\<lambda>c. (Inr (), notify_main (say l c)))"
  "keeps_buffer (\<lambda>c. (Inr (), c\<lparr>cl_loggedIn := u\<rparr>))" "keeps_buffer (\<lambda>c. (Inr (), notify_main (say l (c\<lparr>cl_myName := n\<rparr>))))"
  by (simp_all add: keeps_buffer_def say_def notify_main_def)

lemma keeps_sendJson [simp]: "keeps_buffer (sendJson dump j)"
  by (auto simp: keeps_buffer_def sendJson_def say_def split: option.splits)

lemma keeps_on_object: "keeps_buffer (on_object dump j)"
  unfolding on_object_def on_ref_ack_def on_login_ack_def showMessage_def on_add_friend_ack_def on_addlist_def on_frilist_def
  by (simp add: keeps_bind)

lemma keeps_on_objects: "keeps_buffer (on_objects dump js)"
  by (induction js) (simp_all add: keeps_bind keeps_on_object)

lemma keepsD:
  "keeps_buffer m \<Longrightarrow> m (c\<lparr>cl_buffer := b\<rparr>) = (fst (m c), (snd (m c))\<lparr>cl_buffer := b\<rparr>)"
  "keeps_buffer m \<Longrightarrow> cl_running (snd (m c)) = cl_running c"
  unfolding keeps_buffer_def by auto

lemma on_objects_append:
  "on_objects dump (js @ js') = act_bind (on_objects dump js) (\<lambda>_. on_objects dump js')"
  by (induction js) (auto simp: act_bind_def fun_eq_iff split: prod.splits sum.splits)

lemma recvThread_chunks:
  assumes "\<forall>d \<in> set ds. NUL \<notin> set d" and "cl_running c" and "extractJsonObjects parse (cl_buffer c) = Inr ([], cl_buffer c)"
    and "extractJsonObjects parse (cl_buffer c @ concat ds) = Inr (js, rest)" and "on_objects dump js c = (Inr (), c')"
  shows "recvThread parse dump (map Some ds) c = (Inr (), c'\<lparr>cl_buffer := rest\<rparr>)"
  using assms
proof (induction ds arbitrary: c c' js)
  case Nil
  then show ?case by (cases c) auto
next
  case (Cons d ds)
  have "then_extract parse (extractJsonObjects parse (cl_buffer c @ d)) (concat ds) = Inr (js, rest)"
    using Cons.prems(4) extract_append [of parse "cl_buffer c @ d" "concat ds"] by simp
  then obtain js1 b js2 where e: "extractJsonObjects parse (cl_buffer c @ d) = Inr (js1, b)"
    "extractJsonObjects parse (b @ concat ds) = Inr (js2, rest)" "js = js1 @ js2"
    by (auto simp: then_extract_def split: sum.splits)
  from Cons.prems(5) e(3) obtain c1 where o: "on_objects dump js1 c = (Inr (), c1)" "on_objects dump js2 c1 = (Inr (), c')"
    by (auto simp: on_objects_append act_bind_def split: prod.splits sum.splits)
  have o1: "on_objects dump js1 (c\<lparr>cl_buffer := b\<rparr>) = (Inr (), c1\<lparr>cl_buffer := b\<rparr>)"
    using keepsD(1) [OF keeps_on_objects [of dump js1], where c = c and b = b] o(1) by simp
  have o2: "on_objects dump js2 (c1\<lparr>cl_buffer := b\<rparr>) = (Inr (), c'\<lparr>cl_buffer := b\<rparr>)"
    using keepsD(1) [OF keeps_on_objects [of dump js2], where c = c1 and b = b] o(2) by simp
  have run: "cl_running (c1\<lparr>cl_buffer := b\<rparr>)"
    using keepsD(2) [OF keeps_on_objects [of dump js1], of c] o(1) Cons.prems(2) by simp
  have "recv_round parse dump (Some d) c = (Inr (), c1\<lparr>cl_buffer := b\<rparr>)"
    using e(1) o1 Cons.prems(1) by (simp add: recv_round_def)
  moreover have "recvThread parse dump (map Some ds) (c1\<lparr>cl_buffer := b\<rparr>) = (Inr (), (c'\<lparr>cl_buffer := b\<rparr>)\<lparr>cl_buffer := rest\<rparr>)"
    using Cons.prems(1) run extract_rest [OF e(1)] e(2) o2 by (intro Cons.IH) simp_all
  ultimately show ?case using Cons.prems(2) by (simp add: act_bind_def)
qed

text \<open>
  The loop over the characters finds the end of an object of the grammar: strings, with the braces and
  the escaped quotes in them, are passed over, and so are nested objects.
\<close>

lemma scan_body:
  "string_body b \<Longrightarrow> scan_object i prev d True (b @ s)
    = scan_object (i + length b) (if b = [] then prev else Some (last b)) d True s"
proof (induction arbitrary: i prev rule: string_body.induct)
  case (body_plain c b)
  then show ?case by (simp add: quote_char_def)
next
  case (body_escape b c)
  then show ?case by (simp add: backslash_def)
qed simp

lemma scan_string:
  assumes "string_body b" and "ends_plain b" and "prev \<noteq> Some backslash" and "d \<noteq> 0"
  shows "scan_object i prev d False (quote_char # b @ quote_char # s)
    = scan_object (i + length b + 2) (Some quote_char) d False s"
proof -
  have "scan_object i prev d False (quote_char # b @ quote_char # s)
      = scan_object (Suc i) (Some quote_char) d True (b @ quote_char # s)"
    using assms(3) by (simp add: quote_char_def backslash_def)
  also have "\<dots> = scan_object (Suc i + length b) (if b = [] then Some quote_char else Some (last b)) d True (quote_char # s)"
    by (rule scan_body [OF assms(1)])
  also have "\<dots> = scan_object (i + length b + 2) (Some quote_char) d False s"
    using assms(2,4) by (auto simp: ends_plain_def quote_char_def backslash_def)
  finally show ?thesis .
qed

lemma scan_nested:
  "object_text t \<Longrightarrow> (\<forall>i prev d s. 0 \<le> d \<longrightarrow> (if d = 0 then scan_object i prev d False (t @ s) = Some (i + length t - 1)
     else scan_object i prev d False (t @ s) = scan_object (i + length t) (Some (CHR ''}'')) d False s))"
  "members_text m \<Longrightarrow> (\<forall>i prev d s. prev \<noteq> Some backslash \<longrightarrow> 0 < d \<longrightarrow>
     (\<exists>p. p \<noteq> Some backslash \<and> scan_object i prev d False (m @ s) = scan_object (i + length m) p d False s))"
proof (induction rule: object_text_members_text.inducts)
  case (braces m)
  show ?case
  proof (intro allI impI)
    fix i :: nat and prev and d :: int and s assume d: "0 \<le> d"
    have "scan_object i prev d False ((CHR ''{'' # m @ ''}'') @ s)
        = scan_object (Suc i) (Some (CHR ''{'')) (d + 1) False (m @ CHR ''}'' # s)" using d by simp
    also obtain p where "\<dots> = scan_object (Suc i + length m) p (d + 1) False (CHR ''}'' # s)"
      using braces.IH [rule_format, of "Some (CHR ''{'')" "d + 1" "Suc i" "CHR ''}'' # s"] d by (auto simp: backslash_def)
    finally show "if d = 0 then scan_object i prev d False ((CHR ''{'' # m @ ''}'') @ s) = Some (i + length (CHR ''{'' # m @ ''}'') - 1)
      else scan_object i prev d False ((CHR ''{'' # m @ ''}'') @ s)
        = scan_object (i + length (CHR ''{'' # m @ ''}'')) (Some (CHR ''}'')) d False s"
      using d by (auto simp: Let_def)
  qed
next
  case no_members
  then show ?case by auto
next
  case (other_char c m)
  show ?case
  proof (intro allI impI)
    fix i :: nat and prev and d :: int and s assume p: "prev \<noteq> Some backslash" "0 < d"
    have "scan_object i prev d False ((c # m) @ s) = scan_object (Suc i) (Some c) d False (m @ s)"
      using other_char.hyps(1) p(2) by (simp add: quote_char_def)
    moreover obtain q where "q \<noteq> Some backslash" "scan_object (Suc i) (Some c) d False (m @ s) = scan_object (Suc i + length m) q d False s"
      using other_char.IH [rule_format, of "Some c" d "Suc i" s] other_char.hyps(1) p(2) by auto
    ultimately show "\<exists>q. q \<noteq> Some backslash \<and> scan_object i prev d False ((c # m) @ s) = scan_object (i + length (c # m)) q d False s"
      by (intro exI [of _ q]) simp
  qed
next
  case (string_member b m)
  show ?case
  proof (intro allI impI)
    fix i :: nat and prev and d :: int and s assume p: "prev \<noteq> Some backslash" "0 < d"
    obtain q where "q \<noteq> Some backslash"
      "scan_object (i + length b + 2) (Some quote_char) d False (m @ s) = scan_object (i + length b + 2 + length m) q d False s"
      using string_member.IH [rule_format, of "Some quote_char" d "i + length b + 2" s] p(2) by (auto simp: quote_char_def backslash_def)
    with scan_string [OF string_member.hyps(1,2) p(1), of d i "m @ s"] p(2)
    show "\<exists>q. q \<noteq> Some backslash \<and> scan_object i prev d False ((quote_char # b @ quote_char # m) @ s)
        = scan_object (i + length (quote_char # b @ quote_char # m)) q d False s"
      by (intro exI [of _ q]) (simp add: add.assoc)
  qed
next
  case (object_member t m)
  show ?case
  proof (intro allI impI)
    fix i :: nat and prev and d :: int and s assume p: "prev \<noteq> Some backslash" "0 < d"
    have "scan_object i prev d False (t @ m @ s) = scan_object (i + length t) (Some (CHR ''}'')) d False (m @ s)"
      using object_member.IH(1) [rule_format, of d i prev "m @ s"] p(2) by simp
    moreover obtain q where "q \<noteq> Some backslash"
      "scan_object (i + length t) (Some (CHR ''}'')) d False (m @ s) = scan_object (i + length t + length m) q d False s"
      using object_member.IH(2) [rule_format, of "Some (CHR ''}'')" d "i + length t" s] p(2) by (auto simp: backslash_def)
    ultimately show "\<exists>q. q \<noteq> Some backslash \<and> scan_object i prev d False ((t @ m) @ s) = scan_object (i + length (t @ m)) q d False s"
      by (intro exI [of _ q]) (simp add: add.assoc)
  qed
qed

lemma object_text_braces: "object_text t \<Longrightarrow> \<exists>m. t = CHR ''{'' # m @ ''}''"
  by (cases rule: object_text.cases) auto

lemma extract_object:
  assumes "object_text t" and "parse t = Inr j"
  shows "extractJsonObjects parse t = Inr ([j], [])"
proof -
  obtain m where t: "t = CHR ''{'' # m @ ''}''" using object_text_braces [OF assms(1)] by blast
  have "scan_object 0 None 0 False t = Some (length t - 1)"
    using scan_nested(1) [OF assms(1), rule_format, of 0 0 None "[]"] by simp
  then have sc: "scan_object 0 None 0 False (CHR ''{'' # m @ ''}'') = Some (Suc (length m))" by (simp add: t)
  show ?thesis unfolding t extract_brace sc using assms(2) by (simp add: take_object_def t extract_none)
qed

lemma extract_stream: "list_all2 (\<lambda>t j. object_text t \<and> parse t = Inr j) ts js \<Longrightarrow> extractJsonObjects parse (concat ts) = Inr (js, [])"
proof (induction rule: list_all2_induct)
  case (Cons t ts j js)
  with extract_append [of parse t "concat ts"] extract_object [of t parse j] show ?case by (simp add: then_extract_def)
qed (simp add: extract_none)

text \<open>
  C32. However the network cuts the stream, the client handles the same objects in the same order: when
  the bytes that arrive are the texts of some objects one after the other, in pieces of any size, the
  receiving thread ends in the state that handling these objects one by one leads to, and its buffer
  is empty again. The texts are objects by the grammar of JSON, with nested objects and with braces and
  escaped quotes in strings, in which no string ends in a backslash and which have no zero byte.
\<close>

theorem client_reads_stream:
  assumes "list_all2 (\<lambda>t j. object_text t \<and> parse t = Inr j) ts js" and "concat ds = concat ts"
    and "\<forall>d \<in> set ds. NUL \<notin> set d" and "cl_running c" and "cl_buffer c = []" and "on_objects dump js c = (Inr (), c')"
  shows "recvThread parse dump (map Some ds) c = (Inr (), c') \<and> cl_buffer c' = []"
proof -
  have "recvThread parse dump (map Some ds) c = (Inr (), c'\<lparr>cl_buffer := []\<rparr>)"
    using assms extract_stream [OF assms(1)] by (intro recvThread_chunks) (simp_all add: extract_none)
  moreover have "c\<lparr>cl_buffer := []\<rparr> = c" using assms(5) by (cases c) simp
  then have e: "c' = c'\<lparr>cl_buffer := []\<rparr>"
    using keepsD(1) [OF keeps_on_objects [of dump js], where c = c and b = "[]"] assms(6) by simp
  moreover have "cl_buffer c' = []" by (subst e) simp
  ultimately show ?thesis by simp
qed

text \<open>A parser for the texts of given values.\<close>

definition parse_of :: "json list \<Rightarrow> string \<Rightarrow> chat_exn + json" where
  "parse_of js t = (case List.find (\<lambda>j. json_text j = t) js of None \<Rightarrow> Inl Json_error | Some j \<Rightarrow> Inr j)"

definition sample_ack :: json where
  "sample_ack = json_object [(''msgtype'', JInt 4), (''error'', JInt 0), (''name'', JStr ''a}b'')]"

lemma sample_ack_object: "object_text (json_text sample_ack)"
proof -
  have "json_plain_ends sample_ack" "\<exists>kvs. sample_ack = JObj kvs"
    by code_simp (simp add: sample_ack_def json_object_obj)
  then show ?thesis using json_text_object by metis
qed

theorem client_reads_stream_witness:
  "let t = json_text sample_ack in
   fst (recvThread (parse_of [sample_ack]) (\<lambda>j. None) [Some (take 7 t), Some (drop 7 t)] client_start) = Inr ()"
proof -
  let ?t = "json_text sample_ack"
  let ?c = "snd (on_objects (\<lambda>j. None) [sample_ack] client_start)"
  have "parse_of [sample_ack] ?t = Inr sample_ack" by code_simp
  moreover have "NUL \<notin> set ?t" by (rule json_text_no_NUL)
  moreover have "fst (on_objects (\<lambda>j. None) [sample_ack] client_start) = Inr ()" by code_simp
  then have "on_objects (\<lambda>j. None) [sample_ack] client_start = (Inr (), ?c)" by (metis prod.collapse)
  moreover have "\<forall>d \<in> set [take 7 ?t, drop 7 ?t]. NUL \<notin> set d"
    using json_text_no_NUL [of sample_ack] by (auto dest: in_set_takeD in_set_dropD)
  ultimately have "recvThread (parse_of [sample_ack]) (\<lambda>j. None) (map Some [take 7 ?t, drop 7 ?t]) client_start = (Inr (), ?c) \<and> cl_buffer ?c = []"
    by (intro client_reads_stream [where ts = "[?t]" and js = "[sample_ack]"]) (simp_all add: client_start_def sample_ack_object)
  then show ?thesis by (simp add: Let_def)
qed

subsection \<open>Client and server\<close>

lemma friend_error_text:
  assumes "json_texts dump enc"
  shows "object_text (enc friend_error)" and "NUL \<notin> set (enc friend_error)"
proof -
  have "json_plain_ends friend_error" "\<exists>kvs. friend_error = JObj kvs"
    by code_simp (simp add: friend_error_def json_object_obj)
  then show "object_text (enc friend_error)" using json_texts.enc_object [OF assms] json_utf8_replies(2) by metis
  show "NUL \<notin> set (enc friend_error)" by (rule json_texts.enc_no_NUL [OF assms]) simp
qed

text \<open>
  Applying twice for the same friend ends the client. The server answers the second application
  with an error reply, whose code it stores under \<open>msgid\<close>; the receiving thread of the client reads
  \<open>msgtype\<close>, which is not there, and the exception leaves the thread.
\<close>

theorem second_application_ends_client:
  assumes "chat_env fetch api tables L enc" and "backend_ok (sv_backend s)"
    and "ct_friends (tables (bk_world (sv_backend s))) (u, f) \<noteq> None"
    and "json_at js ''user_id'' = Inr (JInt u)" and "json_at js ''friend_id'' = Inr (JInt f)" and "id_ok u" and "id_ok f"
    and "parse (enc friend_error) = Inr friend_error" and "json_texts (lib_dump L) enc"
    and "cl_running c" and "cl_buffer c = []"
  shows "\<exists>s' t. addfriend L now conn js s = (Inr (), s') \<and> sv_out s' = sv_out s @ [(conn, t)]
    \<and> fst (recvThread parse dump [Some t] c) = Inl Json_error"
proof -
  from chat_database.applyFriend_ok [OF chat_env.axioms(1) [OF assms(1)] assms(2), of "now 0" u f] assms(3)
  obtain bk where a: "applyFriend api (now 0) u f (sv_backend s) = (Inr False, bk)" by (auto split: option.splits)
  have "lib_mysql L = api" by (rule chat_env.lib_mysql [OF assms(1)])
  moreover have "lib_dump L friend_error = Some (enc friend_error)"
    using json_texts.axioms(1) [OF assms(9)] by (rule json_printer.dump_utf8) simp
  ultimately have "addfriend L now conn js s = (Inr (), s\<lparr>sv_backend := bk, sv_out := sv_out s @ [(conn, enc friend_error)]\<rparr>)"
    using assms(4-7) by (simp add: addfriend_def get_step send_json_step backend_step [of "applyFriend api (now 0) u f", OF a])
  moreover have "extractJsonObjects parse (enc friend_error) = Inr ([friend_error], [])"
    using assms(8) friend_error_text(1) [OF assms(9)] by (intro extract_object)
  then have "fst (recvThread parse dump [Some (enc friend_error)] c) = Inl Json_error"
    using assms(10,11) friend_error_text(2) [OF assms(9)] by (simp add: recv_round_def act_bind_def on_object_def lift_def friend_error_def)
  ultimately show ?thesis by (intro exI conjI) auto
qed

text \<open>
  Logging out of the client does not log out of the server. After the command to log out nothing has
  been sent; when the user logs in again over the same connection, with the right password, the
  server refuses because the account is still online, and the client stays logged out.
\<close>

theorem logout_locks_out:
  assumes "chat_env fetch api tables L enc" and "backend_ok (sv_backend s)" and "tables_fit (tables (bk_world (sv_backend s)))"
    and "tables_utf8 (tables (bk_world (sv_backend s)))"
    and "ct_users (tables (bk_world (sv_backend s))) i = Some (name, pwd, ''online'')" and "id_ok i" and "utf8 pwd"
    and "cl_loggedIn c" and "cl_sock c"
  shows "\<exists>c1 c2 c3 s'. main_round (lib_dump L) [''7'', ''1'', int_text i, pwd] c = (Inr (Some [''1'', int_text i, pwd]), c1)
    \<and> cl_sent c1 = cl_sent c
    \<and> main_round (lib_dump L) [''1'', int_text i, pwd] c1 = (Inr (Some []), c2)
    \<and> cl_sent c2 = cl_sent c @ [enc (login_request i pwd)]
    \<and> login L now conn (login_request i pwd) s = (Inr (), s') \<and> sv_out s' = sv_out s @ [(conn, enc (login_error already_online_text))]
    \<and> on_object (lib_dump L) (login_error already_online_text) c2 = (Inr (), c3) \<and> \<not> cl_loggedIn c3"
proof -
  let ?d = "lib_dump L" and ?s = "json_at (login_request i pwd)"
  have "\<forall>name. ct_users (tables (bk_world (sv_backend s))) i \<noteq> Some (name, pwd, ''offline'')" using assms(5) by simp
  from chat_env.login_rejects [OF assms(1) conjI [OF assms(2) conjI [OF assms(3,4)]] _ assms(6) _ this, of "login_request i pwd" now conn] assms(5)
  obtain s' where s': "login L now conn (login_request i pwd) s = (Inr (), s')"
    "sv_out s' = sv_out s @ [(conn, enc (login_error already_online_text))]" by (auto simp: login_request_def)
  have "json_utf8 (login_request i pwd)" unfolding login_request_def using assms(7) by (intro json_utf8_object) simp
  from chat_env.axioms(2) [OF assms(1)] this have dump: "?d (login_request i pwd) = Some (enc (login_request i pwd))"
    by (rule json_printer.dump_utf8)
  define c1 where "c1 = say (Said ''logged out'') ((showMainMenu c)\<lparr>cl_loggedIn := False, cl_myId := - 1, cl_myName := []\<rparr>)"
  have 1: "main_round ?d [''7'', ''1'', int_text i, pwd] c = (Inr (Some [''1'', int_text i, pwd]), c1)"
    using assms(8) by (simp add: main_round_def cmd_logout_def act_bind_def c1_def showMainMenu_def say_def)
  define c2 where "c2 = wait_begin ((showPreLoginMenu c1)\<lparr>cl_myId := i, cl_sent := cl_sent c1 @ [enc (login_request i pwd)]\<rparr>)"
  have "\<not> cl_loggedIn c1" "cl_sock c1" "cl_sent c1 = cl_sent c" using assms(9) by (simp_all add: c1_def say_def showMainMenu_def)
  then have 2: "main_round ?d [''1'', int_text i, pwd] c1 = (Inr (Some []), c2)"
    using stoi_id [OF assms(6)] dump
    by (simp add: main_round_def cmd_login_def next_line_def stoi_exn_def act_bind_def lift_def sendJson_def c2_def
        login_request_def [symmetric] showPreLoginMenu_def say_def Let_def)
  have "\<exists>c3. on_object ?d (login_error already_online_text) c2 = (Inr (), c3) \<and> cl_loggedIn c3 = cl_loggedIn c2"
    by (simp add: on_object_def on_login_ack_def act_bind_def lift_def login_error_def json_is_zero_def json_at_def
        json_value_string_def json_object_obj notify_main_def say_def)
  with 1 2 s' \<open>\<not> cl_loggedIn c1\<close> \<open>cl_sent c1 = cl_sent c\<close> show ?thesis
    by (auto simp: c2_def wait_begin_def showPreLoginMenu_def say_def)
qed

definition applied_data :: chat_data where
  "applied_data = two_users\<lparr>cd_friends := [((1, 2), False, [], ref_time)]\<rparr>"

definition friend_request :: json where
  "friend_request = json_object [(''msgtype'', JInt 7), (''user_id'', JInt 1), (''friend_id'', JInt 2)]"

theorem second_application_ends_client_witness:
  "\<exists>s' t. addfriend ref_libs (\<lambda>k. 0) 5 friend_request (ref_service applied_data [1 \<mapsto> 5]) = (Inr (), s') \<and> sv_out s' = [(5, t)]
    \<and> fst (recvThread (parse_of [friend_error]) (\<lambda>j. None) [Some t] client_start) = Inl Json_error"
proof -
  have "parse_of [friend_error] (json_text friend_error) = Inr friend_error" "lib_dump ref_libs = ref_dump"
    by code_simp (simp add: ref_libs_def)
  then have "\<exists>s' t. addfriend ref_libs (\<lambda>k. 0) 5 friend_request (ref_service applied_data [1 \<mapsto> 5]) = (Inr (), s')
    \<and> sv_out s' = sv_out (ref_service applied_data [1 \<mapsto> 5]) @ [(5, t)]
    \<and> fst (recvThread (parse_of [friend_error]) (\<lambda>j. None) [Some t] client_start) = Inl Json_error"
    by (intro second_application_ends_client [OF ref_env.chat_env_axioms, where u = 1 and f = 2])
      (simp_all add: friend_request_def applied_data_def id_ok_def client_start_def ref_json.json_texts_axioms)
  then show ?thesis by (simp del: recvThread.simps)
qed

definition online_data :: chat_data where
  "online_data = \<lparr>cd_users = [(1, ''ann'', ''x'', ''online'')], cd_messages = [], cd_friends = []\<rparr>"

theorem logout_locks_out_witness:
  "\<exists>s'. login ref_libs (\<lambda>k. 0) 5 (login_request 1 ''x'') (ref_service online_data [1 \<mapsto> 5]) = (Inr (), s')
    \<and> sv_out s' = [(5, json_text (login_error already_online_text))]"
proof -
  have "tables_fit (data_tables online_data)" by (rule data_fit) code_simp+
  moreover have "tables_utf8 (data_tables online_data)" by (rule data_utf8) code_simp+
  moreover have "utf8 ''x''" by code_simp
  moreover have "map_of (cd_users online_data) 1 = Some (''ann'', ''x'', ''online'')" by (simp add: online_data_def)
  ultimately show ?thesis
    using logout_locks_out [OF ref_env.chat_env_axioms, of "ref_service online_data [1 \<mapsto> 5]" 1 "''ann''" "''x''"
        "client_start\<lparr>cl_loggedIn := True\<rparr>" "\<lambda>k. 0" 5]
    by (auto simp: id_ok_def client_start_def)
qed

text \<open>
  A text that ends in a backslash, as in the member \<open>message\<close> of this object, hides the end of the object:
  the quote that closes the string is taken for an escaped one.
\<close>

lemma extract_stalls:
  "scan_object 0 None 0 False (CHR ''{'' # s) = None \<Longrightarrow> extractJsonObjects parse (CHR ''{'' # s) = Inr ([], CHR ''{'' # s)"
  by (simp only: extract_brace option.case)

lemma trailing_backslash_stalls:
  "let t = json_text (json_object [(''message'', JStr [backslash])]) in extractJsonObjects parse t = Inr ([], t)"
proof -
  let ?t = "json_text (json_object [(''message'', JStr [backslash])])"
  have t: "?t = CHR ''{'' # tl ?t" and "scan_object 0 None 0 False (CHR ''{'' # tl ?t) = None" by code_simp+
  from extract_stalls [OF this(2), of parse] show ?thesis unfolding t [symmetric] Let_def .
qed

end
