(* ===== verification/Thread_Pool.thy ===== *)
theory Thread_Pool
  imports Prelude
begin

text \<open>
  The thread pool of the chat server, \<open>threadpool.h\<close>. Every section that runs under \<open>taskQueMtx_\<close> is one
  step, and so is every access outside it. A thread is represented by where it stands in
  \<open>threadfunc\<close>; the entry of \<open>threads_\<close> and the thread it stands for begin and end together. The choices of
  the scheduler and of the condition variables are arguments: which sleeping thread \<open>notify_one\<close>
  wakes, and whether a thread has been idle for more than \<open>MAX_TIME\<close> seconds.
\<close>

subsection \<open>State\<close>

datatype pool_mode = FIXED | CACHE

text \<open>
  \<open>Ready\<close>: about to take the mutex and test the queue; \<open>Sleeping\<close>: blocked on \<open>notEmpty_\<close>; \<open>TimedOut\<close>: its
  \<open>wait_for\<close> has timed out and it is about to take the mutex again; \<open>Running t\<close>: executing \<open>t\<close>.
\<close>

datatype 't worker = Ready | Sleeping | TimedOut | Running 't

text \<open>
  How far the destructor is: not called, flag cleared, sleepers notified and waiting for the threads,
  returned. While it waits, \<open>tp_over\<close> says that it is about to test \<open>threads_.size() == 0\<close>: at the beginning,
  and whenever \<open>over_\<close> has been notified; otherwise it sleeps.
\<close>

datatype closing = Alive | Stopping | Draining | Destroyed

record 't thread_pool =
  tp_threads :: "int \<rightharpoonup> 't worker"
  tp_intThreadSize :: int
  tp_freeThreadSize :: int
  tp_nowThreadSize :: int
  tp_maxThreadSize :: int
  tp_taskQue :: "'t list"
  tp_taskSize :: int
  tp_taskMaxSize :: int
  tp_mode :: pool_mode
  tp_isStart :: bool
  tp_upThreadId :: int
  tp_closing :: closing
  tp_over :: bool

definition ThreadPool :: "int \<Rightarrow> 't thread_pool" where
  "ThreadPool upThreadId = \<lparr>tp_threads = Map.empty, tp_intThreadSize = 4, tp_freeThreadSize = 0,
     tp_nowThreadSize = 0, tp_maxThreadSize = 100, tp_taskQue = [], tp_taskSize = 0, tp_taskMaxSize = 5,
     tp_mode = FIXED, tp_isStart = False, tp_upThreadId = upThreadId, tp_closing = Alive, tp_over = False\<rparr>"

subsection \<open>Configuration\<close>

definition setMode :: "pool_mode \<Rightarrow> 't thread_pool \<Rightarrow> 't thread_pool" where
  "setMode m p = (if tp_isStart p then p else p\<lparr>tp_mode := m\<rparr>)"

definition setintThreadSize :: "int \<Rightarrow> 't thread_pool \<Rightarrow> 't thread_pool" where
  "setintThreadSize n p = (if tp_isStart p then p else p\<lparr>tp_intThreadSize := n\<rparr>)"

definition settaskMaxSize :: "int \<Rightarrow> 't thread_pool \<Rightarrow> 't thread_pool" where
  "settaskMaxSize n p = (if tp_isStart p then p else p\<lparr>tp_taskMaxSize := n\<rparr>)"

definition setmaxThreadSize :: "int \<Rightarrow> 't thread_pool \<Rightarrow> 't thread_pool" where
  "setmaxThreadSize n p =
     (if tp_isStart p then p else if tp_mode p = CACHE then p\<lparr>tp_maxThreadSize := n\<rparr> else p)"

subsection \<open>Condition variables\<close>

text \<open>\<open>notEmpty_.notify_one()\<close> wakes the sleeping thread \<open>w\<close>; with none sleeping it does nothing.\<close>

definition notify_ok :: "int option \<Rightarrow> 't thread_pool \<Rightarrow> bool" where
  "notify_ok w p \<longleftrightarrow> (case w of Some i \<Rightarrow> tp_threads p i = Some Sleeping
     | None \<Rightarrow> \<forall>i. tp_threads p i \<noteq> Some Sleeping)"

definition notify_one :: "int option \<Rightarrow> 't thread_pool \<Rightarrow> 't thread_pool" where
  "notify_one w p = (case w of Some i \<Rightarrow> p\<lparr>tp_threads := (tp_threads p)(i \<mapsto> Ready)\<rparr> | None \<Rightarrow> p)"

fun wake :: "'t worker \<Rightarrow> 't worker" where
  "wake Sleeping = Ready"
| "wake w = w"

definition notify_all :: "'t thread_pool \<Rightarrow> 't thread_pool" where
  "notify_all p = p\<lparr>tp_threads := map_option wake \<circ> tp_threads p\<rparr>"

subsection \<open>Operations\<close>

text \<open>The constructor of \<open>Thread\<close> draws its id from a counter that all pools of the process share.\<close>

definition new_thread :: "'t thread_pool \<Rightarrow> int \<times> 't thread_pool" where
  "new_thread p = (let i = tp_upThreadId p in
     (i, p\<lparr>tp_upThreadId := i + 1, tp_threads := (tp_threads p)(i \<mapsto> Ready)\<rparr>))"

text \<open>The first loop of \<open>start\<close>; its second loop starts the threads \<open>threads_[0]\<close> to \<open>threads_[n-1]\<close>.\<close>

fun create_threads :: "nat \<Rightarrow> 't thread_pool \<Rightarrow> 't thread_pool" where
  "create_threads 0 p = p"
| "create_threads (Suc k) p = create_threads k (snd (new_thread p))"

text \<open>
  \<open>start\<close>. \<open>threads_[i]\<close> on an id that is not in the map inserts a null pointer, which the call
  dereferences: that is \<open>None\<close>.
\<close>

definition pool_start :: "int \<Rightarrow> 't thread_pool \<Rightarrow> 't thread_pool option" where
  "pool_start n p =
     (let p = p\<lparr>tp_isStart := True, tp_intThreadSize := n, tp_nowThreadSize := n\<rparr>;
          p = create_threads (nat n) p
      in if \<forall>i \<in> set [0..n - 1]. tp_threads p i \<noteq> None
         then Some (p\<lparr>tp_freeThreadSize := tp_freeThreadSize p + int (nat n)\<rparr>)
         else None)"

text \<open>
  \<open>submitTask\<close> from the moment its wait on \<open>notFull_\<close> is over: the predicate holds, or the second has
  passed and the task is refused. The comparison of \<open>taskQue_.size()\<close> with \<open>freeThreadSize_\<close> is one of
  unsigned 64-bit numbers.
\<close>

definition to_size_t :: "int \<Rightarrow> uint64" where
  "to_size_t i = word_of_int i"

definition pool_grows :: "'t thread_pool \<Rightarrow> bool" where
  "pool_grows p \<longleftrightarrow> tp_mode p = CACHE
     \<and> word_of_nat (length (tp_taskQue p)) > to_size_t (tp_freeThreadSize p)
     \<and> tp_nowThreadSize p < tp_maxThreadSize p"

definition submitTask :: "'t \<Rightarrow> int option \<Rightarrow> 't thread_pool \<Rightarrow> bool \<times> 't thread_pool" where
  "submitTask t w p =
     (if \<not> tp_taskSize p < tp_taskMaxSize p then (False, p)
      else let p = p\<lparr>tp_taskQue := tp_taskQue p @ [t], tp_taskSize := tp_taskSize p + 1\<rparr>;
               p = notify_one w p;
               p = (if pool_grows p
                    then (snd (new_thread p))\<lparr>tp_nowThreadSize := tp_nowThreadSize p + 1,
                           tp_freeThreadSize := tp_freeThreadSize p + 1\<rparr>
                    else p)
           in (True, p))"

text \<open>
  The sections of \<open>threadfunc\<close>. \<open>worker_take\<close>: the thread has the mutex and tests the queue; it ends when
  the pool is stopped, goes to sleep, or takes the first task.
\<close>

definition worker_take :: "int \<Rightarrow> int option \<Rightarrow> 't thread_pool \<Rightarrow> 't thread_pool" where
  "worker_take i w p =
     (if tp_taskSize p = 0 then
        if \<not> tp_isStart p then p\<lparr>tp_threads := (tp_threads p)(i := None), tp_over := True\<rparr>
        else p\<lparr>tp_threads := (tp_threads p)(i \<mapsto> Sleeping)\<rparr>
      else let p = p\<lparr>tp_freeThreadSize := tp_freeThreadSize p - 1,
                      tp_threads := (tp_threads p)(i \<mapsto> Running (hd (tp_taskQue p))),
                      tp_taskQue := tl (tp_taskQue p), tp_taskSize := tp_taskSize p - 1\<rparr>
           in if tp_taskSize p > 0 then notify_one w p else p)"

text \<open>
  \<open>worker_expire\<close>: after a timeout, with the mutex; \<open>idle\<close> says that \<open>cur.count() > MAX_TIME\<close>. A thread that
  ends here does not notify \<open>over_\<close>.
\<close>

definition worker_expire :: "int \<Rightarrow> bool \<Rightarrow> 't thread_pool \<Rightarrow> 't thread_pool" where
  "worker_expire i idle p =
     (if idle \<and> tp_nowThreadSize p > tp_intThreadSize p
      then p\<lparr>tp_threads := (tp_threads p)(i := None), tp_nowThreadSize := tp_nowThreadSize p - 1,
              tp_freeThreadSize := tp_freeThreadSize p - 1\<rparr>
      else p\<lparr>tp_threads := (tp_threads p)(i \<mapsto> Ready)\<rparr>)"

definition worker_finish :: "int \<Rightarrow> 't thread_pool \<Rightarrow> 't thread_pool" where
  "worker_finish i p = p\<lparr>tp_threads := (tp_threads p)(i \<mapsto> Ready),
     tp_freeThreadSize := tp_freeThreadSize p + 1\<rparr>"

text \<open>The destructor: the flag, the notification, and the test of its wait for \<open>threads_.size() == 0\<close>.\<close>

definition pool_stop :: "'t thread_pool \<Rightarrow> 't thread_pool" where
  "pool_stop p = p\<lparr>tp_isStart := False, tp_closing := Stopping\<rparr>"

definition pool_drain :: "'t thread_pool \<Rightarrow> 't thread_pool" where
  "pool_drain p = (notify_all p)\<lparr>tp_closing := Draining, tp_over := True\<rparr>"

definition pool_check :: "'t thread_pool \<Rightarrow> 't thread_pool" where
  "pool_check p = (if \<forall>i. tp_threads p i = None then p\<lparr>tp_over := False, tp_closing := Destroyed\<rparr> else p\<lparr>tp_over := False\<rparr>)"

subsection \<open>Executions\<close>

text \<open>
  The steps of the threads, labelled with the tasks they start and finish, and those of the rest of
  the program. A condition variable may also wake a thread without notification.
\<close>

datatype 't pool_event = Accept 't | Refuse 't | Begin 't | End 't | Tau

inductive worker_step :: "'t thread_pool \<Rightarrow> 't pool_event \<Rightarrow> 't thread_pool \<Rightarrow> bool" where
  take: "tp_threads p i = Some Ready \<Longrightarrow> tp_taskSize p > 0 \<Longrightarrow>
    notify_ok w (p\<lparr>tp_threads := (tp_threads p)(i \<mapsto> Running (hd (tp_taskQue p)))\<rparr>) \<Longrightarrow>
    worker_step p (Begin (hd (tp_taskQue p))) (worker_take i w p)"
| idle: "tp_threads p i = Some Ready \<Longrightarrow> \<not> tp_taskSize p > 0 \<Longrightarrow> worker_step p Tau (worker_take i None p)"
| expire: "tp_threads p i = Some TimedOut \<Longrightarrow> worker_step p Tau (worker_expire i idle p)"
| finish: "tp_threads p i = Some (Running t) \<Longrightarrow> worker_step p (End t) (worker_finish i p)"
| timeout: "tp_threads p i = Some Sleeping \<Longrightarrow> tp_mode p = CACHE \<Longrightarrow>
    worker_step p Tau (p\<lparr>tp_threads := (tp_threads p)(i \<mapsto> TimedOut)\<rparr>)"

inductive pool_step :: "'t thread_pool \<Rightarrow> 't pool_event \<Rightarrow> 't thread_pool \<Rightarrow> bool" where
  worker: "worker_step p e p' \<Longrightarrow> pool_step p e p'"
| spurious: "tp_threads p i = Some Sleeping \<Longrightarrow>
    pool_step p Tau (p\<lparr>tp_threads := (tp_threads p)(i \<mapsto> Ready)\<rparr>)"
| submit: "tp_closing p = Alive \<Longrightarrow> notify_ok w p \<Longrightarrow>
    pool_step p (if fst (submitTask t w p) then Accept t else Refuse t) (snd (submitTask t w p))"
| configure: "tp_closing p = Alive \<Longrightarrow>
    p' \<in> {setMode m p, setintThreadSize n p, settaskMaxSize n p, setmaxThreadSize n p} \<Longrightarrow>
    pool_step p Tau p'"
| stop: "tp_closing p = Alive \<Longrightarrow> pool_step p Tau (pool_stop p)"
| drain: "tp_closing p = Stopping \<Longrightarrow> pool_step p Tau (pool_drain p)"
| check: "tp_closing p = Draining \<Longrightarrow> tp_over p \<Longrightarrow> pool_step p Tau (pool_check p)"

inductive pool_run :: "'t thread_pool \<Rightarrow> 't pool_event list \<Rightarrow> 't thread_pool \<Rightarrow> bool" where
  nil: "pool_run p [] p"
| snoc: "pool_run p es p' \<Longrightarrow> pool_step p' e p'' \<Longrightarrow> pool_run p (es @ [e]) p''"

definition accepted :: "'t pool_event list \<Rightarrow> 't list" where
  "accepted es = List.map_filter (\<lambda>e. case e of Accept t \<Rightarrow> Some t | _ \<Rightarrow> None) es"

definition begun :: "'t pool_event list \<Rightarrow> 't list" where
  "begun es = List.map_filter (\<lambda>e. case e of Begin t \<Rightarrow> Some t | _ \<Rightarrow> None) es"

definition ended :: "'t pool_event list \<Rightarrow> 't list" where
  "ended es = List.map_filter (\<lambda>e. case e of End t \<Rightarrow> Some t | _ \<Rightarrow> None) es"

subsection \<open>Sums over the threads\<close>

definition weight :: "('t worker \<Rightarrow> int) \<Rightarrow> (int \<rightharpoonup> 't worker) \<Rightarrow> int" where
  "weight f m = (\<Sum>i \<in> dom m. f (the (m i)))"

lemma weight_new: "finite (dom m) \<Longrightarrow> m i = None \<Longrightarrow> weight f (m(i \<mapsto> w)) = weight f m + f w"
proof -
  assume "finite (dom m)" and "m i = None"
  moreover from this have "weight f (m(i \<mapsto> w)) = (\<Sum>j \<in> insert i (dom m). f (the ((m(i \<mapsto> w)) j)))"
    by (simp add: weight_def)
  moreover have "(\<Sum>j \<in> dom m. f (the ((m(i \<mapsto> w)) j))) = weight f m"
    unfolding weight_def using \<open>m i = None\<close> by (intro sum.cong) auto
  ultimately show ?thesis by (simp add: domIff)
qed

lemma weight_remove:
  assumes "finite (dom m)" and "m i = Some v"
  shows "weight f (m(i := None)) = weight f m - f v"
proof -
  have "weight f m = weight f ((m(i := None))(i \<mapsto> v))" using assms(2) by (simp add: fun_upd_idem)
  also have "\<dots> = weight f (m(i := None)) + f v" by (rule weight_new) (use assms(1) in simp_all)
  finally show ?thesis by simp
qed

lemma weight_update:
  assumes "finite (dom m)" and "m i = Some v"
  shows "weight f (m(i \<mapsto> w)) = weight f m - f v + f w"
proof -
  have "weight f (m(i \<mapsto> w)) = weight f ((m(i := None))(i \<mapsto> w))" by simp
  also have "\<dots> = weight f (m(i := None)) + f w" by (rule weight_new) (use assms(1) in simp_all)
  finally show ?thesis by (simp only: weight_remove [OF assms])
qed

lemma weight_map_option: "weight f (map_option g \<circ> m) = weight (f \<circ> g) m"
proof -
  have "dom (map_option g \<circ> m) = dom m" by (auto simp: dom_def)
  then show ?thesis unfolding weight_def by (intro sum.cong) auto
qed

lemma weight_cong: "(\<And>i w. m i = Some w \<Longrightarrow> f w = g w) \<Longrightarrow> weight f m = weight g m"
  unfolding weight_def by (intro sum.cong) auto

lemma weight_nonneg: "(\<And>w. 0 \<le> f w) \<Longrightarrow> 0 \<le> weight f m"
  by (simp add: weight_def sum_nonneg)

lemma weight_mono: "(\<And>w. f w \<le> g w) \<Longrightarrow> weight f m \<le> weight g m"
  by (simp add: weight_def sum_mono)

lemmas weight_simps = weight_new weight_remove weight_update weight_map_option

text \<open>How many threads there are, and how many of them are not executing a task.\<close>

fun free_worker :: "'t worker \<Rightarrow> bool" where
  "free_worker (Running t) = False"
| "free_worker w = True"

definition thread_count :: "'t thread_pool \<Rightarrow> int" where
  "thread_count p = weight (\<lambda>w. 1) (tp_threads p)"

definition free_count :: "'t thread_pool \<Rightarrow> int" where
  "free_count p = weight (\<lambda>w. if free_worker w then 1 else 0) (tp_threads p)"

lemma free_le_threads: "0 \<le> free_count p" "free_count p \<le> thread_count p"
  unfolding free_count_def thread_count_def by (auto intro: weight_nonneg weight_mono)

lemma thread_count_pos: "finite (dom (tp_threads p)) \<Longrightarrow> 0 < thread_count p \<longleftrightarrow> tp_threads p \<noteq> Map.empty"
  by (simp add: thread_count_def weight_def card_gt_0_iff)

subsection \<open>The invariant\<close>

text \<open>
  The counters agree with what they count; \<open>nowThreadSize_\<close> may only exceed the number of threads once
  the pool is stopped, and then the queue is empty. The sizes stay within their configured bounds,
  and thread ids are below the next one. \<open>k\<close> and \<open>n\<close> are the bound of the queue and the number of
  initial threads.
\<close>

definition pool_ok :: "int \<Rightarrow> int \<Rightarrow> 't thread_pool \<Rightarrow> bool" where
  "pool_ok k n p \<longleftrightarrow>
     finite (dom (tp_threads p)) \<and> (\<forall>i \<in> dom (tp_threads p). i < tp_upThreadId p)
   \<and> tp_taskSize p = int (length (tp_taskQue p)) \<and> tp_taskSize p \<le> k
   \<and> (tp_isStart p \<or> tp_taskQue p \<noteq> [] \<longrightarrow>
        tp_nowThreadSize p = thread_count p \<and> tp_freeThreadSize p = free_count p)
   \<and> n \<le> tp_nowThreadSize p \<and> tp_nowThreadSize p \<le> max n (tp_maxThreadSize p)
   \<and> tp_intThreadSize p = n \<and> tp_taskMaxSize p = k
   \<and> (tp_isStart p \<longleftrightarrow> tp_closing p = Alive)
   \<and> (tp_closing p = Draining \<longrightarrow> (\<forall>i. tp_threads p i \<noteq> Some Sleeping))
   \<and> (tp_closing p = Destroyed \<longrightarrow> tp_threads p = Map.empty)"

lemmas pool_ok_defs = pool_ok_def thread_count_def free_count_def

lemma notify_one_ok: "pool_ok k n p \<Longrightarrow> notify_ok w p \<Longrightarrow> pool_ok k n (notify_one w p)"
  by (cases w) (auto simp: pool_ok_defs notify_one_def notify_ok_def weight_update split: if_splits)

lemma notify_all_threads:
  "thread_count (notify_all p) = thread_count p" "free_count (notify_all p) = free_count p"
  "dom (tp_threads (notify_all p)) = dom (tp_threads p)"
  "tp_threads (notify_all p) i \<noteq> Some Sleeping"
proof -
  have "free_worker (wake w) = free_worker w" for w :: "'a worker" by (cases w) simp_all
  then have "(\<lambda>w :: 'a worker. if free_worker w then 1 else 0 :: int) \<circ> wake = (\<lambda>w. if free_worker w then 1 else 0)"
    by auto
  then show "free_count (notify_all p) = free_count p"
    by (simp add: free_count_def notify_all_def weight_map_option)
  show "thread_count (notify_all p) = thread_count p"
    using weight_map_option [of "\<lambda>w. 1" wake "tp_threads p"] by (simp add: thread_count_def notify_all_def comp_def)
  show "dom (tp_threads (notify_all p)) = dom (tp_threads p)"
    by (auto simp: notify_all_def dom_def)
  have "wake w \<noteq> Sleeping" for w :: "'a worker" by (cases w) simp_all
  then show "tp_threads (notify_all p) i \<noteq> Some Sleeping"
    by (simp add: notify_all_def)
qed

lemma new_thread_ok:
  assumes "pool_ok k n p" and "tp_isStart p" and "tp_nowThreadSize p < tp_maxThreadSize p"
  shows "pool_ok k n ((snd (new_thread p))\<lparr>tp_nowThreadSize := tp_nowThreadSize p + 1,
    tp_freeThreadSize := tp_freeThreadSize p + 1\<rparr>)"
proof -
  have "tp_threads p (tp_upThreadId p) = None" using assms(1) by (force simp: pool_ok_def)
  with assms show ?thesis by (auto simp: pool_ok_defs new_thread_def Let_def weight_new) (metis domI order_less_imp_le)+
qed

lemma submit_ok:
  assumes ok: "pool_ok k n p" and "notify_ok w p" and "tp_closing p = Alive"
  shows "pool_ok k n (snd (submitTask t w p))"
proof (cases "tp_taskSize p < tp_taskMaxSize p")
  case True
  let ?q = "p\<lparr>tp_taskQue := tp_taskQue p @ [t], tp_taskSize := tp_taskSize p + 1\<rparr>"
  have "pool_ok k n ?q" using ok assms(3) True by (auto simp: pool_ok_defs)
  moreover have "notify_ok w ?q" using assms(2) by (simp add: notify_ok_def cong: option.case_cong)
  ultimately have "pool_ok k n (notify_one w ?q)" by (rule notify_one_ok)
  moreover have "tp_isStart (notify_one w ?q)"
    using ok assms(3) by (auto simp: pool_ok_def notify_one_def split: option.splits)
  ultimately show ?thesis
    using True new_thread_ok by (auto simp: submitTask_def Let_def pool_grows_def)
qed (simp add: submitTask_def ok)

lemma take_ok:
  assumes ok: "pool_ok k n p" and i: "tp_threads p i = Some Ready" and "tp_taskSize p > 0"
    and w: "notify_ok w (p\<lparr>tp_threads := (tp_threads p)(i \<mapsto> Running (hd (tp_taskQue p)))\<rparr>)"
  shows "pool_ok k n (worker_take i w p)"
proof -
  let ?q = "p\<lparr>tp_freeThreadSize := tp_freeThreadSize p - 1,
      tp_threads := (tp_threads p)(i \<mapsto> Running (hd (tp_taskQue p))),
      tp_taskQue := tl (tp_taskQue p), tp_taskSize := tp_taskSize p - 1\<rparr>"
  have "pool_ok k n ?q" using ok i assms(3)
    by (cases "tp_taskQue p") (auto simp: pool_ok_defs weight_update)
  moreover have "notify_ok w ?q" using w by (simp add: notify_ok_def cong: option.case_cong)
  ultimately show ?thesis using assms(3) notify_one_ok by (auto simp: worker_take_def Let_def)
qed

lemma idle_ok:
  assumes "pool_ok k n p" and "tp_threads p i = Some Ready" and "\<not> tp_taskSize p > 0"
  shows "pool_ok k n (worker_take i None p)"
proof -
  have "tp_taskSize p = 0" "tp_taskQue p = []" using assms(1,3) by (auto simp: pool_ok_def)
  with assms(1,2) show ?thesis
    by (auto simp: worker_take_def pool_ok_defs weight_update)
qed

lemma expire_ok:
  assumes "pool_ok k n p" and "tp_threads p i = Some TimedOut"
  shows "pool_ok k n (worker_expire i idle p)"
  using assms by (auto simp: worker_expire_def pool_ok_defs weight_update weight_remove)

lemma finish_ok:
  assumes "pool_ok k n p" and "tp_threads p i = Some (Running t)"
  shows "pool_ok k n (worker_finish i p)"
  using assms by (auto simp: worker_finish_def pool_ok_defs weight_update)

lemma move_ok:
  assumes "pool_ok k n p" and "tp_threads p i = Some Sleeping" and "v \<noteq> Sleeping" and "free_worker v"
  shows "pool_ok k n (p\<lparr>tp_threads := (tp_threads p)(i \<mapsto> v)\<rparr>)"
  using assms by (auto simp: pool_ok_defs weight_update)

lemma worker_step_ok: "worker_step p e p' \<Longrightarrow> pool_ok k n p \<Longrightarrow> pool_ok k n p'"
  by (induction rule: worker_step.induct)
    (auto intro: take_ok idle_ok expire_ok finish_ok move_ok)

lemma stop_ok: "pool_ok k n p \<Longrightarrow> tp_closing p = Alive \<Longrightarrow> pool_ok k n (pool_stop p)"
  by (auto simp: pool_ok_defs pool_stop_def)

lemma drain_ok:
  assumes "pool_ok k n p" and "tp_closing p = Stopping"
  shows "pool_ok k n (pool_drain p)"
proof -
  have "tp_threads (pool_drain p) = tp_threads (notify_all p)" "tp_closing (pool_drain p) = Draining"
    "thread_count (pool_drain p) = thread_count p" "free_count (pool_drain p) = free_count p"
    using notify_all_threads [of p] by (simp_all add: pool_drain_def thread_count_def free_count_def)
  with assms show ?thesis using notify_all_threads(3,4) [of p]
    by (simp add: pool_ok_def) (auto simp: pool_drain_def notify_all_def)
qed

lemma check_ok: "pool_ok k n p \<Longrightarrow> tp_closing p = Draining \<Longrightarrow> pool_ok k n (pool_check p)"
  by (auto simp: pool_ok_defs pool_check_def)

lemma configure_id:
  assumes "pool_ok k n p" and "tp_closing p = Alive"
    and "p' \<in> {setMode m p, setintThreadSize j p, settaskMaxSize j p, setmaxThreadSize j p}"
  shows "p' = p"
  using assms
  by (auto simp: pool_ok_def setMode_def setintThreadSize_def settaskMaxSize_def setmaxThreadSize_def)

lemma pool_step_ok: "pool_step p e p' \<Longrightarrow> pool_ok k n p \<Longrightarrow> pool_ok k n p'"
proof (induction rule: pool_step.induct)
  case (configure p p' m j)
  then show ?case using configure_id [of k n p p' m j] by simp
qed (auto intro: worker_step_ok move_ok submit_ok stop_ok drain_ok check_ok)

lemma pool_run_ok: "pool_run p es p' \<Longrightarrow> pool_ok k n p \<Longrightarrow> pool_ok k n p'"
  by (induction rule: pool_run.induct) (auto intro: pool_step_ok)

subsection \<open>What the pool guarantees\<close>

text \<open>A pool that is configured and started: the state from which it is used.\<close>

lemma create_threads_eq:
  "create_threads j p = p\<lparr>tp_threads := (\<lambda>i. if tp_upThreadId p \<le> i \<and> i < tp_upThreadId p + int j
     then Some Ready else tp_threads p i), tp_upThreadId := tp_upThreadId p + int j\<rparr>"
proof (induction j arbitrary: p)
  case 0
  have "(\<lambda>i. if tp_upThreadId p \<le> i \<and> i < tp_upThreadId p then Some Ready else tp_threads p i) = tp_threads p"
    by (rule ext) auto
  then show ?case by simp
next
  case (Suc j)
  let ?u = "tp_upThreadId p"
  have "(\<lambda>i. if ?u + 1 \<le> i \<and> i < ?u + 1 + int j then Some Ready else ((tp_threads p)(?u \<mapsto> Ready)) i)
    = (\<lambda>i. if ?u \<le> i \<and> i < ?u + int (Suc j) then Some Ready else tp_threads p i)"
    by auto
  with Suc [of "snd (new_thread p)"] show ?case
    by (simp add: new_thread_def Let_def add.assoc del: fun_upd_apply cong: if_cong)
qed

definition fresh_pool :: "int \<Rightarrow> pool_mode \<Rightarrow> int \<Rightarrow> int \<Rightarrow> 't thread_pool" where
  "fresh_pool upId m k mx = setmaxThreadSize mx (settaskMaxSize k (setMode m (ThreadPool upId)))"

lemma fresh_pool_fields [simp]:
  "tp_threads (fresh_pool u m k mx) = Map.empty" "tp_upThreadId (fresh_pool u m k mx) = u"
  "tp_taskQue (fresh_pool u m k mx) = []" "tp_taskSize (fresh_pool u m k mx) = 0"
  "tp_taskMaxSize (fresh_pool u m k mx) = k" "tp_freeThreadSize (fresh_pool u m k mx) = 0"
  "tp_closing (fresh_pool u m k mx) = Alive" "tp_mode (fresh_pool u m k mx) = m"
  by (simp_all add: fresh_pool_def setMode_def settaskMaxSize_def setmaxThreadSize_def ThreadPool_def)

lemma start_threads:
  assumes "0 \<le> n"
  shows "pool_start n (fresh_pool 0 m k mx) = Some ((fresh_pool 0 m k mx)\<lparr>tp_isStart := True,
    tp_intThreadSize := n, tp_nowThreadSize := n, tp_freeThreadSize := n, tp_upThreadId := n,
    tp_threads := (\<lambda>i. if 0 \<le> i \<and> i < n then Some Ready else None)\<rparr>)"
  using assms by (auto simp: pool_start_def Let_def create_threads_eq cong: if_cong)

lemma pool_start_ok:
  assumes "pool_start n (fresh_pool 0 m k mx) = Some p" and "0 \<le> n" and "0 \<le> k"
  shows "pool_ok k n p"
proof -
  have d: "dom (\<lambda>i. if 0 \<le> i \<and> i < n then Some Ready else None) = {0..<n}" by (auto simp: dom_def split: if_splits)
  have "Some p = Some ((fresh_pool 0 m k mx)\<lparr>tp_isStart := True,
    tp_intThreadSize := n, tp_nowThreadSize := n, tp_freeThreadSize := n, tp_upThreadId := n,
    tp_threads := (\<lambda>i. if 0 \<le> i \<and> i < n then Some Ready else None)\<rparr>)"
    unfolding assms(1) [symmetric] by (rule start_threads [OF assms(2)])
  with assms(2,3) show ?thesis by (simp add: pool_ok_defs weight_def d)
qed

text \<open>
  C37. The counters of the pool are right whatever the threads do: at every moment of every execution
  of a pool that was started with \<open>n\<close> threads and a queue bound of \<open>k\<close>, \<open>taskSize_\<close> is the length of the
  queue and at most \<open>k\<close>; and until the destructor is called \<open>nowThreadSize_\<close> is the number of threads,
  which is at least \<open>n\<close> and at most the larger of \<open>n\<close> and \<open>maxThreadSize_\<close>, and \<open>freeThreadSize_\<close> is the number of
  those that are not executing a task. (Threads that leave after that do not decrement the counters.)
\<close>

theorem pool_counters:
  assumes "pool_start n (fresh_pool 0 m k mx) = Some p0" and "0 \<le> n" and "0 \<le> k" and "pool_run p0 es p"
  shows "tp_taskSize p = int (length (tp_taskQue p)) \<and> tp_taskSize p \<le> k
    \<and> (tp_closing p = Alive \<longrightarrow> tp_nowThreadSize p = int (card (dom (tp_threads p)))
        \<and> tp_freeThreadSize p = int (card {i \<in> dom (tp_threads p). free_worker (the (tp_threads p i))})
        \<and> n \<le> tp_nowThreadSize p \<and> tp_nowThreadSize p \<le> max n (tp_maxThreadSize p))"
proof -
  have ok: "pool_ok k n p" using pool_run_ok [OF assms(4) pool_start_ok [OF assms(1-3)]] .
  moreover have "thread_count p = int (card (dom (tp_threads p)))"
    by (simp add: thread_count_def weight_def)
  moreover have "free_count p = int (card {i \<in> dom (tp_threads p). free_worker (the (tp_threads p i))})"
    using ok by (simp add: pool_ok_def free_count_def weight_def sum.If_cases Collect_conj_eq Int_commute)
  ultimately show ?thesis by (auto simp: pool_ok_def)
qed

text \<open>Running tasks, as the difference between what has begun and what has ended.\<close>

lemma event_lists [simp]:
  "accepted [] = []" "begun [] = []" "ended [] = []"
  "accepted (es @ [e]) = accepted es @ (case e of Accept t \<Rightarrow> [t] | _ \<Rightarrow> [])"
  "begun (es @ [e]) = begun es @ (case e of Begin t \<Rightarrow> [t] | _ \<Rightarrow> [])"
  "ended (es @ [e]) = ended es @ (case e of End t \<Rightarrow> [t] | _ \<Rightarrow> [])"
  by (simp_all add: accepted_def begun_def ended_def map_filter_def split: pool_event.splits)

lemma notify_one_fields [simp]:
  "tp_taskQue (notify_one w p) = tp_taskQue p" "tp_taskSize (notify_one w p) = tp_taskSize p"
  "tp_closing (notify_one w p) = tp_closing p" "tp_isStart (notify_one w p) = tp_isStart p"
  "tp_intThreadSize (notify_one w p) = tp_intThreadSize p" "tp_mode (notify_one w p) = tp_mode p"
  by (simp_all add: notify_one_def split: option.split)

lemma step_queue:
  assumes "pool_step p e p'" and "pool_ok k n p"
  shows "tp_taskQue p @ (case e of Accept t \<Rightarrow> [t] | _ \<Rightarrow> []) = (case e of Begin t \<Rightarrow> [t] | _ \<Rightarrow> []) @ tp_taskQue p'"
  using assms
proof (induction rule: pool_step.induct)
  case (worker p e p')
  then show ?case
  proof (induction rule: worker_step.induct)
    case (take p i w)
    then have "tp_taskQue p \<noteq> []" by (auto simp: pool_ok_def)
    with take show ?case by (auto simp: worker_take_def Let_def)
  qed (auto simp: worker_take_def worker_expire_def worker_finish_def pool_ok_def)
next
  case (configure p p' m j)
  then show ?case using configure_id [of k n p p' m j] by simp
qed (auto simp: submitTask_def new_thread_def Let_def pool_stop_def pool_drain_def notify_all_def pool_check_def)

text \<open>How many threads execute a given task.\<close>

fun running :: "'t \<Rightarrow> 't worker \<Rightarrow> int" where
  "running t (Running u) = (if u = t then 1 else 0)"
| "running t w = 0"

lemma running_eq: "running t w = (if w = Running t then 1 else 0)"
  by (cases w) simp_all

lemma weight_running: "finite (dom m) \<Longrightarrow> weight (running t) m = int (card {i. m i = Some (Running t)})"
proof -
  assume "finite (dom m)"
  then have "weight (running t) m = int (card (dom m \<inter> {i. the (m i) = Running t}))"
    by (simp add: weight_def running_eq sum.If_cases)
  also have "dom m \<inter> {i. the (m i) = Running t} = {i. m i = Some (Running t)}" by auto
  finally show ?thesis .
qed

lemma notify_one_running:
  assumes "finite (dom (tp_threads p))" and "notify_ok w p"
  shows "weight (running t) (tp_threads (notify_one w p)) = weight (running t) (tp_threads p)"
  using assms by (cases w) (auto simp: notify_one_def notify_ok_def weight_update)

lemma step_running:
  assumes "pool_step p e p'" and "pool_ok k n p"
  shows "weight (running t) (tp_threads p') + (if e = End t then 1 else 0)
    = weight (running t) (tp_threads p) + (if e = Begin t then 1 else 0)"
  using assms
proof (induction rule: pool_step.induct)
  case (worker p e p')
  then show ?case
  proof (induction rule: worker_step.induct)
    case (take p i w)
    let ?q = "p\<lparr>tp_freeThreadSize := tp_freeThreadSize p - 1,
        tp_threads := (tp_threads p)(i \<mapsto> Running (hd (tp_taskQue p))),
        tp_taskQue := tl (tp_taskQue p), tp_taskSize := tp_taskSize p - 1\<rparr>"
    have "finite (dom (tp_threads p))" "notify_ok w ?q"
      using take by (simp_all add: pool_ok_def notify_ok_def cong: option.case_cong)
    with take notify_one_running [of ?q w t] show ?case
      by (auto simp: worker_take_def Let_def weight_update)
  qed (auto simp: worker_take_def worker_expire_def worker_finish_def pool_ok_def weight_simps)
next
  case (configure p p' m j)
  then show ?case using configure_id [of k n p p' m j] by simp
next
  case (submit p w u)
  let ?q = "notify_one w (p\<lparr>tp_taskQue := tp_taskQue p @ [u], tp_taskSize := tp_taskSize p + 1\<rparr>)"
  have q: "weight (running t) (tp_threads ?q) = weight (running t) (tp_threads p)"
    using submit notify_one_running [of "p\<lparr>tp_taskQue := tp_taskQue p @ [u], tp_taskSize := tp_taskSize p + 1\<rparr>" w t]
    by (simp add: pool_ok_def notify_ok_def cong: option.case_cong)
  have up: "tp_upThreadId ?q = tp_upThreadId p" "finite (dom (tp_threads ?q))" "tp_threads p (tp_upThreadId p) = None"
    using submit.prems by (force simp: pool_ok_def notify_one_def split: option.split)+
  then have "tp_threads ?q (tp_upThreadId ?q) = None"
    using submit.hyps(2) by (auto simp: notify_one_def notify_ok_def split: option.splits)
  with up(2) q show ?case by (simp add: submitTask_def Let_def new_thread_def weight_new)
next
  case (drain p)
  have "running t (wake w) = running t w" for w by (cases w) simp_all
  then show ?case using weight_map_option [of "running t" wake "tp_threads p"]
    by (simp add: pool_drain_def notify_all_def comp_def)
qed (auto simp: pool_stop_def pool_check_def pool_ok_def weight_simps)

lemma run_accounts:
  assumes "pool_start n (fresh_pool 0 m k mx) = Some p0" and "0 \<le> n" and "0 \<le> k" and "pool_run p0 es p"
  shows "accepted es = begun es @ tp_taskQue p
    \<and> count_list (begun es) t = count_list (ended es) t + card {i. tp_threads p i = Some (Running t)}"
proof -
  have ok: "pool_ok k n p0" using pool_start_ok [OF assms(1-3)] .
  have run: "accepted es = begun es @ tp_taskQue p
      \<and> int (count_list (begun es) t) = int (count_list (ended es) t) + weight (running t) (tp_threads p)"
    if "pool_run q es p" "pool_ok k n q" "tp_taskQue q = []" "weight (running t) (tp_threads q) = 0" for q es p
    using that
  proof (induction rule: pool_run.induct)
    case (snoc q es p' e p'')
    have "pool_ok k n p'" using pool_run_ok [OF snoc.hyps(1) snoc.prems(1)] .
    from step_queue [OF snoc.hyps(2) this] step_running [OF snoc.hyps(2) this, of t] snoc show ?case
      by (auto split: pool_event.splits if_splits)
  qed simp
  have "Some p0 = Some ((fresh_pool 0 m k mx)\<lparr>tp_isStart := True, tp_intThreadSize := n, tp_nowThreadSize := n,
      tp_freeThreadSize := n, tp_upThreadId := n, tp_threads := (\<lambda>i. if 0 \<le> i \<and> i < n then Some Ready else None)\<rparr>)"
    unfolding assms(1) [symmetric] using assms(2) by (intro start_threads) simp
  then have p0: "tp_threads p0 = (\<lambda>i. if 0 \<le> i \<and> i < n then Some Ready else None)" "tp_taskQue p0 = []" by simp_all
  then have "weight (running t) (tp_threads p0) = 0" by (auto simp: weight_def intro!: sum.neutral split: if_splits)
  moreover have "finite (dom (tp_threads p))" using pool_run_ok [OF assms(4) ok] by (simp add: pool_ok_def)
  ultimately show ?thesis using run [OF assms(4) ok p0(2)] by (simp add: weight_running)
qed

lemma pool_run_append: "pool_run p' es' p'' \<Longrightarrow> pool_run p es p' \<Longrightarrow> pool_run p (es @ es') p''"
proof (induction rule: pool_run.induct)
  case (snoc p' es' q e q')
  then have "pool_run p (es @ es') q" by blast
  from pool_run.snoc [OF this snoc.hyps(2)] show ?case by simp
qed simp

text \<open>
  C30. Every task that is accepted is executed exactly once and in the order of submission: at every
  moment of every execution the accepted tasks are those that a thread has begun, in that order,
  followed by the queue, and what was begun has either ended or is being executed by one thread.
\<close>

theorem tasks_begin_in_order:
  assumes "pool_start n (fresh_pool 0 m k mx) = Some p0" and "0 \<le> n" and "0 \<le> k" and "pool_run p0 es p"
  shows "accepted es = begun es @ tp_taskQue p
    \<and> count_list (begun es) t = count_list (ended es) t + card {i. tp_threads p i = Some (Running t)}"
  using run_accounts [OF assms] by blast

subsection \<open>The destructor returns\<close>

text \<open>What is left to do: three steps at most per queued task, and at most two per thread.\<close>

fun worker_work :: "'t worker \<Rightarrow> int" where
  "worker_work Ready = 1"
| "worker_work Sleeping = 3"
| "worker_work TimedOut = 2"
| "worker_work (Running t) = 2"

definition work_left :: "'t thread_pool \<Rightarrow> int" where
  "work_left p = 3 * int (length (tp_taskQue p)) + weight worker_work (tp_threads p)"

lemma work_left_nonneg: "0 \<le> work_left p"
proof -
  have "0 \<le> worker_work w" for w :: "'a worker" by (cases w) simp_all
  then have "0 \<le> weight worker_work (tp_threads p)" by (rule weight_nonneg)
  then show ?thesis by (simp add: work_left_def)
qed

lemma notify_one_none_sleeping:
  "\<forall>i. tp_threads p i \<noteq> Some Sleeping \<Longrightarrow> notify_ok w p \<Longrightarrow> notify_one w p = p"
  by (auto simp: notify_ok_def notify_one_def split: option.splits)

lemma draining_step_works:
  assumes "worker_step p e p'" and "pool_ok k n p" and "tp_closing p = Draining"
  shows "work_left p' < work_left p \<and> tp_closing p' = Draining"
  using assms
proof (induction rule: worker_step.induct)
  case (take p i w)
  let ?q = "p\<lparr>tp_freeThreadSize := tp_freeThreadSize p - 1,
      tp_threads := (tp_threads p)(i \<mapsto> Running (hd (tp_taskQue p))),
      tp_taskQue := tl (tp_taskQue p), tp_taskSize := tp_taskSize p - 1\<rparr>"
  have "notify_one w ?q = ?q"
    using take.prems take.hyps(3)
    by (intro notify_one_none_sleeping) (auto simp: pool_ok_def notify_ok_def split: option.splits)
  moreover obtain t ts where "tp_taskQue p = t # ts" using take by (cases "tp_taskQue p") (auto simp: pool_ok_def)
  ultimately show ?case using take
    by (auto simp: worker_take_def Let_def work_left_def pool_ok_def weight_update)
qed (auto simp: worker_take_def worker_expire_def worker_finish_def work_left_def pool_ok_def
    weight_update weight_remove)

text \<open>The steps of the destructor itself count as well.\<close>

definition closing_left :: "'t thread_pool \<Rightarrow> int" where
  "closing_left p = 2 * work_left p + (if tp_over p then 1 else 0)"

lemma closing_step:
  assumes "pool_step p e p'" and "pool_ok k n p" and "tp_closing p = Draining"
  shows "closing_left p' < closing_left p \<and> (tp_closing p' = Draining \<or> tp_closing p' = Destroyed)"
  using assms
proof (induction rule: pool_step.induct)
  case (worker p e p')
  with draining_step_works [OF worker.hyps worker.prems] show ?case by (auto simp: closing_left_def)
qed (auto simp: pool_ok_def pool_check_def closing_left_def work_left_def)

lemma destroyed_stays: "pool_ok k n p \<Longrightarrow> tp_closing p = Destroyed \<Longrightarrow> \<not> pool_step p e p'"
  by (auto simp: pool_ok_def elim!: pool_step.cases worker_step.cases)

lemma closing_run:
  assumes "pool_run p es p'" and "pool_ok k n p" and "tp_closing p = Draining"
  shows "(tp_closing p' = Draining \<or> tp_closing p' = Destroyed) \<and> int (length es) + closing_left p' \<le> closing_left p"
  using assms
proof (induction rule: pool_run.induct)
  case (snoc p es p' e p'')
  have ok: "pool_ok k n p'" using pool_run_ok [OF snoc.hyps(1) snoc.prems(1)] .
  with snoc destroyed_stays have "tp_closing p' = Draining" by blast
  with closing_step [OF snoc.hyps(2) ok] snoc show ?case by auto
qed simp

lemma draining_progress:
  assumes "pool_ok k n p" and "tp_closing p = Draining" and "tp_threads p i = Some w"
  shows "\<exists>e p'. pool_step p e p'"
proof -
  have none: "\<forall>i. tp_threads p i \<noteq> Some Sleeping" using assms(1,2) by (simp add: pool_ok_def)
  have "\<exists>e p'. worker_step p e p'"
  proof (cases w)
    case Ready
    have "notify_ok None (p\<lparr>tp_threads := (tp_threads p)(i \<mapsto> Running (hd (tp_taskQue p)))\<rparr>)"
      using none by (simp add: notify_ok_def)
    then show ?thesis using Ready assms(3) worker_step.take [of p i None] worker_step.idle [of p i] by blast
  next
    case Sleeping
    then show ?thesis using none assms(3) by simp
  next
    case TimedOut
    then show ?thesis using worker_step.expire [of p i] assms(3) by blast
  next
    case (Running t)
    then show ?thesis using worker_step.finish [of p i t] assms(3) by blast
  qed
  then show ?thesis using pool_step.worker by blast
qed

text \<open>
  In the mode \<open>FIXED\<close> no thread ends by a timeout, so that the last thread to end always notifies the
  destructor.
\<close>

definition fixed_ok :: "'t thread_pool \<Rightarrow> bool" where
  "fixed_ok p \<longleftrightarrow> tp_mode p = FIXED \<and> (\<forall>i. tp_threads p i \<noteq> Some TimedOut)
     \<and> (tp_closing p = Draining \<and> tp_threads p = Map.empty \<longrightarrow> tp_over p)"

lemma notify_one_timed: "tp_threads (notify_one w p) i = Some TimedOut \<longleftrightarrow> tp_threads p i = Some TimedOut \<and> w \<noteq> Some i"
  by (auto simp: notify_one_def split: option.splits)

lemma fixed_worker_step: "worker_step p e p' \<Longrightarrow> pool_ok k n p \<Longrightarrow> fixed_ok p \<Longrightarrow> fixed_ok p'"
proof (induction rule: worker_step.induct)
  case (take p i w)
  then have "tp_threads (worker_take i w p) i \<noteq> None"
    by (auto simp: worker_take_def Let_def notify_one_def split: option.splits)
  then have "tp_threads (worker_take i w p) \<noteq> Map.empty" by force
  with take show ?case by (auto simp: fixed_ok_def worker_take_def Let_def notify_one_timed)
qed (auto simp: fixed_ok_def worker_take_def worker_finish_def pool_ok_def)

lemma fixed_step:
  assumes "pool_step p e p'" and "pool_ok k n p" and "fixed_ok p"
  shows "fixed_ok p'"
  using assms
proof (induction rule: pool_step.induct)
  case (worker p e p')
  then show ?case using fixed_worker_step by blast
next
  case (configure p p' m j)
  then show ?case using configure_id [of k n p p' m j] by simp
next
  case (submit p w t)
  then show ?case by (auto simp: fixed_ok_def submitTask_def Let_def new_thread_def pool_grows_def notify_one_timed)
next
  case (drain p)
  have "wake w = TimedOut \<longleftrightarrow> w = TimedOut" for w :: "'a worker" by (cases w) simp_all
  with drain show ?case by (auto simp: fixed_ok_def pool_drain_def notify_all_def)
qed (auto simp: fixed_ok_def pool_stop_def pool_check_def fun_eq_iff split: if_splits)

lemma fixed_run: "pool_run p es p' \<Longrightarrow> pool_ok k n p \<Longrightarrow> fixed_ok p \<Longrightarrow> fixed_ok p'"
  by (induction rule: pool_run.induct) (auto intro: fixed_step pool_run_ok)

text \<open>
  C31. The destructor of a pool of fixed size with at least one thread returns, and every accepted task
  has been executed by then: once the threads have been told to stop, whatever they do, only a
  bounded number of steps is left; as long as the destructor has not returned some step is possible;
  and when it has, there is no thread, and every accepted task has been begun and ended, each as often
  as it was accepted.
\<close>

theorem destructor_returns:
  assumes "pool_start n (fresh_pool 0 FIXED k mx) = Some p0" and "1 \<le> n" and "0 \<le> k"
    and "pool_run p0 es p" and "tp_closing p = Draining" and "pool_run p es' p'"
  shows "int (length es') \<le> 2 * work_left p + 1
    \<and> (tp_closing p' \<noteq> Destroyed \<longrightarrow> (\<exists>e p''. pool_step p' e p''))
    \<and> (tp_closing p' = Destroyed \<longrightarrow> tp_threads p' = Map.empty \<and> accepted (es @ es') = begun (es @ es')
        \<and> (\<forall>t. count_list (ended (es @ es')) t = count_list (accepted (es @ es')) t))"
proof -
  have p0: "pool_ok k n p0" using pool_start_ok [OF assms(1)] assms(2,3) by simp
  have "Some p0 = Some ((fresh_pool 0 FIXED k mx)\<lparr>tp_isStart := True, tp_intThreadSize := n, tp_nowThreadSize := n,
      tp_freeThreadSize := n, tp_upThreadId := n, tp_threads := (\<lambda>i. if 0 \<le> i \<and> i < n then Some Ready else None)\<rparr>)"
    unfolding assms(1) [symmetric] using assms(2) by (intro start_threads) simp
  then have f0: "fixed_ok p0" by (simp add: fixed_ok_def)
  have p: "pool_ok k n p" using pool_run_ok [OF assms(4) p0] .
  from pool_run_ok [OF assms(6) p] have p': "pool_ok k n p'" .
  have f': "fixed_ok p'" using fixed_run [OF assms(6) p fixed_run [OF assms(4) p0 f0]] .
  have d: "tp_closing p' = Draining \<or> tp_closing p' = Destroyed" "int (length es') + closing_left p' \<le> closing_left p"
    using closing_run [OF assms(6) p assms(5)] by auto
  have "\<exists>e p''. pool_step p' e p''" if "tp_closing p' = Draining"
  proof (cases "tp_threads p' = Map.empty")
    case True
    with f' that show ?thesis using pool_step.check by (auto simp: fixed_ok_def)
  next
    case False
    then show ?thesis using draining_progress [OF p' that] by (metis not_None_eq ext)
  qed
  moreover have "tp_threads p' = Map.empty \<and> accepted (es @ es') = begun (es @ es')
      \<and> count_list (ended (es @ es')) t = count_list (accepted (es @ es')) t" if "tp_closing p' = Destroyed" for t
  proof -
    have "tp_threads p' = Map.empty" "tp_taskQue p' = []"
      using that p' assms(2) by (auto simp: pool_ok_def thread_count_def weight_def)
    with run_accounts [OF assms(1) _ assms(3) pool_run_append [OF assms(6,4)], of t] assms(2) show ?thesis by simp
  qed
  moreover have "int (length es') \<le> 2 * work_left p + 1"
    using d(2) work_left_nonneg [of p'] by (auto simp: closing_left_def split: if_splits)
  ultimately show ?thesis using d(1) by auto
qed

subsection \<open>Witnesses\<close>

text \<open>A pool with one thread, one task that is submitted, and the destructor.\<close>

definition one_thread_pool :: "nat thread_pool" where
  "one_thread_pool = the (pool_start 1 (fresh_pool 0 FIXED 5 100))"

lemma one_thread_pool_start: "pool_start 1 (fresh_pool 0 FIXED 5 100) = Some one_thread_pool"
  by (simp add: one_thread_pool_def start_threads)

definition one_task_pool :: "nat thread_pool" where
  "one_task_pool = snd (submitTask 7 None one_thread_pool)"

lemma one_thread_fields:
  "tp_threads one_thread_pool = [0 \<mapsto> Ready]" "tp_closing one_thread_pool = Alive"
  "tp_taskSize one_thread_pool = 0" "tp_taskMaxSize one_thread_pool = 5" "tp_taskQue one_thread_pool = []"
  "tp_mode one_thread_pool = FIXED"
  by (auto simp: one_thread_pool_def start_threads)

lemma one_task_run: "pool_run one_thread_pool [Accept 7] one_task_pool"
proof -
  have "pool_step one_thread_pool (if fst (submitTask 7 None one_thread_pool) then Accept 7 else Refuse 7)
      (snd (submitTask 7 None one_thread_pool))"
    by (rule pool_step.submit) (simp_all add: one_thread_fields notify_ok_def)
  then have "pool_step one_thread_pool (Accept 7) one_task_pool"
    by (simp add: one_task_pool_def submitTask_def Let_def one_thread_fields)
  from pool_run.snoc [OF pool_run.nil this] show ?thesis by simp
qed

theorem pool_counters_witness:
  "tp_taskSize one_task_pool = int (length (tp_taskQue one_task_pool)) \<and> tp_taskSize one_task_pool \<le> 5"
  using pool_counters [OF one_thread_pool_start _ _ one_task_run] by simp

theorem tasks_begin_in_order_witness: "tp_taskQue one_task_pool = [7]"
  using tasks_begin_in_order [OF one_thread_pool_start _ _ one_task_run] by (simp add: accepted_def begun_def map_filter_def)

lemma one_task_drain:
  "pool_run one_thread_pool ([Accept 7] @ [Tau] @ [Tau]) (pool_drain (pool_stop one_task_pool))"
proof -
  have "tp_closing one_task_pool = Alive"
    by (simp add: one_task_pool_def submitTask_def Let_def new_thread_def one_thread_fields)
  then have "pool_step one_task_pool Tau (pool_stop one_task_pool)" by (rule pool_step.stop)
  moreover have "pool_step (pool_stop one_task_pool) Tau (pool_drain (pool_stop one_task_pool))"
    by (rule pool_step.drain) (simp add: pool_stop_def)
  ultimately show ?thesis using one_task_run pool_run.snoc by (metis append.assoc)
qed

theorem destructor_returns_witness:
  "\<exists>e p. pool_step (pool_drain (pool_stop one_task_pool)) e p"
  using destructor_returns [OF one_thread_pool_start _ _ one_task_drain _ pool_run.nil] by (simp add: pool_drain_def)

text \<open>
  Thread ids come from a counter that all pools of the process share, but \<open>start\<close> starts the ids
  from 0: starting a pool when another thread has been created before fails on a null pointer.
\<close>

theorem second_pool_crashes:
  assumes "0 < u" and "0 < n"
  shows "pool_start n (fresh_pool u m k mx) = None"
  using assms by (auto simp: pool_start_def Let_def create_threads_eq intro!: bexI [of _ 0])

theorem second_pool_crashes_witness: "pool_start 4 (fresh_pool 4 CACHE 5 100 :: nat thread_pool) = None"
  by (rule second_pool_crashes) simp_all

subsection \<open>A destructor that does not return\<close>

text \<open>States of a pool in the mode \<open>CACHE\<close> with one initial thread and one more.\<close>

definition two :: "'t worker option \<Rightarrow> 't worker option \<Rightarrow> int \<rightharpoonup> 't worker" where
  "two a b = (\<lambda>i. if i = 0 then a else if i = 1 then b else None)"

lemma two_simps [simp]:
  "two a b 0 = a" "two a b 1 = b" "(two a b)(0 := x) = two x b" "(two a b)(1 := y) = two a y"
  "two a b i = Some w \<longleftrightarrow> i = 0 \<and> a = Some w \<or> i = 1 \<and> b = Some w" "map_option wake \<circ> two a b = two (map_option wake a) (map_option wake b)"
  by (auto simp: two_def fun_eq_iff)

lemma two_not_empty [simp]: "(\<forall>i. two a (Some w) i = None) \<longleftrightarrow> False"
  by (auto simp: two_def intro: exI [of _ 1])

definition two_pool :: "nat worker option \<Rightarrow> nat worker option \<Rightarrow> nat list \<Rightarrow> int \<Rightarrow> int \<Rightarrow> int \<Rightarrow> closing \<Rightarrow> bool \<Rightarrow> nat thread_pool" where
  "two_pool a b que free now up cl over = \<lparr>tp_threads = two a b, tp_intThreadSize = 1, tp_freeThreadSize = free,
     tp_nowThreadSize = now, tp_maxThreadSize = 100, tp_taskQue = que, tp_taskSize = int (length que), tp_taskMaxSize = 5,
     tp_mode = CACHE, tp_isStart = (cl = Alive), tp_upThreadId = up, tp_closing = cl, tp_over = over\<rparr>"

lemma two_pool_start: "pool_start 1 (fresh_pool 0 CACHE 5 100) = Some (two_pool (Some Ready) None [] 1 1 1 Alive False)"
proof -
  have t: "(\<lambda>i :: int. if 0 \<le> i \<and> i < 1 then Some Ready else None) = two (Some Ready) (None :: nat worker option)"
    by (auto simp: two_def fun_eq_iff)
  have "pool_start 1 (fresh_pool 0 CACHE 5 100 :: nat thread_pool) = Some ((fresh_pool 0 CACHE 5 100)\<lparr>tp_isStart := True,
    tp_intThreadSize := 1, tp_nowThreadSize := 1, tp_freeThreadSize := 1, tp_upThreadId := 1, tp_threads := two (Some Ready) None\<rparr>)"
    unfolding t [symmetric] by (rule start_threads) simp
  then show ?thesis
    by (simp add: two_pool_def fresh_pool_def setMode_def settaskMaxSize_def setmaxThreadSize_def ThreadPool_def)
qed

lemmas two_defs = two_pool_def submitTask_def notify_ok_def notify_one_def pool_grows_def to_size_t_def Let_def new_thread_def
  worker_take_def worker_finish_def worker_expire_def pool_stop_def pool_drain_def pool_check_def notify_all_def

lemma two_pool_works:
  "pool_run (two_pool (Some Ready) None [] 1 1 1 Alive False) [Accept 7, Accept 8, Begin 7, Begin 8, End 7, End 8]
     (two_pool (Some Ready) (Some Ready) [] 2 2 2 Alive False)"
proof -
  let ?p = "\<lambda>a b que free now. two_pool a b que free now now Alive False"
  have "pool_step (?p (Some Ready) None [] 1 1) (Accept 7) (?p (Some Ready) None [7] 1 1)"
    using pool_step.submit [of "?p (Some Ready) None [] 1 1" None 7] by (simp add: two_defs)
  moreover have "pool_step (?p (Some Ready) None [7] 1 1) (Accept 8) (?p (Some Ready) (Some Ready) [7, 8] 2 2)"
    using pool_step.submit [of "?p (Some Ready) None [7] 1 1" None 8] by (simp add: two_defs)
  moreover have "pool_step (?p (Some Ready) (Some Ready) [7, 8] 2 2) (Begin 7) (?p (Some (Running 7)) (Some Ready) [8] 1 2)"
    using pool_step.worker [OF worker_step.take [of "?p (Some Ready) (Some Ready) [7, 8] 2 2" 0 None]] by (simp add: two_defs)
  moreover have "pool_step (?p (Some (Running 7)) (Some Ready) [8] 1 2) (Begin 8) (?p (Some (Running 7)) (Some (Running 8)) [] 0 2)"
    using pool_step.worker [OF worker_step.take [of "?p (Some (Running 7)) (Some Ready) [8] 1 2" 1 None]] by (simp add: two_defs)
  moreover have "pool_step (?p (Some (Running 7)) (Some (Running 8)) [] 0 2) (End 7) (?p (Some Ready) (Some (Running 8)) [] 1 2)"
    using pool_step.worker [OF worker_step.finish [of "?p (Some (Running 7)) (Some (Running 8)) [] 0 2" 0 7]] by (simp add: two_defs)
  moreover have "pool_step (?p (Some Ready) (Some (Running 8)) [] 1 2) (End 8) (?p (Some Ready) (Some Ready) [] 2 2)"
    using pool_step.worker [OF worker_step.finish [of "?p (Some Ready) (Some (Running 8)) [] 1 2" 1 8]] by (simp add: two_defs)
  ultimately show ?thesis
    by (auto intro!: pool_run.snoc [of _ "[]", simplified] pool_run.snoc [of _ "[a]" for a, simplified]
      pool_run.snoc [of _ "[a, b]" for a b, simplified] pool_run.snoc [of _ "[a, b, c]" for a b c, simplified]
      pool_run.snoc [of _ "[a, b, c, d]" for a b c d, simplified] pool_run.snoc [of _ "[a, b, c, d, e]" for a b c d e, simplified] pool_run.nil)
qed

lemma two_pool_hangs:
  "\<exists>es. pool_run (two_pool (Some Ready) (Some Ready) [] 2 2 2 Alive False) es (two_pool None None [] 1 1 2 Draining False)"
proof -
  let ?p = "\<lambda>a b. two_pool a b [] 2 2 2"
  have "pool_step (?p (Some Ready) (Some Ready) Alive False) Tau (?p (Some Ready) (Some Sleeping) Alive False)"
    using pool_step.worker [OF worker_step.idle [of "?p (Some Ready) (Some Ready) Alive False" 1]] by (simp add: two_defs)
  moreover have "pool_step (?p (Some Ready) (Some Sleeping) Alive False) Tau (?p (Some Ready) (Some TimedOut) Alive False)"
    using pool_step.worker [OF worker_step.timeout [of "?p (Some Ready) (Some Sleeping) Alive False" 1]] by (simp add: two_defs)
  moreover have "pool_step (?p (Some Ready) (Some TimedOut) Alive False) Tau (?p (Some Ready) (Some TimedOut) Stopping False)"
    using pool_step.stop [of "?p (Some Ready) (Some TimedOut) Alive False"] by (simp add: two_defs)
  moreover have "pool_step (?p (Some Ready) (Some TimedOut) Stopping False) Tau (?p (Some Ready) (Some TimedOut) Draining True)"
    using pool_step.drain [of "?p (Some Ready) (Some TimedOut) Stopping False"] by (simp add: two_defs)
  moreover have "pool_step (?p (Some Ready) (Some TimedOut) Draining True) Tau (?p None (Some TimedOut) Draining True)"
    using pool_step.worker [OF worker_step.idle [of "?p (Some Ready) (Some TimedOut) Draining True" 0]] by (simp add: two_defs)
  moreover have "pool_step (?p None (Some TimedOut) Draining True) Tau (?p None (Some TimedOut) Draining False)"
    using pool_step.check [of "?p None (Some TimedOut) Draining True"] by (simp add: two_defs)
  moreover have "pool_step (?p None (Some TimedOut) Draining False) Tau (two_pool None None [] 1 1 2 Draining False)"
    using pool_step.worker [OF worker_step.expire [of "?p None (Some TimedOut) Draining False" 1 True]] by (simp add: two_defs)
  ultimately show ?thesis by (meson pool_run.nil pool_run.snoc)
qed

lemma asleep_stays: "tp_threads p = Map.empty \<Longrightarrow> tp_closing p = Draining \<Longrightarrow> \<not> tp_over p \<Longrightarrow> \<not> pool_step p e p'"
  by (auto elim!: pool_step.cases worker_step.cases)

text \<open>
  In the mode \<open>CACHE\<close> the destructor may wait forever: a thread that ends because it was idle for too long
  does not notify it, and when this is the last thread no step is left although the destructor has not
  returned.
\<close>

theorem cached_destructor_hangs:
  "\<exists>p0 es p. pool_start 1 (fresh_pool 0 CACHE 5 100 :: nat thread_pool) = Some p0 \<and> pool_run p0 es p
    \<and> tp_closing p = Draining \<and> tp_threads p = Map.empty \<and> (\<forall>e p'. \<not> pool_step p e p')"
proof -
  let ?p0 = "two_pool (Some Ready) None [] 1 1 1 Alive False" and ?p = "two_pool None None [] 1 1 2 Draining False"
  have trans: "pool_run a (es @ es') c" if "pool_run b es' c" "pool_run a es b" for a b c :: "nat thread_pool" and es es'
    using that by (induction rule: pool_run.induct) (auto simp: pool_run.snoc simp flip: append_assoc)
  have e: "tp_threads ?p = Map.empty" "tp_closing ?p = Draining" "\<not> tp_over ?p" by (auto simp: two_pool_def two_def)
  with asleep_stays have "\<not> pool_step ?p e p'" for e p' by blast
  moreover obtain es where "pool_run (two_pool (Some Ready) (Some Ready) [] 2 2 2 Alive False) es ?p" using two_pool_hangs by blast
  note trans [OF this two_pool_works]
  ultimately show ?thesis using two_pool_start e(1,2) by blast
qed

end
