(* ===== verification/Chat_Server.thy ===== *)
theory Chat_Server
  imports Chat_Service Thread_Pool
begin

text \<open>
  The chat server around its service: \<open>chatserver.cpp\<close>, which turns the data of connections into tasks
  of the thread pool, and \<open>Main.cpp\<close> with the class \<open>MySQL\<close> that its signal handler uses.
\<close>

subsection \<open>ChatServer\<close>

text \<open>A task: the connection and the handler with its request.\<close>

type_synonym chat_task = "nat \<times> int \<times> json"

text \<open>The service is a static object that the first call of \<open>getInstance\<close> builds from what it finds.\<close>

record ('w, 'r) chat_server =
  srv_pool :: "chat_task thread_pool"
  srv_service :: "('w, 'r) chat_service option"
  srv_backend :: "'w backend"
  srv_rworld :: 'r

text \<open>The constructor; \<open>None\<close> is the crash of \<open>start\<close>. \<open>up\<close> is the next thread id of the process.\<close>

definition ChatServer :: "int \<Rightarrow> 'w backend \<Rightarrow> 'r \<Rightarrow> ('w, 'r) chat_server option" where
  "ChatServer up bk r = map_option (\<lambda>p. \<lparr>srv_pool = p, srv_service = None, srv_backend = bk, srv_rworld = r\<rparr>)
     (pool_start 4 (setMode CACHE (ThreadPool up)))"

definition getInstance :: "('w, 'r) chat_libs \<Rightarrow> ('w, 'r) chat_server \<Rightarrow> ('w, 'r) chat_service" where
  "getInstance L srv = (case srv_service srv of Some s \<Rightarrow> s | None \<Rightarrow> ChatService L (srv_backend srv) (srv_rworld srv))"

text \<open>
  \<open>onConnection\<close> and \<open>onMessage\<close> run in a thread of the network library; an exception that leaves them ends
  the process. \<open>w\<close> is the thread that the submission wakes.
\<close>

definition onConnection ::
  "('w, 'r) chat_libs \<Rightarrow> (nat \<Rightarrow> int) \<Rightarrow> int list \<Rightarrow> nat \<Rightarrow> bool \<Rightarrow> (unit, ('w, 'r) chat_server) action" where
  "onConnection L now order conn online_now srv =
     (if online_now then (Inr (), srv)
      else let (x, s) = clientColse L now order conn (getInstance L srv) in (x, srv\<lparr>srv_service := Some s\<rparr>))"

definition onMessage ::
  "('w, 'r) chat_libs \<Rightarrow> (string \<Rightarrow> chat_exn + json) \<Rightarrow> int option \<Rightarrow> nat \<Rightarrow> string \<Rightarrow> (bool, ('w, 'r) chat_server) action" where
  "onMessage L parse w conn buf srv =
     (case parse buf of
        Inl e \<Rightarrow> (Inl e, srv)
      | Inr js \<Rightarrow> (case json_at js ''msgtype'' of Inl e \<Rightarrow> (Inl e, srv) | Inr v \<Rightarrow>
         (case json_int v of Inl e \<Rightarrow> (Inl e, srv)
          | Inr msgtype \<Rightarrow>
              let srv = srv\<lparr>srv_service := Some (getInstance L srv)\<rparr>;
                  (ok, p) = submitTask (conn, msgtype, js) w (srv_pool srv)
              in (Inr ok, srv\<lparr>srv_pool := p\<rparr>))))"

text \<open>
  A task in a thread of the pool. The task keeps an exception for a future that nobody reads; what is
  undefined ends the process.
\<close>

definition fatal :: "chat_exn \<Rightarrow> bool" where
  "fatal e \<longleftrightarrow> e = Null_deref \<or> e = Out_of_bounds"

definition run_task :: "('w, 'r) chat_libs \<Rightarrow> (nat \<Rightarrow> int) \<Rightarrow> chat_task \<Rightarrow> (unit, ('w, 'r) chat_server) action" where
  "run_task L now t srv = (case t of (conn, msgtype, js) \<Rightarrow>
     let (x, s) = getHandler L msgtype now conn js (getInstance L srv)
     in (case x of Inl e \<Rightarrow> if fatal e then Inl e else Inr () | Inr u \<Rightarrow> Inr (), srv\<lparr>srv_service := Some s\<rparr>))"

subsection \<open>The class MySQL\<close>

text \<open>\<open>mysql_query\<close> and \<open>mysql_store_result\<close> on the handles of the library.\<close>

record 'w query_api =
  mq_query :: "nat \<Rightarrow> string \<Rightarrow> 'w \<Rightarrow> bool \<times> 'w"
  mq_store_result :: "nat \<Rightarrow> 'w \<Rightarrow> nat option \<times> 'w"

text \<open>How a piece of the program ends: it goes on, or the process exits.\<close>

datatype 'a outcome = Goes_on 'a | Exits int

text \<open>The call that sets the character set has no effect on what is modelled.\<close>

definition MySQL :: "'w mysql_api \<Rightarrow> 'w \<Rightarrow> nat outcome \<times> 'w" where
  "MySQL api w = (case my_init api w of (None, w) \<Rightarrow> (Exits (- 1), w) | (Some h, w) \<Rightarrow> (Goes_on h, w))"

definition destroy_MySQL :: "'w mysql_api \<Rightarrow> nat \<Rightarrow> 'w \<Rightarrow> 'w" where
  "destroy_MySQL api h w = my_close api h w"

definition mysql_connect :: "'w mysql_api \<Rightarrow> nat \<Rightarrow> 'w \<Rightarrow> bool \<times> 'w" where
  "mysql_connect api h w = my_real_connect api h (''127.0.0.1'', ''hsjr'', ''123456'', ''chat'', 3306) w"

definition mysql_update :: "'w query_api \<Rightarrow> nat \<Rightarrow> string \<Rightarrow> 'w \<Rightarrow> bool \<times> 'w" where
  "mysql_update q h sql w = mq_query q h (cstr sql) w"

definition mysql_select :: "'w query_api \<Rightarrow> nat \<Rightarrow> string \<Rightarrow> 'w \<Rightarrow> nat option \<times> 'w" where
  "mysql_select q h sql w = (let (ok, w) = mq_query q h (cstr sql) w in if \<not> ok then (None, w) else mq_store_result q h w)"

subsection \<open>Main\<close>

text \<open>
  The handler of the interrupt signal. Only when the database can be reached does it end the process;
  otherwise it returns, and closes its connection on the way.
\<close>

definition sql_all_offline :: string where
  "sql_all_offline = ''UPDATE user SET state=''@ [CHR 0x27] @ ''offline'' @ [CHR 0x27] @ '' WHERE state='' @ [CHR 0x27] @ ''online'' @ [CHR 0x27] @ '';''"

definition handlerfun :: "'w mysql_api \<Rightarrow> 'w query_api \<Rightarrow> 'w \<Rightarrow> unit outcome \<times> 'w" where
  "handlerfun api q w =
     (case MySQL api w of
        (Exits n, w) \<Rightarrow> (Exits n, w)
      | (Goes_on h, w) \<Rightarrow> let (ok, w) = mysql_connect api h w in
          if ok then (Exits 0, snd (mysql_update q h sql_all_offline w)) else (Goes_on (), destroy_MySQL api h w))"

definition server_address :: "string list \<Rightarrow> string \<times> uint16" where
  "server_address argv = (case argv of [prog, ip, port] \<Rightarrow> (ip, to_uint16 (atoi port)) | _ \<Rightarrow> (''127.0.0.1'', 8080))"

text \<open>\<open>main\<close> up to the event loop: the address and the server that listens on it.\<close>

definition server_main :: "string list \<Rightarrow> 'w backend \<Rightarrow> 'r \<Rightarrow> (string \<times> uint16) \<times> ('w, 'r) chat_server option" where
  "server_main argv bk r = (server_address argv, ChatServer 0 bk r)"

subsection \<open>What the server survives\<close>

lemma onMessage_ok:
  assumes "parse buf = Inr js" and "json_at js ''msgtype'' = Inr v" and "json_int v = Inr t"
  shows "onMessage L parse w conn buf srv = (Inr (fst (submitTask (conn, t, js) w (srv_pool srv))),
    srv\<lparr>srv_service := Some (getInstance L srv), srv_pool := snd (submitTask (conn, t, js) w (srv_pool srv))\<rparr>)"
  using assms by (simp add: onMessage_def Let_def case_prod_unfold)

text \<open>A handler that throws does not end the process; the interrupt does not end it without a database.\<close>

lemma handler_exception_contained:
  "fst (getHandler L t now conn js (getInstance L srv)) = Inl e \<Longrightarrow> \<not> fatal e \<Longrightarrow> fst (run_task L now (conn, t, js) srv) = Inr ()"
  by (auto simp: run_task_def Let_def case_prod_unfold)

lemma interrupt_ignored:
  assumes "my_init api w = (Some h, w1)" and "fst (mysql_connect api h w1) = False"
  shows "fst (handlerfun api q w) = Goes_on ()"
  using assms by (simp add: handlerfun_def MySQL_def Let_def case_prod_unfold)

text \<open>The server accepts requests until the queue of the pool holds five.\<close>

lemma ChatServer_starts: "\<exists>srv. ChatServer 0 bk r = Some srv \<and> pool_ok 5 4 (srv_pool srv) \<and> tp_mode (srv_pool srv) = CACHE"
proof -
  have e: "setMode CACHE (ThreadPool 0) = (fresh_pool 0 CACHE 5 100 :: chat_task thread_pool)"
    by (simp add: fresh_pool_def setMode_def settaskMaxSize_def setmaxThreadSize_def ThreadPool_def)
  obtain p :: "chat_task thread_pool" where p: "pool_start 4 (fresh_pool 0 CACHE 5 100) = Some p" "tp_mode p = CACHE"
    using start_threads [of 4 CACHE 5 100] by fastforce
  with pool_start_ok [OF p(1)] e show ?thesis by (auto simp: ChatServer_def)
qed

end
