(* ===== verification/Chat_Threads.thy ===== *)
theory Chat_Threads
  imports Service_Props
begin

text \<open>
  Handlers that run in parallel. The thread pool executes the handlers of several requests at once, so
  a handler is a sequence of sections: a call that goes to the database, a block under \<open>_connMutex\<close>, a
  request to the Redis client, a text handed to a connection. Here the handlers for logging in, for
  messages and for lost connections are programs of such sections, which executed in one go are the
  handlers of the service, and interleavings of programs are the executions of the server.
\<close>

subsection \<open>Programs\<close>

datatype ('a, 's) prog = Ret 'a | Fail chat_exn | Act "'s \<Rightarrow> ('a, 's) prog \<times> 's"

text \<open>A section and what follows it; a computation of the thread on its own.\<close>

definition sect :: "('a, 's) action \<Rightarrow> ('a \<Rightarrow> ('b, 's) prog) \<Rightarrow> ('b, 's) prog" where
  "sect f k = Act (\<lambda>s. case f s of (Inl e, s') \<Rightarrow> (Fail e, s') | (Inr x, s') \<Rightarrow> (k x, s'))"

definition alone :: "chat_exn + 'a \<Rightarrow> ('a \<Rightarrow> ('b, 's) prog) \<Rightarrow> ('b, 's) prog" where
  "alone x k = (case x of Inl e \<Rightarrow> Fail e | Inr v \<Rightarrow> k v)"

text \<open>Execution without interruption.\<close>

primrec run :: "('a, 's) prog \<Rightarrow> ('a, 's) action" where
  "run (Ret x) s = (Inr x, s)"
| "run (Fail e) s = (Inl e, s)"
| "run (Act g) s = (case map_prod run id (g s) of (r, s') \<Rightarrow> r s')"

lemma run_sect: "run (sect f k) = act_bind f (\<lambda>x. run (k x))"
  by (auto simp: sect_def act_bind_def fun_eq_iff split: prod.split sum.split)

lemma run_alone: "run (alone x k) = act_bind (check x) (\<lambda>v. run (k v))"
  by (auto simp: alone_def act_bind_def check_def fun_eq_iff split: sum.split)

text \<open>Interleaving: one of the programs executes its next section.\<close>

inductive par_step :: "('a, 's) prog list \<times> 's \<Rightarrow> ('a, 's) prog list \<times> 's \<Rightarrow> bool" where
  "i < length ps \<Longrightarrow> ps ! i = Act g \<Longrightarrow> g s = (p, s') \<Longrightarrow> par_step (ps, s) (ps[i := p], s')"

inductive_cases par_stepE: "par_step (ps, s) y"

fun schedule :: "nat list \<Rightarrow> ('a, 's) prog list \<times> 's \<Rightarrow> ('a, 's) prog list \<times> 's" where
  "schedule [] x = x"
| "schedule (i # is) (ps, s) =
     (if i < length ps then (case ps ! i of Act g \<Rightarrow> (case g s of (p, s') \<Rightarrow> schedule is (ps[i := p], s')) | _ \<Rightarrow> schedule is (ps, s))
      else schedule is (ps, s))"

lemma schedule_steps: "par_step\<^sup>*\<^sup>* x (schedule is x)"
proof (induction "is" x rule: schedule.induct)
  case (2 i "is" ps s)
  show ?case
  proof (cases "i < length ps \<and> (\<exists>g. ps ! i = Act g)")
    case True
    then obtain g p s' where g: "i < length ps" "ps ! i = Act g" "g s = (p, s')" by (metis surj_pair)
    have "par_step (ps, s) (ps[i := p], s')" using g by (rule par_step.intros)
    moreover have "par_step\<^sup>*\<^sup>* (ps[i := p], s') (schedule is (ps[i := p], s'))" using "2.IH"(3) [OF g(1,2) g(3) [symmetric]] by simp
    ultimately show ?thesis using g by (simp add: converse_rtranclp_into_rtranclp)
  next
    case False
    then show ?thesis using "2.IH" by (auto split: prog.split)
  qed
qed simp

subsection \<open>The handlers in sections\<close>

definition int_of :: "json \<Rightarrow> string \<Rightarrow> chat_exn + int" where
  "int_of js k = (case json_at js k of Inl e \<Rightarrow> Inl e | Inr v \<Rightarrow> json_int v)"

definition str_of :: "json \<Rightarrow> string \<Rightarrow> chat_exn + string" where
  "str_of js k = (case json_at js k of Inl e \<Rightarrow> Inl e | Inr v \<Rightarrow> json_string v)"

definition text_of :: "('w, 'r) chat_libs \<Rightarrow> json \<Rightarrow> chat_exn + string" where
  "text_of L js = (case lib_dump L js of None \<Rightarrow> Inl Json_error | Some t \<Rightarrow> Inr t)"

primrec send_prog :: "('w, 'r) chat_libs \<Rightarrow> nat \<Rightarrow> json list \<Rightarrow> (unit, ('w, 'r) chat_service) prog" where
  "send_prog L conn [] = Ret ()"
| "send_prog L conn (j # js) = alone (text_of L j) (\<lambda>t. sect (send conn t) (\<lambda>_. send_prog L conn js))"

definition fetch_prog :: "('w, 'r) chat_libs \<Rightarrow> (nat \<Rightarrow> int) \<Rightarrow> nat \<Rightarrow> int \<Rightarrow> (unit, ('w, 'r) chat_service) prog" where
  "fetch_prog L now conn i = sect (on_backend (getofflineMessage (lib_mysql L) (now 2) i)) (\<lambda>m. send_prog L conn (map (offline_json i) m))"

definition login_ack :: "user \<Rightarrow> json" where
  "login_ack user = json_object [(''msgtype'', JInt (msg_code LOGIN_ACK)), (''error'', JInt 0), (''name'', JStr (us_name user))]"

definition ack_prog :: "('w, 'r) chat_libs \<Rightarrow> (nat \<Rightarrow> int) \<Rightarrow> nat \<Rightarrow> int \<Rightarrow> user \<Rightarrow> (unit, ('w, 'r) chat_service) prog" where
  "ack_prog L now conn i user = alone (text_of L (login_ack user)) (\<lambda>t. sect (send conn t) (\<lambda>_. fetch_prog L now conn i))"

definition online_prog :: "('w, 'r) chat_libs \<Rightarrow> (nat \<Rightarrow> int) \<Rightarrow> nat \<Rightarrow> int \<Rightarrow> user \<Rightarrow> (unit, ('w, 'r) chat_service) prog" where
  "online_prog L now conn i user = sect (on_backend (updateStates (lib_mysql L) (now 1) i ''online'')) (\<lambda>_. ack_prog L now conn i user)"

definition subscribe_prog :: "('w, 'r) chat_libs \<Rightarrow> (nat \<Rightarrow> int) \<Rightarrow> nat \<Rightarrow> int \<Rightarrow> user \<Rightarrow> (unit, ('w, 'r) chat_service) prog" where
  "subscribe_prog L now conn i user = sect (change (\<lambda>s. s\<lparr>sv_redis := snd (subscribe i (sv_redis s))\<rparr>)) (\<lambda>_. online_prog L now conn i user)"

definition enter_prog :: "('w, 'r) chat_libs \<Rightarrow> (nat \<Rightarrow> int) \<Rightarrow> nat \<Rightarrow> int \<Rightarrow> user \<Rightarrow> (unit, ('w, 'r) chat_service) prog" where
  "enter_prog L now conn i user = sect (change (\<lambda>s. s\<lparr>sv_conns := (sv_conns s)(i \<mapsto> conn)\<rparr>)) (\<lambda>_. subscribe_prog L now conn i user)"

definition login_prog :: "('w, 'r) chat_libs \<Rightarrow> (nat \<Rightarrow> int) \<Rightarrow> nat \<Rightarrow> json \<Rightarrow> (unit, ('w, 'r) chat_service) prog" where
  "login_prog L now conn js = alone (int_of js ''id'') (\<lambda>i. alone (str_of js ''password'') (\<lambda>pwd.
     sect (on_backend (um_query (lib_mysql L) (now 0) i)) (\<lambda>user.
     if us_id user \<noteq> - 1 \<and> us_pwd user = pwd then
       if us_state user = ''offline'' then enter_prog L now conn i user
       else send_prog L conn [login_error already_online_text]
     else send_prog L conn [login_error bad_login_text])))"

definition publish_prog :: "('w, 'r) chat_libs \<Rightarrow> int \<Rightarrow> string \<Rightarrow> (unit, ('w, 'r) chat_service) prog" where
  "publish_prog L toid t = sect (change (\<lambda>s. s\<lparr>sv_rworld := snd (publish (lib_redis L) toid t (sv_redis s) (sv_rworld s))\<rparr>)) (\<lambda>_. Ret ())"

definition elsewhere_prog :: "('w, 'r) chat_libs \<Rightarrow> (nat \<Rightarrow> int) \<Rightarrow> int \<Rightarrow> json \<Rightarrow> (unit, ('w, 'r) chat_service) prog" where
  "elsewhere_prog L now toid js = sect (on_backend (um_query (lib_mysql L) (now 1) toid)) (\<lambda>user.
     if us_id user \<noteq> - 1 \<and> us_state user = ''online'' then alone (text_of L js) (publish_prog L toid) else Ret ())"

text \<open>The block under \<open>_connMutex\<close>: the result says whether the receiver has a connection here.\<close>

definition send_here :: "('w, 'r) chat_libs \<Rightarrow> int \<Rightarrow> json \<Rightarrow> (bool, 'w, 'r) service_act" where
  "send_here L toid js s = (case sv_conns s toid of
     Some c \<Rightarrow> act_bind (send_json L c js) (\<lambda>_. act_return True) s
   | None \<Rightarrow> (Inr False, s))"

definition here_prog :: "('w, 'r) chat_libs \<Rightarrow> (nat \<Rightarrow> int) \<Rightarrow> int \<Rightarrow> json \<Rightarrow> (unit, ('w, 'r) chat_service) prog" where
  "here_prog L now toid js = sect (send_here L toid js) (\<lambda>found. if found then Ret () else elsewhere_prog L now toid js)"

definition stamped :: "json \<Rightarrow> message \<Rightarrow> json" where
  "stamped js m = json_set ''time'' (JStr (ms_time m)) (json_set ''messageID'' (JInt (ms_msgid m)) js)"

definition message_prog :: "('w, 'r) chat_libs \<Rightarrow> (nat \<Rightarrow> int) \<Rightarrow> nat \<Rightarrow> json \<Rightarrow> (unit, ('w, 'r) chat_service) prog" where
  "message_prog L now conn js = alone (int_of js ''fromid'') (\<lambda>fromid. alone (int_of js ''toid'') (\<lambda>toid. alone (str_of js ''message'') (\<lambda>text.
     sect (on_backend (insertMessage (lib_mysql L) (now 0) fromid toid text)) (\<lambda>m.
     if ms_msgid m = - 1 then Ret () else here_prog L now toid (stamped js m)))))"

text \<open>The block of \<open>clientColse\<close> under the mutex includes the request to the Redis client.\<close>

definition leave :: "int list \<Rightarrow> nat \<Rightarrow> (int, 'w, 'r) service_act" where
  "leave order conn s = (case close_id order conn (sv_conns s) of
     Some i \<Rightarrow> (Inr i, s\<lparr>sv_conns := (sv_conns s)(i := None), sv_redis := snd (unsubscribe i (sv_redis s))\<rparr>)
   | None \<Rightarrow> (Inr 0, s))"

definition close_prog :: "('w, 'r) chat_libs \<Rightarrow> (nat \<Rightarrow> int) \<Rightarrow> int list \<Rightarrow> nat \<Rightarrow> (unit, ('w, 'r) chat_service) prog" where
  "close_prog L now order conn = sect (leave order conn) (\<lambda>i.
     sect (on_backend (updateStates (lib_mysql L) (now 0) i ''offline'')) (\<lambda>_. Ret ()))"

subsection \<open>Sections in one go are the handlers\<close>

lemma check_of:
  "check (int_of js k) = get_int js k" "check (str_of js k) = get_str js k" "check (text_of L j) = dump_json L j"
  by (simp_all add: int_of_def str_of_def text_of_def get_int_def get_str_def dump_json_def)

lemma run_Ret: "run (Ret x) = act_return x"
  by (simp add: fun_eq_iff)

lemma act_bind_assoc: "act_bind (act_bind m f) g = act_bind m (\<lambda>x. act_bind (f x) g)"
  by (auto simp: act_bind_def fun_eq_iff split: prod.split sum.split)

lemma act_bind_unit: "act_bind m act_return = m"
  by (auto simp: act_bind_def fun_eq_iff act_return_def split: prod.split sum.split)

lemma run_send: "run (send_prog L conn js) = send_all L conn js"
  by (induction js) (simp_all add: run_Ret run_alone run_sect check_of send_json_def act_bind_assoc)

lemma send_all_one: "send_all L conn [j] = send_json L conn j"
  using act_bind_unit [of "send_json L conn j"] by simp

lemma run_if: "run (if b then p else q) = (if b then run p else run q)"
  by simp

lemmas run_simps = run_Ret run_sect run_alone run_send run_if check_of send_all_one act_bind_unit

theorem login_sections: "run (login_prog L now conn js) = login L now conn js"
  unfolding login_prog_def login_def enter_prog_def subscribe_prog_def online_prog_def ack_prog_def fetch_prog_def login_ack_def
  by (simp add: run_simps send_json_def act_bind_assoc del: send_all.simps cong: if_cong)

theorem message_sections: "run (message_prog L now conn js) = onemessage L now conn js"
  unfolding message_prog_def onemessage_def here_prog_def elsewhere_prog_def publish_prog_def stamped_def
  by (auto simp: run_simps Let_def fun_eq_iff act_bind_def send_here_def check_of act_return_def
      split: option.split prod.split sum.split intro!: ext)

theorem close_sections: "run (close_prog L now order conn) = clientColse L now order conn"
  by (auto simp: close_prog_def clientColse_def run_simps fun_eq_iff act_bind_def leave_def change_def split: option.split)

end
