(* ===== verification/Chat_Delivery.thy ===== *)
theory Chat_Delivery
  imports Chat_Threads
begin

text \<open>
  A user logs in while others send messages. The handler for logging in and any number of handlers for
  messages run in parallel; however their sections interleave, all of them return, and every message for
  the user that was stored meanwhile was sent on the new connection, by the handler of the message or
  by the login, which fetches what is unread after it entered the connection in the table.
\<close>

subsection \<open>Executions end\<close>

inductive_set rest_of :: "(('a, 's) prog \<times> ('a, 's) prog) set" where
  "g s = (p, s') \<Longrightarrow> (p, Act g) \<in> rest_of"

inductive_cases rest_of_cases: "(p, Ret x) \<in> rest_of" "(p, Fail e) \<in> rest_of" "(p, Act g) \<in> rest_of"

lemma wf_rest_of: "wf rest_of"
proof (rule wfUNIVI)
  fix P and p :: "('a, 's) prog" assume step: "\<forall>p :: ('a, 's) prog. (\<forall>q. (q, p) \<in> rest_of \<longrightarrow> P q) \<longrightarrow> P p"
  show "P p"
  proof (induction p)
    case (Act g)
    have "P q" if q: "(q, Act g) \<in> rest_of" for q
    proof -
      from q obtain s s' where "g s = (q, s')" by (rule rest_of_cases) blast
      then show ?thesis using Act [of "g s" q] rangeI [of g s] by (simp add: prod_set_defs)
    qed
    then show ?case using step by blast
  qed (use step in \<open>blast elim: rest_of_cases\<close>)+
qed

lemma par_step_rest: "par_step x y \<Longrightarrow> (fst y, fst x) \<in> listrel1 rest_of"
proof (induction rule: par_step.induct)
  case (1 i ps g s p s')
  then have "(p, ps ! i) \<in> rest_of" by (auto intro: rest_of.intros)
  then have "(ps[i := p], ps) \<in> listrel1 rest_of"
    using \<open>i < length ps\<close> by (metis listrel1I upd_conv_take_nth_drop id_take_nth_drop)
  then show ?case by simp
qed

lemma par_step_ends: "\<exists>y. par_step\<^sup>*\<^sup>* x y \<and> (\<nexists>z. par_step y z)"
proof -
  have "wf (inv_image (listrel1 rest_of) fst)" by (intro wf_inv_image) (simp add: wf_rest_of)
  then show ?thesis
  proof (induction x rule: wf_induct_rule)
    case (less x)
    show ?case
    proof (cases "\<exists>z. par_step x z")
      case True
      then obtain z where z: "par_step x z" by blast
      then have "(z, x) \<in> inv_image (listrel1 rest_of) fst" by (simp add: par_step_rest)
      from less [OF this] z show ?thesis by (meson converse_rtranclp_into_rtranclp)
    qed blast
  qed
qed

lemma par_steps_length: "par_step\<^sup>*\<^sup>* x y \<Longrightarrow> length (fst y) = length (fst x)"
proof (induction rule: rtranclp_induct)
  case (step y z)
  from step(2) have "length (fst z) = length (fst y)" by (cases rule: par_step.cases) simp
  with step.IH show ?case by simp
qed simp

subsection \<open>Steps of the handlers\<close>

lemma sect_step: "sect f k = Act g \<Longrightarrow> g s = (p, s') \<Longrightarrow> f s = (Inr x, s'') \<Longrightarrow> p = k x \<and> s' = s''"
  by (auto simp: sect_def)

lemma backend_sect:
  "sect (on_backend f) k = Act g \<Longrightarrow> g s = (p, s') \<Longrightarrow> f (sv_backend s) = (Inr x, bk) \<Longrightarrow> p = k x \<and> s' = s\<lparr>sv_backend := bk\<rparr>"
  by (auto simp: sect_def on_backend_def)

lemma alone_Inr [simp]: "alone (Inr v) k = k v"
  by (simp add: alone_def)

lemma of_step:
  "json_at js k = Inr (JInt i) \<Longrightarrow> id_ok i \<Longrightarrow> int_of js k = Inr i"
  "json_at js k = Inr (JStr t) \<Longrightarrow> str_of js k = Inr t"
  by (simp_all add: int_of_def str_of_def id_ok_def signed_take_bit_int_eq_self)

definition is_message :: "json \<Rightarrow> bool" where
  "is_message js \<longleftrightarrow> (\<exists>f t body. json_at js ''fromid'' = Inr (JInt f) \<and> id_ok f \<and> json_at js ''toid'' = Inr (JInt t) \<and> id_ok t
     \<and> json_at js ''message'' = Inr (JStr body) \<and> short_text body) \<and> json_utf8 js"

definition request_of :: "msg_row \<Rightarrow> json \<Rightarrow> bool" where
  "request_of r jm \<longleftrightarrow> json_at jm ''fromid'' = Inr (JInt (mr_from r)) \<and> json_at jm ''toid'' = Inr (JInt (mr_to r))
     \<and> json_at jm ''message'' = Inr (JStr (mr_content r))"

text \<open>The stored message as it is sent: by the login or by the handler of the message.\<close>

definition delivered :: "(json \<Rightarrow> string) \<Rightarrow> json set \<Rightarrow> nat \<Rightarrow> (nat \<times> string) list \<Rightarrow> msg_row \<Rightarrow> bool" where
  "delivered enc jms c out r \<longleftrightarrow> (c, enc (offline_json (mr_to r) (message_of r))) \<in> set out
     \<or> (\<exists>jm \<in> jms. request_of r jm \<and> (c, enc (stamped jm (message_of r))) \<in> set out)"

lemma stamped_utf8: "json_utf8 jm \<Longrightarrow> utf8 (ms_time m) \<Longrightarrow> json_utf8 (stamped jm m)"
  unfolding stamped_def by (intro json_utf8_set) simp_all

context chat_env
begin

definition steady :: "('w, 'r) chat_service \<Rightarrow> bool" where
  "steady s \<longleftrightarrow> service_ok s \<and> (\<forall>m \<in> set (ct_messages (stabs s)). 0 < mr_id m)"

lemma text_of_enc [simp]: "json_utf8 j \<Longrightarrow> text_of L j = Inr (enc j)"
  by (simp add: text_of_def dump_utf8)

text \<open>A handler of a message: the stages it goes through.\<close>

inductive message_stage :: "json set \<Rightarrow> (unit, ('w, 'r) chat_service) prog \<Rightarrow> bool" for jms where
  "jm \<in> jms \<Longrightarrow> message_stage jms (message_prog L now conn jm)"
| "json_utf8 j \<Longrightarrow> message_stage jms (here_prog L now t j)"
| "json_utf8 j \<Longrightarrow> message_stage jms (elsewhere_prog L now t j)"
| "message_stage jms (publish_prog L t x)"
| "message_stage jms (Ret ())"

lemma here_step:
  assumes "here_prog L now t j = Act g" and "g s = (p, s')" and "json_utf8 j"
  shows "message_stage jms p \<and> s' = (case sv_conns s t of None \<Rightarrow> s | Some c \<Rightarrow> s\<lparr>sv_out := sv_out s @ [(c, enc j)]\<rparr>)"
proof (cases "sv_conns s t")
  case None
  then have "send_here L t j s = (Inr False, s)" by (simp add: send_here_def)
  from sect_step [OF assms(1) [unfolded here_prog_def] assms(2) this] None assms(3) show ?thesis by (simp add: message_stage.intros)
next
  case (Some c)
  then have "send_here L t j s = (Inr True, s\<lparr>sv_out := sv_out s @ [(c, enc j)]\<rparr>)"
    by (simp add: send_here_def act_bind_def send_json_step [OF dump_utf8 [OF assms(3)]] act_return_def)
  from sect_step [OF assms(1) [unfolded here_prog_def] assms(2) this] Some show ?thesis by (simp add: message_stage.intros)
qed

text \<open>A step of such a handler stores its message or leaves the messages alone.\<close>

definition message_step :: "json set \<Rightarrow> (unit, ('w, 'r) chat_service) prog \<Rightarrow> ('w, 'r) chat_service \<Rightarrow> ('w, 'r) chat_service \<Rightarrow> bool" where
  "message_step jms p s s' \<longleftrightarrow> message_stage jms p \<and> steady s' \<and> sv_conns s' = sv_conns s \<and> ct_users (stabs s') = ct_users (stabs s)
     \<and> set (sv_out s) \<subseteq> set (sv_out s')
     \<and> (ct_messages (stabs s') = ct_messages (stabs s) \<or>
         (\<exists>now jm r. ct_messages (stabs s') = ct_messages (stabs s) @ [r] \<and> \<not> mr_read r \<and> jm \<in> jms \<and> request_of r jm
            \<and> p = here_prog L now (mr_to r) (stamped jm (message_of r))))"

lemma insert_step:
  assumes "steady s" and "jm \<in> jms" and "is_message jm" and "message_prog L now conn jm = Act g" and "g s = (p, s')"
  shows "message_step jms p s s'"
proof -
  from assms(3) obtain f t body where j: "json_at jm ''fromid'' = Inr (JInt f)" "id_ok f" "json_at jm ''toid'' = Inr (JInt t)" "id_ok t"
    "json_at jm ''message'' = Inr (JStr body)" "short_text body" "json_utf8 jm" unfolding is_message_def by blast
  from insertMessage_ok [of "sv_backend s" "now 0" f t body] assms(1) obtain m bk where
    i: "insertMessage api (now 0) f t body (sv_backend s) = (Inr m, bk)" "backend_ok bk"
    "if ms_msgid m = 0 then m = setMsgid 0 Message \<and> tabs bk = stabs s
       else id_ok (ms_msgid m) \<and> time_text (ms_time m) \<and> m = setTime (ms_time m) (setMsgid (ms_msgid m) Message)
         \<and> 0 < ms_msgid m \<and> ms_msgid m \<notin> mr_id ` set (ct_messages (stabs s))
         \<and> tabs bk = (stabs s)\<lparr>ct_messages := ct_messages (stabs s) @ [\<lparr>mr_id = ms_msgid m, mr_from = f, mr_to = t,
             mr_content = body, mr_read = False, mr_time = ms_time m\<rparr>]\<rparr>" unfolding steady_def by (metis (no_types, lifting))
  have m: "ms_msgid m \<noteq> - 1" using i(3) by (auto split: if_splits)
  have "message_prog L now conn jm = sect (on_backend (insertMessage api (now 0) f t body))
      (\<lambda>m. if ms_msgid m = - 1 then Ret () else here_prog L now t (stamped jm m))"
    using j by (simp add: message_prog_def of_step lib_mysql)
  from backend_sect [OF this [symmetric, unfolded assms(4)] assms(5) i(1)] m
  have p: "p = here_prog L now t (stamped jm m)" "s' = s\<lparr>sv_backend := bk\<rparr>" by simp_all
  have "utf8 (ms_time m)"
  proof (cases "ms_msgid m = 0")
    case True
    then have "m = setMsgid 0 Message" using i(3) by simp
    from arg_cong [OF this, of ms_time] show ?thesis by (simp add: setMsgid_def Message_def utf8_ascii)
  qed (use i(3) time_text_utf8 in simp)
  then have "json_utf8 (stamped jm m)" by (rule stamped_utf8 [OF j(7)])
  then have stage: "message_stage jms (here_prog L now t (stamped jm m))" by (rule message_stage.intros)
  show ?thesis
  proof (cases "ms_msgid m = 0")
    case True
    then show ?thesis using i assms(1) stage by (simp add: message_step_def p steady_def)
  next
    case False
    let ?r = "\<lparr>mr_id = ms_msgid m, mr_from = f, mr_to = t, mr_content = body, mr_read = False, mr_time = ms_time m\<rparr>"
    have "stamped jm m = stamped jm (message_of ?r)" by (simp add: stamped_def message_of_def Message_of_def)
    moreover have "tables_fit (tabs bk)" "tables_utf8 (tabs bk)"
      using i(3) False assms(1) j(2,6) json_utf8_at [OF j(7,5)] tables_fit_add_message [of "stabs s" ?r]
        tables_utf8_add_message [of "stabs s" ?r]
      by (simp_all add: steady_def time_text_short time_text_utf8)
    ultimately show ?thesis using i j False assms(1,2) stage
      by (auto simp: message_step_def p steady_def request_of_def intro!: exI [of _ now] exI [of _ jm])
  qed
qed

lemma message_stage_step:
  assumes "steady s" and "message_stage jms q" and "\<forall>jm \<in> jms. is_message jm" and "q = Act g" and "g s = (p, s')"
  shows "message_step jms p s s'"
  using assms(2)
proof cases
  case (1 jm now conn)
  then show ?thesis using insert_step assms by blast
next
  case (2 j now t)
  then show ?thesis using here_step [of now t j g s p s' jms] assms
    by (auto simp: message_step_def steady_def split: option.splits)
next
  case (3 j now t)
  from um_query_ok [of "sv_backend s" "now 1" t] assms(1) obtain u bk where
    q: "um_query api (now 1) t (sv_backend s) = (Inr u, bk)" "backend_ok bk" "tabs bk = stabs s" unfolding steady_def by blast
  have "sect (on_backend (um_query api (now 1) t)) (\<lambda>user. if us_id user \<noteq> - 1 \<and> us_state user = ''online''
      then publish_prog L t (enc j) else Ret ()) = Act g"
    using 3 assms(4) by (simp add: elsewhere_prog_def lib_mysql cong: if_cong)
  from backend_sect [OF this assms(5) q(1)] q assms(1) show ?thesis
    by (simp add: message_step_def steady_def message_stage.intros)
next
  case (4 t x)
  then have "sect (change (\<lambda>s. s\<lparr>sv_rworld := snd (publish (lib_redis L) t x (sv_redis s) (sv_rworld s))\<rparr>)) (\<lambda>_. Ret ()) = Act g"
    using assms(4) by (simp add: publish_prog_def)
  from sect_step [OF this assms(5) change_run] assms(1) show ?thesis
    by (simp add: message_step_def steady_def message_stage.intros)
next
  case 5
  then show ?thesis using assms(4) by simp
qed

end

subsection \<open>A login among messages\<close>

datatype login_stage = Early | Middle | Late "json list"

locale login_and_messages = chat_env fetch api tables L enc
  for fetch :: "nat \<Rightarrow> string list \<Rightarrow> int \<times> string list" and api :: "'w mysql_api" and tables :: "'w \<Rightarrow> chat_tables"
    and L :: "('w, 'r) chat_libs" and enc :: "json \<Rightarrow> string" +
  fixes now :: "nat \<Rightarrow> int" and c :: nat and js :: json and t :: int and name pwd :: string and jms :: "json set"
  assumes login_id: "json_at js ''id'' = Inr (JInt t)" "id_ok t" and login_pwd: "json_at js ''password'' = Inr (JStr pwd)"
    and name_utf8: "utf8 name" and messages: "\<forall>jm \<in> jms. is_message jm"
begin

definition account :: user where
  "account = User t name pwd ''offline''"

lemma ack_utf8 [simp]: "json_utf8 (login_ack account)"
  by (simp add: login_ack_def account_def User_def json_object_def json_set_def name_utf8)

text \<open>The login before it enters its connection, before it has fetched the messages, and sending them.\<close>

definition early :: "('w, 'r) chat_service \<Rightarrow> (unit, ('w, 'r) chat_service) prog \<Rightarrow> bool" where
  "early s p \<longleftrightarrow> sv_conns s t = None \<and> (p = login_prog L now c js \<and> ct_users (stabs s) t = Some (name, pwd, ''offline'')
     \<or> p = enter_prog L now c t account)"

definition middle :: "('w, 'r) chat_service \<Rightarrow> (unit, ('w, 'r) chat_service) prog \<Rightarrow> bool" where
  "middle s p \<longleftrightarrow> sv_conns s t = Some c \<and>
     p \<in> {subscribe_prog L now c t account, online_prog L now c t account, ack_prog L now c t account, fetch_prog L now c t}"

definition late :: "json list \<Rightarrow> ('w, 'r) chat_service \<Rightarrow> (unit, ('w, 'r) chat_service) prog \<Rightarrow> bool" where
  "late rest s p \<longleftrightarrow> sv_conns s t = Some c \<and> p = send_prog L c rest \<and> (\<forall>j \<in> set rest. json_utf8 j)"

lemma early_step:
  assumes "steady s" and "early s q" and "q = Act g" and "g s = (p, s')"
  shows "steady s' \<and> (early s' p \<or> middle s' p) \<and> ct_messages (stabs s') = ct_messages (stabs s) \<and> sv_out s' = sv_out s"
proof (cases "q = enter_prog L now c t account")
  case True
  with assms(3) have "sect (change (\<lambda>s. s\<lparr>sv_conns := (sv_conns s)(t \<mapsto> c)\<rparr>)) (\<lambda>_. subscribe_prog L now c t account) = Act g"
    by (simp add: enter_prog_def)
  from sect_step [OF this assms(4) change_run] assms(1) show ?thesis by (simp add: steady_def middle_def)
next
  case False
  with assms(2) have q: "q = login_prog L now c js" "sv_conns s t = None" "ct_users (stabs s) t = Some (name, pwd, ''offline'')"
    by (auto simp: early_def)
  from um_query_ok [of "sv_backend s" "now 0" t] assms(1) q(3) obtain bk where
    u: "um_query api (now 0) t (sv_backend s) = (Inr account, bk)" "backend_ok bk" "tabs bk = stabs s"
    by (auto simp: steady_def account_def)
  have "sect (on_backend (um_query api (now 0) t)) (\<lambda>user.
     if us_id user \<noteq> - 1 \<and> us_pwd user = pwd then
       if us_state user = ''offline'' then enter_prog L now c t user
       else send_prog L c [login_error already_online_text]
     else send_prog L c [login_error bad_login_text]) = Act g"
    using q(1) assms(3) by (simp add: login_prog_def of_step login_id login_pwd lib_mysql)
  from backend_sect [OF this assms(4) u(1)] login_id(2) have "p = enter_prog L now c t account" "s' = s\<lparr>sv_backend := bk\<rparr>"
    by (auto simp: account_def User_def id_ok_def)
  with u q(2) assms(1) show ?thesis by (simp add: steady_def early_def)
qed

lemma middle_step:
  assumes "steady s" and "middle s q" and "q = Act g" and "g s = (p, s')"
  shows "steady s' \<and> ct_messages (stabs s') = ct_messages (stabs s) \<and> set (sv_out s) \<subseteq> set (sv_out s')
    \<and> (middle s' p \<or> (\<exists>rest. late rest s' p \<and> (\<forall>r \<in> set (unread_for t (stabs s')). offline_json t (message_of r) \<in> set rest)))"
proof -
  from assms(2) have t: "sv_conns s t = Some c" by (simp add: middle_def)
  consider "q = subscribe_prog L now c t account" | "q = online_prog L now c t account" | "q = ack_prog L now c t account"
    | "q = fetch_prog L now c t" using assms(2) by (auto simp: middle_def)
  then show ?thesis
  proof cases
    case 1
    with assms(3) have "sect (change (\<lambda>s. s\<lparr>sv_redis := snd (subscribe t (sv_redis s))\<rparr>)) (\<lambda>_. online_prog L now c t account) = Act g"
      by (simp add: subscribe_prog_def)
    from sect_step [OF this assms(4) change_run] assms(1) t show ?thesis by (simp add: steady_def middle_def)
  next
    case 2
    from updateStates_ok [of "sv_backend s" "now 1" t "''online''"] assms(1) obtain bk where
      u: "updateStates api (now 1) t ''online'' (sv_backend s) = (Inr True, bk)" "backend_ok bk" "tabs bk = set_user_state t ''online'' (stabs s)"
      by (auto simp: steady_def)
    have "ct_messages (tabs bk) = ct_messages (stabs s)" by (simp add: u set_user_state_def split: option.split)
    moreover have "tables_fit (tabs bk)" "tables_utf8 (tabs bk)"
      using assms(1) by (simp_all add: u steady_def tables_fit_set_state tables_utf8_set_state)
    moreover have "sect (on_backend (updateStates api (now 1) t ''online'')) (\<lambda>_. ack_prog L now c t account) = Act g"
      using 2 assms(3) by (simp add: online_prog_def lib_mysql)
    from backend_sect [OF this assms(4) u(1)] have "p = ack_prog L now c t account" "s' = s\<lparr>sv_backend := bk\<rparr>" by simp_all
    ultimately show ?thesis using u(2) assms(1) t by (simp add: steady_def middle_def)
  next
    case 3
    with assms(3) have "sect (send c (enc (login_ack account))) (\<lambda>_. fetch_prog L now c t) = Act g" by (simp add: ack_prog_def)
    from sect_step [OF this [unfolded send_def] assms(4) change_run] assms(1) t show ?thesis by (auto simp: steady_def middle_def)
  next
    case 4
    from getofflineMessage_ok [of "sv_backend s" "now 2" t] assms(1) obtain ms bk where
      m: "getofflineMessage api (now 2) t (sv_backend s) = (Inr ms, bk)" "backend_ok bk" "tabs bk = stabs s"
      "mset ms = mset (map message_of (unread_for t (stabs s)))" by (auto simp: steady_def)
    have "sect (on_backend (getofflineMessage api (now 2) t)) (\<lambda>m. send_prog L c (map (offline_json t) m)) = Act g"
      using 4 assms(3) by (simp add: fetch_prog_def lib_mysql)
    from backend_sect [OF this assms(4) m(1)] have p: "p = send_prog L c (map (offline_json t) ms)" "s' = s\<lparr>sv_backend := bk\<rparr>" by simp_all
    have "set ms = message_of ` set (unread_for t (stabs s))" using mset_eq_setD [OF m(4)] by simp
    moreover have "json_utf8 (offline_json t (message_of r))" if "r \<in> set (unread_for t (stabs s))" for r
      using that tables_utf8_message [of "stabs s" r] assms(1) by (simp add: json_utf8_offline steady_def unread_for_def)
    ultimately have "late (map (offline_json t) ms) s' p" "\<forall>r \<in> set (unread_for t (stabs s')). offline_json t (message_of r) \<in> set (map (offline_json t) ms)"
      using t m(3) by (simp_all add: late_def p)
    then show ?thesis using m(2,3) p(2) assms(1) by (auto simp: steady_def)
  qed
qed

lemma late_step:
  assumes "steady s" and "late rest s q" and "q = Act g" and "g s = (p, s')"
  obtains j rest' where "rest = j # rest'" "late rest' s' p" "s' = s\<lparr>sv_out := sv_out s @ [(c, enc j)]\<rparr>"
proof (cases rest)
  case Nil
  then show ?thesis using assms(2,3) by (simp add: late_def)
next
  case (Cons j rest')
  then have "sect (send c (enc j)) (\<lambda>_. send_prog L c rest') = Act g" using assms(2,3) by (simp add: late_def)
  from sect_step [OF this [unfolded send_def] assms(4) change_run] assms(2) show ?thesis
    by (intro that [OF Cons]) (auto simp: late_def Cons)
qed

text \<open>
  What is known of an unread message of the user: its handler has yet to look for the connection, the login
  has yet to fetch or to send it, or it was sent.
\<close>

definition at_stage :: "login_stage \<Rightarrow> ('w, 'r) chat_service \<Rightarrow> (unit, ('w, 'r) chat_service) prog \<Rightarrow> bool" where
  "at_stage st s p \<longleftrightarrow> (case st of Early \<Rightarrow> early s p | Middle \<Rightarrow> middle s p | Late rest \<Rightarrow> late rest s p)"

definition to_send :: "login_stage \<Rightarrow> json \<Rightarrow> bool" where
  "to_send st j \<longleftrightarrow> (case st of Late rest \<Rightarrow> j \<in> set rest | _ \<Rightarrow> True)"

definition on_its_way :: "login_stage \<Rightarrow> (unit, ('w, 'r) chat_service) prog list \<Rightarrow> ('w, 'r) chat_service \<Rightarrow> msg_row \<Rightarrow> bool" where
  "on_its_way st pms s r \<longleftrightarrow>
     (\<exists>now jm. jm \<in> jms \<and> request_of r jm \<and> here_prog L now t (stamped jm (message_of r)) \<in> set pms)
     \<or> to_send st (offline_json t (message_of r)) \<or> delivered enc jms c (sv_out s) r"

definition waiting :: "('w, 'r) chat_service \<Rightarrow> msg_row set" where
  "waiting s = set (unread_for t (stabs s))"

definition delivery_inv :: "(unit, ('w, 'r) chat_service) prog list \<times> ('w, 'r) chat_service \<Rightarrow> bool" where
  "delivery_inv x \<longleftrightarrow> (\<exists>st pl pms s. x = (pl # pms, s) \<and> steady s \<and> (\<forall>p \<in> set pms. message_stage jms p) \<and> at_stage st s pl
     \<and> (\<forall>r \<in> waiting s. on_its_way st pms s r))"

lemma delivered_mono: "delivered enc jms c out r \<Longrightarrow> set out \<subseteq> set out' \<Longrightarrow> delivered enc jms c out' r"
  unfolding delivered_def by blast

lemma login_moves:
  assumes st: "steady s" and here: "at_stage st s q" and act: "q = Act g" "g s = (p, s')"
    and way: "\<forall>r \<in> waiting s. on_its_way st pms s r"
  shows "\<exists>st'. steady s' \<and> at_stage st' s' p \<and> (\<forall>r \<in> waiting s'. on_its_way st' pms s' r)"
proof (cases st)
  case Early
  with here early_step [OF st _ act] have "steady s'" "at_stage Early s' p \<or> at_stage Middle s' p" "waiting s' = waiting s"
    by (simp_all add: at_stage_def waiting_def unread_for_def)
  with way show ?thesis by (auto simp: on_its_way_def to_send_def split: login_stage.splits)
next
  case Middle
  with here middle_step [OF st _ act] have s': "steady s'" "waiting s' = waiting s"
    and "at_stage Middle s' p \<or> (\<exists>rest. at_stage (Late rest) s' p \<and>
      (\<forall>r \<in> set (unread_for t (stabs s')). offline_json t (message_of r) \<in> set rest))"
    by (auto simp: at_stage_def waiting_def unread_for_def)
  then consider "at_stage Middle s' p" | rest where "at_stage (Late rest) s' p"
    "\<forall>r \<in> set (unread_for t (stabs s')). offline_json t (message_of r) \<in> set rest" by blast
  then show ?thesis
  proof cases
    case 1
    then show ?thesis using s' way by (intro exI [of _ Middle]) (simp add: on_its_way_def to_send_def)
  next
    case 2
    have "offline_json t (message_of r) \<in> set rest" if "r \<in> waiting s" for r
      using 2(2) that s'(2) by (simp add: waiting_def)
    then show ?thesis using 2(1) s' way by (intro exI [of _ "Late rest"]) (simp add: on_its_way_def to_send_def)
  qed
next
  case (Late rest)
  with here have "late rest s q" by (simp add: at_stage_def)
  from late_step [OF st this act] obtain j rest' where n: "rest = j # rest'" "late rest' s' p"
    "s' = s\<lparr>sv_out := sv_out s @ [(c, enc j)]\<rparr>" .
  then have s': "steady s'" "waiting s' = waiting s" "at_stage (Late rest') s' p" "set (sv_out s) \<subseteq> set (sv_out s')"
    using st by (auto simp: steady_def waiting_def at_stage_def)
  have "on_its_way (Late rest') pms s' r" if r: "r \<in> waiting s" for r
  proof -
    have "delivered enc jms c (sv_out s') r" if "offline_json t (message_of r) = j"
      using r that by (simp add: delivered_def n(3) waiting_def unread_for_def)
    then show ?thesis using way r delivered_mono [OF _ s'(4), of r] by (auto simp: Late n(1) on_its_way_def to_send_def)
  qed
  then show ?thesis using s' way by blast
qed

lemma message_moves:
  assumes st: "steady s" and stages: "\<forall>p \<in> set pms. message_stage jms p" and here: "at_stage st s pl"
    and k: "k < length pms" and act: "pms ! k = Act g" "g s = (p, s')"
    and way: "\<forall>r \<in> waiting s. on_its_way st pms s r"
  shows "steady s' \<and> (\<forall>p \<in> set (pms[k := p]). message_stage jms p) \<and> at_stage st s' pl
    \<and> (\<forall>r \<in> waiting s'. on_its_way st (pms[k := p]) s' r)"
proof -
  have m: "message_step jms p s s'" using message_stage_step [OF st _ messages act] stages k by simp
  then have p: "message_stage jms p" "steady s'" "sv_conns s' = sv_conns s" "ct_users (stabs s') = ct_users (stabs s)"
    "set (sv_out s) \<subseteq> set (sv_out s')" by (simp_all add: message_step_def)
  have "\<forall>p \<in> set (pms[k := p]). message_stage jms p" using stages p(1) set_update_subset_insert by fast
  moreover have "at_stage st s' pl" using here p(3,4) by (simp add: at_stage_def early_def middle_def late_def split: login_stage.splits)
  moreover have "on_its_way st (pms[k := p]) s' r" if r: "r \<in> waiting s" for r
  proof -
    consider now jm where "jm \<in> jms" "request_of r jm" "here_prog L now t (stamped jm (message_of r)) \<in> set pms"
      | "to_send st (offline_json t (message_of r))" | "delivered enc jms c (sv_out s) r"
      using way r by (auto simp: on_its_way_def)
    then show ?thesis
    proof cases
      case (1 now jm)
      then obtain i where i: "i < length pms" "pms ! i = here_prog L now t (stamped jm (message_of r))" by (auto simp: in_set_conv_nth)
      show ?thesis
      proof (cases "i = k")
        case False
        then have "here_prog L now t (stamped jm (message_of r)) \<in> set (pms[k := p])" using i
          by (metis length_list_update nth_list_update_neq nth_mem)
        then show ?thesis using 1 by (auto simp: on_its_way_def)
      next
        case True
        have "json_utf8 jm" using 1(1) messages by (auto simp: is_message_def)
        moreover have "utf8 (ms_time (message_of r))"
          using r tables_utf8_message [of "stabs s" r] st by (auto simp: waiting_def unread_for_def steady_def message_of_def Message_of_def)
        ultimately have "json_utf8 (stamped jm (message_of r))" by (rule stamped_utf8)
        with True i(2) act have s': "s' = (case sv_conns s t of None \<Rightarrow> s | Some d \<Rightarrow> s\<lparr>sv_out := sv_out s @ [(d, enc (stamped jm (message_of r)))]\<rparr>)"
          using here_step by metis
        show ?thesis
        proof (cases st)
          case (Late rest)
          then have "sv_conns s t = Some c" using here by (simp add: at_stage_def late_def)
          then have "(c, enc (stamped jm (message_of r))) \<in> set (sv_out s')" by (simp add: s')
          then show ?thesis using 1 by (auto simp: on_its_way_def delivered_def)
        qed (simp_all add: on_its_way_def to_send_def)
      qed
    qed (use delivered_mono [OF _ p(5)] in \<open>auto simp: on_its_way_def\<close>)
  qed
  moreover have "on_its_way st (pms[k := p]) s' r" if r: "r \<in> waiting s'" "r \<notin> waiting s" for r
  proof -
    from m r obtain now jm where "jm \<in> jms" "request_of r jm" "p = here_prog L now (mr_to r) (stamped jm (message_of r))"
      by (auto simp: message_step_def waiting_def unread_for_def split: if_splits)
    moreover have "p \<in> set (pms[k := p])" using k by (rule set_update_memI)
    ultimately show ?thesis using r(1) by (auto simp: on_its_way_def waiting_def unread_for_def)
  qed
  ultimately show ?thesis using p(2) way by blast
qed

lemma delivery_inv_step: "par_step x y \<Longrightarrow> delivery_inv x \<Longrightarrow> delivery_inv y"
proof (induction rule: par_step.induct)
  case (1 i ps g s p s')
  then obtain st pl pms where d: "ps = pl # pms" "steady s" "\<forall>p \<in> set pms. message_stage jms p" "at_stage st s pl"
    "\<forall>r \<in> waiting s. on_its_way st pms s r" unfolding delivery_inv_def by auto
  show ?case
  proof (cases i)
    case 0
    with 1 d login_moves [OF d(2,4) _ _ d(5), of g p s'] show ?thesis by (fastforce simp: delivery_inv_def)
  next
    case (Suc k)
    with 1 d message_moves [OF d(2,3,4) _ _ _ d(5), of k g p s'] show ?thesis by (auto simp: delivery_inv_def)
  qed
qed

lemma delivery_inv_steps: "par_step\<^sup>*\<^sup>* x y \<Longrightarrow> delivery_inv x \<Longrightarrow> delivery_inv y"
  by (induction rule: rtranclp_induct) (auto intro: delivery_inv_step)

lemma send_prog_moves:
  "\<forall>j \<in> set rest. json_utf8 j \<Longrightarrow> send_prog L c rest = Ret () \<longleftrightarrow> rest = []"
  "\<forall>j \<in> set rest. json_utf8 j \<Longrightarrow> \<exists>g. send_prog L c rest \<in> {Ret (), Act g}"
  by (cases rest; simp add: sect_def)+

lemma stage_moves: "at_stage st s p \<Longrightarrow> \<exists>g. p \<in> {Ret (), Act g}"
  using send_prog_moves(2)
  by (auto simp: at_stage_def early_def middle_def late_def login_prog_def enter_prog_def subscribe_prog_def online_prog_def
      ack_prog_def fetch_prog_def of_step login_id login_pwd sect_def split: login_stage.splits)

lemma at_stage_Ret: "at_stage st s (Ret ()) \<Longrightarrow> st = Late []"
  using send_prog_moves(1) [symmetric]
  by (auto simp: at_stage_def early_def middle_def late_def login_prog_def enter_prog_def subscribe_prog_def online_prog_def
      ack_prog_def fetch_prog_def of_step login_id login_pwd sect_def split: login_stage.splits)

lemma message_prog_Act: "jm \<in> jms \<Longrightarrow> \<exists>g. message_prog L now' d jm = Act g"
  using messages by (fastforce simp: is_message_def message_prog_def of_step sect_def)

lemma message_stage_moves: "message_stage jms p \<Longrightarrow> \<exists>g. p \<in> {Ret (), Act g}"
proof (induction rule: message_stage.induct)
  case (1 jm now conn)
  then show ?case using message_prog_Act by blast
qed (auto simp: here_prog_def elsewhere_prog_def publish_prog_def sect_def)

lemma delivery_end:
  assumes "delivery_inv (ps, s)" and "\<nexists>y. par_step (ps, s) y"
  shows "set ps = {Ret ()}" and "\<forall>r \<in> set (unread_for t (stabs s)). delivered enc jms c (sv_out s) r"
proof -
  from assms(1) obtain st pl pms where d: "ps = pl # pms" "\<forall>p \<in> set pms. message_stage jms p" "at_stage st s pl"
    "\<forall>r \<in> waiting s. on_its_way st pms s r" unfolding delivery_inv_def by auto
  have "\<nexists>g. p = Act g" if "p \<in> set ps" for p
    using that assms(2) by (metis in_set_conv_nth par_step.intros surj_pair)
  then have r: "p = Ret ()" if "p \<in> set ps" for p
    using that d(1,2) stage_moves [OF d(3)] message_stage_moves by fastforce
  then show "set ps = {Ret ()}" using d(1) by auto
  have "pl = Ret ()" using r d(1) by simp
  then have "st = Late []" using at_stage_Ret d(3) by blast
  moreover have "here_prog L now' t j \<notin> set pms" for now' j using r [of "here_prog L now' t j"] d(1) by (auto simp: here_prog_def sect_def)
  ultimately show "\<forall>r \<in> set (unread_for t (stabs s)). delivered enc jms c (sv_out s) r"
    using d(4) by (simp add: on_its_way_def to_send_def waiting_def)
qed

lemma all_delivered:
  assumes "steady s" and "ct_users (stabs s) t = Some (name, pwd, ''offline'')" and "sv_conns s t = None"
    and "\<forall>p \<in> set pms. message_stage jms p" and "par_step\<^sup>*\<^sup>* (login_prog L now c js # pms, s) (ps, s')"
  shows "\<exists>s''. par_step\<^sup>*\<^sup>* (ps, s') (replicate (Suc (length pms)) (Ret ()), s'')"
    and "ps = replicate (Suc (length pms)) (Ret ()) \<Longrightarrow> \<forall>r \<in> set (unread_for t (stabs s')). delivered enc jms c (sv_out s') r"
proof -
  have "at_stage Early s (login_prog L now c js)" using assms(2,3) by (simp add: at_stage_def early_def)
  then have "delivery_inv (login_prog L now c js # pms, s)"
    unfolding delivery_inv_def using assms(1,4)
    by (intro exI [of _ Early] exI [of _ "login_prog L now c js"] exI [of _ pms] exI [of _ s]) (simp add: on_its_way_def to_send_def)
  from delivery_inv_steps [OF assms(5) this] have inv: "delivery_inv (ps, s')" .
  obtain ps2 s2 where e: "par_step\<^sup>*\<^sup>* (ps, s') (ps2, s2)" "\<nexists>z. par_step (ps2, s2) z" using par_step_ends [of "(ps, s')"] by auto
  have "set ps2 = {Ret ()}" using delivery_end(1) [OF delivery_inv_steps [OF e(1) inv] e(2)] .
  moreover have "length ps2 = Suc (length pms)" using par_steps_length [OF e(1)] par_steps_length [OF assms(5)] by simp
  ultimately have "ps2 = replicate (Suc (length pms)) (Ret ())" by (metis replicate_length_same singletonD)
  with e(1) show "\<exists>s''. par_step\<^sup>*\<^sup>* (ps, s') (replicate (Suc (length pms)) (Ret ()), s'')" by blast
  assume r: "ps = replicate (Suc (length pms)) (Ret ())"
  have "\<nexists>y. par_step (ps, s') y" by (auto simp: r nth_Cons split: nat.splits elim!: par_stepE)
  with delivery_end(2) [OF inv] show "\<forall>r \<in> set (unread_for t (stabs s')). delivered enc jms c (sv_out s') r" by blast
qed

end

subsection \<open>Properties\<close>

text \<open>
  C25. No short message is lost, on tables whose texts are UTF-8 and shorter than 1024 bytes. While a user
  logs in, any number of other handlers store messages, of less than 1024 bytes too, and look for the
  receiver. However the sections of these handlers interleave, all of them return, and then every
  unread message of the user was sent on the new connection: by the login among the messages that
  waited, or by the handler that stored it. (A longer message is stored, but never fetched.)
\<close>

theorem no_message_lost:
  assumes "chat_env fetch api tables L enc" and "backend_ok (sv_backend s)" and "tables_fit (tables (bk_world (sv_backend s)))"
    and "tables_utf8 (tables (bk_world (sv_backend s)))"
    and "\<forall>m \<in> set (ct_messages (tables (bk_world (sv_backend s)))). 0 < mr_id m"
    and "json_at js ''id'' = Inr (JInt t)" and "id_ok t" and "json_at js ''password'' = Inr (JStr pwd)"
    and "ct_users (tables (bk_world (sv_backend s))) t = Some (name, pwd, ''offline'')" and "sv_conns s t = None"
    and "\<forall>(now, d, jm) \<in> set reqs. is_message jm"
    and "par_step\<^sup>*\<^sup>* (login_prog L now c js # map (\<lambda>(now, d, jm). message_prog L now d jm) reqs, s) (ps, s')"
  shows "(\<exists>s''. par_step\<^sup>*\<^sup>* (ps, s') (replicate (Suc (length reqs)) (Ret ()), s''))
    \<and> (ps = replicate (Suc (length reqs)) (Ret ()) \<longrightarrow>
       (\<forall>r \<in> set (unread_for t (tables (bk_world (sv_backend s')))). delivered enc ((snd \<circ> snd) ` set reqs) c (sv_out s') r))"
proof -
  let ?jms = "(snd \<circ> snd) ` set reqs"
  have loc: "login_and_messages fetch api tables L enc js t name pwd ?jms"
    using assms(1,6,7,8,11) tables_utf8_user [OF assms(4,9)] by (auto simp: login_and_messages_def login_and_messages_axioms_def)
  have start: "chat_env.steady tables s" using assms(1-5) by (simp add: chat_env.steady_def)
  have "\<forall>p \<in> set (map (\<lambda>(now, d, jm). message_prog L now d jm) reqs). chat_env.message_stage L ?jms p"
    using assms(1) by (force intro: chat_env.message_stage.intros)
  from login_and_messages.all_delivered [OF loc start assms(9,10) this assms(12)] show ?thesis by simp
qed

text \<open>The interpretation: user 1 of the example logs in while user 2 writes.\<close>

interpretation ref_delivery: login_and_messages ref_fetch ref_api "data_tables \<circ> mw_data" ref_libs json_text "\<lambda>k. 0" 5
  "login_request 1 ''x''" 1 "''ann''" "''x''" "{message_request 2 1 ''hi''}"
proof unfold_locales
  show "\<forall>jm \<in> {message_request 2 1 ''hi''}. is_message jm"
    using message_request_utf8 [of "''hi''" 2 1]
    by (simp add: message_request_def is_message_def id_ok_def short_text_def col_buffer_def NUL_def utf8_ascii)
qed (simp_all add: login_request_def id_ok_def utf8_ascii)

definition race_start :: "(nat \<times> json) list \<Rightarrow> (unit, (chat_data mem_world, string list list) chat_service) prog list
    \<times> (chat_data mem_world, string list list) chat_service" where
  "race_start logins = (map (\<lambda>(c, js). login_prog ref_libs (\<lambda>k. 0) c js) logins
     @ [message_prog ref_libs (\<lambda>k. 0) 6 (message_request 2 1 ''hi'')], ref_service two_users Map.empty)"

definition all_done :: "(unit, 's) prog list \<Rightarrow> bool" where
  "all_done ps \<longleftrightarrow> list_all (\<lambda>p. case p of Ret x \<Rightarrow> True | _ \<Rightarrow> False) ps"

lemma all_done_replicate: "all_done ps \<Longrightarrow> ps = replicate (length ps) (Ret ())"
  by (induction ps) (auto simp: all_done_def split: prog.splits)

text \<open>The message is stored when the login has checked the password, and its receiver not found before the login goes on.\<close>

lemma race_ends:
  "case schedule [0, 1, 1, 0, 1, 0, 0, 0, 0, 0, 0] (race_start [(5, login_request 1 ''x'')]) of (ps, s) \<Rightarrow>
     length ps = 2 \<and> all_done ps \<and> unread_for 1 (data_tables (mw_data (bk_world (sv_backend s)))) \<noteq> []"
  by code_simp

theorem no_message_lost_witness:
  "\<exists>ps s'. par_step\<^sup>*\<^sup>* (race_start [(5, login_request 1 ''x'')]) (ps, s') \<and> ps = replicate 2 (Ret ())
    \<and> unread_for 1 (data_tables (mw_data (bk_world (sv_backend s')))) \<noteq> []
    \<and> (\<forall>r \<in> set (unread_for 1 (data_tables (mw_data (bk_world (sv_backend s'))))).
        delivered json_text {message_request 2 1 ''hi''} 5 (sv_out s') r)"
proof -
  let ?js = "login_request 1 ''x''" and ?jm = "message_request 2 1 ''hi''" and ?s = "ref_service two_users Map.empty"
  obtain ps s' where e: "schedule [0, 1, 1, 0, 1, 0, 0, 0, 0, 0, 0] (race_start [(5, ?js)]) = (ps, s')" by fastforce
  with race_ends have d: "length ps = 2" "all_done ps" "unread_for 1 (data_tables (mw_data (bk_world (sv_backend s')))) \<noteq> []" by simp_all
  have p: "ps = replicate 2 (Ret ())" using all_done_replicate [OF d(2)] d(1) by simp
  have steps: "par_step\<^sup>*\<^sup>* (race_start [(5, ?js)]) (ps, s')" using schedule_steps e by metis
  have msgs: "\<forall>m \<in> set (ct_messages (data_tables two_users)). 0 < mr_id m" and user: "map_of (cd_users two_users) 1 = Some (''ann'', ''x'', ''offline'')"
    by (simp_all add: two_users_def)
  have "is_message ?jm" using ref_delivery.messages by simp
  with no_message_lost [OF ref_env.chat_env_axioms, of ?s ?js 1 "''x''" "''ann''" "[(\<lambda>k. 0, 6, ?jm)]" "\<lambda>k. 0" 5 ps s'] steps msgs user p
  have "\<forall>r \<in> set (unread_for 1 (data_tables (mw_data (bk_world (sv_backend s'))))). delivered json_text {?jm} 5 (sv_out s') r"
    by (simp add: race_start_def ref_delivery.login_id ref_delivery.login_pwd numeral_2_eq_2)
  with steps p d(3) show ?thesis by blast
qed

text \<open>
  The login checks the state of the account and changes it in different sections: two logins of one
  account at the same time both succeed, and the connection of the first no longer belongs to anybody.
\<close>

theorem two_logins_succeed:
  "case schedule [0, 1, 0, 1, 0, 1, 0, 1, 0, 1, 0, 1] (race_start [(5, login_request 1 ''x''), (7, login_request 1 ''x'')]) of (ps, s) \<Rightarrow>
     all_done (take 2 ps) \<and> sv_out s = [(5, json_text (login_ack (User 1 ''ann'' ''x'' ''offline''))), (7, json_text (login_ack (User 1 ''ann'' ''x'' ''offline'')))]
     \<and> sv_conns s 1 = Some 7"
  by code_simp

end
