(* ===== verification/Chat_Protocol.thy ===== *)
theory Chat_Protocol
  imports Chat_Threads Client_Props
begin

text \<open>
  The protocol between the chat server and its clients: the members that the messages of the server
  have and their types, that the handlers send nothing else, whatever the database and Redis do, and
  that the receiving thread of a client handles every such message without an exception.
\<close>

subsection \<open>Types of messages\<close>

definition num_member :: "json \<Rightarrow> string \<Rightarrow> bool" where
  "num_member j k \<longleftrightarrow> (case int_of j k of Inl e \<Rightarrow> False | Inr i \<Rightarrow> True)"

definition str_member :: "json \<Rightarrow> string \<Rightarrow> bool" where
  "str_member j k \<longleftrightarrow> (case str_of j k of Inl e \<Rightarrow> False | Inr t \<Rightarrow> True)"

definition reports_success :: "json \<Rightarrow> bool" where
  "reports_success j \<longleftrightarrow> (case json_at j ''error'' of Inl e \<Rightarrow> False | Inr v \<Rightarrow> json_is_zero v)"

text \<open>The messages of the server, by their code.\<close>

definition server_msg :: "json \<Rightarrow> bool" where
  "server_msg j \<longleftrightarrow> (case int_of j ''msgtype'' of Inl e \<Rightarrow> False | Inr mt \<Rightarrow>
     if mt = 3 then if reports_success j then num_member j ''id'' else str_member j ''error_message''
     else if mt = 4 then if reports_success j then str_member j ''name'' else str_member j ''error_message''
     else if mt = 5 then num_member j ''messageID'' \<and> str_member j ''time'' \<and> str_member j ''message''
       \<and> num_member j (if json_contains j ''from'' then ''from'' else ''fromid'')
     else if mt = 11 then num_member j ''user_id'' \<and> str_member j ''user_name'' \<and> str_member j ''time''
     else if mt = 12 then num_member j ''user_id'' \<and> str_member j ''user_name'' \<and> str_member j ''remark'' \<and> str_member j ''time''
     else False)"

lemma num_memberE:
  assumes "num_member j k"
  obtains kvs v i where "j = JObj kvs" "map_of kvs k = Some v" "json_int v = Inr i"
  using assms by (auto simp: num_member_def int_of_def json_at_def split: json.splits option.splits sum.splits)

lemma str_memberE:
  assumes "str_member j k"
  obtains kvs t where "j = JObj kvs" "map_of kvs k = Some (JStr t)"
  using assms by (auto simp: str_member_def str_of_def json_at_def json_string_def split: json.splits option.splits sum.splits)

text \<open>A client handles each of them.\<close>

lemma shown:
  assumes "num_member j ''messageID''" and "str_member j ''time''" and "str_member j ''message''"
    and "num_member j (if json_contains j ''from'' then ''from'' else ''fromid'')" and "\<And>j. json_utf8 j \<Longrightarrow> dump j \<noteq> None"
  shows "fst (showMessage dump j c) = Inr ()"
proof -
  from assms(1) obtain kvs v i where j: "j = JObj kvs" "map_of kvs ''messageID'' = Some v" "json_int v = Inr i" by (rule num_memberE)
  from assms(2) j(1) obtain t where t: "map_of kvs ''time'' = Some (JStr t)" by (auto elim: str_memberE)
  from assms(3) j(1) obtain b where b: "map_of kvs ''message'' = Some (JStr b)" by (auto elim: str_memberE)
  have "\<exists>x. safeGetFrom j = Inr x"
    using assms(4) j(1) by (auto simp: safeGetFrom_def json_contains_def json_const_at_def split: if_splits elim!: num_memberE)
  then obtain x where x: "safeGetFrom j = Inr x" ..
  have "json_utf8 v" using j(3) by (cases v) (simp_all add: json_int_def)
  then have "json_utf8 (json_object [(''msgtype'', JInt 6), (''messageID'', v)])" by (intro json_utf8_object) simp
  then obtain d where d: "dump (json_object [(''msgtype'', JInt 6), (''messageID'', v)]) = Some d" using assms(5) by blast
  show ?thesis
    using x j t b d by (simp add: showMessage_def act_bind_def lift_def json_value_string_def json_value_int_def json_const_at_def sendJson_def)
qed

lemma server_msg_handled:
  assumes "server_msg j" and "\<And>j. json_utf8 j \<Longrightarrow> dump j \<noteq> None"
  shows "fst (on_object dump j c) = Inr ()"
proof -
  from assms(1) obtain mt where mt: "int_of j ''msgtype'' = Inr mt" by (auto simp: server_msg_def split: sum.splits)
  then have o: "on_object dump j c = (if mt = 3 then on_ref_ack j else if mt = 4 then on_login_ack j else if mt = 5 then showMessage dump j
      else if mt = 6 then act_return () else if mt = 8 then on_add_friend_ack j else if mt = 11 then on_addlist j
      else if mt = 12 then on_frilist j else act_return ()) c"
    by (simp add: on_object_def int_of_def act_bind_def lift_def)
  obtain kvs where j: "j = JObj kvs" using mt by (auto simp: int_of_def json_at_def split: json.splits)
  have r: "reports_success j \<longleftrightarrow> (\<exists>v. json_at j ''error'' = Inr v \<and> json_is_zero v)" "\<exists>v. json_at j ''error'' = Inr v"
    by (auto simp: reports_success_def j json_at_def)
  consider "mt = 3" | "mt = 4" | "mt = 5" | "mt = 11" | "mt = 12" using assms(1) mt by (auto simp: server_msg_def split: if_splits)
  then show ?thesis
  proof cases
    case 1
    then have "if reports_success j then num_member j ''id'' else str_member j ''error_message''" using assms(1) mt by (simp add: server_msg_def)
    then show ?thesis unfolding o using 1 r
      by (auto simp: j on_ref_ack_def act_bind_def lift_def json_at_def json_value_string_def split: if_splits elim!: num_memberE str_memberE)
  next
    case 2
    then have "if reports_success j then str_member j ''name'' else str_member j ''error_message''" using assms(1) mt by (simp add: server_msg_def)
    then show ?thesis unfolding o using 2 r
      by (auto simp: j on_login_ack_def act_bind_def lift_def json_at_def json_value_string_def split: if_splits elim!: str_memberE)
  next
    case 3
    then show ?thesis unfolding o using shown [OF _ _ _ _ assms(2)] assms(1) mt by (simp add: server_msg_def)
  next
    case 4
    then show ?thesis unfolding o using assms(1) mt
      by (auto simp: j server_msg_def on_addlist_def act_bind_def lift_def json_at_def json_value_string_def elim!: num_memberE str_memberE)
  next
    case 5
    then show ?thesis unfolding o using assms(1) mt
      by (auto simp: j server_msg_def on_frilist_def act_bind_def lift_def json_at_def json_value_string_def elim!: num_memberE str_memberE)
  qed
qed

subsection \<open>What handlers send\<close>

text \<open>
  \<open>emits L K m\<close>: when the table of connections has only connections of \<open>K\<close>, the action \<open>m\<close> keeps it so, and what it
  sends goes to connections of \<open>K\<close> and is a message of the protocol or the error reply of \<open>addfriend\<close>.
\<close>

definition typed_text :: "('w, 'r) chat_libs \<Rightarrow> string \<Rightarrow> bool" where
  "typed_text L t \<longleftrightarrow> (\<exists>j. lib_dump L j = Some t \<and> (server_msg j \<or> j = friend_error))"

definition emits :: "('w, 'r) chat_libs \<Rightarrow> nat set \<Rightarrow> ('a, 'w, 'r) service_act \<Rightarrow> bool" where
  "emits L K m \<longleftrightarrow> (\<forall>s. ran (sv_conns s) \<subseteq> K \<longrightarrow> ran (sv_conns (snd (m s))) \<subseteq> K
     \<and> (\<exists>new. sv_out (snd (m s)) = sv_out s @ new \<and> (\<forall>(c, t) \<in> set new. c \<in> K \<and> typed_text L t)))"

lemma emitsD:
  assumes "emits L K m" and "ran (sv_conns s) \<subseteq> K"
  obtains new where "sv_out (snd (m s)) = sv_out s @ new" and "\<forall>(c, t) \<in> set new. c \<in> K \<and> typed_text L t"
    and "ran (sv_conns (snd (m s))) \<subseteq> K"
  using assms unfolding emits_def by blast

lemma emits_bind:
  fixes m :: "('a, 'w, 'r) service_act" and f :: "'a \<Rightarrow> ('b, 'w, 'r) service_act"
  assumes m: "emits L K m" and f: "\<And>x. emits L K (f x)"
  shows "emits L K (act_bind m f)"
  unfolding emits_def
proof (intro allI impI)
  fix s :: "('w, 'r) chat_service" assume k: "ran (sv_conns s) \<subseteq> K"
  obtain r s1 where s1: "m s = (r, s1)" by force
  from emitsD [OF m k] s1 obtain n1 where 1: "sv_out s1 = sv_out s @ n1" "\<forall>(c, t) \<in> set n1. c \<in> K \<and> typed_text L t" "ran (sv_conns s1) \<subseteq> K" by auto
  show "ran (sv_conns (snd (act_bind m f s))) \<subseteq> K
      \<and> (\<exists>new. sv_out (snd (act_bind m f s)) = sv_out s @ new \<and> (\<forall>(c, t) \<in> set new. c \<in> K \<and> typed_text L t))"
  proof (cases r)
    case (Inl e)
    then show ?thesis using 1 by (simp add: act_bind_def s1)
  next
    case (Inr x)
    from emitsD [OF f [of x] 1(3)] obtain n2 where 2: "sv_out (snd (f x s1)) = sv_out s1 @ n2" "\<forall>(c, t) \<in> set n2. c \<in> K \<and> typed_text L t"
      "ran (sv_conns (snd (f x s1))) \<subseteq> K" by metis
    have "sv_out (snd (f x s1)) = sv_out s @ (n1 @ n2)" using 1 2 by simp
    moreover have "\<forall>(c, t) \<in> set (n1 @ n2). c \<in> K \<and> typed_text L t" using 1 2 by auto
    ultimately show ?thesis using 2(3) by (auto simp: act_bind_def s1 Inr)
  qed
qed

lemma emits_check: "(\<And>v. x = Inr v \<Longrightarrow> emits L K (f v)) \<Longrightarrow> emits L K (act_bind (check x) f)"
  by (cases x) (auto simp: emits_def act_bind_def check_def)

lemma emits_quiet [simp]:
  "emits L K (check x)" "emits L K (on_backend g)" "emits L K (act_return y)"
  "(\<And>s. sv_conns (g' s) = sv_conns s \<and> sv_out (g' s) = sv_out s) \<Longrightarrow> emits L K (change g')"
  by (auto simp: emits_def check_def on_backend_def Let_def case_prod_unfold act_return_def)

lemma emits_enter: "conn \<in> K \<Longrightarrow> emits L K (change (\<lambda>s. s\<lparr>sv_conns := (sv_conns s)(i \<mapsto> conn)\<rparr>))"
  by (auto simp: emits_def ran_def)

lemma emits_send: "c \<in> K \<Longrightarrow> server_msg j \<or> j = friend_error \<Longrightarrow> emits L K (send_json L c j)"
  by (auto simp: emits_def send_json_def act_bind_def dump_json_def check_def send_def typed_text_def split: option.splits)

lemma emits_send_all: "c \<in> K \<Longrightarrow> (\<And>j. j \<in> set js \<Longrightarrow> server_msg j) \<Longrightarrow> emits L K (send_all L c js)"
  by (induction js) (simp_all add: emits_bind emits_send)

lemma emits_if: "(b \<Longrightarrow> emits L K m) \<Longrightarrow> (\<not> b \<Longrightarrow> emits L K m') \<Longrightarrow> emits L K (if b then m else m')"
  by simp

lemmas emits_rules = emits_bind emits_enter emits_if

text \<open>The replies of the handlers.\<close>

lemmas member_simps = server_msg_def num_member_def str_member_def int_of_def str_of_def reports_success_def json_is_zero_def

lemma server_msg_replies [simp]:
  "server_msg (login_ack u)" "server_msg (login_error t)" "server_msg (apply_json f)" "server_msg (friend_json f)"
  "server_msg (json_object [(''msgtype'', JInt 3), (''error'', JInt 0), (''id'', JInt i)])"
  "server_msg (json_object [(''msgtype'', JInt 3), (''error'', JInt 1), (''error_message'', JStr t)])"
  by (simp_all add: member_simps login_ack_def login_error_def apply_json_def friend_json_def)

lemma json_contains_object: "kvs \<noteq> [] \<Longrightarrow> json_contains (json_object kvs) k \<longleftrightarrow> map_of (rev kvs) k \<noteq> None"
  by (simp add: json_contains_def json_object_obj map_of_fold_obj_put)

lemma server_msg_offline [simp]: "server_msg (offline_json i m)"
  by (simp add: member_simps offline_json_def json_contains_object)

text \<open>
  A message is passed on as the request of the sender with two more members. The clients do not send a
  member \<open>from\<close>; a request that has one anyway is passed on with it, and it has to be a number.
\<close>

lemma server_msg_stamped:
  assumes "int_of js ''msgtype'' = Inr 5" and "int_of js ''fromid'' = Inr f" and "str_of js ''message'' = Inr t"
    and "json_contains js ''from'' \<longrightarrow> num_member js ''from''"
  shows "server_msg (stamped js m)"
proof -
  obtain kvs where "js = JObj kvs" using assms(1) by (auto simp: int_of_def json_at_def split: json.splits)
  with assms show ?thesis by (simp add: member_simps stamped_def json_set_def json_at_def json_contains_def)
qed

lemma emits_send_here: "server_msg j \<Longrightarrow> emits L K (send_here L toid j)"
proof -
  assume "server_msg j"
  then have "emits L K (act_bind (send_json L c j) (\<lambda>_. act_return True))" if "c \<in> K" for c using that by (simp add: emits_bind emits_send)
  then show ?thesis unfolding emits_def send_here_def by (auto split: option.splits dest: ranI)
qed

lemma login_emits: "conn \<in> K \<Longrightarrow> emits L K (login L now conn js)"
  unfolding login_def get_int_def get_str_def login_ack_def [symmetric]
  by (auto intro!: emits_rules emits_send emits_send_all)

lemma onemessage_emits:
  assumes "int_of js ''msgtype'' = Inr 5" and "json_contains js ''from'' \<longrightarrow> num_member js ''from''"
  shows "emits L K (onemessage L now conn js)"
proof -
  have "emits L K (run (here_prog L now toid (stamped js m)))" if "int_of js ''fromid'' = Inr f" "str_of js ''message'' = Inr t" for toid m f t
    unfolding here_prog_def elsewhere_prog_def publish_prog_def run_sect run_alone run_if run_Ret
    by (intro emits_rules emits_send_here server_msg_stamped [OF assms(1) that assms(2)] emits_quiet) simp
  then show ?thesis unfolding message_sections [symmetric] message_prog_def run_alone run_sect run_if run_Ret
    by (intro emits_check emits_bind emits_if emits_quiet)
qed

lemma reply_emits:
  assumes "conn \<in> K"
  shows "emits L K (ref L now conn js)" and "emits L K (ackMessage L now conn js)" and "emits L K (addfriend L now conn js)"
    and "emits L K (agreefiend L now conn js)" and "emits L K (refusefriend L now conn js)"
    and "emits L K (getaddlist L now conn js)" and "emits L K (getfriendlist L now conn js)"
  using assms unfolding ref_def ackMessage_def addfriend_def agreefiend_def refusefriend_def getaddlist_def getfriendlist_def get_int_def get_str_def
  by (auto split: prod.splits intro!: emits_rules emits_send emits_send_all)

lemma getHandler_emits:
  assumes "int_of js ''msgtype'' = Inr mt" and "json_contains js ''from'' \<longrightarrow> num_member js ''from''" and "conn \<in> K"
  shows "emits L K (getHandler L mt now conn js)"
  using assms(1,3) login_emits reply_emits onemessage_emits [OF _ assms(2)]
  by (auto simp: getHandler_def handlers_def split: option.splits if_splits)

subsection \<open>Properties\<close>

text \<open>
  C27. The messages of the server are well typed. Whatever a handler does with a request in which a member
  \<open>from\<close>, if there is one, is a number, also when the database or Redis fail or the handler throws: it
  only sends to the connection of the request and to connections of users that are logged in, and
  every text it sends is a message of the protocol, which any client handles without an exception, or
  the reply to a repeated application for friendship, which no client handles. (A member \<open>from\<close> of
  another type ends the client of the receiver, see below.)
\<close>

theorem handlers_well_typed:
  assumes "int_of js ''msgtype'' = Inr mt" and "json_contains js ''from'' \<longrightarrow> num_member js ''from''"
  shows "\<exists>new. sv_out (snd (getHandler L mt now conn js s)) = sv_out s @ new
    \<and> (\<forall>(c, t) \<in> set new. (c = conn \<or> c \<in> ran (sv_conns s)) \<and>
        (\<exists>j. lib_dump L j = Some t \<and> (j = friend_error \<or>
           server_msg j \<and> (\<forall>dump d. (\<forall>j. json_utf8 j \<longrightarrow> dump j \<noteq> None) \<longrightarrow> fst (on_object dump j d) = Inr ()))))"
proof -
  let ?K = "insert conn (ran (sv_conns s))"
  have "emits L ?K (getHandler L mt now conn js)" by (rule getHandler_emits [OF assms]) simp
  then obtain new where n: "sv_out (snd (getHandler L mt now conn js s)) = sv_out s @ new" "\<forall>(c, t) \<in> set new. c \<in> ?K \<and> typed_text L t"
    by (rule emitsD) auto
  moreover have "\<exists>j. lib_dump L j = Some t \<and> (j = friend_error \<or>
      server_msg j \<and> (\<forall>dump d. (\<forall>j. json_utf8 j \<longrightarrow> dump j \<noteq> None) \<longrightarrow> fst (on_object dump j d) = Inr ()))" if "typed_text L t" for t
    using that server_msg_handled unfolding typed_text_def by blast
  ultimately show ?thesis by (intro exI [of _ new]) auto
qed

theorem handlers_well_typed_witness:
  "\<exists>new. sv_out (snd (getHandler ref_libs 5 (\<lambda>k. 0) 5 (message_request 1 2 ''hi'') (ref_service two_users [2 \<mapsto> 9]))) = new
    \<and> (\<forall>(c, t) \<in> set new. c = 5 \<or> c = 9)"
proof -
  have "int_of (message_request 1 2 ''hi'') ''msgtype'' = Inr 5" "json_contains (message_request 1 2 ''hi'') ''from'' \<longrightarrow> num_member (message_request 1 2 ''hi'') ''from''" by code_simp+
  from handlers_well_typed [OF this, of ref_libs "\<lambda>k. 0" 5 "ref_service two_users [2 \<mapsto> 9]"] show ?thesis by fastforce
qed

text \<open>
  A request for a message is passed on with all its members. With a member \<open>from\<close> that is not a number,
  which no client of the project sends, it ends the client of the receiver.
\<close>

definition forged_request :: json where
  "forged_request = json_set ''from'' (JStr ''x'') (message_request 1 2 ''hi'')"

definition forged_message :: json where
  "forged_message = stamped forged_request (Message_of 1 1 2 ''hi'' ref_time)"

theorem forged_member_ends_client:
  "sv_out (snd (onemessage ref_libs (\<lambda>k. 0) 5 forged_request (ref_service two_users [2 \<mapsto> 9]))) = [(9, json_text forged_message)]
    \<and> fst (on_object ref_dump forged_message client_start) = Inl Json_error"
  by code_simp

end
