(* ===== verification/Chat_Flow.thy ===== *)
theory Chat_Flow
  imports Chat_Protocol Chat_Delivery
begin

text \<open>
  A message from the menu of the sender to the console of the receiver and back: the command of the
  client, the handler of the server, the receiving thread of the other client, and the handler that
  takes its acknowledgement.
\<close>

definition ack_request :: "int \<Rightarrow> json" where
  "ack_request i = json_object [(''msgtype'', JInt 6), (''messageID'', JInt i)]"

text \<open>The sender.\<close>

lemma cmd_message_sends:
  assumes "stoi sid = Inr t" and "cl_sock c" and "dump (message_request (cl_myId c) t body) = Some x"
  shows "\<exists>c'. cmd_message dump (sid # body # ls) c = (Inr ls, c') \<and> cl_sent c' = cl_sent c @ [x]"
  using assms by (simp add: cmd_message_def next_line_def stoi_exn_def act_bind_def lift_def sendJson_def say_def message_request_def)

text \<open>The receiver, however the network cuts what the server sends.\<close>

lemma stamped_request_members:
  assumes "id_ok f" and "id_ok (ms_msgid m)"
  shows "safeGetFrom (stamped (message_request f t body) m) = Inr f"
    and "json_value_string (stamped (message_request f t body) m) ''time'' d = Inr (ms_time m)"
    and "json_value_string (stamped (message_request f t body) m) ''message'' d = Inr body"
    and "json_value_int (stamped (message_request f t body) m) ''messageID'' k = Inr (ms_msgid m)"
    and "json_const_at (stamped (message_request f t body) m) ''messageID'' = Inr (JInt (ms_msgid m))"
    and "json_at (stamped (message_request f t body) m) ''msgtype'' = Inr (JInt 5)"
  using assms
  by (simp_all add: stamped_def message_request_def json_object_obj json_set_def safeGetFrom_def json_contains_def json_const_at_def
      json_value_string_def json_value_int_def json_at_def id_ok_def signed_take_bit_int_eq_self)

lemma stamped_object:
  assumes "utf8 body" and "ends_plain body" and "time_text (ms_time m)"
  shows "json_utf8 (stamped (message_request f t body) m)" and "json_plain_ends (stamped (message_request f t body) m)"
    and "\<exists>kvs. stamped (message_request f t body) m = JObj kvs"
proof -
  have "ends_plain (ms_time m)"
    using time_text_chars [OF assms(3)] last_in_set [of "ms_time m"] unfolding ends_plain_def backslash_def by metis
  moreover have "json_plain_ends (message_request f t body)"
    unfolding message_request_def using assms(2) by (intro json_plain_ends_object) (simp add: ends_plain_def backslash_def)
  ultimately show "json_plain_ends (stamped (message_request f t body) m)"
    unfolding stamped_def by (intro json_plain_ends_set) (simp_all add: ends_plain_def backslash_def)
  show "json_utf8 (stamped (message_request f t body) m)"
    by (rule stamped_utf8 [OF message_request_utf8 [OF assms(1)] time_text_utf8 [OF assms(3)]])
  show "\<exists>kvs. stamped (message_request f t body) m = JObj kvs"
    by (simp add: stamped_def message_request_def json_object_obj json_set_def)
qed

lemma receiver_shows:
  assumes "id_ok f" and "id_ok (ms_msgid m)" and "cl_sock c" and "cl_running c" and "cl_buffer c = []"
    and "reply = stamped (message_request f t body) m" and "parse (enc reply) = Inr reply" and "concat ds = enc reply"
    and lib: "json_texts dump enc" and "utf8 body" and "ends_plain body" and "time_text (ms_time m)"
  shows "\<exists>c'. recvThread parse dump (map Some ds) c = (Inr (), c')
    \<and> cl_console c' = cl_console c @ [New_message f (ms_time m) body (ms_msgid m)]
    \<and> cl_sent c' = cl_sent c @ [enc (ack_request (ms_msgid m))]"
proof -
  let ?c = "(say (New_message f (ms_time m) body (ms_msgid m)) c)\<lparr>cl_sent := cl_sent c @ [enc (ack_request (ms_msgid m))]\<rparr>"
  have "json_utf8 (ack_request (ms_msgid m))" unfolding ack_request_def by (intro json_utf8_object) (simp add: utf8_ascii)
  then have "dump (ack_request (ms_msgid m)) = Some (enc (ack_request (ms_msgid m)))"
    by (rule json_printer.dump_utf8 [OF json_texts.axioms(1) [OF lib]])
  then have "on_objects dump [reply] c = (Inr (), ?c)"
    using stamped_request_members [OF assms(1,2)] assms(3)
    by (simp add: assms(6) on_object_def showMessage_def act_bind_def lift_def sendJson_def say_def ack_request_def act_return_def)
  moreover note obj = stamped_object [OF assms(10-12), of f t, folded assms(6)]
  have "object_text (enc reply)" using obj json_texts.enc_object [OF lib] by auto
  then have "extractJsonObjects parse (enc reply) = Inr ([reply], [])" using assms(7) by (intro extract_object)
  moreover have "NUL \<notin> set (concat ds)" using json_texts.enc_no_NUL [OF lib obj(1)] assms(8) by simp
  then have "\<forall>d \<in> set ds. NUL \<notin> set d" by auto
  ultimately have "recvThread parse dump (map Some ds) c = (Inr (), ?c\<lparr>cl_buffer := []\<rparr>)"
    using assms(4,5,8) by (intro recvThread_chunks) (simp_all add: extract_none del: on_objects.simps)
  then show ?thesis by (simp add: say_def)
qed

text \<open>Reading a message back off the list of unread ones.\<close>

lemma unread_after_ack:
  assumes "mr_id r \<notin> mr_id ` set (ct_messages t)"
  shows "unread_for i (set_read (mr_id r) (t\<lparr>ct_messages := ct_messages t @ [r]\<rparr>)) = unread_for i t"
    and "unread_for i (set_read (mr_id r) t) = unread_for i t"
proof -
  have "map (\<lambda>m. if mr_id m = mr_id r then m\<lparr>mr_read := True\<rparr> else m) (ct_messages t) = ct_messages t"
    using assms by (intro map_idI) (metis image_eqI)
  then show "unread_for i (set_read (mr_id r) (t\<lparr>ct_messages := ct_messages t @ [r]\<rparr>)) = unread_for i t"
    "unread_for i (set_read (mr_id r) t) = unread_for i t" by (simp_all add: unread_for_def set_read_def)
qed

text \<open>The handlers are found under their codes.\<close>

lemma getHandler_codes: "getHandler L 5 = onemessage L" "getHandler L 6 = ackMessage L"
  by (simp_all add: getHandler_def handlers_def)

context chat_env
begin

lemma ack_reads:
  assumes "backend_ok (sv_backend s)" and "id_ok i"
  shows "\<exists>s'. getHandler L 6 now conn (ack_request i) s = (Inr (), s') \<and> stabs s' = set_read i (stabs s)"
proof -
  from updateMesStatus_ok [OF assms(1), of "now 0" i] obtain bk where
    u: "updateMesStatus api (now 0) i (sv_backend s) = (Inr True, bk)" "tabs bk = set_read i (stabs s)" by blast
  have "json_at (ack_request i) ''messageID'' = Inr (JInt i)" by (simp add: ack_request_def)
  then have "getHandler L 6 now conn (ack_request i) s = (Inr (), s\<lparr>sv_backend := bk\<rparr>)"
    using u(1) assms(2) by (simp add: getHandler_codes ackMessage_def handler_steps lib_mysql act_return_def)
  then show ?thesis using u(2) by simp
qed

end

text \<open>
  C26. A message of less than 1024 bytes that is UTF-8 and does not end in a backslash, and which the database
  accepts, reaches its receiver and is not sent again. The command in the menu of the sender sends a
  request; the handler for it stores the message, which is unread then, and sends one text on the
  connection of the receiver; the receiving thread there, in whatever pieces the text arrives, shows
  sender, time, text and id of the message and sends an acknowledgement; and once that is handled, the
  receiver has the same unread messages as before. Server and clients print JSON with the same library,
  and parsing gives back what was printed.
\<close>

theorem message_end_to_end:
  assumes "chat_env fetch api tables L enc" and "json_texts (lib_dump L) enc"
    and "backend_ok (sv_backend s)" and "tables_fit (tables (bk_world (sv_backend s)))" and "tables_utf8 (tables (bk_world (sv_backend s)))"
    and "\<forall>m \<in> set (ct_messages (tables (bk_world (sv_backend s)))). 0 < mr_id m"
    and "cl_myId a = f" and "id_ok f" and "cl_sock a" and "stoi sid = Inr t" and "id_ok t" and "sv_conns s t = Some d"
    and "short_text body" and "utf8 body" and "ends_plain body" and "insert_accepted api f t body (bk_world (sv_backend s)) True"
  shows "(\<exists>a'. cmd_message (lib_dump L) (sid # body # ls) a = (Inr ls, a') \<and> cl_sent a' = cl_sent a @ [enc (message_request f t body)])
    \<and> (\<exists>s' reply i tm. getHandler L 5 now conn (message_request f t body) s = (Inr (), s') \<and> sv_out s' = sv_out s @ [(d, enc reply)]
       \<and> unread_for t (tables (bk_world (sv_backend s'))) = unread_for t (tables (bk_world (sv_backend s)))
           @ [\<lparr>mr_id = i, mr_from = f, mr_to = t, mr_content = body, mr_read = False, mr_time = tm\<rparr>]
       \<and> (\<forall>parse b ds. cl_sock b \<and> cl_running b \<and> cl_buffer b = [] \<and> parse (enc reply) = Inr reply \<and> concat ds = enc reply \<longrightarrow>
           (\<exists>b'. recvThread parse (lib_dump L) (map Some ds) b = (Inr (), b')
              \<and> cl_console b' = cl_console b @ [New_message f tm body i] \<and> cl_sent b' = cl_sent b @ [enc (ack_request i)]))
       \<and> (\<exists>s''. getHandler L 6 now' d (ack_request i) s' = (Inr (), s'')
           \<and> unread_for t (tables (bk_world (sv_backend s''))) = unread_for t (tables (bk_world (sv_backend s)))))"
proof -
  let ?tabs = "\<lambda>s. tables (bk_world (sv_backend s))"
  have j: "json_at (message_request f t body) ''fromid'' = Inr (JInt f)" "json_at (message_request f t body) ''toid'' = Inr (JInt t)"
    "json_at (message_request f t body) ''message'' = Inr (JStr body)" by (simp_all add: message_request_def)
  note utf = message_request_utf8 [OF assms(14), of f t]
  from chat_env.onemessage_ok [OF assms(1) conjI [OF assms(3) conjI [OF assms(4,5)]] assms(6) j(1) assms(8) j(2) assms(11) j(3) assms(13) utf, of now conn]
  obtain s' and m :: message where o: "onemessage L now conn (message_request f t body) s = (Inr (), s')" "backend_ok (sv_backend s')"
    "id_ok (ms_msgid m)" "ms_msgid m \<notin> mr_id ` set (ct_messages (?tabs s))" "time_text (ms_time m)"
    "?tabs s' = (?tabs s)\<lparr>ct_messages := ct_messages (?tabs s) @
        [\<lparr>mr_id = ms_msgid m, mr_from = f, mr_to = t, mr_content = body, mr_read = False, mr_time = ms_time m\<rparr>]\<rparr>"
    "sv_out s' = sv_out s @ [(d, enc (stamped (message_request f t body) m))]"
    using assms(12,16) unfolding stamped_def Let_def by auto
  from chat_env.ack_reads [OF assms(1) o(2,3), of now' d] obtain s'' where
    k: "getHandler L 6 now' d (ack_request (ms_msgid m)) s' = (Inr (), s'')" "?tabs s'' = set_read (ms_msgid m) (?tabs s')" by blast
  let ?r = "\<lparr>mr_id = ms_msgid m, mr_from = f, mr_to = t, mr_content = body, mr_read = False, mr_time = ms_time m\<rparr>"
  have "unread_for t (?tabs s'') = unread_for t (?tabs s)"
    using unread_after_ack [of ?r "?tabs s" t] o(4) by (simp add: k(2) o(6))
  moreover have "unread_for t (?tabs s') = unread_for t (?tabs s) @ [?r]" by (simp add: o(6) unread_for_add)
  moreover have "lib_dump L (message_request f t body) = Some (enc (message_request f t body))"
    by (rule json_printer.dump_utf8 [OF chat_env.axioms(2) [OF assms(1)] utf])
  note cmd_message_sends [where dump = "lib_dump L" and body = body, OF assms(10,9), unfolded assms(7), OF this, of ls]
  moreover note receiver_shows [OF assms(8) o(3) _ _ _ HOL.refl _ _ assms(2,14,15) o(5)]
  ultimately show ?thesis using o(1,7) k(1) unfolding getHandler_codes(1) by blast
qed

theorem message_end_to_end_witness:
  "\<exists>s' reply i tm. getHandler ref_libs 5 (\<lambda>k. 0) 5 (message_request 1 2 ''h}i'') (ref_service two_users [2 \<mapsto> 9]) = (Inr (), s')
    \<and> sv_out s' = [(9, json_text reply)]
    \<and> (\<exists>b'. recvThread (\<lambda>t. Inr reply) ref_dump [Some (take 9 (json_text reply)), Some (drop 9 (json_text reply))] client_start = (Inr (), b')
        \<and> cl_console b' = [New_message 1 tm ''h}i'' i])
    \<and> (\<exists>s''. getHandler ref_libs 6 (\<lambda>k. 0) 9 (ack_request i) s' = (Inr (), s'') \<and> unread_for 2 (data_tables (mw_data (bk_world (sv_backend s'')))) = [])"
proof -
  let ?s = "ref_service two_users [2 \<mapsto> 9]" and ?a = "client_start\<lparr>cl_myId := 1\<rparr>"
  have msgs: "\<forall>m \<in> set (ct_messages (data_tables two_users)). 0 < mr_id m" and none: "unread_for 2 (data_tables two_users) = []"
    by (simp_all add: two_users_def unread_for_def)
  have lib: "lib_dump ref_libs = ref_dump" by (simp add: ref_libs_def)
  have "stoi ''2'' = Inr 2" "utf8 ''h}i''" "ends_plain ''h}i''" "short_text ''h}i''" by code_simp+
  moreover have "insert_accepted ref_api 1 2 ''h}i'' (bk_world (ref_backend two_users)) True"
  proof -
    have "fst (ref_run 0 sql_insert_message [TYPE_LONG 1, TYPE_LONG 2, TYPE_STRING ''h}i''] two_users) \<noteq> None" by code_simp
    then show ?thesis by (simp add: insert_accepted_def mem_api_def Let_def case_prod_unfold)
  qed
  ultimately obtain s' reply i tm where r: "getHandler ref_libs 5 (\<lambda>k. 0) 5 (message_request 1 2 ''h}i'') ?s = (Inr (), s')" "sv_out s' = [(9, json_text reply)]"
    "\<forall>parse b ds. cl_sock b \<and> cl_running b \<and> cl_buffer b = [] \<and> parse (json_text reply) = Inr reply \<and> concat ds = json_text reply \<longrightarrow>
       (\<exists>b'. recvThread parse ref_dump (map Some ds) b = (Inr (), b')
          \<and> cl_console b' = cl_console b @ [New_message 1 tm ''h}i'' i] \<and> cl_sent b' = cl_sent b @ [json_text (ack_request i)])"
    "\<exists>s''. getHandler ref_libs 6 (\<lambda>k. 0) 9 (ack_request i) s' = (Inr (), s'') \<and> unread_for 2 (data_tables (mw_data (bk_world (sv_backend s'')))) = []"
    using message_end_to_end [OF ref_env.chat_env_axioms, of ?s ?a 1 "''2''" 2 9 "''h}i''" "[]" "\<lambda>k. 0" 5 "\<lambda>k. 0"] msgs none
    by (auto simp: id_ok_def client_start_def lib ref_json.json_texts_axioms)
  have "\<exists>b'. recvThread (\<lambda>t. Inr reply) ref_dump (map Some [take 9 (json_text reply), drop 9 (json_text reply)]) client_start = (Inr (), b')
      \<and> cl_console b' = cl_console client_start @ [New_message 1 tm ''h}i'' i] \<and> cl_sent b' = cl_sent client_start @ [json_text (ack_request i)]"
    by (rule r(3) [rule_format]) (simp add: client_start_def)
  then have "\<exists>b'. recvThread (\<lambda>t. Inr reply) ref_dump [Some (take 9 (json_text reply)), Some (drop 9 (json_text reply))] client_start = (Inr (), b')
      \<and> cl_console b' = [New_message 1 tm ''h}i'' i]" by (auto simp: client_start_def)
  with r(1,2,4) show ?thesis by blast
qed

end
