(* ===== verification/Repo_Tests.thy ===== *)
theory Repo_Tests
  imports Persistence Sharding
begin

text \<open>
  The tests of the store (\<open>tests/unit\<close> and \<open>tests/integration\<close>) as boolean definitions over the model: a
  test is the conjunction of its assertions, in the order in which the calls are made. Every test is proved
  to pass for whatever buffer, serialisation and database keep their documented behaviour. The tests of the
  code are thus also tests of the model.
\<close>

subsection \<open>test\_codec.cpp\<close>

text \<open>The frames of these tests have no type byte.\<close>

definition codec_put :: rpc_message where
  "codec_put = default_rpc_message\<lparr>rm_type := PUT_REQUEST, rm_put_request :=
     Some (default_put_request\<lparr>pq_key := ''hello'', pq_value := ''world'', pq_call_id := 42\<rparr>)\<rparr>"

definition codec_delete :: rpc_message where
  "codec_delete = default_rpc_message\<lparr>rm_type := DELETE_REQUEST, rm_delete_request :=
     Some (default_delete_request\<lparr>dq_key := ''key'', dq_call_id := 1\<rparr>)\<rparr>"

definition test_SendAndParseLengthPrefix :: "'b buffer_ops \<Rightarrow> (rpc_message \<Rightarrow> string) \<Rightarrow> (string \<Rightarrow> rpc_message option) \<Rightarrow> bool" where
  "test_SendAndParseLengthPrefix ops ser parse =
     (let msg = codec_put;
          serialized = ser msg;
          frame = htonl_bytes (word_of_nat (length serialized)) @ serialized;
          buf = buf_append ops frame (buf_new ops);
          parsedLen = ntohl_bytes (take 4 (buf_peek ops buf))
      in buf_readableBytes ops buf \<ge> 4 \<and> unat parsedLen = length serialized
         \<and> (case buf_retrieveAsString ops (unat parsedLen) (buf_retrieve ops 4 buf) of
              None \<Rightarrow> False
            | Some (payload, buf) \<Rightarrow>
                (case parse payload of
                   None \<Rightarrow> False
                 | Some parsed \<Rightarrow> rm_type parsed = PUT_REQUEST \<and> pq_key (put_request_of parsed) = ''hello''
                     \<and> pq_value (put_request_of parsed) = ''world'' \<and> pq_call_id (put_request_of parsed) = 42)))"

definition test_EmptyPayload :: "'b buffer_ops \<Rightarrow> (rpc_message \<Rightarrow> string) \<Rightarrow> (string \<Rightarrow> rpc_message option) \<Rightarrow> bool" where
  "test_EmptyPayload ops ser parse =
     (let msg = codec_delete;
          serialized = ser msg;
          len = (word_of_nat (length serialized) :: uint32);
          buf = buf_append ops serialized (buf_append ops (htonl_bytes len) (buf_new ops));
          parsedLen = ntohl_bytes (take 4 (buf_peek ops buf))
      in serialized \<noteq> []
         \<and> (case buf_retrieveAsString ops (unat parsedLen) (buf_retrieve ops 4 buf) of
              None \<Rightarrow> False
            | Some (payload, buf) \<Rightarrow>
                (case parse payload of None \<Rightarrow> False | Some parsed \<Rightarrow> rm_type parsed = DELETE_REQUEST)))"

definition test_PartialFrame :: "'b buffer_ops \<Rightarrow> bool" where
  "test_PartialFrame ops = (buf_readableBytes ops (buf_append ops (take 2 (htonl_bytes 100)) (buf_new ops)) < 4)"

context net_buffer
begin

lemma length_prefix_read:
  assumes "length s < 2 ^ 32" and "bytes b = htonl_bytes (word_of_nat (length s)) @ s"
  shows "unat (ntohl_bytes (take 4 (buf_peek ops b))) = length s"
    and "\<exists>b'. buf_retrieveAsString ops (length s) (buf_retrieve ops 4 b) = Some (s, b')"
proof -
  show "unat (ntohl_bytes (take 4 (buf_peek ops b))) = length s"
    using assms by (simp add: peek_bytes unat_of_nat)
  have r: "bytes (buf_retrieve ops 4 b) = s" using assms(2) by (simp add: retrieve_bytes)
  show "\<exists>b'. buf_retrieveAsString ops (length s) (buf_retrieve ops 4 b) = Some (s, b')"
    using retrieveAsString_bytes [of "length s" "buf_retrieve ops 4 b"] r by auto
qed

lemma partial_frame_passes: "test_PartialFrame ops"
  by (simp add: test_PartialFrame_def readable_bytes append_bytes new_bytes)

end

text \<open>
  Of the serialisation the tests need, besides the round trip, that no bytes parse as the message in which
  nothing is set, as in the proto3 encoding, and that the two messages have fewer than \<open>2\<^sup>3\<^sup>2\<close> bytes.
\<close>

locale tested_codec = net_buffer + wire_format ser parse
  for ser :: "rpc_message \<Rightarrow> string" and parse :: "string \<Rightarrow> rpc_message option" +
  assumes empty_is_default: "parse [] = Some m \<Longrightarrow> m = default_rpc_message"
    and small_messages: "length (ser codec_put) < 2 ^ 32" "length (ser codec_delete) < 2 ^ 32"
begin

lemma ser_not_empty: "m \<noteq> default_rpc_message \<Longrightarrow> ser m \<noteq> []"
  using empty_is_default parse_ser by metis

lemma send_and_parse_passes: "test_SendAndParseLengthPrefix ops ser parse"
proof -
  let ?b = "buf_append ops (htonl_bytes (word_of_nat (length (ser codec_put))) @ ser codec_put) (buf_new ops)"
  have b: "bytes ?b = htonl_bytes (word_of_nat (length (ser codec_put))) @ ser codec_put"
    by (simp add: append_bytes new_bytes)
  note read = length_prefix_read [OF small_messages(1) b]
  from read(2) obtain b' where b': "buf_retrieveAsString ops (length (ser codec_put)) (buf_retrieve ops 4 ?b) = Some (ser codec_put, b')"
    by blast
  have "4 \<le> buf_readableBytes ops ?b" by (simp add: readable_bytes b)
  then show ?thesis
    unfolding test_SendAndParseLengthPrefix_def Let_def read(1) b' by (simp add: parse_ser) (simp add: codec_put_def)
qed

lemma empty_payload_passes: "test_EmptyPayload ops ser parse"
proof -
  let ?c = "buf_append ops (ser codec_delete) (buf_append ops (htonl_bytes (word_of_nat (length (ser codec_delete)))) (buf_new ops))"
  have c: "bytes ?c = htonl_bytes (word_of_nat (length (ser codec_delete))) @ ser codec_delete"
    by (simp add: append_bytes new_bytes)
  note read = length_prefix_read [OF small_messages(2) c]
  from read(2) obtain c' where c': "buf_retrieveAsString ops (length (ser codec_delete)) (buf_retrieve ops 4 ?c) = Some (ser codec_delete, c')"
    by blast
  have "ser codec_delete \<noteq> []" by (rule ser_not_empty) (simp add: codec_delete_def default_rpc_message_def)
  then show ?thesis
    unfolding test_EmptyPayload_def Let_def read(1) c' by (simp add: parse_ser) (simp add: codec_delete_def)
qed

end

lemma rpc_message_code_empty: "whole dec_rpc_message [] = None"
  by code_simp

interpretation tested: tested_codec list_buffer "\<lambda>b. b" enc_rpc_message "whole dec_rpc_message"
proof unfold_locales
  show "m = default_rpc_message" if "whole dec_rpc_message [] = Some m" for m
    using that by (simp add: rpc_message_code_empty)
  have "length (enc_rpc_message codec_put) < 200" "length (enc_rpc_message codec_delete) < 200"
    by code_simp+
  then show "length (enc_rpc_message codec_put) < 2 ^ 32" "length (enc_rpc_message codec_delete) < 2 ^ 32"
    by simp_all
qed

subsection \<open>test\_shard\_router.cpp\<close>

definition test_BasicRangeLookup :: bool where
  "test_BasicRangeLookup =
     (let s1 = \<lparr>sm_shard_id = 1, sm_start_key = [], sm_end_key = ''middle'', sm_epoch = 1,
            sm_leader_node_id = 1, sm_peer_node_ids = [1, 2, 3]\<rparr>;
          s2 = \<lparr>sm_shard_id = 2, sm_start_key = ''middle'', sm_end_key = [], sm_epoch = 1,
            sm_leader_node_id = 1, sm_peer_node_ids = [1, 2, 3]\<rparr>;
          router = sr_loadShardMap \<lparr>map_shards = [s1, s2], map_version = 1\<rparr> ShardRouter
      in sr_getShardId ''apple'' router = 1 \<and> sr_getShardId ''aaaa'' router = 1
         \<and> sr_getShardId ''middle'' router = 2 \<and> sr_getShardId ''zebra'' router = 2
         \<and> sr_getShardId ''xyz'' router = 2)"

definition test_UnknownKey :: bool where
  "test_UnknownKey =
     (let router = sr_loadShardMap (default_shard_map\<lparr>map_version := 0\<rparr>) ShardRouter
      in sr_getShardId ''anything'' router = 0)"

definition test_LeaderAddress :: bool where
  "test_LeaderAddress =
     (let s1 = \<lparr>sm_shard_id = 1, sm_start_key = [], sm_end_key = ''m'', sm_epoch = 1,
            sm_leader_node_id = 100, sm_peer_node_ids = [100, 101, 102]\<rparr>;
          router = sr_loadShardMap \<lparr>map_shards = [s1], map_version = 1\<rparr> ShardRouter;
          router = sr_updateLeader 1 100 ''127.0.0.1:9100'' router;
          router = sr_updateLeader 1 101 ''127.0.0.1:9200'' router;
          router = sr_updateLeader 1 102 ''127.0.0.1:9300'' router
      in sr_getLeaderAddr 1 router = ''127.0.0.1:9100'' \<and> sr_getLeaderNodeId 1 router = 100)"

lemma router_tests_pass: "test_BasicRangeLookup" "test_UnknownKey" "test_LeaderAddress"
  by code_simp+

subsection \<open>test\_single\_node.cpp\<close>

text \<open>
  The fixture: \<open>SetUp\<close> removes the directory and opens an engine on it, \<open>TearDown\<close> closes it; a test body
  runs on the open database. A variable \<open>value\<close> that is handed to \<open>get\<close> is empty before.
\<close>

definition kTestDbPath :: string where "kTestDbPath = ''/tmp/dkv_test_single_node''"

definition single_node_test :: "'db rocksdb_ops \<Rightarrow> ('db \<Rightarrow> bool) \<Rightarrow> bool" where
  "single_node_test ops body =
     (let (opened, e) = engine_open ops (RocksEngine kTestDbPath)
      in opened \<and> (case db_ptr e of None \<Rightarrow> False | Some db \<Rightarrow> body db))"

definition test_PutAndGet :: "'db rocksdb_ops \<Rightarrow> 'db \<Rightarrow> bool" where
  "test_PutAndGet ops db =
     (let (p, db) = engine_put ops ''key1'' ''value1'' db;
          (g, val) = engine_get ops ''key1'' db
      in p \<and> g \<and> val = ''value1'')"

definition test_KeyNotFound :: "'db rocksdb_ops \<Rightarrow> 'db \<Rightarrow> bool" where
  "test_KeyNotFound ops db = (let (g, val) = engine_get ops ''nonexistent'' db in \<not> g \<and> val = [])"

definition test_Delete :: "'db rocksdb_ops \<Rightarrow> 'db \<Rightarrow> bool" where
  "test_Delete ops db =
     (let (p, db) = engine_put ops ''key1'' ''value1'' db;
          (d, db) = engine_del ops ''key1'' db;
          (g, val) = engine_get ops ''key1'' db
      in p \<and> d \<and> \<not> g)"

definition test_Overwrite :: "'db rocksdb_ops \<Rightarrow> 'db \<Rightarrow> bool" where
  "test_Overwrite ops db =
     (let (p, db) = engine_put ops ''key1'' ''old_value'' db;
          (p', db) = engine_put ops ''key1'' ''new_value'' db;
          (g, val) = engine_get ops ''key1'' db
      in p \<and> p' \<and> g \<and> val = ''new_value'')"

definition test_Scan :: "'db rocksdb_ops \<Rightarrow> 'db \<Rightarrow> bool" where
  "test_Scan ops db =
     (let (_, db) = engine_put ops ''a_key'' ''a_val'' db;
          (_, db) = engine_put ops ''b_key'' ''b_val'' db;
          (_, db) = engine_put ops ''c_key'' ''c_val'' db;
          (_, db) = engine_put ops ''d_key'' ''d_val'' db;
          (_, db) = engine_put ops ''e_key'' ''e_val'' db;
          everything = engine_scan ops [] [] 100 db;
          limited = engine_scan ops [] [] 3 db;
          ranged = engine_scan ops ''b_key'' ''d_key'' 100 db
      in length (sc_kvs everything) = 5 \<and> \<not> sc_has_more everything
         \<and> length (sc_kvs limited) = 3 \<and> sc_has_more limited
         \<and> length (sc_kvs ranged) = 2)"

definition test_ScanEmptyDatabase :: "'db rocksdb_ops \<Rightarrow> 'db \<Rightarrow> bool" where
  "test_ScanEmptyDatabase ops db =
     (let result = engine_scan ops [] [] 100 db in length (sc_kvs result) = 0 \<and> \<not> sc_has_more result)"

definition test_BatchWrite :: "'db rocksdb_ops \<Rightarrow> 'db \<Rightarrow> bool" where
  "test_BatchWrite ops db =
     (let (w, db) = engine_writeBatch ops
            [(''batch_1'', ''val1''), (''batch_2'', ''val2''), (''batch_3'', ''val3'')] [] db;
          (g1, v1) = engine_get ops ''batch_1'' db;
          (g2, v2) = engine_get ops ''batch_2'' db;
          (g3, v3) = engine_get ops ''batch_3'' db
      in w \<and> g1 \<and> v1 = ''val1'' \<and> g2 \<and> v2 = ''val2'' \<and> g3 \<and> v3 = ''val3'')"

definition test_LargeValue :: "'db rocksdb_ops \<Rightarrow> 'db \<Rightarrow> bool" where
  "test_LargeValue ops db =
     (let large = replicate (1024 * 1024) (CHR ''X'');
          (p, db) = engine_put ops ''large_key'' large db;
          (g, val) = engine_get ops ''large_key'' db
      in p \<and> g \<and> length val = length large \<and> val = large)"

text \<open>
  What these tests rely on beyond the calls that succeed: an engine that is opened where no database is starts
  with an empty one, and a \<open>Get\<close> that finds nothing leaves the (empty) string alone.
\<close>

locale fresh_rocksdb = rocksdb_available +
  assumes open_fresh: "\<exists>d. db_Open ops kTestDbPath = (Ok, d) \<and> content d = Map.empty"
    and get_untouched: "content d k = None \<Longrightarrow> db_Get ops k d = (NotFound, [])"
begin

lemma fixture_runs:
  assumes "\<And>d. content d = Map.empty \<Longrightarrow> body d"
  shows "single_node_test ops body"
  using open_fresh assms by (auto simp: single_node_test_def engine_open_def RocksEngine_def)

lemma put_runs: "\<exists>d'. engine_put ops k v d = (True, d') \<and> content d' = (content d)(k \<mapsto> v)"
  using put_available [of k v d] put_ok [of k v d] by (cases "db_Put ops k v d") (auto simp: engine_put_def)

lemma del_runs: "\<exists>d'. engine_del ops k d = (True, d') \<and> content d' = (content d)(k := None)"
  using delete_available [of k d] delete_ok [of k d] by (cases "db_Delete ops k d") (auto simp: engine_del_def)

lemma batch_runs: "\<exists>d'. engine_writeBatch ops ps ks d = (True, d')
    \<and> content d' = fold batch_apply (map (\<lambda>p. BatchPut (fst p) (snd p)) ps @ map BatchDelete ks) (content d)"
  using write_available [of "map (\<lambda>p. BatchPut (fst p) (snd p)) ps @ map BatchDelete ks" d]
    write_ok [of "map (\<lambda>p. BatchPut (fst p) (snd p)) ps @ map BatchDelete ks" d]
  by (cases "db_Write ops (map (\<lambda>p. BatchPut (fst p) (snd p)) ps @ map BatchDelete ks) d")
    (auto simp: engine_writeBatch_def Let_def)

lemma get_runs:
  "engine_get ops k d = (case content d k of None \<Rightarrow> (False, []) | Some v \<Rightarrow> (True, v))"
  using get_available [of d k] get_untouched [of d k] by (auto simp: engine_get_def split: option.splits)

lemma seek_runs:
  assumes "sorted_wrt (<) (map fst xs)" and "map_of xs = content d |` {k'. k \<le> k'}"
  shows "db_Seek ops k d = xs"
  using sorted_map_of_unique [OF _ assms(1), of "db_Seek ops k d"] seek_range [of k d] assms(2)
  by (simp add: range_of_def)

lemma put_get_runs: "\<exists>d'. engine_put ops k v d = (True, d') \<and> engine_get ops k d' = (True, v)"
  using put_runs [of k v d] by (auto simp: get_runs)

lemma put_and_get_passes: "single_node_test ops (test_PutAndGet ops)"
proof (rule fixture_runs)
  show "test_PutAndGet ops d" for d
    using put_get_runs [of "''key1''" "''value1''" d] by (auto simp: test_PutAndGet_def)
qed

lemma key_not_found_passes: "single_node_test ops (test_KeyNotFound ops)"
  by (rule fixture_runs) (simp add: test_KeyNotFound_def get_runs)

lemma delete_passes: "single_node_test ops (test_Delete ops)"
proof (rule fixture_runs)
  fix d
  obtain d1 where "engine_put ops ''key1'' ''value1'' d = (True, d1)" using put_runs by blast
  moreover obtain d2 where "engine_del ops ''key1'' d1 = (True, d2)" "content d2 = (content d1)(''key1'' := None)"
    using del_runs by blast
  ultimately show "test_Delete ops d" by (simp add: test_Delete_def get_runs)
qed

lemma overwrite_passes: "single_node_test ops (test_Overwrite ops)"
proof (rule fixture_runs)
  fix d
  obtain d1 where "engine_put ops ''key1'' ''old_value'' d = (True, d1)" using put_runs by blast
  moreover obtain d2 where "engine_put ops ''key1'' ''new_value'' d1 = (True, d2)" "engine_get ops ''key1'' d2 = (True, ''new_value'')"
    using put_get_runs by blast
  ultimately show "test_Overwrite ops d" by (simp add: test_Overwrite_def)
qed

lemma large_value_passes: "single_node_test ops (test_LargeValue ops)"
proof (rule fixture_runs)
  fix d
  define large where "large = replicate (1024 * 1024) (CHR ''X'')"
  obtain d1 where d1: "engine_put ops ''large_key'' large d = (True, d1)" "engine_get ops ''large_key'' d1 = (True, large)"
    using put_get_runs by blast
  show "test_LargeValue ops d"
    unfolding test_LargeValue_def large_def [symmetric] Let_def d1 by (simp only: prod.case d1 simp_thms)
qed

lemma empty_scan_passes: "single_node_test ops (test_ScanEmptyDatabase ops)"
proof (rule fixture_runs)
  fix d assume "content d = Map.empty"
  then have "db_Seek ops [] d = []" by (intro seek_runs) auto
  then show "test_ScanEmptyDatabase ops d" by (simp add: test_ScanEmptyDatabase_def engine_scan_def)
qed

lemma scan_passes: "single_node_test ops (test_Scan ops)"
proof (rule fixture_runs)
  fix d assume d: "content d = Map.empty"
  obtain d1 where d1: "engine_put ops ''a_key'' ''a_val'' d = (True, d1)" "content d1 = (content d)(''a_key'' \<mapsto> ''a_val'')"
    using put_runs by blast
  obtain d2 where d2: "engine_put ops ''b_key'' ''b_val'' d1 = (True, d2)" "content d2 = (content d1)(''b_key'' \<mapsto> ''b_val'')"
    using put_runs by blast
  obtain d3 where d3: "engine_put ops ''c_key'' ''c_val'' d2 = (True, d3)" "content d3 = (content d2)(''c_key'' \<mapsto> ''c_val'')"
    using put_runs by blast
  obtain d4 where d4: "engine_put ops ''d_key'' ''d_val'' d3 = (True, d4)" "content d4 = (content d3)(''d_key'' \<mapsto> ''d_val'')"
    using put_runs by blast
  obtain d5 where d5: "engine_put ops ''e_key'' ''e_val'' d4 = (True, d5)" "content d5 = (content d4)(''e_key'' \<mapsto> ''e_val'')"
    using put_runs by blast
  let ?all = "[(''a_key'', ''a_val''), (''b_key'', ''b_val''), (''c_key'', ''c_val''), (''d_key'', ''d_val''), (''e_key'', ''e_val'')]"
  have c: "content d5 = map_of ?all"
    unfolding d5(2) d4(2) d3(2) d2(2) d1(2) d by (simp add: fun_eq_iff)
  have "db_Seek ops [] d5 = ?all"
    by (rule seek_runs) (simp_all add: c less_char_def restrict_map_def fun_eq_iff)
  moreover have "db_Seek ops ''b_key'' d5 = tl ?all"
    by (rule seek_runs) (auto simp: c less_char_def restrict_map_def fun_eq_iff)
  moreover have "\<not> (100 :: uint32) \<le> 1" "\<not> (3 :: uint32) \<le> 1" by code_simp+
  ultimately have "sc_kvs (engine_scan ops [] [] 100 d5) = ?all" "\<not> sc_has_more (engine_scan ops [] [] 100 d5)"
    "sc_kvs (engine_scan ops [] [] 3 d5) = take 3 ?all" "sc_has_more (engine_scan ops [] [] 3 d5)"
    "sc_kvs (engine_scan ops ''b_key'' ''d_key'' 100 d5) = take 2 (tl ?all)"
    by (simp_all add: engine_scan_def less_char_def)
  then show "test_Scan ops d"
    by (simp add: test_Scan_def d1(1) d2(1) d3(1) d4(1) d5(1))
qed

lemma batch_test_passes: "single_node_test ops (test_BatchWrite ops)"
proof (rule fixture_runs)
  fix d assume "content d = Map.empty"
  then show "test_BatchWrite ops d"
    using batch_runs [of "[(''batch_1'', ''val1''), (''batch_2'', ''val2''), (''batch_3'', ''val3'')]" "[]" d]
    by (auto simp: test_BatchWrite_def get_runs)
qed

end

interpretation fresh: fresh_rocksdb alist_ops map_of
  by unfold_locales (auto simp: alist_ops_def)

end
