(* ===== verification/Raft_Process.thy ===== *)
theory Raft_Process
  imports Leader_Completeness Kv_Props Entry_Points
begin

text \<open>
  The members of a cluster as the programs they are: every member is started by \<open>main\<close> from its arguments
  and its database, runs its timer, and exchanges bytes with the others over TCP connections. An event of
  this system is what an event loop of one member does without interruption, what it has done of that when
  the process stops in the middle, or something that happens to the network or to a whole process. What the members do is composed from the definitions of the code
  (\<open>node_start\<close>, \<open>server_tick\<close>, \<open>server_onMessage\<close>, \<open>onPeerMessage\<close>); nothing of Raft is repeated here.
\<close>

subsection \<open>Connections\<close>

text \<open>
  A connection that member \<open>ln_from\<close> has opened to member \<open>ln_to\<close>: the bytes under way in both directions,
  and the buffers of the two ends. An end is gone when its process has stopped or has seen the connection
  close; what was sent to it may stay on the wire for ever.
\<close>

record 'b link =
  ln_from :: uint64
  ln_to :: uint64
  ln_cli :: bool
  ln_srv :: bool
  ln_up :: string
  ln_up_buf :: 'b
  ln_down :: string
  ln_down_buf :: 'b

definition new_link :: "'b buffer_ops \<Rightarrow> uint64 \<Rightarrow> uint64 \<Rightarrow> 'b link" where
  "new_link ops i j = \<lparr>ln_from = i, ln_to = j, ln_cli = True, ln_srv = True,
     ln_up = [], ln_up_buf = buf_new ops, ln_down = [], ln_down_buf = buf_new ops\<rparr>"

text \<open>The bytes that member \<open>i\<close> has written to the peer \<open>p\<close> go to the connection it has to this peer.\<close>

fun write_up :: "uint64 \<Rightarrow> uint64 \<times> string \<Rightarrow> 'b link list \<Rightarrow> 'b link list" where
  "write_up i (p, bs) [] = []"
| "write_up i (p, bs) (l # ls) =
     (if ln_cli l \<and> ln_from l = i \<and> ln_to l = p then l\<lparr>ln_up := ln_up l @ bs\<rparr> # ls
      else l # write_up i (p, bs) ls)"

definition transmit :: "uint64 \<Rightarrow> (uint64 \<times> string) list \<Rightarrow> 'b link list \<Rightarrow> 'b link list" where
  "transmit i outs ls = fold (write_up i) outs ls"

definition crash_link :: "uint64 \<Rightarrow> 'b link \<Rightarrow> 'b link" where
  "crash_link i l = l\<lparr>ln_cli := ln_cli l \<and> ln_from l \<noteq> i, ln_srv := ln_srv l \<and> ln_to l \<noteq> i\<rparr>"

subsection \<open>A process that stops\<close>

text \<open>
  A process may stop between any two calls to the database or to a connection. \<open>persistRaftState\<close> makes
  three calls that change the database: it puts the term, puts the vote, and writes the batch with the
  log. What is left after the first \<open>k\<close> calls:
\<close>

fun effect_size :: "raft_effect \<Rightarrow> nat" where
  "effect_size (Persist t v l) = 3"
| "effect_size e = 1"

fun stop_effect :: "('db, 'b) raft_env \<Rightarrow> nat \<Rightarrow> raft_effect \<Rightarrow> 'db raft_service \<Rightarrow> 'db raft_service" where
  "stop_effect env k (Persist t v l) rs =
     (let db1 = snd (engine_put (env_db env) termKey (dec_string (unat t)) (rs_db rs));
          db2 = snd (engine_put (env_db env) voteKey (dec_string (unat v)) db1)
      in if k = 0 then rs else if k = 1 then rs\<lparr>rs_db := db1\<rparr> else rs\<lparr>rs_db := db2\<rparr>)"
| "stop_effect env k e rs = rs"

fun stopped :: "('db, 'b) raft_env \<Rightarrow> nat \<Rightarrow> raft_effect list \<Rightarrow> 'db raft_service \<Rightarrow> 'db raft_service" where
  "stopped env k [] rs = rs"
| "stopped env k (e # es) rs =
     (if k < effect_size e then stop_effect env k e rs else stopped env (k - effect_size e) es (run_effect env e rs))"

subsection \<open>The system\<close>

text \<open>The running processes, the database that each member has on disk while it is down, the connections.\<close>

record ('db, 'b) system =
  sy_procs :: "uint64 \<Rightarrow> 'db raft_service option"
  sy_disks :: "uint64 \<Rightarrow> 'db"
  sy_links :: "'b link list"

definition init_system :: "(uint64 \<Rightarrow> 'db) \<Rightarrow> ('db, 'b) system" where
  "init_system disks = \<lparr>sy_procs = (\<lambda>_. None), sy_disks = disks, sy_links = []\<rparr>"

text \<open>RocksDB opens what is on the disk.\<close>

definition on_disk :: "('db, 'b) raft_env \<Rightarrow> 'db \<Rightarrow> ('db, 'b) raft_env" where
  "on_disk env db = env\<lparr>env_db := (env_db env)\<lparr>db_Open := (\<lambda>path. (Ok, db))\<rparr>\<rparr>"

text \<open>
  The events: \<open>main\<close> with these arguments, the end of a process, a connection that is made, closed by
  the client or by the server, the timer, bytes in the buffer of some client's connection, and the next
  \<open>n\<close> bytes of connection \<open>k\<close> arriving at the server or at the client. \<open>Crash\<close> ends a process between two
  events; the others end it after \<open>c\<close> calls of its timer, of a write of a client, or of the first
  message in the bytes that have arrived.
\<close>

datatype 'b system_event =
    Start uint64 "string list" "uint64 list" int int
  | Crash uint64
  | Connect uint64 uint64
  | Hangup nat
  | Close nat
  | Timer uint64 int int int
  | Client uint64 "nat \<Rightarrow> int \<times> int \<times> int" 'b
  | Recv_up nat nat "nat \<Rightarrow> int \<times> int \<times> int"
  | Recv_down nat nat "nat \<Rightarrow> int \<times> int \<times> int"
  | Crash_timer uint64 int int int nat
  | Crash_write uint64 string nat
  | Crash_up nat nat int int int nat
  | Crash_down nat nat int int int nat

text \<open>A frame of \<open>2\<^sup>3\<^sup>2\<close> bytes and more has a length that its header cannot hold; the executions do not send one.\<close>

definition small_frame :: "string \<Rightarrow> bool" where
  "small_frame bs \<longleftrightarrow> int (length bs) < 2 ^ 32"

definition proceed :: "uint64 \<Rightarrow> 'db raft_service \<Rightarrow> 'db raft_service \<Rightarrow> ('db, 'b) system \<Rightarrow> ('db, 'b) system option" where
  "proceed i rs rs' sy =
     (let outs = drop (length (rs_out rs)) (rs_out rs')
      in if list_all (\<lambda>o'. small_frame (snd o')) outs
         then Some (sy\<lparr>sy_procs := (sy_procs sy)(i := Some rs'), sy_links := transmit i outs (sy_links sy)\<rparr>)
         else None)"

definition start_member ::
  "('db, 'b) raft_env \<Rightarrow> uint64 \<Rightarrow> string list \<Rightarrow> uint64 list \<Rightarrow> int \<Rightarrow> int \<Rightarrow> ('db, 'b) system \<Rightarrow> ('db, 'b) system option" where
  "start_member env i argv order now rnd sy =
     (case sy_procs sy i of
        Some rs \<Rightarrow> None
      | None \<Rightarrow> (case node_start (on_disk env (sy_disks sy i)) argv order now rnd of
            Inr (addr, Some (Replicated rs), timer) \<Rightarrow> Some (sy\<lparr>sy_procs := (sy_procs sy)(i := Some rs)\<rparr>)
          | _ \<Rightarrow> None))"

definition connect :: "('db, 'b) raft_env \<Rightarrow> uint64 \<Rightarrow> uint64 \<Rightarrow> ('db, 'b) system \<Rightarrow> ('db, 'b) system option" where
  "connect env i j sy =
     (case (sy_procs sy i, sy_procs sy j) of
        (Some rs, Some rs') \<Rightarrow>
          if i \<noteq> j \<and> j \<in> fst ` set (rs_peerAddrs rs) \<and> j \<notin> set (rs_conns rs)
          then Some (sy\<lparr>sy_procs := (sy_procs sy)(i := Some (peer_connected j rs)),
                 sy_links := new_link (env_buf env) i j # sy_links sy\<rparr>)
          else None
      | _ \<Rightarrow> None)"

definition recv_up :: "('db, 'b) raft_env \<Rightarrow> nat \<Rightarrow> nat \<Rightarrow> (nat \<Rightarrow> int \<times> int \<times> int) \<Rightarrow> ('db, 'b) system \<Rightarrow> ('db, 'b) system option" where
  "recv_up env k n clk sy =
     (let l = sy_links sy ! k in
      if k < length (sy_links sy) \<and> ln_srv l then
        (case sy_procs sy (ln_to l) of
           None \<Rightarrow> None
         | Some rs \<Rightarrow>
             (case server_onMessage env clk (buf_append (env_buf env) (take n (ln_up l)) (ln_up_buf l)) (Replicated rs) of
                Some (buf, (c, out, Replicated rs'), aborted) \<Rightarrow>
                  if aborted \<or> \<not> list_all small_frame out then None
                  else proceed (ln_to l) rs rs' (sy\<lparr>sy_links := (sy_links sy)[k :=
                    l\<lparr>ln_up := drop n (ln_up l), ln_up_buf := buf, ln_down := ln_down l @ concat out\<rparr>]\<rparr>)
              | _ \<Rightarrow> None))
      else None)"

definition recv_down :: "('db, 'b) raft_env \<Rightarrow> nat \<Rightarrow> nat \<Rightarrow> (nat \<Rightarrow> int \<times> int \<times> int) \<Rightarrow> ('db, 'b) system \<Rightarrow> ('db, 'b) system option" where
  "recv_down env k n clk sy =
     (let l = sy_links sy ! k in
      if k < length (sy_links sy) \<and> ln_cli l then
        (case sy_procs sy (ln_from l) of
           None \<Rightarrow> None
         | Some rs \<Rightarrow>
             (case onPeerMessage env clk (ln_to l) (buf_append (env_buf env) (take n (ln_down l)) (ln_down_buf l)) rs of
                Some (buf, (c, rs'), aborted) \<Rightarrow>
                  if aborted then None
                  else proceed (ln_from l) rs rs' (sy\<lparr>sy_links := (sy_links sy)[k :=
                    l\<lparr>ln_down := drop n (ln_down l), ln_down_buf := buf\<rparr>]\<rparr>)
              | _ \<Rightarrow> None))
      else None)"

definition crash_in :: "('db, 'b) raft_env \<Rightarrow> uint64 \<Rightarrow> raft_effect list \<Rightarrow> nat \<Rightarrow> 'db raft_service \<Rightarrow> ('db, 'b) system
    \<Rightarrow> ('db, 'b) system option" where
  "crash_in env i effs c rs sy =
     (let rs' = stopped env c effs rs; outs = drop (length (rs_out rs)) (rs_out rs')
      in if list_all (\<lambda>o'. small_frame (snd o')) outs
         then Some (sy\<lparr>sy_procs := (sy_procs sy)(i := None), sy_disks := (sy_disks sy)(i := rs_db rs'),
           sy_links := map (crash_link i) (transmit i outs (sy_links sy))\<rparr>)
         else None)"

text \<open>The first message in a buffer, if a whole one has arrived, and the sender that the server takes from it.\<close>

definition first_message :: "('db, 'b) raft_env \<Rightarrow> 'b \<Rightarrow> raft_message option" where
  "first_message env buf =
     (case next_frame (env_buf env) buf of Frame ty payload buf' \<Rightarrow> if ty = RAFT_MSG then parse_raft env payload else None
      | _ \<Rightarrow> None)"

definition request_sender :: "raft_message \<Rightarrow> uint64" where
  "request_sender m = (case rf_type m of REQUEST_VOTE \<Rightarrow> rv_candidate_id (request_vote_of m)
     | APPEND_ENTRIES \<Rightarrow> ae_leader_id (append_entries_of m) | _ \<Rightarrow> 0)"

text \<open>The bytes on the way to an end that is gone, and those in its buffer, are read by nobody.\<close>

definition crash_up :: "('db, 'b) raft_env \<Rightarrow> nat \<Rightarrow> nat \<Rightarrow> int \<Rightarrow> int \<Rightarrow> int \<Rightarrow> nat \<Rightarrow> ('db, 'b) system
    \<Rightarrow> ('db, 'b) system option" where
  "crash_up env k n now now' rnd c sy =
     (let l = sy_links sy ! k in
      if k < length (sy_links sy) \<and> ln_srv l then
        (case (sy_procs sy (ln_to l), first_message env (buf_append (env_buf env) (take n (ln_up l)) (ln_up_buf l))) of
           (Some rs, Some m) \<Rightarrow>
             crash_in env (ln_to l) (snd (snd (handleRaftMessage m (request_sender m) now now' rnd (rs_raft rs)))) c rs
               (sy\<lparr>sy_links := (sy_links sy)[k := l\<lparr>ln_srv := False, ln_up := [], ln_up_buf := buf_new (env_buf env)\<rparr>]\<rparr>)
         | _ \<Rightarrow> None)
      else None)"

definition crash_down :: "('db, 'b) raft_env \<Rightarrow> nat \<Rightarrow> nat \<Rightarrow> int \<Rightarrow> int \<Rightarrow> int \<Rightarrow> nat \<Rightarrow> ('db, 'b) system
    \<Rightarrow> ('db, 'b) system option" where
  "crash_down env k n now now' rnd c sy =
     (let l = sy_links sy ! k in
      if k < length (sy_links sy) \<and> ln_cli l then
        (case (sy_procs sy (ln_from l), first_message env (buf_append (env_buf env) (take n (ln_down l)) (ln_down_buf l))) of
           (Some rs, Some m) \<Rightarrow>
             crash_in env (ln_from l) (snd (snd (handleRaftMessage m (ln_to l) now now' rnd (rs_raft rs)))) c rs
               (sy\<lparr>sy_links := (sy_links sy)[k := l\<lparr>ln_cli := False, ln_down := [], ln_down_buf := buf_new (env_buf env)\<rparr>]\<rparr>)
         | _ \<Rightarrow> None)
      else None)"

fun system_step :: "('db, 'b) raft_env \<Rightarrow> 'b system_event \<Rightarrow> ('db, 'b) system \<Rightarrow> ('db, 'b) system option" where
  "system_step env (Start i argv order now rnd) sy = start_member env i argv order now rnd sy"
| "system_step env (Crash i) sy =
     (case sy_procs sy i of
        None \<Rightarrow> None
      | Some rs \<Rightarrow> Some (sy\<lparr>sy_procs := (sy_procs sy)(i := None), sy_disks := (sy_disks sy)(i := rs_db rs),
            sy_links := map (crash_link i) (sy_links sy)\<rparr>))"
| "system_step env (Connect i j) sy = connect env i j sy"
| "system_step env (Hangup k) sy =
     (let l = sy_links sy ! k in
      if k < length (sy_links sy) \<and> ln_cli l then
        (case sy_procs sy (ln_from l) of
           None \<Rightarrow> None
         | Some rs \<Rightarrow> Some (sy\<lparr>sy_procs := (sy_procs sy)(ln_from l := Some (peer_disconnected (ln_to l) rs)),
               sy_links := (sy_links sy)[k := l\<lparr>ln_cli := False\<rparr>]\<rparr>))
      else None)"
| "system_step env (Close k) sy =
     (if k < length (sy_links sy)
      then Some (sy\<lparr>sy_links := (sy_links sy)[k := (sy_links sy ! k)\<lparr>ln_srv := False\<rparr>]\<rparr>) else None)"
| "system_step env (Timer i now now' rnd) sy =
     (case sy_procs sy i of
        None \<Rightarrow> None
      | Some rs \<Rightarrow> (case server_tick env now now' rnd (Replicated rs) of
            Replicated rs' \<Rightarrow> proceed i rs rs' sy
          | Single db \<Rightarrow> None))"
| "system_step env (Client i clk buf) sy =
     (case sy_procs sy i of
        None \<Rightarrow> None
      | Some rs \<Rightarrow> (case server_onMessage env clk buf (Replicated rs) of
            Some (buf', (c, out, Replicated rs'), aborted) \<Rightarrow> if aborted then None else proceed i rs rs' sy
          | _ \<Rightarrow> None))"
| "system_step env (Recv_up k n clk) sy = recv_up env k n clk sy"
| "system_step env (Recv_down k n clk) sy = recv_down env k n clk sy"
| "system_step env (Crash_timer i now now' rnd c) sy =
     (case sy_procs sy i of
        None \<Rightarrow> None
      | Some rs \<Rightarrow> crash_in env i (snd (tick now now' rnd (rs_raft rs))) c rs sy)"
| "system_step env (Crash_write i cmd c) sy =
     (case sy_procs sy i of
        None \<Rightarrow> None
      | Some rs \<Rightarrow> crash_in env i (snd (snd (propose cmd (rs_raft rs)))) c rs sy)"
| "system_step env (Crash_up k n now now' rnd c) sy = crash_up env k n now now' rnd c sy"
| "system_step env (Crash_down k n now now' rnd c) sy = crash_down env k n now now' rnd c sy"

subsection \<open>Executions\<close>

text \<open>
  The code keeps the term and the vote under keys of the same store that holds the data. Clients of these
  executions leave these keys and the log alone: their puts and deletes are for keys of users. They send no
  frame of the type of Raft messages.
\<close>

definition command_ok :: "('db, 'b) raft_env \<Rightarrow> string \<Rightarrow> bool" where
  "command_ok env c =
     (case parse_rpc env c of
        None \<Rightarrow> True
      | Some msg \<Rightarrow> (case rm_type msg of
            PUT_REQUEST \<Rightarrow> user_key (pq_key (put_request_of msg))
          | DELETE_REQUEST \<Rightarrow> user_key (dq_key (delete_request_of msg))
          | _ \<Rightarrow> True))"

definition client_frame :: "('db, 'b) raft_env \<Rightarrow> char \<times> string \<Rightarrow> bool" where
  "client_frame env f \<longleftrightarrow> fst f \<noteq> RAFT_MSG \<and> command_ok env (snd f)"

text \<open>
  The members are started with arguments that name all of them, in whatever order their tables are
  iterated over; terms and logs stay below the ends of their types.
\<close>

fun admissible :: "('db, 'b) raft_env \<Rightarrow> ('b \<Rightarrow> string) \<Rightarrow> uint64 list \<Rightarrow> 'b system_event \<Rightarrow> ('db, 'b) system \<Rightarrow> bool" where
  "admissible env bytes ids (Start i argv order now rnd) sy \<longleftrightarrow> i \<in> set ids \<and> distinct order \<and> set order = set ids
     \<and> (\<exists>addr path m. node_main argv = Inr (addr, path, Cluster i m, True) \<and> dom m = set ids)"
| "admissible env bytes ids (Timer i now now' rnd) sy \<longleftrightarrow>
     (case sy_procs sy i of None \<Rightarrow> True | Some rs \<Rightarrow> currentTerm (rs_raft rs) \<noteq> - 1)"
| "admissible env bytes ids (Client i clk buf) sy \<longleftrightarrow>
     headers_fit (bytes buf) \<and> list_all (client_frame env) (fst (frames_of (bytes buf)))
     \<and> (case sy_procs sy i of None \<Rightarrow> True
        | Some rs \<Rightarrow> int (length (raftLog (rs_raft rs))) + int (length (fst (frames_of (bytes buf)))) < 2 ^ 62)"
| "admissible env bytes ids (Crash_timer i now now' rnd c) sy \<longleftrightarrow>
     (case sy_procs sy i of None \<Rightarrow> True | Some rs \<Rightarrow> currentTerm (rs_raft rs) \<noteq> - 1)"
| "admissible env bytes ids (Crash_write i cmd c) sy \<longleftrightarrow> command_ok env cmd
     \<and> (case sy_procs sy i of None \<Rightarrow> True | Some rs \<Rightarrow> int (length (raftLog (rs_raft rs))) < 2 ^ 62)"
| "admissible env bytes ids e sy \<longleftrightarrow> True"

inductive system_reach ::
  "('db, 'b) raft_env \<Rightarrow> ('b \<Rightarrow> string) \<Rightarrow> uint64 list \<Rightarrow> ('db, 'b) system \<Rightarrow> ('db, 'b) system \<Rightarrow> bool"
  for env bytes ids where
  refl: "system_reach env bytes ids sy sy"
| step: "system_reach env bytes ids sy sy' \<Longrightarrow> admissible env bytes ids e sy' \<Longrightarrow> system_step env e sy' = Some sy''
    \<Longrightarrow> system_reach env bytes ids sy sy''"

text \<open>A disk on which no member has run yet.\<close>

definition fresh_disk :: "('db \<Rightarrow> (string \<rightharpoonup> string)) \<Rightarrow> 'db \<Rightarrow> bool" where
  "fresh_disk content d \<longleftrightarrow> content d termKey = None \<and> content d voteKey = None
     \<and> content d |` key_range logKeyFirst logKeyEnd = Map.empty"

subsection \<open>What an event persists, applies and sends\<close>

text \<open>
  After the effects of an event the last persisted values are those of the node. What it persisted before
  them has a later term than the node had, and no message is sent before them.
\<close>

fun raises_term :: "raft_node \<Rightarrow> raft_node \<Rightarrow> raft_effect \<Rightarrow> bool" where
  "raises_term n n' (Persist t v l) \<longleftrightarrow> currentTerm n < t \<and> currentTerm n < currentTerm n'"
| "raises_term n n' (Send p m) \<longleftrightarrow> False"
| "raises_term n n' e \<longleftrightarrow> True"

definition persisted_last :: "raft_node \<Rightarrow> raft_node \<Rightarrow> raft_effect list \<Rightarrow> bool" where
  "persisted_last n n' effs \<longleftrightarrow>
     (\<exists>pre post. effs = pre @ persist n' @ post \<and> list_all (raises_term n n') pre \<and> list_all (\<lambda>e. \<not> is_persist e) post)
     \<or> (currentTerm n' = currentTerm n \<and> votedFor n' = votedFor n \<and> list_all (\<lambda>e. \<not> is_persist e) effs)"

lemma persisted_lastI:
  "effs = pre @ persist n' @ post \<Longrightarrow> list_all (raises_term n n') pre \<Longrightarrow> list_all (\<lambda>e. \<not> is_persist e) post \<Longrightarrow>
     persisted_last n n' effs"
  unfolding persisted_last_def by blast

lemma persisted_last_same:
  "currentTerm n' = currentTerm n \<Longrightarrow> votedFor n' = votedFor n \<Longrightarrow> list_all (\<lambda>e. \<not> is_persist e) effs \<Longrightarrow>
     persisted_last n n' effs"
  by (simp add: persisted_last_def)

lemma persisted_last_once: "effs = persist n' @ post \<Longrightarrow> list_all (\<lambda>e. \<not> is_persist e) post \<Longrightarrow> persisted_last n n' effs"
  by (rule persisted_lastI [of _ "[]"]) simp_all

lemma becomeFollower_effs: "snd (becomeFollower t now rnd n) = persist (fst (becomeFollower t now rnd n))"
  by (simp add: becomeFollower_def Let_def)

lemma becomeFollower_raises:
  "currentTerm n < t \<Longrightarrow> currentTerm n < currentTerm n' \<Longrightarrow> list_all (raises_term n n') (snd (becomeFollower t now rnd n))"
  by (simp add: becomeFollower_def Let_def persist_def)

lemma becomeLeader_persists_nothing [simp]: "list_all (\<lambda>e. \<not> is_persist e) (snd (becomeLeader now n))"
  by (simp add: becomeLeader_def Let_def)

lemma handleRequestVote_last:
  "persisted_last n (fst (snd (handleRequestVote req now now' rnd n))) (snd (snd (handleRequestVote req now now' rnd n)))"
proof -
  let ?n' = "fst (snd (handleRequestVote req now now' rnd n))" and ?f = "becomeFollower (rv_term req) now rnd n"
  show ?thesis
  proof (cases "vote_granted req n")
    case True
    show ?thesis
    proof (rule persisted_lastI [of _ "if rv_term req > currentTerm n then snd ?f else []" _ "[]"])
      show "list_all (raises_term n ?n') (if rv_term req > currentTerm n then snd ?f else [])"
        using becomeFollower_raises [of n "rv_term req" ?n'] by (simp add: handleRequestVote_fields)
    qed (simp_all add: handleRequestVote_effs True)
  next
    case False
    show ?thesis
    proof (cases "rv_term req > currentTerm n")
      case True
      then show ?thesis using False
        by (intro persisted_last_once [of _ _ "[]"])
          (simp_all add: handleRequestVote_def Let_def case_prod_unfold becomeFollower_def vote_granted_def persist_def)
    next
      case f: False
      then show ?thesis using False
        by (intro persisted_last_same) (auto simp: handleRequestVote_effs handleRequestVote_fields max_def)
    qed
  qed
qed

lemma handleAppendEntries_last:
  "persisted_last n (fst (snd (handleAppendEntries req now now' rnd n))) (snd (snd (handleAppendEntries req now now' rnd n)))"
proof -
  let ?q = "ae_receive req now now' rnd n"
  have q: "if ae_term req > currentTerm n then snd ?q = persist (fst ?q) \<and> currentTerm (fst ?q) = ae_term req
    else snd ?q = [] \<and> currentTerm (fst ?q) = currentTerm n \<and> votedFor (fst ?q) = votedFor n"
    by (simp add: ae_receive_def becomeFollower_def Let_def persist_def)
  have "persisted_last n (fst ?q) (snd ?q)"
    using q persisted_last_once [of "snd ?q" "fst ?q" "[]"] persisted_last_same [of "fst ?q" n "snd ?q"] by (auto split: if_splits)
  moreover have "persisted_last n (fst (ae_store req (fst ?q))) (snd ?q @ snd (ae_store req (fst ?q)))"
  proof -
    obtain post where "snd (ae_store req (fst ?q)) = persist (fst (ae_store req (fst ?q))) @ post"
      "list_all (\<lambda>e. \<not> is_persist e) post"
      using ae_store_effs by blast
    moreover have "currentTerm (fst (ae_store req (fst ?q))) = currentTerm (fst ?q)"
      by (simp add: ae_store_def Let_def case_prod_unfold applyEntries_node)
    then have "list_all (raises_term n (fst (ae_store req (fst ?q)))) (snd ?q)"
      using q by (auto simp: persist_def split: if_splits)
    ultimately show ?thesis by (intro persisted_lastI [of _ "snd ?q" _ post]) simp_all
  qed
  moreover have "persisted_last n n []" by (intro persisted_last_same) simp_all
  ultimately show ?thesis using handleAppendEntries_split [of req now now' rnd n] by (metis fst_conv snd_conv)
qed

lemma tick_last: "persisted_last n (fst (tick now now' rnd n)) (snd (tick now now' rnd n))"
proof (cases "election_due now n")
  case True
  then have "tick now now' rnd n = becomeCandidate now' rnd n"
    by (cases "nodeState n") (auto simp: tick_def election_due_def Let_def case_prod_unfold becomeCandidate_def startElection_def)
  moreover have "snd (becomeCandidate now' rnd n) = persist (fst (becomeCandidate now' rnd n)) @ tl (snd (becomeCandidate now' rnd n))
    \<and> list_all (\<lambda>e. \<not> is_persist e) (tl (snd (becomeCandidate now' rnd n)))"
    by (simp add: becomeCandidate_def startElection_def Let_def persist_def is_persist_def list_all_iff)
  ultimately show ?thesis using persisted_last_once by metis
next
  case False
  then show ?thesis
    by (intro persisted_last_same; cases "nodeState n")
      (auto simp: tick_def election_due_def Let_def case_prod_unfold node_simps applyEntries_node)
qed

lemma node_step_last: "persisted_last n (fst (node_step inp n)) (snd (node_step inp n))"
proof (cases inp)
  case (Propose c)
  show ?thesis
  proof (cases "nodeState n = LEADER")
    case True
    with Propose show ?thesis by (simp add: propose_def Let_def persisted_last_once)
  next
    case False
    with Propose show ?thesis by (simp add: propose_def Let_def persisted_last_same)
  qed
next
  case (RecvVoteResponse p t g now rnd)
  show ?thesis
  proof (cases "t > currentTerm n")
    case True
    with RecvVoteResponse show ?thesis
      by (simp add: processRequestVoteResponse_def becomeFollower_effs persisted_last_once [of _ _ "[]"])
  next
    case False
    with RecvVoteResponse show ?thesis
      by (intro persisted_last_same) (simp_all add: processRequestVoteResponse_def Let_def becomeLeader_fields)
  qed
next
  case (RecvAppendResponse p t s m)
  then show ?thesis
    by (intro persisted_last_same) (auto simp: processAppendEntriesResponse_def Let_def)
next
  case (ResetTimer now)
  then show ?thesis by (intro persisted_last_same) (simp_all add: resetElectionTimer_def)
qed (simp_all add: tick_last handleRequestVote_last handleAppendEntries_last)

text \<open>The commands that an event brings in, and those that an effect carries.\<close>

fun input_commands :: "raft_input \<Rightarrow> string set" where
  "input_commands (Propose c) = {c}"
| "input_commands (RecvAppendEntries req now now' rnd) = le_command ` set (ae_entries req)"
| "input_commands _ = {}"

definition message_commands :: "raft_message \<Rightarrow> string set" where
  "message_commands m = (if rf_type m = APPEND_ENTRIES then le_command ` set (ae_entries (append_entries_of m)) else {})"

fun effect_commands :: "raft_effect \<Rightarrow> string set" where
  "effect_commands (Persist t v l) = le_command ` set l"
| "effect_commands (Apply i c) = {c}"
| "effect_commands (Send p m) = message_commands m"
| "effect_commands (OutOfRange i) = {}"

definition node_commands :: "raft_node \<Rightarrow> string set" where
  "node_commands n = le_command ` set (raftLog n)"

definition effects_within :: "string set \<Rightarrow> raft_effect list \<Rightarrow> bool" where
  "effects_within C effs \<longleftrightarrow> (\<forall>e \<in> set effs. effect_commands e \<subseteq> C)"

lemma effects_within_simps [simp]:
  "effects_within C []" "effects_within C (a @ b) \<longleftrightarrow> effects_within C a \<and> effects_within C b"
  "effects_within C (persist n) \<longleftrightarrow> node_commands n \<subseteq> C"
  by (auto simp: effects_within_def persist_def node_commands_def)

lemma effects_within_mono: "effects_within C effs \<Longrightarrow> C \<subseteq> D \<Longrightarrow> effects_within D effs"
  by (auto simp: effects_within_def)

lemma effects_within_sends:
  "effects_within C (map (\<lambda>p. Send p (f p)) ps) \<longleftrightarrow> (\<forall>p \<in> set ps. message_commands (f p) \<subseteq> C)"
  by (auto simp: effects_within_def)

lemma append_msg_commands: "message_commands (append_entries_msg n b p) \<subseteq> node_commands n"
  by (auto simp: message_commands_def append_entries_msg_def node_commands_def Let_def dest: in_set_dropD)

lemma effects_within_append: "node_commands n \<subseteq> C \<Longrightarrow> effects_within C (sendAppendEntries b n)"
  unfolding sendAppendEntries_def effects_within_sends using append_msg_commands by blast

lemma node_commands_update [simp]:
  "node_commands (n\<lparr>lastApplied := a\<rparr>) = node_commands n" "node_commands (n\<lparr>nodeState := s\<rparr>) = node_commands n"
  "node_commands (n\<lparr>lastHeartbeat := h\<rparr>) = node_commands n" "node_commands (n\<lparr>votesReceived := c\<rparr>) = node_commands n"
  "node_commands (n\<lparr>leaderId := d\<rparr>) = node_commands n" "node_commands (n\<lparr>commitIndex := k\<rparr>) = node_commands n"
  "node_commands (n\<lparr>nextIndex := f\<rparr>) = node_commands n" "node_commands (n\<lparr>matchIndex := f\<rparr>) = node_commands n"
  "node_commands (n\<lparr>currentTerm := t\<rparr>) = node_commands n" "node_commands (n\<lparr>votedFor := v\<rparr>) = node_commands n"
  "node_commands (n\<lparr>electionTimeoutMs := r\<rparr>) = node_commands n"
  "node_commands (n\<lparr>raftLog := l\<rparr>) = le_command ` set l"
  by (simp_all add: node_commands_def)

lemma applyEntries_within: "effects_within (node_commands n) (snd (applyEntries n))"
proof (induction n rule: applyEntries.induct)
  case (1 n)
  have "effects_within (node_commands n) (snd (applyEntries (n\<lparr>lastApplied := lastApplied n + 1\<rparr>)))"
    if "lastApplied n < commitIndex n" using "1.IH" [OF that HOL.refl HOL.refl] by simp
  then show ?case
    by (subst applyEntries.simps) (auto simp: Let_def case_prod_unfold effects_within_def node_commands_def)
qed

lemma advanceCommitIndex_commands [simp]: "node_commands (advanceCommitIndex n) = node_commands n"
  by (simp add: advanceCommitIndex_def split: option.split)

lemma applyEntries_commands [simp]: "node_commands (fst (applyEntries n)) = node_commands n"
  by (simp add: applyEntries_node)

lemma becomeFollower_within:
  "node_commands (fst (becomeFollower t now rnd n)) = node_commands n"
  "effects_within (node_commands n) (snd (becomeFollower t now rnd n))"
  by (simp_all add: becomeFollower_def Let_def)

lemma becomeLeader_within:
  "node_commands (fst (becomeLeader now n)) = node_commands n"
  "effects_within (node_commands n) (snd (becomeLeader now n))"
  by (simp_all add: becomeLeader_def Let_def effects_within_append)

lemma becomeCandidate_within:
  "node_commands (fst (becomeCandidate now rnd n)) = node_commands n"
  "effects_within (node_commands n) (snd (becomeCandidate now rnd n))"
  by (simp_all add: becomeCandidate_def startElection_def Let_def effects_within_sends message_commands_def)

lemma tick_within:
  "node_commands (fst (tick now now' rnd n)) = node_commands n"
  "effects_within (node_commands n) (snd (tick now now' rnd n))"
proof -
  have a: "effects_within (node_commands n) (snd (applyEntries (advanceCommitIndex m)))" if "node_commands m = node_commands n" for m
    using applyEntries_within [of "advanceCommitIndex m"] that by simp
  show "node_commands (fst (tick now now' rnd n)) = node_commands n"
    by (simp add: tick_def Let_def case_prod_unfold becomeCandidate_within)
  show "effects_within (node_commands n) (snd (tick now now' rnd n))"
    by (simp add: tick_def Let_def case_prod_unfold becomeCandidate_within a effects_within_append)
qed

lemma ae_store_within:
  defines "C req n \<equiv> node_commands n \<union> le_command ` set (ae_entries req)"
  shows "node_commands (fst (ae_store req n)) \<subseteq> C req n" "effects_within (C req n) (snd (ae_store req n))"
proof -
  let ?l = "append_loop (ae_prev_log_index req) (ae_entries req) (raftLog n)"
  have l: "le_command ` set ?l \<subseteq> C req n"
    using set_append_loop [of "ae_prev_log_index req" "ae_entries req" "raftLog n"] by (auto simp: C_def node_commands_def)
  then show "node_commands (fst (ae_store req n)) \<subseteq> C req n"
    by (simp add: ae_store_def Let_def case_prod_unfold)
  have "effects_within (C req n) (snd (applyEntries m))" if "node_commands m = le_command ` set ?l" for m
    using applyEntries_within [of m] l that by (auto simp: effects_within_def)
  then show "effects_within (C req n) (snd (ae_store req n))"
    using l by (simp add: ae_store_def Let_def case_prod_unfold)
qed

lemma node_step_within:
  defines "C inp n \<equiv> node_commands n \<union> input_commands inp"
  shows "node_commands (fst (node_step inp n)) \<subseteq> C inp n \<and> effects_within (C inp n) (snd (node_step inp n))"
proof (cases inp)
  case (Tick now now' rnd)
  then show ?thesis by (simp add: C_def tick_within)
next
  case (Propose c)
  then show ?thesis
    by (auto simp: C_def propose_def Let_def node_commands_def intro!: effects_within_append)
next
  case (RecvRequestVote req now now' rnd)
  then show ?thesis
    by (simp add: C_def handleRequestVote_def Let_def case_prod_unfold becomeFollower_within)
next
  case (RecvVoteResponse p t g now rnd)
  then show ?thesis
    using becomeLeader_within [where now = now and n = "n\<lparr>votesReceived := votesReceived n + 1\<rparr>"]
    by (simp add: C_def processRequestVoteResponse_def Let_def becomeFollower_within becomeLeader_within)
next
  case (RecvAppendEntries req now now' rnd)
  let ?q = "ae_receive req now now' rnd n"
  have q: "node_commands (fst ?q) = node_commands n" "effects_within (C inp n) (snd ?q)"
    by (simp_all add: C_def ae_receive_def becomeFollower_def Let_def case_prod_unfold)
  have "node_commands (fst (ae_store req (fst ?q))) \<subseteq> C inp n" "effects_within (C inp n) (snd (ae_store req (fst ?q)))"
    using ae_store_within [where req = req and n = "fst ?q"] RecvAppendEntries by (simp_all add: C_def q)
  with q handleAppendEntries_split [of req now now' rnd n] RecvAppendEntries show ?thesis
    by (auto simp: C_def)
next
  case (RecvAppendResponse p t s m)
  then show ?thesis
    by (auto simp: C_def processAppendEntriesResponse_def Let_def intro!: effects_within_append)
qed (simp add: C_def resetElectionTimer_def)

subsection \<open>The calls of an event\<close>

text \<open>A process that makes all its calls does what the event does.\<close>

lemma stopped_all: "sum_list (map effect_size effs) \<le> c \<Longrightarrow> stopped env c effs rs = fold (run_effect env) effs rs"
  by (induction effs arbitrary: c rs) auto

lemma stopped_append:
  "stopped env c (a @ b) rs =
     (if c < sum_list (map effect_size a) then stopped env c a rs
      else stopped env (c - sum_list (map effect_size a)) b (fold (run_effect env) a rs))"
  by (induction a arbitrary: c rs) auto

lemma stop_effect_out [simp]: "rs_out (stop_effect env c e rs) = rs_out rs"
  by (cases e) (simp_all add: Let_def)

lemma run_effect_out: "prefix (rs_out rs) (rs_out (run_effect env e rs))"
  by (cases e) (simp_all add: sendRaftRpc_def Let_def)

lemma fold_out: "prefix (rs_out rs) (rs_out (fold (run_effect env) effs rs))"
proof (induction effs arbitrary: rs)
  case (Cons e effs)
  then show ?case using run_effect_out [of rs env e] prefix_order.trans by fastforce
qed simp

lemma stopped_out:
  "prefix (rs_out rs) (rs_out (stopped env c effs rs))"
  "prefix (rs_out (stopped env c effs rs)) (rs_out (fold (run_effect env) effs rs))"
proof (induction effs arbitrary: c rs)
  case (Cons e effs)
  case 1 show ?case using Cons(1) run_effect_out [of rs env e] prefix_order.trans by fastforce
next
  case (Cons e effs)
  case 2 show ?case
    using Cons(2) run_effect_out [of rs env e] fold_out [of "run_effect env e rs" env effs] prefix_order.trans by fastforce
qed simp_all

end
