(* ===== verification/Raft_System.thy ===== *)
theory Raft_System
  imports Raft_Process
begin

text \<open>
  The system of processes refines the cluster of \<open>Raft_Cluster\<close>: every execution of the processes has an
  execution of the cluster in which the nodes of the running processes are the nodes of the cluster, and the
  messages on the wires and in the buffers are among the messages of its network. The properties of the
  cluster are thus properties of the programs, with their frames, their database and their restarts.
\<close>

subsection \<open>Messages in a stream of bytes\<close>

lemma split_frame_short:
  assumes "a @ b = encode_frame f" and "b \<noteq> []" and "length (snd f) < 2 ^ 32"
  shows "split_frame a = None"
proof (cases "length a < 5")
  case False
  have "take 4 (a @ b) = take 4 a" using False by simp
  then have "take 4 a = take 4 (encode_frame f)" by (simp add: assms(1))
  then have "unat (ntohl_bytes (take 4 a)) = length (snd f)"
    using assms(3) by (simp add: encode_frame_def unat_of_nat)
  moreover have "length a < 5 + length (snd f)"
    using arg_cong [OF assms(1), of length] assms(2) by (cases b) (auto simp: encode_frame_def)
  ultimately show ?thesis by (simp add: split_frame_def Let_def)
qed (simp add: split_frame_def)

lemma frames_of_prefix:
  assumes "\<forall>f \<in> set fs. length (snd f) < 2 ^ 32" and "a @ b = concat (map encode_frame fs)"
  shows "\<exists>gs. fs = fst (frames_of a) @ gs \<and> snd (frames_of a) @ b = concat (map encode_frame gs)"
  using assms
proof (induction fs arbitrary: a)
  case Nil
  then have "a = []" by simp
  then have "frames_of a = ([], [])" by (subst frames_of.simps) (simp add: split_frame_def)
  with Nil \<open>a = []\<close> show ?case by simp
next
  case (Cons f fs)
  then have ab: "a @ b = encode_frame f @ concat (map encode_frame fs)" by simp
  then obtain r where "a = encode_frame f @ r \<and> r @ b = concat (map encode_frame fs) \<or> a @ r = encode_frame f"
    unfolding append_eq_append_conv2 by blast
  then consider (whole) "a = encode_frame f @ r" "r @ b = concat (map encode_frame fs)"
    | (part) "a @ r = encode_frame f" "r \<noteq> []"
    using ab by (cases "r = []") auto
  then show ?case
  proof cases
    case whole
    from Cons.IH [OF _ whole(2)] Cons.prems(1) obtain gs where gs: "fs = fst (frames_of r) @ gs"
      "snd (frames_of r) @ b = concat (map encode_frame gs)" by auto
    have "frames_of a = (f # fst (frames_of r), snd (frames_of r))"
      unfolding whole(1) using Cons.prems(1) by (intro frames_of_encode) simp
    with gs show ?thesis by auto
  next
    case part
    then have "frames_of a = ([], a)"
      using split_frame_short [of a r f] Cons.prems(1) by (subst frames_of.simps) simp
    with ab show ?thesis by auto
  qed
qed

subsection \<open>Terms begin at one\<close>

definition terms_started :: "cluster \<Rightarrow> bool" where
  "terms_started cl \<longleftrightarrow> (\<forall>i. currentTerm (cl_nodes cl i) = 0 \<longrightarrow> votedFor (cl_nodes cl i) = 0)
     \<and> (\<forall>x \<in> set (cl_net cl). rf_type (snd (snd x)) = REQUEST_VOTE \<longrightarrow> 0 < rv_term (request_vote_of (snd (snd x))))"

lemma local_term_started:
  assumes "is_local inp" and "term_fits inp n" and "currentTerm n = 0 \<longrightarrow> votedFor n = 0"
  shows "currentTerm (fst (node_step inp n)) = 0 \<longrightarrow> votedFor (fst (node_step inp n)) = 0"
    and "x \<in> set (outbox i (snd (node_step inp n))) \<Longrightarrow> rf_type (snd (snd x)) = REQUEST_VOTE \<Longrightarrow>
      0 < rv_term (request_vote_of (snd (snd x)))"
proof -
  have pos: "0 < currentTerm n + 1" if "currentTerm n \<noteq> - 1"
    using that word_less_plus_one [of "currentTerm n"] by (metis le_less_trans word_zero_le)
  show "currentTerm (fst (node_step inp n)) = 0 \<longrightarrow> votedFor (fst (node_step inp n)) = 0"
    using assms pos by (cases inp) (auto simp: node_simps resetElectionTimer_def)
  show "rf_type (snd (snd x)) = REQUEST_VOTE \<Longrightarrow> 0 < rv_term (request_vote_of (snd (snd x)))"
    if x: "x \<in> set (outbox i (snd (node_step inp n)))"
  proof (cases inp)
    case (Tick now now' rnd)
    with outbox_tick [of now n i now' rnd] x assms(2) pos
    show "rf_type (snd (snd x)) = REQUEST_VOTE \<Longrightarrow> 0 < rv_term (request_vote_of (snd (snd x)))"
      by (cases "election_due now n") (auto simp: vote_request_of_node_def append_traffic_def list_all_iff)
  next
    case (Propose c)
    with x show "rf_type (snd (snd x)) = REQUEST_VOTE \<Longrightarrow> 0 < rv_term (request_vote_of (snd (snd x)))"
      by (auto simp: propose_def Let_def split: if_splits)
  qed (use assms x in auto)
qed

lemma message_term_started:
  assumes "currentTerm n = 0 \<longrightarrow> votedFor n = 0" and "rf_type m = REQUEST_VOTE \<longrightarrow> 0 < rv_term (request_vote_of m)"
  shows "currentTerm (fst (snd (handleRaftMessage m s now now' rnd n))) = 0 \<longrightarrow>
    votedFor (fst (snd (handleRaftMessage m s now now' rnd n))) = 0"
  using assms unfolding handleRaftMessage_step
  by (cases "rf_type m") (auto simp: message_input_def node_simps max_def vote_granted_def split: if_splits)

lemma step_terms_started:
  assumes "terms_started cl" and "cluster_step ids e cl = Some cl'"
  shows "terms_started cl'"
proof (cases e)
  case (Local i inp)
  with assms local_term_started [of inp "cl_nodes cl i"] show ?thesis
    by (auto simp: terms_started_def Let_def case_prod_unfold split: if_splits)
next
  case (Deliver k now now' rnd)
  obtain s d m where x: "cl_net cl ! k = (s, d, m)" by (cases "cl_net cl ! k")
  let ?h = "handleRaftMessage m s now now' rnd (cl_nodes cl d)"
  from Deliver assms(2) x have k: "k < length (cl_net cl)" and cl': "cl' = (set_node d (fst (snd ?h)) (count_vote s d m cl))\<lparr>cl_net :=
      remove_nth k (cl_net cl) @ outbox d (snd (snd ?h)) @ (case fst ?h of None \<Rightarrow> [] | Some r \<Rightarrow> [(d, s, r)])\<rparr>"
    by (auto simp: Let_def case_prod_unfold split: if_splits cong: option.case_cong)
  have "(s, d, m) \<in> set (cl_net cl)" using k x by (metis nth_mem)
  then have "rf_type m = REQUEST_VOTE \<longrightarrow> 0 < rv_term (request_vote_of m)" using assms(1) by (force simp: terms_started_def)
  with assms(1) have n: "currentTerm (fst (snd ?h)) = 0 \<longrightarrow> votedFor (fst (snd ?h)) = 0"
    by (intro message_term_started) (simp_all add: terms_started_def)
  have "rf_type (snd (snd z)) \<noteq> REQUEST_VOTE" if "z \<in> set (outbox d (snd (snd ?h)) @ (case fst ?h of None \<Rightarrow> [] | Some r \<Rightarrow> [(d, s, r)]))" for z
    using that outbox_message [of d m s now now' rnd "cl_nodes cl d"] handleRaftMessage_reply [of m s now now' rnd "cl_nodes cl d"]
    by (auto simp: append_traffic_def list_all_iff split: option.splits raft_type.splits)
  then show ?thesis using assms(1) n set_remove_nth [of k "cl_net cl"] by (auto simp: terms_started_def cl')
next
  case (Lose k)
  with assms set_remove_nth [of k "cl_net cl"] show ?thesis by (auto simp: terms_started_def)
next
  case (Restart i ps l now rnd)
  with assms show ?thesis
    by (auto simp: terms_started_def Let_def loadPersistedState_def split: if_splits)
next
  case (Torn i t v)
  with assms show ?thesis
    by (auto simp: terms_started_def Let_def loadPersistedState_def split: if_splits)
qed

lemma reach_terms_started: "cluster_reach ids cl cl' \<Longrightarrow> terms_started cl \<Longrightarrow> terms_started cl'"
  by (induction rule: cluster_reach.induct) (auto intro: step_terms_started)

lemma init_terms_started: "terms_started (init_cluster ids rnds)"
  by (simp add: terms_started_def init_cluster_def new_node_def)

subsection \<open>The code that the processes call\<close>

locale raft_system = raft_store env content
  for env :: "('db, 'b) raft_env" and content :: "'db \<Rightarrow> (string \<rightharpoonup> string)" +
  fixes bytes :: "'b \<Rightarrow> string"
  assumes buffer: "net_buffer (env_buf env) bytes"
    and raft_wire: "wire_format (ser_raft env) (parse_raft env)"
    and rpc_wire: "wire_format (ser_rpc env) (parse_rpc env)"
    and no_command: "command_ok env []"
begin

definition wire :: "raft_message \<Rightarrow> string" where
  "wire m = encode_frame (RAFT_MSG, ser_raft env m)"

definition small :: "raft_message \<Rightarrow> bool" where
  "small m \<longleftrightarrow> length (ser_raft env m) < 2 ^ 32 - 5"

text \<open>The messages whose frames make up a stream.\<close>

definition stream :: "string \<Rightarrow> raft_message list \<Rightarrow> bool" where
  "stream bs xs \<longleftrightarrow> bs = concat (map wire xs) \<and> list_all small xs"

definition decode :: "string \<Rightarrow> raft_message list" where
  "decode bs = map (\<lambda>f. the (parse_raft env (snd f))) (fst (frames_of bs))"

lemma frame_bytes_wire: "frame_bytes (env_buf env) RAFT_MSG (ser_raft env m) = wire m"
  by (simp add: wire_def net_buffer.frame_bytes_encode [OF buffer])

lemma small_frame_wire: "small_frame (wire m) \<longleftrightarrow> small m"
  by (auto simp: small_frame_def small_def wire_def encode_frame_def)

lemma wire_frames: "concat (map wire xs) = concat (map encode_frame (map (\<lambda>m. (RAFT_MSG, ser_raft env m)) xs))"
  by (simp add: wire_def [abs_def] comp_def)

lemma small_frames: "list_all small xs \<Longrightarrow> f \<in> set (map (\<lambda>m. (RAFT_MSG, ser_raft env m)) xs) \<Longrightarrow> length (snd f) < 2 ^ 32 - 5"
  by (auto simp: small_def list_all_iff)

lemma stream_frames:
  assumes "stream bs xs"
  shows "frames_of bs = (map (\<lambda>m. (RAFT_MSG, ser_raft env m)) xs, [])"
proof -
  let ?fs = "map (\<lambda>m. (RAFT_MSG, ser_raft env m)) xs"
  have "\<forall>f \<in> set ?fs. length (snd f) < 2 ^ 32"
    using assms small_frames [of xs] by (fastforce simp: stream_def)
  moreover have "frames_of [] = ([], [])" by (subst frames_of.simps) (simp add: split_frame_def)
  ultimately show ?thesis using frames_of_concat [of ?fs "[]"] assms by (simp add: stream_def wire_frames)
qed

lemma decode_stream: "stream bs xs \<Longrightarrow> decode bs = xs"
  using wire_format.parse_ser [OF raft_wire] by (simp add: decode_def stream_frames comp_def)

lemma stream_Nil [simp]: "stream [] []"
  by (simp add: stream_def)

lemma stream_append: "stream a xs \<Longrightarrow> stream b xs' \<Longrightarrow> stream (a @ b) (xs @ xs')"
  by (simp add: stream_def)

lemma stream_wire: "small m \<Longrightarrow> stream (wire m) [m]"
  by (simp add: stream_def)

lemma stream_wires: "list_all small xs \<Longrightarrow> stream (concat (map wire xs)) xs"
  by (simp add: stream_def)

text \<open>Where the network cuts a stream, the messages split.\<close>

lemma stream_cut:
  assumes "stream (a @ b) xs"
  shows "\<exists>us vs. xs = us @ vs \<and> fst (frames_of a) = map (\<lambda>m. (RAFT_MSG, ser_raft env m)) us
    \<and> stream (snd (frames_of a) @ b) vs"
proof -
  let ?F = "map (\<lambda>m. (RAFT_MSG, ser_raft env m))"
  have sm: "\<forall>f \<in> set (?F xs). length (snd f) < 2 ^ 32" "list_all small xs"
    using assms small_frames [of xs] by (fastforce simp: stream_def)+
  obtain gs where gs: "?F xs = fst (frames_of a) @ gs" "snd (frames_of a) @ b = concat (map encode_frame gs)"
    using frames_of_prefix [OF sm(1), of a b] assms by (auto simp: stream_def wire_frames)
  from gs(1) obtain us vs where uv: "xs = us @ vs" "fst (frames_of a) = ?F us" "gs = ?F vs"
    by (auto simp: map_eq_append_conv)
  with gs(2) sm(2) have "stream (snd (frames_of a) @ b) vs" by (simp add: stream_def wire_frames)
  with uv show ?thesis by blast
qed

lemma stream_fits: "stream bs xs \<Longrightarrow> headers_fit bs"
proof -
  assume s: "stream bs xs"
  then have "\<forall>f \<in> set (map (\<lambda>m. (RAFT_MSG, ser_raft env m)) xs). length (snd f) < 2 ^ 32 - 5"
    using small_frames [of xs] by (auto simp: stream_def)
  from headers_fit_concat [OF this, of "[]"] s show ?thesis
    by (simp only: stream_def wire_frames append_Nil2) (simp add: headers_fit_short)
qed

subsection \<open>The store of a member\<close>

text \<open>The store knows the term and the vote, and no log entry in it has a command for a key of the code.\<close>

definition key_is :: "'db \<Rightarrow> string \<Rightarrow> uint64 \<Rightarrow> bool" where
  "key_is d k w \<longleftrightarrow> content d k = Some (dec_string (unat w)) \<or> content d k = None \<and> w = 0"

definition stored :: "'db \<Rightarrow> raft_node \<Rightarrow> bool" where
  "stored d n \<longleftrightarrow> key_is d termKey (currentTerm n) \<and> key_is d voteKey (votedFor n)"

definition log_safe :: "'db \<Rightarrow> bool" where
  "log_safe d \<longleftrightarrow> (\<forall>k \<in> key_range logKeyFirst logKeyEnd. \<forall>v e.
     content d k = Some v \<longrightarrow> parse_entry env v = Some e \<longrightarrow> command_ok env (le_command e))"

definition proc_ok :: "'db raft_service \<Rightarrow> bool" where
  "proc_ok rs \<longleftrightarrow> stored (rs_db rs) (rs_raft rs) \<and> log_safe (rs_db rs)
     \<and> node_commands (rs_raft rs) \<subseteq> Collect (command_ok env)"

lemma apply_keeps:
  assumes "command_ok env c"
  shows "k = termKey \<or> k = voteKey \<or> k \<in> key_range logKeyFirst logKeyEnd \<Longrightarrow> content (onApply env i c d) k = content d k"
proof -
  assume "k = termKey \<or> k = voteKey \<or> k \<in> key_range logKeyFirst logKeyEnd"
  then have "user_key x \<Longrightarrow> x \<noteq> k" for x using user_key_distinct [of x] by auto
  with assms show ?thesis
    by (auto simp: onApply_def command_ok_def put_content del_content split: option.splits rpc_type.splits)
qed

lemma apply_log_safe: "command_ok env c \<Longrightarrow> log_safe d \<Longrightarrow> log_safe (onApply env i c d)"
  by (simp add: log_safe_def apply_keeps)

lemma persist_log_safe:
  assumes "log_safe d" and "\<forall>e \<in> set l. command_ok env (le_command e)"
  shows "log_safe (persistRaftState env t v l d)"
  unfolding log_safe_def
proof (intro ballI allI impI)
  fix k w e assume k: "k \<in> key_range logKeyFirst logKeyEnd" and w: "content (persistRaftState env t v l d) k = Some w"
    and e: "parse_entry env w = Some e"
  from persist_content [of d t v l] obtain d1 where
    "content d1 = (content d)(termKey \<mapsto> dec_string (unat t), voteKey \<mapsto> dec_string (unat v))"
    "content (persistRaftState env t v l d) = (content d1 ++ map_of (rev (entry_puts env l))) |` (- set (old_keys d1))" by blast
  with w k raft_keys_not_log consider "content d k = Some w" | "map_of (rev (entry_puts env l)) k = Some w"
    by (auto simp: restrict_map_def split: if_splits)
  then show "command_ok env (le_command e)"
  proof cases
    case 1
    with assms(1) k e show ?thesis by (auto simp: log_safe_def)
  next
    case 2
    from map_of_SomeD [OF this] obtain e' where "e' \<in> set (tl l)" "w = ser_entry env e'" by (auto simp: entry_puts_def)
    with e wire_format.parse_ser [OF entries] assms(2) list.set_sel(2) [of l e'] show ?thesis
      by (cases l) auto
  qed
qed

subsection \<open>Effects of an event\<close>

lemma send_db [simp]: "rs_db (sendRaftRpc env p m rs) = rs_db rs" "rs_raft (sendRaftRpc env p m rs) = rs_raft rs"
  by (simp_all add: sendRaftRpc_def Let_def)

lemma effects_raft [simp]: "rs_raft (fold (run_effect env) effs rs) = rs_raft rs"
proof (induction effs arbitrary: rs)
  case (Cons e effs)
  then show ?case by (cases e) simp_all
qed simp

lemma effects_log_safe:
  assumes "effects_within (Collect (command_ok env)) effs" and "log_safe (rs_db rs)"
  shows "log_safe (rs_db (fold (run_effect env) effs rs))"
  using assms
proof (induction effs arbitrary: rs)
  case (Cons e effs)
  from Cons.prems have e: "effect_commands e \<subseteq> Collect (command_ok env)" "effects_within (Collect (command_ok env)) effs"
    by (auto simp: effects_within_def)
  have "log_safe (rs_db (run_effect env e rs))"
    using e(1) Cons.prems(2) by (cases e) (simp_all add: apply_log_safe persist_log_safe image_subset_iff)
  with e(2) Cons.IH show ?case by simp
qed simp

lemma effects_keep_keys:
  assumes "effects_within (Collect (command_ok env)) effs" and "list_all (\<lambda>e. \<not> is_persist e) effs"
    and "k = termKey \<or> k = voteKey"
  shows "content (rs_db (fold (run_effect env) effs rs)) k = content (rs_db rs) k"
  using assms(1,2)
proof (induction effs arbitrary: rs)
  case (Cons e effs)
  from Cons.prems have "effect_commands e \<subseteq> Collect (command_ok env)" "effects_within (Collect (command_ok env)) effs"
    by (auto simp: effects_within_def)
  with Cons assms(3) show ?case by (cases e) (auto simp: apply_keeps is_persist_def)
qed simp

lemma effects_stored:
  assumes "persisted_last n n' effs" and "effects_within (Collect (command_ok env)) effs" and "stored (rs_db rs) n"
  shows "stored (rs_db (fold (run_effect env) effs rs)) n'"
  using assms(1) unfolding persisted_last_def
proof (elim disjE exE conjE)
  fix pre post assume e: "effs = pre @ persist n' @ post" "list_all (\<lambda>e. \<not> is_persist e) post"
  with assms(2) have "effects_within (Collect (command_ok env)) post" by simp
  from effects_keep_keys [OF this e(2)] show ?thesis
    by (simp add: stored_def key_is_def e(1) persist_def persist_term_vote)
next
  assume "currentTerm n' = currentTerm n" "votedFor n' = votedFor n" "list_all (\<lambda>e. \<not> is_persist e) effs"
  with effects_keep_keys [OF assms(2)] assms(3) show ?thesis by (simp add: stored_def key_is_def)
qed

subsection \<open>The calls of an event that stops\<close>

lemma put_log_safe: "k = termKey \<or> k = voteKey \<Longrightarrow> log_safe d \<Longrightarrow> log_safe (snd (engine_put (env_db env) k v d))"
  using raft_keys_not_log by (auto simp: log_safe_def put_content)

lemma stopped_log_safe:
  assumes "effects_within (Collect (command_ok env)) effs" and "log_safe (rs_db rs)"
  shows "log_safe (rs_db (stopped env c effs rs))"
  using assms
proof (induction effs arbitrary: c rs)
  case (Cons e effs)
  from Cons.prems have e: "effects_within (Collect (command_ok env)) [e]" "effects_within (Collect (command_ok env)) effs"
    by (auto simp: effects_within_def)
  have "log_safe (rs_db (run_effect env e rs))" using effects_log_safe [OF e(1) Cons.prems(2)] by simp
  moreover have "log_safe (rs_db (stop_effect env c e rs))"
    using Cons.prems(2) by (cases e) (simp_all add: put_log_safe Let_def)
  ultimately show ?case using e(2) Cons.IH by simp
qed simp

lemma stopped_keeps_keys:
  assumes "effects_within (Collect (command_ok env)) effs" and "list_all (\<lambda>e. \<not> is_persist e) effs"
    and "k = termKey \<or> k = voteKey"
  shows "content (rs_db (stopped env c effs rs)) k = content (rs_db rs) k"
  using assms(1,2)
proof (induction effs arbitrary: c rs)
  case (Cons e effs)
  from Cons.prems have e: "effects_within (Collect (command_ok env)) [e]" "effects_within (Collect (command_ok env)) effs"
    by (auto simp: effects_within_def)
  have "content (rs_db (run_effect env e rs)) k = content (rs_db rs) k"
    using effects_keep_keys [OF e(1) _ assms(3), of rs] Cons.prems(2) by simp
  moreover have "stop_effect env c e rs = rs" using Cons.prems(2) by (cases e) (simp_all add: is_persist_def)
  ultimately show ?case using e(2) Cons by simp
qed simp

text \<open>
  Before the last persisted values the store has those that the node had, or a later term with whatever
  vote; and nothing has been sent.
\<close>

definition torn :: "'db \<Rightarrow> raft_node \<Rightarrow> bool" where
  "torn d n \<longleftrightarrow> stored d n \<or> (\<exists>t v. currentTerm n < t \<and> key_is d termKey t \<and> key_is d voteKey v)"

lemma put_key:
  "key_is (snd (engine_put (env_db env) k (dec_string (unat w)) d)) k w"
  "k \<noteq> k' \<Longrightarrow> key_is (snd (engine_put (env_db env) k v d)) k' w = key_is d k' w"
  by (simp_all add: key_is_def put_content)

lemma termKey_voteKey [simp]: "termKey \<noteq> voteKey" "voteKey \<noteq> termKey"
  by (simp_all add: termKey_def voteKey_def)

lemma torn_put:
  fixes v :: uint64
  assumes "torn d n" and "currentTerm n < t"
  shows "torn (snd (engine_put (env_db env) termKey (dec_string (unat t)) d)) n"
    and "torn (snd (engine_put (env_db env) voteKey (dec_string (unat v)) (snd (engine_put (env_db env) termKey (dec_string (unat t)) d)))) n"
proof -
  obtain w where "key_is d voteKey w" using assms(1) by (auto simp: torn_def stored_def)
  with assms(2) show "torn (snd (engine_put (env_db env) termKey (dec_string (unat t)) d)) n"
    "torn (snd (engine_put (env_db env) voteKey (dec_string (unat v)) (snd (engine_put (env_db env) termKey (dec_string (unat t)) d)))) n"
    unfolding torn_def using put_key by (metis termKey_voteKey)+
qed

lemma raises_run:
  assumes "raises_term n n' e" and "effect_commands e \<subseteq> Collect (command_ok env)" and "torn (rs_db rs) n"
  shows "torn (rs_db (run_effect env e rs)) n" and "torn (rs_db (stop_effect env c e rs)) n"
    and "rs_out (run_effect env e rs) = rs_out rs"
proof -
  show "torn (rs_db (run_effect env e rs)) n" using assms
    by (cases e) (auto simp: torn_def stored_def key_is_def persist_term_vote apply_keeps)
  show "torn (rs_db (stop_effect env c e rs)) n" using assms torn_put by (cases e) (auto simp: Let_def)
  show "rs_out (run_effect env e rs) = rs_out rs" using assms(1) by (cases e) simp_all
qed

lemma raises_torn:
  assumes "list_all (raises_term n n') effs" and "effects_within (Collect (command_ok env)) effs" and "torn (rs_db rs) n"
  shows "torn (rs_db (fold (run_effect env) effs rs)) n \<and> rs_out (fold (run_effect env) effs rs) = rs_out rs
    \<and> torn (rs_db (stopped env c effs rs)) n \<and> rs_out (stopped env c effs rs) = rs_out rs"
  using assms
proof (induction effs arbitrary: c rs)
  case (Cons e effs)
  from Cons.prems have e: "raises_term n n' e" "effect_commands e \<subseteq> Collect (command_ok env)"
    "list_all (raises_term n n') effs" "effects_within (Collect (command_ok env)) effs"
    by (auto simp: effects_within_def)
  from Cons.IH [OF e(3,4) raises_run(1) [OF e(1,2) Cons.prems(3)]] raises_run [OF e(1,2) Cons.prems(3)] show ?case by simp
qed simp

lemma stopped_stored:
  assumes p: "persisted_last n n' effs" and w: "effects_within (Collect (command_ok env)) effs" and st: "stored (rs_db rs) n"
    and le: "currentTerm n \<le> currentTerm n'"
  shows "stored (rs_db (stopped env c effs rs)) n' \<or>
    torn (rs_db (stopped env c effs rs)) n \<and> rs_out (stopped env c effs rs) = rs_out rs"
  using p unfolding persisted_last_def
proof (elim disjE exE conjE)
  fix pre post
  assume e: "effs = pre @ persist n' @ post" and pre: "list_all (raises_term n n') pre" and post: "list_all (\<lambda>e. \<not> is_persist e) post"
  from w have w': "effects_within (Collect (command_ok env)) pre" "effects_within (Collect (command_ok env)) post" by (simp_all add: e)
  have t: "torn (rs_db rs) n" using st by (simp add: torn_def)
  let ?s = "sum_list (map effect_size pre)" and ?rs = "fold (run_effect env) pre rs"
  note rt = raises_torn [OF pre w'(1) t]
  have db1: "torn (snd (engine_put (env_db env) termKey (dec_string (unat (currentTerm n'))) (rs_db ?rs))) n"
  proof (cases "currentTerm n < currentTerm n'")
    case True
    with torn_put(1) rt show ?thesis by blast
  next
    case False
    then have eq: "currentTerm n' = currentTerm n" using le by simp
    have "\<not> is_persist e" if "e \<in> set pre" for e
      using pre that eq by (cases e) (auto simp: list_all_iff is_persist_def)
    with effects_keep_keys [OF w'(1)] st have "stored (rs_db ?rs) n" by (simp add: stored_def key_is_def list_all_iff)
    then show ?thesis using put_key by (auto simp: torn_def stored_def eq)
  qed
  consider "c < ?s" | "c = ?s" | "c = ?s + 1" | "c = ?s + 2" | (all) "?s + 3 \<le> c" by linarith
  then show ?thesis
  proof cases
    case all
    have "stored (rs_db (run_effect env (Persist (currentTerm n') (votedFor n') (raftLog n')) ?rs)) n'"
      by (simp add: stored_def key_is_def persist_term_vote)
    with stopped_keeps_keys [OF w'(2) post] all show ?thesis
      by (auto simp: e persist_def stopped_append stored_def key_is_def)
  qed (use rt db1 put_key in \<open>auto simp: e persist_def stopped_append stored_def Let_def\<close>)
next
  assume "currentTerm n' = currentTerm n" "votedFor n' = votedFor n" "list_all (\<lambda>e. \<not> is_persist e) effs"
  with stopped_keeps_keys [OF w] st show ?thesis by (simp add: stored_def key_is_def)
qed

subsection \<open>One event of a member\<close>

definition is_append_or_vote :: "raft_message \<Rightarrow> bool" where
  "is_append_or_vote m \<longleftrightarrow> rf_type m = REQUEST_VOTE \<or> rf_type m = APPEND_ENTRIES"

definition message_ok :: "raft_message \<Rightarrow> bool" where
  "message_ok m \<longleftrightarrow> message_commands m \<subseteq> Collect (command_ok env)"

definition sends :: "raft_effect list \<Rightarrow> (uint64 \<times> raft_message) list" where
  "sends effs = concat (map (\<lambda>e. case e of Send p m \<Rightarrow> [(p, m)] | _ \<Rightarrow> []) effs)"

lemma sends_simps [simp]: "sends [] = []" "sends (Send p m # es) = (p, m) # sends es"
  "sends (Persist t v l # es) = sends es" "sends (Apply i c # es) = sends es" "sends (OutOfRange i # es) = sends es"
  by (simp_all add: sends_def)

lemma outbox_sends: "outbox i effs = map (\<lambda>x. (i, fst x, snd x)) (sends effs)"
  by (auto simp: outbox_def sends_def map_concat comp_def intro!: arg_cong [where f = concat] split: raft_effect.split)

lemma sends_ok:
  assumes "effects_within (Collect (command_ok env)) effs" and "x \<in> set (sends effs)"
  shows "message_ok (snd x)"
proof -
  from assms(2) have "Send (fst x) (snd x) \<in> set effs" by (auto simp: sends_def split: raft_effect.splits)
  with assms(1) show ?thesis by (fastforce simp: effects_within_def message_ok_def)
qed

text \<open>What is written to the connections: the messages to peers to which there is one.\<close>

lemma effects_out:
  "rs_out (fold (run_effect env) effs rs) =
     rs_out rs @ map (\<lambda>x. (fst x, wire (snd x))) (filter (\<lambda>x. fst x \<in> set (rs_conns rs)) (sends effs))"
  "rs_conns (fold (run_effect env) effs rs) = rs_conns rs"
proof (induction effs arbitrary: rs)
  case (Cons e effs)
  case 1 show ?case using Cons by (cases e) (simp_all add: sendRaftRpc_def frame_bytes_wire Let_def)
next
  case (Cons e effs)
  case 2 show ?case using Cons by (cases e) (simp_all add: sendRaftRpc_def Let_def)
qed simp_all

lemma run_node_ok:
  assumes "proc_ok rs" and "rs_raft rs = n" and "input_commands inp \<subseteq> Collect (command_ok env)"
  shows "proc_ok (run_node env (node_step inp n) rs)"
    and "rs_raft (run_node env (node_step inp n) rs) = fst (node_step inp n)"
    and "\<exists>snds. rs_out (run_node env (node_step inp n) rs) = rs_out rs @ map (\<lambda>x. (fst x, wire (snd x))) snds
      \<and> mset snds \<subseteq># mset (sends (snd (node_step inp n))) \<and> (\<forall>x \<in> set snds. message_ok (snd x))"
proof -
  let ?r = "node_step inp n"
  have w: "node_commands (fst ?r) \<subseteq> Collect (command_ok env)" "effects_within (Collect (command_ok env)) (snd ?r)"
  proof -
    have "node_commands n \<union> input_commands inp \<subseteq> Collect (command_ok env)" using assms by (auto simp: proc_ok_def)
    then show "node_commands (fst ?r) \<subseteq> Collect (command_ok env)" "effects_within (Collect (command_ok env)) (snd ?r)"
      using node_step_within [of inp n] effects_within_mono by blast+
  qed
  have "stored (rs_db (run_node env ?r rs)) (fst ?r)"
    unfolding run_node_def using assms(1,2) by (intro effects_stored [OF node_step_last w(2)]) (simp add: proc_ok_def)
  moreover have "log_safe (rs_db (run_node env ?r rs))"
    unfolding run_node_def using assms(1) by (intro effects_log_safe [OF w(2)]) (simp add: proc_ok_def)
  ultimately show "proc_ok (run_node env ?r rs)" using w(1) by (simp add: proc_ok_def) (simp add: run_node_def)
  show "rs_raft (run_node env ?r rs) = fst ?r" by (simp add: run_node_def)
  show "\<exists>snds. rs_out (run_node env ?r rs) = rs_out rs @ map (\<lambda>x. (fst x, wire (snd x))) snds
      \<and> mset snds \<subseteq># mset (sends (snd ?r)) \<and> (\<forall>x \<in> set snds. message_ok (snd x))"
    using sends_ok [OF w(2)]
    by (intro exI [of _ "filter (\<lambda>x. fst x \<in> set (rs_conns rs)) (sends (snd ?r))"])
      (auto simp: run_node_def effects_out)
qed

lemma local_sends_requests:
  assumes "is_local inp" and "x \<in> set (sends (snd (node_step inp n)))"
  shows "is_append_or_vote (snd x)"
proof -
  have "(0, fst x, snd x) \<in> set (outbox 0 (snd (node_step inp n)))" using assms(2) by (auto simp: outbox_sends)
  with outbox_local [OF assms(1), of n 0] show ?thesis
    by (auto simp: is_append_or_vote_def append_traffic_def list_all_iff vote_request_of_node_def)
qed

lemma message_sends_requests:
  assumes "x \<in> set (sends (snd (snd (handleRaftMessage m p now now' rnd n))))"
  shows "is_append_or_vote (snd x)"
proof -
  have "(0, fst x, snd x) \<in> set (outbox 0 (snd (snd (handleRaftMessage m p now now' rnd n))))"
    using assms by (auto simp: outbox_sends)
  with outbox_message [of 0 m p now now' rnd n] show ?thesis
    by (auto simp: is_append_or_vote_def append_traffic_def list_all_iff)
qed

lemma message_input_ok:
  "message_ok m \<Longrightarrow> message_input m p now now' rnd = Some inp \<Longrightarrow> input_commands inp \<subseteq> Collect (command_ok env)"
  by (auto simp: message_input_def message_ok_def message_commands_def image_subset_iff split: raft_type.splits)

text \<open>
  A member \<open>i\<close> has gone on from \<open>rs\<close> to \<open>rs'\<close> and so has the cluster: the messages \<open>used\<close> were taken from
  the network, \<open>snds\<close> were written to connections and \<open>reps\<close> are the replies to \<open>s\<close>.
\<close>

definition advance ::
  "uint64 list \<Rightarrow> uint64 \<Rightarrow> uint64 \<Rightarrow> 'db raft_service \<Rightarrow> cluster \<Rightarrow> 'db raft_service \<Rightarrow> cluster
     \<Rightarrow> (uint64 \<times> uint64 \<times> raft_message) list \<Rightarrow> (uint64 \<times> raft_message) list \<Rightarrow> raft_message list \<Rightarrow> bool" where
  "advance ids i s rs cl rs' cl' used snds reps \<longleftrightarrow>
     durable_exec ids cl cl' \<and> cl_nodes cl' = (cl_nodes cl)(i := rs_raft rs') \<and> proc_ok rs'
     \<and> rs_out rs' = rs_out rs @ map (\<lambda>x. (fst x, wire (snd x))) snds
     \<and> (\<forall>x \<in> set snds. is_append_or_vote (snd x) \<and> message_ok (snd x))
     \<and> (\<forall>m \<in> set reps. \<not> is_append_or_vote m)
     \<and> mset (cl_net cl) + mset (map (\<lambda>x. (i, fst x, snd x)) snds) + mset (map (\<lambda>m. (i, s, m)) reps)
         \<subseteq># mset (cl_net cl') + mset used"

lemma advance_refl:
  assumes "cl_nodes cl i = rs_raft rs" and "proc_ok rs"
  shows "advance ids i s rs cl rs cl [] [] []"
proof -
  have "(cl_nodes cl)(i := rs_raft rs) = cl_nodes cl" using assms(1) by auto
  then show ?thesis using assms(2) by (simp add: advance_def durable_exec.refl)
qed

lemma advance_trans:
  assumes "advance ids i s rs cl rs1 cl1 used1 snds1 reps1" and "advance ids i s rs1 cl1 rs2 cl2 used2 snds2 reps2"
  shows "advance ids i s rs cl rs2 cl2 (used1 @ used2) (snds1 @ snds2) (reps1 @ reps2)"
proof -
  let ?S = "\<lambda>snds. mset (map (\<lambda>x. (i, fst x, snd x)) snds)" and ?R = "\<lambda>reps. mset (map (\<lambda>m. (i, s, m)) reps)"
  have "mset (cl_net cl) + ?S snds1 + ?R reps1 + (?S snds2 + ?R reps2) \<subseteq># mset (cl_net cl1) + mset used1 + (?S snds2 + ?R reps2)"
    using assms(1) by (simp only: advance_def subset_mset.add_le_cancel_right)
  also have "\<dots> = (mset (cl_net cl1) + ?S snds2 + ?R reps2) + mset used1" by (simp add: ac_simps)
  also have "\<dots> \<subseteq># mset (cl_net cl2) + mset used2 + mset used1"
    using assms(2) by (simp only: advance_def subset_mset.add_le_cancel_right)
  finally have "mset (cl_net cl) + ?S (snds1 @ snds2) + ?R (reps1 @ reps2) \<subseteq># mset (cl_net cl2) + mset (used1 @ used2)"
    by (simp add: ac_simps)
  then show ?thesis
    using assms durable_exec_trans [of ids cl1 cl2 cl] unfolding advance_def by auto
qed

subsection \<open>Events of a member are events of the cluster\<close>

lemma local_advance:
  assumes i: "i \<in> set ids" and n: "rs_raft rs = cl_nodes cl i" and ok: "proc_ok rs"
    and inp: "is_local inp" "term_fits inp (rs_raft rs)" "input_commands inp \<subseteq> Collect (command_ok env)"
      "keeps_log (Local i inp) cl"
  shows "\<exists>cl' snds. advance ids i s rs cl (run_node env (node_step inp (rs_raft rs)) rs) cl' [] snds []"
proof -
  let ?r = "node_step inp (rs_raft rs)" and ?rs = "run_node env (node_step inp (rs_raft rs)) rs"
  define cl' where "cl' = (set_node i (fst ?r) cl)\<lparr>cl_net := cl_net cl @ outbox i (snd ?r)\<rparr>"
  have st: "cluster_step ids (Local i inp) cl = Some cl'"
    using i inp(1,2) n by (simp add: cl'_def case_prod_unfold Let_def)
  note run = run_node_ok [OF ok HOL.refl inp(3)]
  obtain snds where snds: "rs_out ?rs = rs_out rs @ map (\<lambda>x. (fst x, wire (snd x))) snds"
    "mset snds \<subseteq># mset (sends (snd ?r))" "\<forall>x \<in> set snds. message_ok (snd x)" using run(3) by blast
  have "is_append_or_vote (snd x)" if "x \<in> set snds" for x
  proof (rule local_sends_requests [OF inp(1)])
    show "x \<in> set (sends (snd ?r))" using that set_mset_mono [OF snds(2)] by auto
  qed
  moreover have "mset (map (\<lambda>x. (i, fst x, snd x)) snds) \<subseteq># mset (outbox i (snd ?r))"
    using image_mset_subseteq_mono [OF snds(2), of "\<lambda>x. (i, fst x, snd x)"] by (simp add: outbox_sends)
  ultimately have "advance ids i s rs cl ?rs cl' [] snds []"
    using durable_exec.step [OF durable_exec.refl inp(4) st] run(1,2) snds(1,3)
    by (simp add: advance_def cl'_def)
  then show ?thesis by blast
qed

lemma input_empty [simp]: "run_node env (rs_raft rs, []) rs = rs"
  by (simp add: run_node_def)

text \<open>A message from \<open>s\<close> in the network is handled; the sender that the code passes on matters for a response only.\<close>

lemma deliver_advance:
  fixes now now' rnd :: int
  assumes x: "(s, i, m) \<in> set (cl_net cl)" and n: "rs_raft rs = cl_nodes cl i" and ok: "proc_ok rs" "message_ok m"
    and f: "f = s \<or> is_append_or_vote m"
  defines "h \<equiv> handleRaftMessage m f now now' rnd (rs_raft rs)"
  shows "\<exists>cl' snds. advance ids i s rs cl (run_node env (snd h) rs) cl' [(s, i, m)] snds
    (case fst h of None \<Rightarrow> [] | Some r \<Rightarrow> [r])"
proof -
  have h: "h = handleRaftMessage m s now now' rnd (cl_nodes cl i)"
    using f by (auto simp: h_def n is_append_or_vote_def handleRaftMessage_def)
  obtain k where k: "k < length (cl_net cl)" "cl_net cl ! k = (s, i, m)" using x by (auto simp: in_set_conv_nth)
  let ?reps = "case fst h of None \<Rightarrow> [] | Some r \<Rightarrow> [r]" and ?rs = "run_node env (snd h) rs"
  define cl' where "cl' = (set_node i (fst (snd h)) (count_vote s i m cl))\<lparr>cl_net :=
      remove_nth k (cl_net cl) @ outbox i (snd (snd h)) @ (case fst h of None \<Rightarrow> [] | Some r \<Rightarrow> [(i, s, r)])\<rparr>"
  have st: "cluster_step ids (Deliver k now now' rnd) cl = Some cl'"
    using k by (simp add: cl'_def h Let_def case_prod_unfold cong: option.case_cong)
  have run: "proc_ok ?rs" "rs_raft ?rs = fst (snd h)"
    "\<exists>snds. rs_out ?rs = rs_out rs @ map (\<lambda>x. (fst x, wire (snd x))) snds
      \<and> mset snds \<subseteq># mset (sends (snd (snd h))) \<and> (\<forall>x \<in> set snds. message_ok (snd x))"
  proof -
    show "rs_raft ?rs = fst (snd h)" by (simp add: run_node_def)
    consider (none) "snd h = (rs_raft rs, [])"
      | (some) inp where "snd h = node_step inp (rs_raft rs)" "input_commands inp \<subseteq> Collect (command_ok env)"
      using handleRaftMessage_step [of m f now now' rnd "rs_raft rs"] message_input_ok [OF ok(2)]
      by (auto simp: h_def split: option.splits)
    then show "proc_ok ?rs" "\<exists>snds. rs_out ?rs = rs_out rs @ map (\<lambda>x. (fst x, wire (snd x))) snds
      \<and> mset snds \<subseteq># mset (sends (snd (snd h))) \<and> (\<forall>x \<in> set snds. message_ok (snd x))"
      by (cases; use run_node_ok [OF ok(1) HOL.refl] ok(1) in auto)+
  qed
  obtain snds where snds: "rs_out ?rs = rs_out rs @ map (\<lambda>x. (fst x, wire (snd x))) snds"
    "mset snds \<subseteq># mset (sends (snd (snd h)))" "\<forall>x \<in> set snds. message_ok (snd x)" using run(3) by blast
  have "is_append_or_vote (snd x)" if "x \<in> set snds" for x
  proof (rule message_sends_requests)
    show "x \<in> set (sends (snd (snd (handleRaftMessage m f now now' rnd (rs_raft rs)))))"
      using that set_mset_mono [OF snds(2)] by (auto simp: h_def)
  qed
  moreover have "mset (map (\<lambda>x. (i, fst x, snd x)) snds) \<subseteq># mset (outbox i (snd (snd h)))"
    using image_mset_subseteq_mono [OF snds(2), of "\<lambda>x. (i, fst x, snd x)"] by (simp add: outbox_sends)
  moreover have "mset (cl_net cl) = mset (remove_nth k (cl_net cl)) + {#(s, i, m)#}"
    using id_take_nth_drop [OF k(1)] k(2) by (metis add_mset_add_single mset.simps(2) mset_append remove_nth_def union_mset_add_mset_right)
  moreover have "\<not> is_append_or_vote r" if "fst h = Some r" for r
    using that handleRaftMessage_reply [of m s now now' rnd "cl_nodes cl i"]
    by (auto simp: h is_append_or_vote_def split: raft_type.splits)
  ultimately have "advance ids i s rs cl ?rs cl' [(s, i, m)] snds ?reps"
    using durable_exec.step [OF durable_exec.refl _ st] run(1,2) snds(1,3)
    by (auto simp: advance_def cl'_def ac_simps split: option.split)
  then show ?thesis by blast
qed

subsection \<open>The bytes that arrive\<close>

lemma advance_rest:
  assumes "advance ids i s rs cl rs1 cl1 [x] snds reps" and "mset (x # xs) \<subseteq># mset (cl_net cl)"
  shows "mset xs \<subseteq># mset (cl_net cl1)"
proof -
  note assms(2)
  also have "mset (cl_net cl) \<subseteq># mset (cl_net cl) + (mset (map (\<lambda>x. (i, fst x, snd x)) snds) + mset (map (\<lambda>m. (i, s, m)) reps))"
    by (rule mset_subset_eq_add_left)
  also have "\<dots> \<subseteq># mset (cl_net cl1) + mset [x]"
    using assms(1) by (simp only: advance_def add.assoc)
  finally show ?thesis by simp
qed

lemma advance_net:
  "advance ids i s rs cl rs' cl' used snds reps \<Longrightarrow>
     mset (cl_net cl) + mset (map (\<lambda>x. (i, fst x, snd x)) snds) + mset (map (\<lambda>m. (i, s, m)) reps)
       \<subseteq># mset (cl_net cl') + mset used"
  by (simp only: advance_def)

lemma advance_node: "advance ids i s rs cl rs1 cl1 used snds reps \<Longrightarrow> rs_raft rs1 = cl_nodes cl1 i \<and> proc_ok rs1"
  by (simp add: advance_def)

text \<open>Requests that arrive at the server: every message is handled and answered on the same connection.\<close>

lemma server_message:
  assumes "(s, i, m) \<in> set (cl_net cl)" and "rs_raft rs = cl_nodes cl i" and "proc_ok rs" "message_ok m" "is_append_or_vote m"
  shows "\<exists>rs' cl' snds reps. server_frame env clk RAFT_MSG (ser_raft env m) (c, out, Replicated rs)
      = (Suc c, out @ map wire reps, Replicated rs') \<and> advance ids i s rs cl rs' cl' [(s, i, m)] snds reps"
proof -
  obtain now now' rnd where clk: "clk c = (now, now', rnd)" by (cases "clk c") auto
  let ?f = "case rf_type m of REQUEST_VOTE \<Rightarrow> rv_candidate_id (request_vote_of m)
      | APPEND_ENTRIES \<Rightarrow> ae_leader_id (append_entries_of m) | _ \<Rightarrow> 0"
  let ?h = "handleRaftMessage m ?f now now' rnd (rs_raft rs)"
  let ?reps = "case fst ?h of None \<Rightarrow> [] | Some r \<Rightarrow> [r]"
  obtain cl' snds where "advance ids i s rs cl (run_node env (snd ?h) rs) cl' [(s, i, m)] snds ?reps"
    using deliver_advance [OF assms(1-4), of ?f] assms(5) by blast
  moreover have "server_frame env clk RAFT_MSG (ser_raft env m) (c, out, Replicated rs)
      = (Suc c, out @ map wire ?reps, Replicated (run_node env (snd ?h) rs))"
    using wire_format.parse_ser [OF raft_wire, of m]
    by (auto simp: server_frame_def clk rs_handleRaftMessage_def frame_bytes_wire Let_def case_prod_unfold split: option.split)
  ultimately show ?thesis by blast
qed

lemma server_messages:
  assumes "mset (map (\<lambda>m. (s, i, m)) xs) \<subseteq># mset (cl_net cl)" and "rs_raft rs = cl_nodes cl i" and "proc_ok rs"
    and "\<forall>m \<in> set xs. message_ok m \<and> is_append_or_vote m"
  shows "\<exists>c' rs' cl' snds reps. fold (\<lambda>(ty, p). server_frame env clk ty p) (map (\<lambda>m. (RAFT_MSG, ser_raft env m)) xs) (c, out, Replicated rs)
      = (c', out @ map wire reps, Replicated rs') \<and> advance ids i s rs cl rs' cl' (map (\<lambda>m. (s, i, m)) xs) snds reps"
  using assms
proof (induction xs arbitrary: c out rs cl)
  case Nil
  then show ?case using advance_refl [of cl i rs ids s] by force
next
  case (Cons m xs)
  have "(s, i, m) \<in> set (cl_net cl)" using set_mset_mono [OF Cons.prems(1)] by auto
  then obtain rs1 cl1 snds1 reps1 where
    one: "server_frame env clk RAFT_MSG (ser_raft env m) (c, out, Replicated rs) = (Suc c, out @ map wire reps1, Replicated rs1)"
    and a1: "advance ids i s rs cl rs1 cl1 [(s, i, m)] snds1 reps1"
    using server_message [of s i m cl rs clk c out ids] Cons.prems by auto
  have "mset (map (\<lambda>m. (s, i, m)) xs) \<subseteq># mset (cl_net cl1)" by (rule advance_rest [OF a1]) (use Cons.prems(1) in simp)
  moreover have "rs_raft rs1 = cl_nodes cl1 i" "proc_ok rs1" "\<forall>m \<in> set xs. message_ok m \<and> is_append_or_vote m"
    using advance_node [OF a1] Cons.prems(4) by auto
  ultimately obtain c' rs' cl' snds reps where two: "fold (\<lambda>(ty, p). server_frame env clk ty p) (map (\<lambda>m. (RAFT_MSG, ser_raft env m)) xs) (Suc c, out @ map wire reps1, Replicated rs1)
      = (c', (out @ map wire reps1) @ map wire reps, Replicated rs')"
    and a2: "advance ids i s rs1 cl1 rs' cl' (map (\<lambda>m. (s, i, m)) xs) snds reps" using Cons.IH by blast
  show ?case
    by (intro exI [of _ c'] exI [of _ rs'] exI [of _ cl'] exI [of _ "snds1 @ snds"] exI [of _ "reps1 @ reps"])
      (use one two advance_trans [OF a1 a2] in simp)
qed

text \<open>Responses that arrive at the client end.\<close>

lemma peer_message:
  assumes "(s, i, m) \<in> set (cl_net cl)" and "rs_raft rs = cl_nodes cl i" and "proc_ok rs" "message_ok m" "\<not> is_append_or_vote m"
  shows "\<exists>c' rs' cl' snds. peer_frame env clk s RAFT_MSG (ser_raft env m) (c, rs) = (c', rs')
      \<and> advance ids i s rs cl rs' cl' [(s, i, m)] snds []"
proof -
  obtain now now' rnd where clk: "clk c = (now, now', rnd)" by (cases "clk c") auto
  let ?h = "handleRaftMessage m s now now' rnd (rs_raft rs)"
  have none: "fst ?h = None"
    using assms(5) by (simp add: handleRaftMessage_reply is_append_or_vote_def split: raft_type.split)
  then obtain cl' snds where "advance ids i s rs cl (run_node env (snd ?h) rs) cl' [(s, i, m)] snds []"
    using deliver_advance [OF assms(1-4), of s ids now now' rnd] by auto
  moreover have "peer_frame env clk s RAFT_MSG (ser_raft env m) (c, rs) = (Suc c, run_node env (snd ?h) rs)"
    using wire_format.parse_ser [OF raft_wire, of m] none
    by (simp add: peer_frame_def clk Let_def case_prod_unfold)
  ultimately show ?thesis by blast
qed

lemma peer_messages:
  assumes "mset (map (\<lambda>m. (s, i, m)) xs) \<subseteq># mset (cl_net cl)" and "rs_raft rs = cl_nodes cl i" and "proc_ok rs"
    and "\<forall>m \<in> set xs. message_ok m \<and> \<not> is_append_or_vote m"
  shows "\<exists>c' rs' cl' snds. fold (\<lambda>(ty, p). peer_frame env clk s ty p) (map (\<lambda>m. (RAFT_MSG, ser_raft env m)) xs) (c, rs)
      = (c', rs') \<and> advance ids i s rs cl rs' cl' (map (\<lambda>m. (s, i, m)) xs) snds []"
  using assms
proof (induction xs arbitrary: c rs cl)
  case Nil
  then show ?case using advance_refl [of cl i rs ids s] by auto
next
  case (Cons m xs)
  have "(s, i, m) \<in> set (cl_net cl)" using set_mset_mono [OF Cons.prems(1)] by auto
  then obtain c1 rs1 cl1 snds1 where one: "peer_frame env clk s RAFT_MSG (ser_raft env m) (c, rs) = (c1, rs1)"
    and a1: "advance ids i s rs cl rs1 cl1 [(s, i, m)] snds1 []"
    using peer_message [of s i m cl rs clk c ids] Cons.prems by auto
  have "mset (map (\<lambda>m. (s, i, m)) xs) \<subseteq># mset (cl_net cl1)" by (rule advance_rest [OF a1]) (use Cons.prems(1) in simp)
  moreover have "rs_raft rs1 = cl_nodes cl1 i" "proc_ok rs1" "\<forall>m \<in> set xs. message_ok m \<and> \<not> is_append_or_vote m"
    using advance_node [OF a1] Cons.prems(4) by auto
  ultimately obtain c' rs' cl' snds where two: "fold (\<lambda>(ty, p). peer_frame env clk s ty p) (map (\<lambda>m. (RAFT_MSG, ser_raft env m)) xs) (c1, rs1) = (c', rs')"
    and a2: "advance ids i s rs1 cl1 rs' cl' (map (\<lambda>m. (s, i, m)) xs) snds []" using Cons.IH by blast
  show ?case
    by (intro exI [of _ c'] exI [of _ rs'] exI [of _ cl'] exI [of _ "snds1 @ snds"])
      (use one two advance_trans [OF a1 a2] in simp)
qed

text \<open>Frames of a client: a write to the leader is an event of its node, everything else leaves the node alone.\<close>

lemma propose_advance:
  assumes "i \<in> set ids" and "rs_raft rs = cl_nodes cl i" and "proc_ok rs" and "command_ok env c"
    and "int (length (raftLog (rs_raft rs))) < 2 ^ 62"
  shows "\<exists>cl' snds. advance ids i s rs cl (snd (rs_propose env c rs)) cl' [] snds []"
    and "length (raftLog (rs_raft (snd (rs_propose env c rs)))) \<le> Suc (length (raftLog (rs_raft rs)))"
proof -
  have p: "snd (rs_propose env c rs) = run_node env (node_step (Propose c) (rs_raft rs)) rs"
    by (simp add: rs_propose_def case_prod_unfold Let_def)
  show "\<exists>cl' snds. advance ids i s rs cl (snd (rs_propose env c rs)) cl' [] snds []"
    unfolding p using assms by (intro local_advance) simp_all
  show "length (raftLog (rs_raft (snd (rs_propose env c rs)))) \<le> Suc (length (raftLog (rs_raft rs)))"
    unfolding p by (simp add: run_node_def propose_def Let_def)
qed

lemma client_commands:
  assumes "command_ok env p" and "parse_rpc env p = Some msg"
  shows "rm_type msg = PUT_REQUEST \<Longrightarrow> command_ok env (ser_rpc env (put_command (put_request_of msg)))"
    and "rm_type msg = DELETE_REQUEST \<Longrightarrow> command_ok env (ser_rpc env (delete_command (delete_request_of msg)))"
  using assms wire_format.parse_ser [OF rpc_wire]
  by (simp_all add: command_ok_def put_command_def delete_command_def)

definition same_or_proposed :: "'db raft_service \<Rightarrow> 'db raft_service \<Rightarrow> bool" where
  "same_or_proposed rs rs' \<longleftrightarrow> rs' = rs \<or> (\<exists>c. command_ok env c \<and> rs' = snd (rs_propose env c rs))"

lemma client_dispatch:
  assumes "command_ok env p" and "parse_rpc env p = Some msg"
  shows "\<exists>rs'. snd (dispatchClientRpc env msg (Replicated rs)) = Replicated rs' \<and> same_or_proposed rs rs'"
  using client_commands [OF assms]
  by (cases "rm_type msg")
    (auto simp: dispatchClientRpc_def handlePut_def handleDelete_def Let_def case_prod_unfold same_or_proposed_def
      split: option.split)

lemma client_message:
  assumes "client_frame env f"
  shows "\<exists>c' out' rs'. server_frame env clk (fst f) (snd f) (c, out, Replicated rs) = (c', out', Replicated rs')
      \<and> same_or_proposed rs rs'"
proof (cases "parse_rpc env (snd f)")
  case None
  with assms show ?thesis by (simp add: server_frame_def client_frame_def same_or_proposed_def)
next
  case (Some msg)
  with client_dispatch [OF _ Some, of rs] assms obtain rs' where
    "snd (dispatchClientRpc env msg (Replicated rs)) = Replicated rs'" "same_or_proposed rs rs'"
    by (auto simp: client_frame_def)
  with Some assms show ?thesis by (simp add: server_frame_def client_frame_def Let_def case_prod_unfold)
qed

lemma client_messages:
  assumes "list_all (client_frame env) fs" and "i \<in> set ids" and "rs_raft rs = cl_nodes cl i" and "proc_ok rs"
    and "int (length (raftLog (rs_raft rs))) + int (length fs) < 2 ^ 62"
  shows "\<exists>c' out' rs' cl' snds. fold (\<lambda>(ty, p). server_frame env clk ty p) fs (c, out, Replicated rs) = (c', out', Replicated rs')
      \<and> advance ids i s rs cl rs' cl' [] snds []"
  using assms(1,3-5)
proof (induction fs arbitrary: c out rs cl)
  case Nil
  then show ?case using advance_refl [of cl i rs ids s] by auto
next
  case (Cons f fs)
  obtain c1 out1 rs1 where one: "server_frame env clk (fst f) (snd f) (c, out, Replicated rs) = (c1, out1, Replicated rs1)"
    and p: "same_or_proposed rs rs1"
    using client_message [of f clk c out rs] Cons.prems(1) by auto
  have lg: "int (length (raftLog (rs_raft rs))) < 2 ^ 62" using Cons.prems(4) by simp
  obtain cl1 snds1 where a1: "advance ids i s rs cl rs1 cl1 [] snds1 []"
    and len: "length (raftLog (rs_raft rs1)) \<le> Suc (length (raftLog (rs_raft rs)))"
    using p unfolding same_or_proposed_def
  proof (elim disjE exE conjE)
    assume "rs1 = rs"
    then show thesis using that advance_refl [of cl i rs ids s] Cons.prems(2,3) by simp
  next
    fix cmd assume "command_ok env cmd" "rs1 = snd (rs_propose env cmd rs)"
    then show thesis using that propose_advance [OF assms(2) Cons.prems(2,3) _ lg] by blast
  qed
  have "list_all (client_frame env) fs" "rs_raft rs1 = cl_nodes cl1 i" "proc_ok rs1"
    "int (length (raftLog (rs_raft rs1))) + int (length fs) < 2 ^ 62"
    using advance_node [OF a1] Cons.prems(1,4) len by auto
  then obtain c' out' rs' cl' snds where
    two: "fold (\<lambda>(ty, p). server_frame env clk ty p) fs (c1, out1, Replicated rs1) = (c', out', Replicated rs')"
    and a2: "advance ids i s rs1 cl1 rs' cl' [] snds []" using Cons.IH by blast
  show ?case
    by (intro exI [of _ c'] exI [of _ out'] exI [of _ rs'] exI [of _ cl'] exI [of _ "snds1 @ snds"])
      (use one two advance_trans [OF a1 a2] in \<open>simp add: case_prod_unfold\<close>)
qed

subsection \<open>Connections and the network of the cluster\<close>

definition up_bytes :: "'b link \<Rightarrow> string" where
  "up_bytes l = bytes (ln_up_buf l) @ ln_up l"

definition down_bytes :: "'b link \<Rightarrow> string" where
  "down_bytes l = bytes (ln_down_buf l) @ ln_down l"

text \<open>A connection carries whole messages: requests to the server, responses to the client.\<close>

definition link_ok :: "'b link \<Rightarrow> bool" where
  "link_ok l \<longleftrightarrow> stream (up_bytes l) (decode (up_bytes l)) \<and> stream (down_bytes l) (decode (down_bytes l))
     \<and> (\<forall>m \<in> set (decode (up_bytes l)). is_append_or_vote m \<and> message_ok m)
     \<and> (\<forall>m \<in> set (decode (down_bytes l)). \<not> is_append_or_vote m)"

definition link_traffic :: "'b link \<Rightarrow> (uint64 \<times> uint64 \<times> raft_message) multiset" where
  "link_traffic l = mset (map (\<lambda>m. (ln_from l, ln_to l, m)) (decode (up_bytes l)))
     + mset (map (\<lambda>m. (ln_to l, ln_from l, m)) (decode (down_bytes l)))"

definition traffic :: "'b link list \<Rightarrow> (uint64 \<times> uint64 \<times> raft_message) multiset" where
  "traffic ls = (\<Sum>l\<leftarrow>ls. link_traffic l)"

lemma response_ok: "\<not> is_append_or_vote m \<Longrightarrow> message_ok m"
  by (simp add: message_ok_def message_commands_def is_append_or_vote_def)

lemma link_okI:
  assumes "stream (up_bytes l) us" and "stream (down_bytes l) ds"
    and "\<forall>m \<in> set us. is_append_or_vote m \<and> message_ok m" and "\<forall>m \<in> set ds. \<not> is_append_or_vote m"
  shows "link_ok l" and "link_traffic l = mset (map (\<lambda>m. (ln_from l, ln_to l, m)) us)
    + mset (map (\<lambda>m. (ln_to l, ln_from l, m)) ds)"
  using assms by (simp_all add: link_ok_def link_traffic_def decode_stream)

lemma link_okE:
  assumes "link_ok l"
  obtains us ds where "stream (up_bytes l) us" and "stream (down_bytes l) ds"
    and "\<forall>m \<in> set us. is_append_or_vote m \<and> message_ok m" and "\<forall>m \<in> set ds. \<not> is_append_or_vote m"
    and "link_traffic l = mset (map (\<lambda>m. (ln_from l, ln_to l, m)) us) + mset (map (\<lambda>m. (ln_to l, ln_from l, m)) ds)"
  using assms by (auto simp: link_ok_def link_traffic_def)

lemma traffic_update:
  assumes "k < length ls"
  shows "traffic (ls[k := l]) + link_traffic (ls ! k) = traffic ls + link_traffic l"
  using assms
proof (induction ls arbitrary: k)
  case (Cons l' ls)
  then show ?case by (cases k) (auto simp: traffic_def ac_simps)
qed simp

lemma traffic_member: "l \<in> set ls \<Longrightarrow> link_traffic l \<subseteq># traffic ls"
  by (induction ls) (auto simp: traffic_def intro: subset_mset.add_increasing)

lemma write_up_ok:
  assumes "\<forall>l \<in> set ls. link_ok l" and "small m" and "is_append_or_vote m" and "message_ok m"
  shows "(\<forall>l \<in> set (write_up i (p, wire m) ls). link_ok l) \<and> traffic (write_up i (p, wire m) ls) \<subseteq># traffic ls + {#(i, p, m)#}"
  using assms(1)
proof (induction ls)
  case Nil
  then show ?case by (simp add: traffic_def)
next
  case (Cons l ls)
  show ?case
  proof (cases "ln_cli l \<and> ln_from l = i \<and> ln_to l = p")
    case True
    let ?l = "l\<lparr>ln_up := ln_up l @ wire m\<rparr>"
    obtain us ds where l: "stream (up_bytes l) us" "stream (down_bytes l) ds"
      "\<forall>m \<in> set us. is_append_or_vote m \<and> message_ok m" "\<forall>m \<in> set ds. \<not> is_append_or_vote m"
      "link_traffic l = mset (map (\<lambda>m. (ln_from l, ln_to l, m)) us) + mset (map (\<lambda>m. (ln_to l, ln_from l, m)) ds)"
      using Cons.prems by (auto elim: link_okE)
    have "stream (up_bytes ?l) (us @ [m])" "stream (down_bytes ?l) ds"
      using stream_append [OF l(1) stream_wire [OF assms(2)]] l(2) by (simp_all add: up_bytes_def down_bytes_def)
    note new = link_okI [OF this _ l(4)]
    have "link_ok ?l" using new(1) l(3) assms(3,4) by auto
    moreover have "link_traffic ?l = link_traffic l + {#(i, p, m)#}" using new(2) l(3,5) assms(3,4) True by auto
    ultimately show ?thesis using True Cons.prems by (simp add: traffic_def)
  next
    case False
    with Cons show ?thesis by (auto simp: traffic_def add.assoc)
  qed
qed

lemma transmit_ok:
  assumes "\<forall>l \<in> set ls. link_ok l" and "\<forall>x \<in> set snds. small (snd x) \<and> is_append_or_vote (snd x) \<and> message_ok (snd x)"
  shows "(\<forall>l \<in> set (transmit i (map (\<lambda>x. (fst x, wire (snd x))) snds) ls). link_ok l)
    \<and> traffic (transmit i (map (\<lambda>x. (fst x, wire (snd x))) snds) ls) \<subseteq># traffic ls + mset (map (\<lambda>x. (i, fst x, snd x)) snds)"
  using assms
proof (induction snds arbitrary: ls)
  case (Cons x snds)
  let ?ls = "write_up i (fst x, wire (snd x)) ls"
  have one: "\<forall>l \<in> set ?ls. link_ok l" "traffic ?ls \<subseteq># traffic ls + {#(i, fst x, snd x)#}"
    using write_up_ok [OF Cons.prems(1), of "snd x" i "fst x"] Cons.prems(2) by simp_all
  from Cons.IH [OF one(1)] Cons.prems(2) have
    "\<forall>l \<in> set (transmit i (map (\<lambda>x. (fst x, wire (snd x))) snds) ?ls). link_ok l"
    "traffic (transmit i (map (\<lambda>x. (fst x, wire (snd x))) snds) ?ls) \<subseteq># traffic ?ls + mset (map (\<lambda>x. (i, fst x, snd x)) snds)" by auto
  moreover have "traffic ?ls + mset (map (\<lambda>x. (i, fst x, snd x)) snds)
      \<subseteq># traffic ls + {#(i, fst x, snd x)#} + mset (map (\<lambda>x. (i, fst x, snd x)) snds)"
    using one(2) by (rule subset_mset.add_right_mono)
  ultimately show ?case using subset_mset.order_trans by (fastforce simp: transmit_def)
qed (simp add: transmit_def)

subsection \<open>The simulation\<close>

text \<open>
  The nodes of the running processes are the nodes of the cluster; the disk of a member that is down knows
  the term and the vote of its node; every message on a connection is in the network.
\<close>

definition member_sim :: "('db, 'b) system \<Rightarrow> cluster \<Rightarrow> uint64 \<Rightarrow> bool" where
  "member_sim sy cl i \<longleftrightarrow>
     (case sy_procs sy i of
        Some rs \<Rightarrow> rs_raft rs = cl_nodes cl i \<and> proc_ok rs
      | None \<Rightarrow> stored (sy_disks sy i) (cl_nodes cl i) \<and> log_safe (sy_disks sy i))"

definition sim :: "uint64 list \<Rightarrow> ('db, 'b) system \<Rightarrow> cluster \<Rightarrow> bool" where
  "sim ids sy cl \<longleftrightarrow> (\<forall>i. sy_procs sy i \<noteq> None \<longrightarrow> i \<in> set ids) \<and> (\<forall>i \<in> set ids. member_sim sy cl i)
     \<and> (\<forall>l \<in> set (sy_links sy). link_ok l) \<and> traffic (sy_links sy) \<subseteq># mset (cl_net cl)"

text \<open>What the cluster does for an event: only the node of a process that runs is touched.\<close>

definition follows :: "uint64 list \<Rightarrow> ('db, 'b) system \<Rightarrow> cluster \<Rightarrow> ('db, 'b) system \<Rightarrow> cluster \<Rightarrow> bool" where
  "follows ids sy cl sy' cl' \<longleftrightarrow> durable_exec ids cl cl' \<and> sim ids sy' cl'
     \<and> (\<forall>j. sy_procs sy j = None \<longrightarrow> cl_nodes cl' j = cl_nodes cl j)"

lemma mset_exchange:
  fixes T S U N R N' :: "'a multiset"
  assumes "T' \<subseteq># T + S" and "T + U \<subseteq># N + R" and "N + S + R \<subseteq># N' + U"
  shows "T' \<subseteq># N'"
proof -
  have "T' + U \<subseteq># T + S + U" using assms(1) by (rule subset_mset.add_right_mono)
  also have "\<dots> = T + U + S" by (simp add: ac_simps)
  also have "\<dots> \<subseteq># N + R + S" using assms(2) by (rule subset_mset.add_right_mono)
  also have "\<dots> = N + S + R" by (simp add: ac_simps)
  also note assms(3)
  finally show ?thesis by simp
qed

lemma proceed_follows:
  assumes sim: "sim ids sy cl" and i: "sy_procs sy i = Some rs" and a: "advance ids i s rs cl rs' cl' used snds reps"
    and ls: "\<forall>l \<in> set ls. link_ok l"
      "traffic ls + mset used \<subseteq># mset (cl_net cl) + mset (map (\<lambda>m. (i, s, m)) reps)"
    and st: "proceed i rs rs' (sy\<lparr>sy_links := ls\<rparr>) = Some sy'"
  shows "follows ids sy cl sy' cl'"
proof -
  let ?outs = "map (\<lambda>x. (fst x, wire (snd x))) snds"
  from a have out: "drop (length (rs_out rs)) (rs_out rs') = ?outs" by (simp add: advance_def)
  from st have sm: "list_all (\<lambda>o'. small_frame (snd o')) ?outs"
    and sy': "sy' = sy\<lparr>sy_procs := (sy_procs sy)(i := Some rs'), sy_links := transmit i ?outs ls\<rparr>"
    by (auto simp: proceed_def out Let_def split: if_splits)
  have "\<forall>x \<in> set snds. small (snd x) \<and> is_append_or_vote (snd x) \<and> message_ok (snd x)"
    using sm a by (auto simp: list_all_iff small_frame_wire advance_def)
  note tr = transmit_ok [OF ls(1) this, of i]
  have "traffic (sy_links sy') \<subseteq># mset (cl_net cl')"
  proof (rule mset_exchange)
    show "traffic (sy_links sy') \<subseteq># traffic ls + mset (map (\<lambda>x. (i, fst x, snd x)) snds)" using tr by (simp add: sy')
  qed (rule ls(2), rule advance_net [OF a])
  moreover have "member_sim sy' cl' j" if "j \<in> set ids" for j
  proof -
    have "member_sim sy cl j" using sim that by (simp add: sim_def)
    with a show ?thesis by (cases "sy_procs sy j") (auto simp: member_sim_def sy' advance_def)
  qed
  ultimately have "sim ids sy' cl'" using sim tr i by (auto simp: sim_def sy')
  then show ?thesis using a i by (auto simp: follows_def advance_def)
qed

lemma timer_follows:
  assumes sim: "sim ids sy cl" and adm: "admissible env bytes ids (Timer i now now' rnd) sy"
    and st: "system_step env (Timer i now now' rnd) sy = Some sy'"
  shows "\<exists>cl'. follows ids sy cl sy' cl'"
proof -
  obtain rs where rs: "sy_procs sy i = Some rs" using st by (cases "sy_procs sy i") auto
  let ?rs = "run_node env (node_step (Tick now now' rnd) (rs_raft rs)) rs"
  have p: "proceed i rs ?rs (sy\<lparr>sy_links := sy_links sy\<rparr>) = Some sy'"
    using st rs by (simp add: server_tick_def rs_tick_def)
  have m: "i \<in> set ids" "rs_raft rs = cl_nodes cl i" "proc_ok rs"
    using sim rs by (force simp: sim_def member_sim_def)+
  obtain cl' snds where "advance ids i 0 rs cl ?rs cl' [] snds []"
    using local_advance [OF m, of "Tick now now' rnd" 0] adm rs by auto
  from proceed_follows [OF sim rs this _ _ p] show ?thesis using sim by (auto simp: sim_def)
qed

lemma client_follows:
  assumes sim: "sim ids sy cl" and adm: "admissible env bytes ids (Client i clk buf) sy"
    and st: "system_step env (Client i clk buf) sy = Some sy'"
  shows "\<exists>cl'. follows ids sy cl sy' cl'"
proof -
  obtain rs where rs: "sy_procs sy i = Some rs" using st by (cases "sy_procs sy i") auto
  have m: "i \<in> set ids" "rs_raft rs = cl_nodes cl i" "proc_ok rs"
    using sim rs by (force simp: sim_def member_sim_def)+
  let ?fs = "fst (frames_of (bytes buf))"
  from adm rs have fs: "headers_fit (bytes buf)" "list_all (client_frame env) ?fs"
    "int (length (raftLog (rs_raft rs))) + int (length ?fs) < 2 ^ 62" by simp_all
  obtain c' out' rs' cl' snds where r: "fold (\<lambda>(ty, p). server_frame env clk ty p) ?fs (0, [], Replicated rs) = (c', out', Replicated rs')"
    and a: "advance ids i 0 rs cl rs' cl' [] snds []"
    using client_messages [OF fs(2) m fs(3), of clk 0 "[]" 0] by blast
  obtain b where "server_onMessage env clk buf (Replicated rs) = Some (b, (c', out', Replicated rs'), False)"
    using net_buffer.frame_loop_frames [OF buffer fs(1), of "server_frame env clk" "(0, [], Replicated rs)"] r
    by (auto simp: server_onMessage_def)
  then have p: "proceed i rs rs' (sy\<lparr>sy_links := sy_links sy\<rparr>) = Some sy'" using st rs by simp
  from proceed_follows [OF sim rs a _ _ p] show ?thesis using sim by (auto simp: sim_def)
qed

lemma used_in_net:
  assumes "sim ids sy cl" and "k < length (sy_links sy)" and "M \<subseteq># link_traffic (sy_links sy ! k)"
  shows "M \<subseteq># mset (cl_net cl)"
  using assms traffic_member [of "sy_links sy ! k" "sy_links sy"] subset_mset.order_trans unfolding sim_def
  by (meson nth_mem)

text \<open>One end of connection \<open>k\<close> has read: its messages \<open>used\<close> are gone and the responses \<open>reps\<close> are new.\<close>

lemma link_read:
  assumes sim: "sim ids sy cl" and k: "k < length (sy_links sy)" and l': "link_ok l'"
    and t: "link_traffic l' + mset used = link_traffic (sy_links sy ! k) + M"
  shows "\<forall>l \<in> set ((sy_links sy)[k := l']). link_ok l"
    and "traffic ((sy_links sy)[k := l']) + mset used \<subseteq># mset (cl_net cl) + M"
proof -
  show "\<forall>l \<in> set ((sy_links sy)[k := l']). link_ok l"
    using sim l' set_update_subset_insert [of "sy_links sy" k l'] by (auto simp: sim_def)
  let ?l = "sy_links sy ! k" and ?ls = "(sy_links sy)[k := l']"
  have "traffic ?ls + mset used + link_traffic ?l = traffic ?ls + link_traffic ?l + mset used" by (simp add: ac_simps)
  also have "\<dots> = traffic (sy_links sy) + (link_traffic l' + mset used)" unfolding traffic_update [OF k] by (simp add: ac_simps)
  also have "\<dots> = traffic (sy_links sy) + M + link_traffic ?l" unfolding t by (simp add: ac_simps)
  finally have "traffic ?ls + mset used = traffic (sy_links sy) + M" by simp
  then show "traffic ?ls + mset used \<subseteq># mset (cl_net cl) + M"
    using sim by (simp add: sim_def subset_mset.add_right_mono)
qed

lemma recv_up_follows:
  assumes sim: "sim ids sy cl" and st: "system_step env (Recv_up k n clk) sy = Some sy'"
  shows "\<exists>cl'. follows ids sy cl sy' cl'"
proof -
  let ?l = "sy_links sy ! k"
  let ?a = "bytes (ln_up_buf ?l) @ take n (ln_up ?l)" and ?b = "buf_append (env_buf env) (take n (ln_up ?l)) (ln_up_buf ?l)"
  from st have k: "k < length (sy_links sy)" by (auto simp: recv_up_def Let_def split: if_splits)
  then have "link_ok ?l" using sim by (simp add: sim_def)
  then obtain us ds where l: "stream (up_bytes ?l) us" "stream (down_bytes ?l) ds"
    "\<forall>m \<in> set us. is_append_or_vote m \<and> message_ok m" "\<forall>m \<in> set ds. \<not> is_append_or_vote m"
    "link_traffic ?l = mset (map (\<lambda>m. (ln_from ?l, ln_to ?l, m)) us) + mset (map (\<lambda>m. (ln_to ?l, ln_from ?l, m)) ds)"
    by (rule link_okE)
  from l(1) have "stream (?a @ drop n (ln_up ?l)) us" by (simp add: up_bytes_def)
  from stream_cut [OF this] headers_fit_append [OF stream_fits [OF this]] obtain xs vs where
    us: "us = xs @ vs" "fst (frames_of ?a) = map (\<lambda>m. (RAFT_MSG, ser_raft env m)) xs"
      "stream (snd (frames_of ?a) @ drop n (ln_up ?l)) vs" and fit: "headers_fit ?a" by blast
  from st k obtain rs where rs: "sy_procs sy (ln_to ?l) = Some rs"
    by (cases "sy_procs sy (ln_to ?l)") (auto simp: recv_up_def Let_def split: if_splits)
  let ?used = "map (\<lambda>m. (ln_from ?l, ln_to ?l, m)) xs"
  have m: "rs_raft rs = cl_nodes cl (ln_to ?l)" "proc_ok rs" using sim rs by (force simp: sim_def member_sim_def)+
  have "mset ?used \<subseteq># mset (cl_net cl)" by (rule used_in_net [OF sim k]) (simp add: l(5) us(1))
  moreover have "\<forall>m \<in> set xs. message_ok m \<and> is_append_or_vote m" using l(3) us(1) by simp
  ultimately obtain c' rs' cl' snds reps where
    f: "fold (\<lambda>(ty, p). server_frame env clk ty p) (fst (frames_of ?a)) (0, [], Replicated rs) = (c', map wire reps, Replicated rs')"
    and a: "advance ids (ln_to ?l) (ln_from ?l) rs cl rs' cl' ?used snds reps"
    using server_messages [OF _ m, of "ln_from ?l" xs clk 0 "[]" ids] unfolding us(2) append_Nil by blast
  have "bytes ?b = ?a" by (rule net_buffer.append_bytes [OF buffer])
  with net_buffer.frame_loop_frames [OF buffer, of ?b "server_frame env clk" "(0, [], Replicated rs)"] fit f
  obtain b where b: "server_onMessage env clk ?b (Replicated rs) = Some (b, (c', map wire reps, Replicated rs'), False)"
    "bytes b = snd (frames_of ?a)" by (auto simp: server_onMessage_def)
  let ?l' = "?l\<lparr>ln_up := drop n (ln_up ?l), ln_up_buf := b, ln_down := ln_down ?l @ concat (map wire reps)\<rparr>"
  from st k rs b(1) have sm: "list_all small_frame (map wire reps)"
    and p: "proceed (ln_to ?l) rs rs' (sy\<lparr>sy_links := (sy_links sy)[k := ?l']\<rparr>) = Some sy'"
    by (auto simp: recv_up_def Let_def split: if_splits)
  have "stream (up_bytes ?l') vs" using us(3) b(2) by (simp add: up_bytes_def)
  moreover have "stream (down_bytes ?l') (ds @ reps)"
    using stream_append [OF l(2) stream_wires [of reps]] sm by (simp add: down_bytes_def list_all_iff small_frame_wire)
  moreover have "\<forall>m \<in> set vs. is_append_or_vote m \<and> message_ok m" "\<forall>m \<in> set (ds @ reps). \<not> is_append_or_vote m"
    using l(3,4) us(1) a by (auto simp: advance_def)
  ultimately have l': "link_ok ?l'" "link_traffic ?l' = mset (map (\<lambda>m. (ln_from ?l, ln_to ?l, m)) vs)
      + mset (map (\<lambda>m. (ln_to ?l, ln_from ?l, m)) (ds @ reps))"
    using link_okI [of ?l' vs "ds @ reps"] by auto
  have "link_traffic ?l' + mset ?used = link_traffic ?l + mset (map (\<lambda>m. (ln_to ?l, ln_from ?l, m)) reps)"
    by (simp add: l'(2) l(5) us(1) ac_simps)
  from proceed_follows [OF sim rs a link_read [OF sim k l'(1) this] p] show ?thesis by blast
qed

lemma recv_down_follows:
  assumes sim: "sim ids sy cl" and st: "system_step env (Recv_down k n clk) sy = Some sy'"
  shows "\<exists>cl'. follows ids sy cl sy' cl'"
proof -
  let ?l = "sy_links sy ! k"
  let ?a = "bytes (ln_down_buf ?l) @ take n (ln_down ?l)" and ?b = "buf_append (env_buf env) (take n (ln_down ?l)) (ln_down_buf ?l)"
  from st have k: "k < length (sy_links sy)" by (auto simp: recv_down_def Let_def split: if_splits)
  then have "link_ok ?l" using sim by (simp add: sim_def)
  then obtain us ds where l: "stream (up_bytes ?l) us" "stream (down_bytes ?l) ds"
    "\<forall>m \<in> set us. is_append_or_vote m \<and> message_ok m" "\<forall>m \<in> set ds. \<not> is_append_or_vote m"
    "link_traffic ?l = mset (map (\<lambda>m. (ln_from ?l, ln_to ?l, m)) us) + mset (map (\<lambda>m. (ln_to ?l, ln_from ?l, m)) ds)"
    by (rule link_okE)
  from l(2) have "stream (?a @ drop n (ln_down ?l)) ds" by (simp add: down_bytes_def)
  from stream_cut [OF this] headers_fit_append [OF stream_fits [OF this]] obtain xs vs where
    ds: "ds = xs @ vs" "fst (frames_of ?a) = map (\<lambda>m. (RAFT_MSG, ser_raft env m)) xs"
      "stream (snd (frames_of ?a) @ drop n (ln_down ?l)) vs" and fit: "headers_fit ?a" by blast
  from st k obtain rs where rs: "sy_procs sy (ln_from ?l) = Some rs"
    by (cases "sy_procs sy (ln_from ?l)") (auto simp: recv_down_def Let_def split: if_splits)
  let ?used = "map (\<lambda>m. (ln_to ?l, ln_from ?l, m)) xs"
  have m: "rs_raft rs = cl_nodes cl (ln_from ?l)" "proc_ok rs" using sim rs by (force simp: sim_def member_sim_def)+
  have "mset ?used \<subseteq># mset (cl_net cl)" by (rule used_in_net [OF sim k]) (simp add: l(5) ds(1))
  moreover have "\<forall>m \<in> set xs. message_ok m \<and> \<not> is_append_or_vote m" using l(4) ds(1) response_ok by simp
  ultimately obtain c' rs' cl' snds where
    f: "fold (\<lambda>(ty, p). peer_frame env clk (ln_to ?l) ty p) (fst (frames_of ?a)) (0, rs) = (c', rs')"
    and a: "advance ids (ln_from ?l) (ln_to ?l) rs cl rs' cl' ?used snds []"
    using peer_messages [OF _ m, of "ln_to ?l" xs clk 0 ids] unfolding ds(2) by blast
  have "bytes ?b = ?a" by (rule net_buffer.append_bytes [OF buffer])
  with net_buffer.frame_loop_frames [OF buffer, of ?b "peer_frame env clk (ln_to ?l)" "(0, rs)"] fit f
  obtain b where b: "onPeerMessage env clk (ln_to ?l) ?b rs = Some (b, (c', rs'), False)"
    "bytes b = snd (frames_of ?a)" by (auto simp: onPeerMessage_def)
  let ?l' = "?l\<lparr>ln_down := drop n (ln_down ?l), ln_down_buf := b\<rparr>"
  from st k rs b(1) have p: "proceed (ln_from ?l) rs rs' (sy\<lparr>sy_links := (sy_links sy)[k := ?l']\<rparr>) = Some sy'"
    by (auto simp: recv_down_def Let_def split: if_splits)
  have "stream (up_bytes ?l') us" "stream (down_bytes ?l') vs"
    using l(1) ds(3) b(2) by (simp_all add: up_bytes_def down_bytes_def)
  moreover have "\<forall>m \<in> set vs. \<not> is_append_or_vote m" using l(4) ds(1) by simp
  ultimately have l': "link_ok ?l'" "link_traffic ?l' = mset (map (\<lambda>m. (ln_from ?l, ln_to ?l, m)) us)
      + mset (map (\<lambda>m. (ln_to ?l, ln_from ?l, m)) vs)"
    using link_okI [of ?l' us vs] l(3) by auto
  have "link_traffic ?l' + mset ?used = link_traffic ?l + mset (map (\<lambda>m. (ln_from ?l, ln_to ?l, m)) [])"
    by (simp add: l'(2) l(5) ds(1) ac_simps)
  from proceed_follows [OF sim rs a link_read [OF sim k l'(1) this] p] show ?thesis by blast
qed

text \<open>What happens to connections and to whole processes leaves the cluster alone, except for a start.\<close>

lemma link_ends [simp]:
  "link_ok (l\<lparr>ln_cli := b\<rparr>) = link_ok l" "link_traffic (l\<lparr>ln_cli := b\<rparr>) = link_traffic l"
  "link_ok (l\<lparr>ln_srv := b\<rparr>) = link_ok l" "link_traffic (l\<lparr>ln_srv := b\<rparr>) = link_traffic l"
  "link_ok (crash_link i l) = link_ok l" "link_traffic (crash_link i l) = link_traffic l"
  by (simp_all add: link_ok_def link_traffic_def up_bytes_def down_bytes_def crash_link_def)

lemma traffic_same:
  "k < length ls \<Longrightarrow> link_traffic l = link_traffic (ls ! k) \<Longrightarrow> traffic (ls[k := l]) = traffic ls"
  using traffic_update [of k ls l] by simp

lemma links_update: "k < length ls \<Longrightarrow> \<forall>l \<in> set ls. link_ok l \<Longrightarrow> link_ok l' \<Longrightarrow> \<forall>l \<in> set (ls[k := l']). link_ok l"
  using set_update_subset_insert [of ls k l'] by auto

lemma peers_raft [simp]:
  "rs_raft (peer_connected j rs) = rs_raft rs" "rs_raft (peer_disconnected j rs) = rs_raft rs"
  "proc_ok (peer_connected j rs) = proc_ok rs" "proc_ok (peer_disconnected j rs) = proc_ok rs"
  by (simp_all add: peer_connected_def peer_disconnected_def proc_ok_def)

lemma new_link_ok [simp]: "link_ok (new_link (env_buf env) i j)" "link_traffic (new_link (env_buf env) i j) = {#}"
proof -
  have "up_bytes (new_link (env_buf env) i j) = []" "down_bytes (new_link (env_buf env) i j) = []"
    using net_buffer.new_bytes [OF buffer] by (simp_all add: new_link_def up_bytes_def down_bytes_def)
  with link_okI [of "new_link (env_buf env) i j" "[]" "[]"]
  show "link_ok (new_link (env_buf env) i j)" "link_traffic (new_link (env_buf env) i j) = {#}" by simp_all
qed

lemma unchanged_follows:
  assumes sim: "sim ids sy cl"
    and p: "\<And>j. sy_procs sy' j = (case sy_procs sy j of None \<Rightarrow> None | Some rs \<Rightarrow> Some (f j rs))"
    and f: "\<And>j rs. rs_raft (f j rs) = rs_raft rs" "\<And>j rs. proc_ok (f j rs) = proc_ok rs"
    and d: "sy_disks sy' = sy_disks sy"
    and l: "\<forall>l \<in> set (sy_links sy'). link_ok l" "traffic (sy_links sy') = traffic (sy_links sy)"
  shows "follows ids sy cl sy' cl"
proof -
  have "member_sim sy' cl j" if "j \<in> set ids" for j
  proof -
    have "member_sim sy cl j" using sim that by (simp add: sim_def)
    then show ?thesis by (cases "sy_procs sy j") (simp_all add: member_sim_def p f d)
  qed
  moreover have "sy_procs sy' j \<noteq> None \<longleftrightarrow> sy_procs sy j \<noteq> None" for j by (simp add: p split: option.split)
  ultimately show ?thesis using sim l by (simp add: follows_def sim_def durable_exec.refl)
qed

lemma crash_follows:
  assumes sim: "sim ids sy cl" and st: "system_step env (Crash i) sy = Some sy'"
  shows "follows ids sy cl sy' cl"
proof -
  obtain rs where rs: "sy_procs sy i = Some rs" and sy': "sy' = sy\<lparr>sy_procs := (sy_procs sy)(i := None),
      sy_disks := (sy_disks sy)(i := rs_db rs), sy_links := map (crash_link i) (sy_links sy)\<rparr>"
    using st by (auto split: option.splits)
  have "member_sim sy' cl j" if "j \<in> set ids" for j
  proof -
    have "member_sim sy cl j" using sim that by (simp add: sim_def)
    then show ?thesis using rs by (cases "j = i"; cases "sy_procs sy j") (auto simp: member_sim_def sy' proc_ok_def)
  qed
  then show ?thesis using sim by (auto simp: follows_def sim_def durable_exec.refl sy' traffic_def comp_def)
qed

lemma connect_follows:
  assumes sim: "sim ids sy cl" and st: "system_step env (Connect i j) sy = Some sy'"
  shows "follows ids sy cl sy' cl"
proof (rule unchanged_follows [OF sim, where f = "\<lambda>k rs. if k = i then peer_connected j rs else rs"])
  from st obtain rs where rs: "sy_procs sy i = Some rs" and sy': "sy' = sy\<lparr>sy_procs := (sy_procs sy)(i := Some (peer_connected j rs)),
      sy_links := new_link (env_buf env) i j # sy_links sy\<rparr>"
    by (auto simp: connect_def split: option.splits if_splits)
  show "sy_procs sy' k = (case sy_procs sy k of None \<Rightarrow> None | Some rs \<Rightarrow> Some (if k = i then peer_connected j rs else rs))" for k
    using rs by (auto simp: sy' split: option.split)
  show "\<forall>l \<in> set (sy_links sy'). link_ok l" "traffic (sy_links sy') = traffic (sy_links sy)" "sy_disks sy' = sy_disks sy"
    using sim by (auto simp: sy' sim_def traffic_def)
qed simp_all

lemma hangup_follows:
  assumes sim: "sim ids sy cl" and st: "system_step env (Hangup k) sy = Some sy'"
  shows "follows ids sy cl sy' cl"
proof (rule unchanged_follows [OF sim, where f = "\<lambda>j rs. if j = ln_from (sy_links sy ! k) then peer_disconnected (ln_to (sy_links sy ! k)) rs else rs"])
  let ?l = "sy_links sy ! k"
  from st obtain rs where k: "k < length (sy_links sy)" and rs: "sy_procs sy (ln_from ?l) = Some rs"
    and sy': "sy' = sy\<lparr>sy_procs := (sy_procs sy)(ln_from ?l := Some (peer_disconnected (ln_to ?l) rs)),
      sy_links := (sy_links sy)[k := ?l\<lparr>ln_cli := False\<rparr>]\<rparr>"
    by (auto simp: Let_def split: option.splits if_splits)
  show "sy_procs sy' j = (case sy_procs sy j of None \<Rightarrow> None
      | Some rs \<Rightarrow> Some (if j = ln_from ?l then peer_disconnected (ln_to ?l) rs else rs))" for j
    using rs by (auto simp: sy' split: option.split)
  have ok: "\<forall>l \<in> set (sy_links sy). link_ok l" using sim by (simp add: sim_def)
  then have "link_ok (?l\<lparr>ln_cli := False\<rparr>)" using k by simp
  from links_update [OF k ok this] show "\<forall>l \<in> set (sy_links sy'). link_ok l" by (simp add: sy')
  show "traffic (sy_links sy') = traffic (sy_links sy)" "sy_disks sy' = sy_disks sy"
    using k by (simp_all add: sy' traffic_same)
qed simp_all

lemma close_follows:
  assumes sim: "sim ids sy cl" and st: "system_step env (Close k) sy = Some sy'"
  shows "follows ids sy cl sy' cl"
proof (rule unchanged_follows [OF sim, where f = "\<lambda>j rs. rs"])
  let ?l = "sy_links sy ! k"
  from st have k: "k < length (sy_links sy)" and sy': "sy' = sy\<lparr>sy_links := (sy_links sy)[k := ?l\<lparr>ln_srv := False\<rparr>]\<rparr>"
    by (auto split: if_splits)
  show "sy_procs sy' j = (case sy_procs sy j of None \<Rightarrow> None | Some rs \<Rightarrow> Some rs)" for j
    by (simp add: sy' split: option.split)
  have ok: "\<forall>l \<in> set (sy_links sy). link_ok l" using sim by (simp add: sim_def)
  then have "link_ok (?l\<lparr>ln_srv := False\<rparr>)" using k by simp
  from links_update [OF k ok this] show "\<forall>l \<in> set (sy_links sy'). link_ok l" by (simp add: sy')
  show "traffic (sy_links sy') = traffic (sy_links sy)" "sy_disks sy' = sy_disks sy"
    using k by (simp_all add: sy' traffic_same)
qed simp_all

text \<open>A start is a restart of the node: it finds the term and the vote of the node in the store.\<close>

lemma on_disk_calls [simp]:
  "engine_get (env_db (on_disk env d)) = engine_get (env_db env)" "engine_scan (env_db (on_disk env d)) = engine_scan (env_db env)"
  "parse_entry (on_disk env d) = parse_entry env" "db_Open (env_db (on_disk env d)) path = (Ok, d)"
  by (simp_all add: on_disk_def engine_get_def engine_scan_def fun_eq_iff)

lemma scan_content: "kv \<in> set (sc_kvs (engine_scan (env_db env) s e limit d)) \<Longrightarrow>
    fst kv \<in> key_range s e \<and> content d (fst kv) = Some (snd kv)"
proof -
  let ?r = "engine_scan (env_db env) s e limit d"
  assume kv: "kv \<in> set (sc_kvs ?r)"
  have ok: "scan_ok (content d) s e limit ?r" by (rule rocksdb.scan_contract [OF store_laws])
  then have "distinct (map fst (sc_kvs ?r))" by (simp add: scan_ok_def strict_sorted_iff)
  with kv map_of_is_SomeI [of "sc_kvs ?r" "fst kv" "snd kv"] have "map_of (sc_kvs ?r) (fst kv) = Some (snd kv)" by simp
  moreover from ok obtain A where "A \<subseteq> key_range s e" "map_of (sc_kvs ?r) = content d |` A"
    unfolding scan_ok_def by (metis (no_types, lifting) inf_le1 subset_refl)
  ultimately show ?thesis by (auto simp: restrict_map_def split: if_splits)
qed

definition recovered_log :: "'db \<Rightarrow> log_entry list" where
  "recovered_log d = List.map_filter (\<lambda>kv. parse_entry env (snd kv)) (sc_kvs (engine_scan (env_db env) logKeyFirst logKeyEnd 100000 d))"

lemma recovered_commands:
  assumes "log_safe d" and "e \<in> set (recovered_log d)"
  shows "command_ok env (le_command e)"
proof -
  from assms(2) obtain kv where "kv \<in> set (sc_kvs (engine_scan (env_db env) logKeyFirst logKeyEnd 100000 d))"
    "parse_entry env (snd kv) = Some e"
    by (auto simp: recovered_log_def List.map_filter_def split: option.splits)
  with scan_content [OF this(1)] assms(1) show ?thesis by (auto simp: log_safe_def)
qed

lemma recover_stored_node:
  assumes st: "stored d n" and t0: "currentTerm n = 0 \<longrightarrow> votedFor n = 0"
    and r: "recoverRaftState (on_disk env d') d (new_node i ps now rnd) = Inr n'"
  shows "n' = loadPersistedState (currentTerm n) (votedFor n) (recovered_log d) (new_node i ps now rnd)"
proof -
  have num: "recover_number (on_disk env d') = recover_number env" by (simp add: recover_number_def fun_eq_iff)
  have "recover_number env termKey d = Inr (currentTerm n)" "recover_number env voteKey d = Inr (votedFor n)"
    using st by (auto simp: stored_def key_is_def recover_number_content stoull_dec_string)
  then have rec: "n' = (if currentTerm n > 0 \<or> recovered_log d \<noteq> []
      then loadPersistedState (currentTerm n) (votedFor n) (recovered_log d) (new_node i ps now rnd) else new_node i ps now rnd)"
    using r by (auto simp: recoverRaftState_def num recovered_log_def Let_def split: if_splits)
  show ?thesis
  proof (cases "currentTerm n > 0 \<or> recovered_log d \<noteq> []")
    case True
    show ?thesis by (rule trans [OF rec if_P [OF True]])
  next
    case False
    then have 0: "currentTerm n = 0" and l: "recovered_log d = []" by (simp_all add: word_gt_0)
    have "n' = new_node i ps now rnd" by (rule trans [OF rec if_not_P [OF False]])
    with 0 l t0 show ?thesis by (simp add: loadPersistedState_def new_node_def)
  qed
qed

lemma start_member_node:
  assumes st: "system_step env (Start i argv order now rnd) sy = Some sy'"
    and main: "node_main argv = Inr (addr, path, Cluster i m, True)"
  shows "sy_procs sy i = None \<and> (\<exists>n rs. recoverRaftState (on_disk env (sy_disks sy i)) (sy_disks sy i)
          (new_node i (filter (\<lambda>j. j \<noteq> i) order) now rnd) = Inr n
      \<and> rs_raft rs = n \<and> rs_db rs = sy_disks sy i \<and> sy' = sy\<lparr>sy_procs := (sy_procs sy)(i := Some rs)\<rparr>)"
proof -
  let ?env = "on_disk env (sy_disks sy i)"
  from st obtain addr' rs timer where none: "sy_procs sy i = None"
    and ns: "node_start ?env argv order now rnd = Inr (addr', Some (Replicated rs), timer)"
    and sy': "sy' = sy\<lparr>sy_procs := (sy_procs sy)(i := Some rs)\<rparr>"
  proof (cases "sy_procs sy i")
    case None
    obtain addr' rs timer where "node_start ?env argv order now rnd = Inr (addr', Some (Replicated rs), timer)"
    proof (cases "node_start ?env argv order now rnd")
      case (Inr x)
      obtain addr' server timer where x: "x = (addr', server, timer)" by (cases x)
      show thesis
      proof (cases server)
        case (Some node)
        with that Inr x st None show thesis by (cases node) (simp_all add: start_member_def)
      qed (use Inr x st None in \<open>simp add: start_member_def\<close>)
    qed (use st None in \<open>simp add: start_member_def\<close>)
    with that None st show thesis by (simp add: start_member_def)
  qed (use st in \<open>simp add: start_member_def\<close>)
  let ?addrs = "map (\<lambda>p. (p, the (m p))) order"
  let ?rs0 = "RaftService i ?addrs (sy_disks sy i) now rnd"
  from ns have "rs_start ?env ?rs0 = Inr rs"
    unfolding node_start_Some [OF main] server_start_Some by (auto simp: DataServer_def)
  moreover have "rs_raft ?rs0 = new_node i (filter (\<lambda>j. j \<noteq> i) order) now rnd" "rs_db ?rs0 = sy_disks sy i"
    by (simp_all add: RaftService_def filter_map comp_def)
  ultimately have "\<exists>n. recoverRaftState ?env (sy_disks sy i) (new_node i (filter (\<lambda>j. j \<noteq> i) order) now rnd) = Inr n
      \<and> rs_raft rs = n \<and> rs_db rs = sy_disks sy i"
    by (auto simp: rs_start_def split: sum.splits)
  with none sy' show ?thesis by blast
qed

lemma start_follows:
  assumes sim: "sim ids sy cl" and ts: "terms_started cl" and cfg: "config_ok ids cl"
    and adm: "admissible env bytes ids (Start i argv order now rnd) sy"
    and st: "system_step env (Start i argv order now rnd) sy = Some sy'"
  shows "\<exists>cl' ps. sy_procs sy i = None \<and> cluster_step ids (Restart i ps (recovered_log (sy_disks sy i)) now rnd) cl = Some cl'
    \<and> sim ids sy' cl' \<and> (\<forall>j. j \<noteq> i \<longrightarrow> cl_nodes cl' j = cl_nodes cl j) \<and> i \<in> set ids"
proof -
  let ?l = "recovered_log (sy_disks sy i)" and ?ps = "filter (\<lambda>j. j \<noteq> i) order"
  from adm obtain addr path m where i: "i \<in> set ids" and o: "distinct order" "set order = set ids"
    and main: "node_main argv = Inr (addr, path, Cluster i m, True)" by auto
  from start_member_node [OF st main] obtain n rs where none: "sy_procs sy i = None"
    and rec: "recoverRaftState (on_disk env (sy_disks sy i)) (sy_disks sy i) (new_node i ?ps now rnd) = Inr n"
    and rs: "rs_raft rs = n" "rs_db rs = sy_disks sy i" and sy': "sy' = sy\<lparr>sy_procs := (sy_procs sy)(i := Some rs)\<rparr>" by blast
  have mem: "stored (sy_disks sy i) (cl_nodes cl i)" "log_safe (sy_disks sy i)"
  proof -
    have "member_sim sy cl i" using sim i by (simp add: sim_def)
    then show "stored (sy_disks sy i) (cl_nodes cl i)" "log_safe (sy_disks sy i)" by (simp_all add: member_sim_def none)
  qed
  have n: "n = loadPersistedState (currentTerm (cl_nodes cl i)) (votedFor (cl_nodes cl i)) ?l (new_node i ?ps now rnd)"
    using recover_stored_node [OF mem(1) _ rec] ts by (simp add: terms_started_def)
  have ps: "peers_ok ids i ?ps" using o by (auto simp: peers_ok_def)
  define cl' where "cl' = set_node i n cl"
  have cs: "cluster_step ids (Restart i ?ps ?l now rnd) cl = Some cl'"
    using i ps cfg by (simp add: cl'_def n config_ok_def Let_def)
  have ok: "proc_ok rs"
    using mem recovered_commands [OF mem(2)] no_command
    by (auto simp: proc_ok_def rs stored_def key_is_def n loadPersistedState_def node_commands_def sentinel_def)
  have "member_sim sy' cl' j" if "j \<in> set ids" for j
  proof -
    have "member_sim sy cl j" using sim that by (simp add: sim_def)
    with ok rs(1) show ?thesis by (cases "j = i"; cases "sy_procs sy j") (auto simp: member_sim_def sy' cl'_def)
  qed
  then have "sim ids sy' cl'" using sim i by (simp add: sim_def sy' cl'_def)
  moreover have "\<forall>j. j \<noteq> i \<longrightarrow> cl_nodes cl' j = cl_nodes cl j" by (simp add: cl'_def)
  ultimately show ?thesis using cs none i by blast
qed

subsection \<open>A process that stops within an event\<close>

lemma event_effects:
  assumes "proc_ok rs" and "input_commands inp \<subseteq> Collect (command_ok env)"
  shows "effects_within (Collect (command_ok env)) (snd (node_step inp (rs_raft rs)))"
proof -
  have "node_commands (rs_raft rs) \<union> input_commands inp \<subseteq> Collect (command_ok env)" using assms by (auto simp: proc_ok_def)
  then show ?thesis using node_step_within [of inp "rs_raft rs"] effects_within_mono by blast
qed

lemma traffic_crash: "(\<forall>l \<in> set ls. link_ok l) \<Longrightarrow> (\<forall>l \<in> set (map (crash_link i) ls). link_ok l) \<and> traffic (map (crash_link i) ls) = traffic ls"
  by (simp add: traffic_def comp_def)

lemma sim_stopped:
  assumes sim: "sim ids sy cl" and n: "\<forall>j. j \<noteq> i \<longrightarrow> cl_nodes cl' j = cl_nodes cl j" and d: "stored d (cl_nodes cl' i)" "log_safe d"
    and ls: "\<forall>l \<in> set ls. link_ok l" "traffic ls \<subseteq># mset (cl_net cl')"
  shows "sim ids (sy\<lparr>sy_procs := (sy_procs sy)(i := None), sy_disks := (sy_disks sy)(i := d), sy_links := map (crash_link i) ls\<rparr>) cl'"
proof -
  have "member_sim (sy\<lparr>sy_procs := (sy_procs sy)(i := None), sy_disks := (sy_disks sy)(i := d), sy_links := map (crash_link i) ls\<rparr>) cl' j"
    if "j \<in> set ids" for j
  proof -
    have "member_sim sy cl j" using sim that by (simp add: sim_def)
    with n d show ?thesis by (cases "j = i") (auto simp: member_sim_def split: option.splits)
  qed
  with sim traffic_crash [OF ls(1)] ls(2) show ?thesis by (simp add: sim_def)
qed

lemma crash_in_reach:
  assumes sim: "sim ids sy cl" and i: "sy_procs sy i = Some rs"
    and a: "advance ids i s rs cl (run_node env (n', effs) rs) cl' used snds reps"
    and e: "persisted_last (rs_raft rs) n' effs" "effects_within (Collect (command_ok env)) effs" "currentTerm (rs_raft rs) \<le> currentTerm n'"
    and ls: "\<forall>l \<in> set ls. link_ok l" "traffic ls + mset used \<subseteq># mset (cl_net cl)"
    and st: "crash_in env i effs c rs (sy\<lparr>sy_links := ls\<rparr>) = Some sy'"
  shows "\<exists>cl'. cluster_reach ids cl cl' \<and> sim ids sy' cl'"
proof -
  let ?rs = "stopped env c effs rs" and ?w = "\<lambda>x. (fst x, wire (snd x))"
  have m: "i \<in> set ids" "rs_raft rs = cl_nodes cl i" "proc_ok rs" using sim i by (force simp: sim_def member_sim_def)+
  have safe: "log_safe (rs_db ?rs)" using m(3) by (intro stopped_log_safe [OF e(2)]) (simp add: proc_ok_def)
  have "rs_out (fold (run_effect env) effs (rs\<lparr>rs_raft := n'\<rparr>)) = rs_out rs @ map ?w snds"
    using a by (simp add: advance_def run_node_def)
  then have full: "rs_out (fold (run_effect env) effs rs) = rs_out rs @ map ?w snds" by (simp add: effects_out)
  obtain o1 where o1: "rs_out ?rs = rs_out rs @ o1" using stopped_out(1) [of rs env c effs] by (auto simp: prefix_def)
  with stopped_out(2) [of env c effs rs] full obtain o2 where "map ?w snds = o1 @ o2" by (auto simp: prefix_def)
  then obtain s1 s2 where s1: "snds = s1 @ s2" "o1 = map ?w s1" by (auto simp: map_eq_append_conv)
  from st have sm: "list_all (\<lambda>o'. small_frame (snd o')) (map ?w s1)"
    and sy': "sy' = sy\<lparr>sy_procs := (sy_procs sy)(i := None), sy_disks := (sy_disks sy)(i := rs_db ?rs),
      sy_links := map (crash_link i) (transmit i (map ?w s1) ls)\<rparr>"
    by (auto simp: crash_in_def o1 s1(2) Let_def split: if_splits)
  have "\<forall>x \<in> set s1. small (snd x) \<and> is_append_or_vote (snd x) \<and> message_ok (snd x)"
    using sm a s1(1) by (auto simp: list_all_iff small_frame_wire advance_def)
  note tr = transmit_ok [OF ls(1) this, of i]
  have quiet: "traffic (transmit i (map ?w s1) ls) \<subseteq># mset (cl_net cl)" if "rs_out ?rs = rs_out rs"
  proof -
    have "s1 = []" using that o1 s1(2) by simp
    then show ?thesis using subset_mset.order_trans [OF mset_subset_eq_add_left ls(2)] by (simp add: transmit_def)
  qed
  from m(3) have st0: "stored (rs_db rs) (rs_raft rs)" by (simp add: proc_ok_def)
  consider (after) "stored (rs_db ?rs) n'" | (before) "stored (rs_db ?rs) (rs_raft rs)" "rs_out ?rs = rs_out rs"
    | (torn) t v where "currentTerm (rs_raft rs) < t" "key_is (rs_db ?rs) termKey t" "key_is (rs_db ?rs) voteKey v" "rs_out ?rs = rs_out rs"
    using stopped_stored [OF e(1,2) st0 e(3), of c] by (auto simp: torn_def)
  then show ?thesis
  proof cases
    case after
    have n: "cl_nodes cl' = (cl_nodes cl)(i := n')" using a by (simp add: advance_def run_node_def)
    have "traffic (transmit i (map ?w s1) ls) \<subseteq># mset (cl_net cl')"
    proof (rule mset_exchange)
      show "traffic (transmit i (map ?w s1) ls) \<subseteq># traffic ls + mset (map (\<lambda>x. (i, fst x, snd x)) snds)"
        using tr by (auto simp: s1(1) intro: subset_mset.order_trans)
      show "traffic ls + mset used \<subseteq># mset (cl_net cl) + mset (map (\<lambda>m. (i, s, m)) reps)"
        using ls(2) by (auto intro: subset_mset.order_trans)
    qed (rule advance_net [OF a])
    with sim_stopped [OF sim _ _ safe, of i cl' "transmit i (map ?w s1) ls"] n after tr have "sim ids sy' cl'" by (simp add: sy')
    moreover have "cluster_reach ids cl cl'" using a durable_exec_reach by (auto simp: advance_def)
    ultimately show ?thesis by blast
  next
    case before
    with sim_stopped [OF sim _ _ safe, of i cl "transmit i (map ?w s1) ls"] m(2) tr quiet have "sim ids sy' cl" by (simp add: sy')
    then show ?thesis using cluster_reach.refl by blast
  next
    case torn
    let ?n = "loadPersistedState t v [] (new_node (nodeId (cl_nodes cl i)) (peerIds (cl_nodes cl i)) 0 0)"
    have "stored (rs_db ?rs) ?n" using torn(2,3) by (simp add: stored_def loadPersistedState_def)
    with sim_stopped [OF sim _ _ safe, of i "set_node i ?n cl" "transmit i (map ?w s1) ls"] tr quiet [OF torn(4)]
    have "sim ids sy' (set_node i ?n cl)" by (simp add: sy')
    moreover have "cluster_step ids (Torn i t v) cl = Some (set_node i ?n cl)" using m torn(1) by (simp add: Let_def)
    ultimately show ?thesis using cluster_reach.step [OF cluster_reach.refl] by blast
  qed
qed

lemma crash_local_reach:
  assumes sim: "sim ids sy cl" and i: "sy_procs sy i = Some rs"
    and inp: "is_local inp" "term_fits inp (rs_raft rs)" "input_commands inp \<subseteq> Collect (command_ok env)" "keeps_log (Local i inp) cl"
    and st: "crash_in env i (snd (node_step inp (rs_raft rs))) c rs sy = Some sy'"
  shows "\<exists>cl'. cluster_reach ids cl cl' \<and> sim ids sy' cl'"
proof -
  have m: "i \<in> set ids" "rs_raft rs = cl_nodes cl i" "proc_ok rs" using sim i by (force simp: sim_def member_sim_def)+
  let ?r = "node_step inp (rs_raft rs)"
  from local_advance [OF m inp] obtain cl' snds where a: "advance ids i 0 rs cl (run_node env (fst ?r, snd ?r) rs) cl' [] snds []"
    unfolding prod.collapse by blast
  have "currentTerm (rs_raft rs) \<le> currentTerm (fst ?r)" by (rule term_mono [OF node_step_vote_order [OF inp(2)]])
  from crash_in_reach [OF sim i a node_step_last event_effects [OF m(3) inp(3)] this, of "sy_links sy"] st sim show ?thesis
    by (simp add: sim_def)
qed

lemma crash_deliver_reach:
  assumes sim: "sim ids sy cl" and i: "sy_procs sy i = Some rs" and x: "(s, i, m) \<in> set (cl_net cl)" and ok: "message_ok m"
    and f: "f = s \<or> is_append_or_vote m"
    and ls: "\<forall>l \<in> set ls. link_ok l" "traffic ls + {#(s, i, m)#} \<subseteq># mset (cl_net cl)"
    and st: "crash_in env i (snd (snd (handleRaftMessage m f now now' rnd (rs_raft rs)))) c rs (sy\<lparr>sy_links := ls\<rparr>) = Some sy'"
  shows "\<exists>cl'. cluster_reach ids cl cl' \<and> sim ids sy' cl'"
proof -
  have m: "i \<in> set ids" "rs_raft rs = cl_nodes cl i" "proc_ok rs" using sim i by (force simp: sim_def member_sim_def)+
  let ?r = "snd (handleRaftMessage m f now now' rnd (rs_raft rs))"
  from deliver_advance [OF x m(2,3) ok f] obtain cl' snds reps where
    a: "advance ids i s rs cl (run_node env (fst ?r, snd ?r) rs) cl' [(s, i, m)] snds reps"
    unfolding prod.collapse by blast
  have le: "currentTerm (rs_raft rs) \<le> currentTerm (fst ?r)" by (rule term_mono [OF message_vote_order])
  consider (none) "?r = (rs_raft rs, [])"
    | (some) inp where "?r = node_step inp (rs_raft rs)" "input_commands inp \<subseteq> Collect (command_ok env)"
    using handleRaftMessage_step [of m f now now' rnd "rs_raft rs"] message_input_ok [OF ok]
    by (auto split: option.splits)
  then have "persisted_last (rs_raft rs) (fst ?r) (snd ?r) \<and> effects_within (Collect (command_ok env)) (snd ?r)"
    by cases (simp_all add: persisted_last_same node_step_last event_effects [OF m(3)])
  with le show ?thesis using crash_in_reach [OF sim i a _ _ _ ls(1) _ st] ls(2) by simp
qed

lemma first_in_stream:
  assumes s: "stream (bytes b @ r) us" and f: "first_message env b = Some m"
  shows "\<exists>vs. us = m # vs"
proof -
  from f obtain p b' where nf: "next_frame (env_buf env) b = Frame RAFT_MSG p b'" and p: "parse_raft env p = Some m"
    by (auto simp: first_message_def split: frame_result.splits if_splits)
  from stream_cut [OF s] obtain xs vs where us: "us = xs @ vs" and xs: "fst (frames_of (bytes b)) = map (\<lambda>m. (RAFT_MSG, ser_raft env m)) xs"
    by blast
  have "headers_fit (bytes b)" using headers_fit_append [OF stream_fits [OF s]] by blast
  then have fit: "header_fits (bytes b)" by (subst (asm) headers_fit.simps) simp
  with nf net_buffer.next_frame_none [OF buffer] obtain ty q rest where sf: "split_frame (bytes b) = Some (ty, q, rest)"
    by (cases "split_frame (bytes b)") auto
  with net_buffer.next_frame_some [OF buffer fit] nf have "ty = RAFT_MSG" "q = p" by auto
  with sf have "fst (frames_of (bytes b)) = (RAFT_MSG, p) # fst (frames_of rest)"
    by (subst frames_of.simps) (simp add: case_prod_unfold)
  with xs obtain m' ys where "xs = m' # ys" "p = ser_raft env m'" by (cases xs) auto
  with p us wire_format.parse_ser [OF raft_wire, of m'] show ?thesis by simp
qed

lemma traffic_drop:
  assumes "k < length ls" and "link_traffic l + U \<subseteq># link_traffic (ls ! k)"
  shows "traffic (ls[k := l]) + U \<subseteq># traffic ls"
proof -
  have "traffic (ls[k := l]) + U + link_traffic (ls ! k) = traffic ls + (link_traffic l + U)"
    using traffic_update [OF assms(1), of l] by (simp add: ac_simps)
  also have "\<dots> \<subseteq># traffic ls + link_traffic (ls ! k)" using assms(2) by (rule subset_mset.add_left_mono)
  finally show ?thesis by simp
qed

lemma crash_up_reach:
  assumes sim: "sim ids sy cl" and st: "system_step env (Crash_up k n now now' rnd c) sy = Some sy'"
  shows "\<exists>cl'. cluster_reach ids cl cl' \<and> sim ids sy' cl'"
proof -
  let ?l = "sy_links sy ! k"
  let ?b = "buf_append (env_buf env) (take n (ln_up ?l)) (ln_up_buf ?l)"
  let ?l' = "?l\<lparr>ln_srv := False, ln_up := [], ln_up_buf := buf_new (env_buf env)\<rparr>"
  from st obtain rs m where k: "k < length (sy_links sy)" and rs: "sy_procs sy (ln_to ?l) = Some rs" and m: "first_message env ?b = Some m"
    and c: "crash_in env (ln_to ?l) (snd (snd (handleRaftMessage m (request_sender m) now now' rnd (rs_raft rs)))) c rs
      (sy\<lparr>sy_links := (sy_links sy)[k := ?l']\<rparr>) = Some sy'"
    by (auto simp: crash_up_def Let_def split: option.splits if_splits)
  have all: "\<forall>l \<in> set (sy_links sy). link_ok l" using sim by (simp add: sim_def)
  then have "link_ok ?l" using k by simp
  then obtain us ds where l: "stream (up_bytes ?l) us" "stream (down_bytes ?l) ds"
    "\<forall>m \<in> set us. is_append_or_vote m \<and> message_ok m" "\<forall>m \<in> set ds. \<not> is_append_or_vote m"
    "link_traffic ?l = mset (map (\<lambda>m. (ln_from ?l, ln_to ?l, m)) us) + mset (map (\<lambda>m. (ln_to ?l, ln_from ?l, m)) ds)"
    by (rule link_okE)
  have "bytes ?b @ drop n (ln_up ?l) = up_bytes ?l" by (simp add: up_bytes_def net_buffer.append_bytes [OF buffer])
  then obtain vs where us: "us = m # vs" using first_in_stream [OF _ m] l(1) by metis
  have l': "link_ok ?l'" "link_traffic ?l' = mset (map (\<lambda>m. (ln_to ?l, ln_from ?l, m)) ds)"
    using link_okI [of ?l' "[]" ds] l(2,4) net_buffer.new_bytes [OF buffer] by (simp_all add: up_bytes_def down_bytes_def)
  let ?U = "{#(ln_from ?l, ln_to ?l, m)#}"
  have sub: "link_traffic ?l' + ?U \<subseteq># link_traffic ?l" unfolding l'(2) l(5) us by simp
  have "traffic ((sy_links sy)[k := ?l']) + ?U \<subseteq># mset (cl_net cl)"
    using traffic_drop [OF k sub] sim by (auto simp: sim_def intro: subset_mset.order_trans)
  moreover have "(ln_from ?l, ln_to ?l, m) \<in> set (cl_net cl)"
    using used_in_net [OF sim k, of ?U] l(5) us by simp
  moreover have "message_ok m" "is_append_or_vote m" using l(3) us by simp_all
  ultimately show ?thesis using crash_deliver_reach [OF sim rs _ _ _ links_update [OF k all l'(1)] _ c] by blast
qed

lemma crash_down_reach:
  assumes sim: "sim ids sy cl" and st: "system_step env (Crash_down k n now now' rnd c) sy = Some sy'"
  shows "\<exists>cl'. cluster_reach ids cl cl' \<and> sim ids sy' cl'"
proof -
  let ?l = "sy_links sy ! k"
  let ?b = "buf_append (env_buf env) (take n (ln_down ?l)) (ln_down_buf ?l)"
  let ?l' = "?l\<lparr>ln_cli := False, ln_down := [], ln_down_buf := buf_new (env_buf env)\<rparr>"
  from st obtain rs m where k: "k < length (sy_links sy)" and rs: "sy_procs sy (ln_from ?l) = Some rs" and m: "first_message env ?b = Some m"
    and c: "crash_in env (ln_from ?l) (snd (snd (handleRaftMessage m (ln_to ?l) now now' rnd (rs_raft rs)))) c rs
      (sy\<lparr>sy_links := (sy_links sy)[k := ?l']\<rparr>) = Some sy'"
    by (auto simp: crash_down_def Let_def split: option.splits if_splits)
  have all: "\<forall>l \<in> set (sy_links sy). link_ok l" using sim by (simp add: sim_def)
  then have "link_ok ?l" using k by simp
  then obtain us ds where l: "stream (up_bytes ?l) us" "stream (down_bytes ?l) ds"
    "\<forall>m \<in> set us. is_append_or_vote m \<and> message_ok m" "\<forall>m \<in> set ds. \<not> is_append_or_vote m"
    "link_traffic ?l = mset (map (\<lambda>m. (ln_from ?l, ln_to ?l, m)) us) + mset (map (\<lambda>m. (ln_to ?l, ln_from ?l, m)) ds)"
    by (rule link_okE)
  have "bytes ?b @ drop n (ln_down ?l) = down_bytes ?l" by (simp add: down_bytes_def net_buffer.append_bytes [OF buffer])
  then obtain vs where ds: "ds = m # vs" using first_in_stream [OF _ m] l(2) by metis
  have l': "link_ok ?l'" "link_traffic ?l' = mset (map (\<lambda>m. (ln_from ?l, ln_to ?l, m)) us)"
    using link_okI [of ?l' us "[]"] l(1,3) net_buffer.new_bytes [OF buffer] by (simp_all add: up_bytes_def down_bytes_def)
  let ?U = "{#(ln_to ?l, ln_from ?l, m)#}"
  have sub: "link_traffic ?l' + ?U \<subseteq># link_traffic ?l" unfolding l'(2) l(5) ds by simp
  have "traffic ((sy_links sy)[k := ?l']) + ?U \<subseteq># mset (cl_net cl)"
    using traffic_drop [OF k sub] sim by (auto simp: sim_def intro: subset_mset.order_trans)
  moreover have "(ln_to ?l, ln_from ?l, m) \<in> set (cl_net cl)"
    using used_in_net [OF sim k, of ?U] l(5) ds by simp
  moreover have "message_ok m" using l(4) ds response_ok by simp
  ultimately show ?thesis using crash_deliver_reach [OF sim rs _ _ _ links_update [OF k all l'(1)] _ c] by blast
qed

lemma crash_within_reach:
  assumes sim: "sim ids sy cl" and adm: "admissible env bytes ids e sy" and st: "system_step env e sy = Some sy'"
    and e: "(\<exists>i now now' rnd c. e = Crash_timer i now now' rnd c) \<or> (\<exists>i cmd c. e = Crash_write i cmd c)
      \<or> (\<exists>k n now now' rnd c. e = Crash_up k n now now' rnd c \<or> e = Crash_down k n now now' rnd c)"
  shows "\<exists>cl'. cluster_reach ids cl cl' \<and> sim ids sy' cl'"
  using e
proof (elim disjE exE)
  fix i now now' rnd c assume e: "e = Crash_timer i now now' rnd c"
  from st e obtain rs where rs: "sy_procs sy i = Some rs"
    "crash_in env i (snd (node_step (Tick now now' rnd) (rs_raft rs))) c rs sy = Some sy'" by (auto split: option.splits)
  with adm e show ?thesis by (intro crash_local_reach [OF sim rs(1) _ _ _ _ rs(2)]) auto
next
  fix i cmd c assume e: "e = Crash_write i cmd c"
  from st e obtain rs where rs: "sy_procs sy i = Some rs"
    "crash_in env i (snd (node_step (Propose cmd) (rs_raft rs))) c rs sy = Some sy'" by (auto simp: case_prod_unfold split: option.splits)
  have "rs_raft rs = cl_nodes cl i" using sim rs(1) by (force simp: sim_def member_sim_def)
  with adm e rs(1) show ?thesis by (intro crash_local_reach [OF sim rs(1) _ _ _ _ rs(2)]) auto
qed (use st crash_up_reach [OF sim] crash_down_reach [OF sim] in blast)+

end

end
