(* ===== verification/System_Exec.thy ===== *)
theory System_Exec
  imports Raft_System
begin

text \<open>
  The executions of the system of processes: every one of them, with members that stop and start again, is
  simulated by the cluster, and the executions in which no process stops are simulated by executions of the
  cluster that lose nothing. The properties of the cluster follow for the programs.
\<close>

subsection \<open>Every execution is simulated\<close>

text \<open>In these executions no process stops.\<close>

fun stops :: "'b system_event \<Rightarrow> bool" where
  "stops (Crash i) = True"
| "stops (Crash_timer i now now' rnd c) = True"
| "stops (Crash_write i cmd c) = True"
| "stops (Crash_up k n now now' rnd c) = True"
| "stops (Crash_down k n now now' rnd c) = True"
| "stops e = False"

inductive system_exec ::
  "('db, 'b) raft_env \<Rightarrow> ('b \<Rightarrow> string) \<Rightarrow> uint64 list \<Rightarrow> ('db, 'b) system \<Rightarrow> ('db, 'b) system \<Rightarrow> bool"
  for env bytes ids where
  begin_exec: "system_exec env bytes ids sy sy"
| next_exec: "system_exec env bytes ids sy sy' \<Longrightarrow> admissible env bytes ids e sy' \<Longrightarrow> \<not> stops e
    \<Longrightarrow> system_step env e sy' = Some sy'' \<Longrightarrow> system_exec env bytes ids sy sy''"

lemma proceed_disks: "proceed i rs rs' sy = Some sy' \<Longrightarrow> sy_disks sy' = sy_disks sy"
  by (auto simp: proceed_def Let_def split: if_splits)

lemma steps_keep_disks: "system_step env e sy = Some sy' \<Longrightarrow> \<not> stops e \<Longrightarrow> sy_disks sy' = sy_disks sy"
  by (cases e) (auto simp: start_member_def connect_def recv_up_def recv_down_def Let_def
      dest!: proceed_disks split: option.splits sum.splits prod.splits kv_node.splits if_splits)

lemma steps_keep_running:
  "system_step env e sy = Some sy' \<Longrightarrow> \<not> stops e \<Longrightarrow> sy_procs sy j \<noteq> None \<Longrightarrow> sy_procs sy' j \<noteq> None"
  by (cases e) (auto simp: start_member_def connect_def recv_up_def recv_down_def proceed_def Let_def
      split: option.splits sum.splits prod.splits kv_node.splits if_splits)

context raft_system
begin

text \<open>The cluster may be in such a state when the system is in its own.\<close>

definition simulated :: "uint64 list \<Rightarrow> ('db, 'b) system \<Rightarrow> cluster \<Rightarrow> bool" where
  "simulated ids sy cl \<longleftrightarrow> sim ids sy cl \<and> cluster_inv ids cl \<and> terms_started cl"

text \<open>A member that is down in an execution without stops has not been started yet.\<close>

definition untouched :: "uint64 list \<Rightarrow> ('db, 'b) system \<Rightarrow> cluster \<Rightarrow> bool" where
  "untouched ids sy cl \<longleftrightarrow> (\<forall>i \<in> set ids. sy_procs sy i = None \<longrightarrow>
     raftLog (cl_nodes cl i) = [sentinel] \<and> recovered_log (sy_disks sy i) = [])"

lemma event_follows:
  assumes sim: "sim ids sy cl" and adm: "admissible env bytes ids e sy" and st: "system_step env e sy = Some sy'"
    and e: "\<forall>i argv order now rnd. e \<noteq> Start i argv order now rnd" "\<not> stops e"
  shows "\<exists>cl'. follows ids sy cl sy' cl'"
proof (cases e)
  case (Connect i j) with connect_follows [OF sim] st show ?thesis by blast
next
  case (Hangup k) with hangup_follows [OF sim] st show ?thesis by blast
next
  case (Close k) with close_follows [OF sim] st show ?thesis by blast
next
  case (Timer i now now' rnd) with timer_follows [OF sim] adm st show ?thesis by blast
next
  case (Client i clk buf) with client_follows [OF sim] adm st show ?thesis by blast
next
  case (Recv_up k n clk) with recv_up_follows [OF sim] st show ?thesis by blast
next
  case (Recv_down k n clk) with recv_down_follows [OF sim] st show ?thesis by blast
qed (use e in simp_all)

lemma stop_simulated:
  assumes sim: "sim ids sy cl" and adm: "admissible env bytes ids e sy" and st: "system_step env e sy = Some sy'" and e: "stops e"
  shows "\<exists>cl'. cluster_reach ids cl cl' \<and> sim ids sy' cl'"
proof (cases "\<exists>i. e = Crash i")
  case True
  then obtain i where "e = Crash i" by blast
  with crash_follows [OF sim] st show ?thesis using durable_exec_reach unfolding follows_def by blast
next
  case False
  with e have "(\<exists>i now now' rnd c. e = Crash_timer i now now' rnd c) \<or> (\<exists>i cmd c. e = Crash_write i cmd c)
      \<or> (\<exists>k n now now' rnd c. e = Crash_up k n now now' rnd c \<or> e = Crash_down k n now now' rnd c)"
    by (cases e) auto
  then show ?thesis by (rule crash_within_reach [OF sim adm st])
qed

lemma event_simulated:
  assumes s: "simulated ids sy cl" and ids: "valid_ids ids"
    and adm: "admissible env bytes ids e sy" and st: "system_step env e sy = Some sy'"
  shows "\<exists>cl'. cluster_reach ids cl cl' \<and> simulated ids sy' cl'
     \<and> (\<not> stops e \<longrightarrow> untouched ids sy cl \<longrightarrow> durable_exec ids cl cl' \<and> untouched ids sy' cl')"
proof -
  note s' = s [unfolded simulated_def]
  have keep: "untouched ids sy' cl'" if u: "untouched ids sy cl" and e: "\<not> stops e"
    and n: "\<forall>j. sy_procs sy j = None \<longrightarrow> sy_procs sy' j = None \<longrightarrow> cl_nodes cl' j = cl_nodes cl j" for cl'
    using u n steps_keep_running [OF st e] unfolding untouched_def steps_keep_disks [OF st e] by metis
  have closed: "simulated ids sy' cl'" if "cluster_reach ids cl cl'" "sim ids sy' cl'" for cl'
    using that s' cluster_reach_inv [OF that(1) _ ids] reach_terms_started [OF that(1)] by (simp add: simulated_def)
  show ?thesis
  proof (cases "\<exists>i argv order now rnd. e = Start i argv order now rnd")
    case True
    then obtain i argv order now rnd where e: "e = Start i argv order now rnd" by blast
    have "config_ok ids cl" using s' by (simp add: cluster_inv_def)
    from start_follows [OF _ _ this adm [unfolded e] st [unfolded e]] s' obtain cl' ps where
      none: "sy_procs sy i = None" and i: "i \<in> set ids" and sim': "sim ids sy' cl'"
      and cs: "cluster_step ids (Restart i ps (recovered_log (sy_disks sy i)) now rnd) cl = Some cl'"
      and rest: "\<forall>j. j \<noteq> i \<longrightarrow> cl_nodes cl' j = cl_nodes cl j" by blast
    have r: "cluster_reach ids cl cl'" by (rule cluster_reach.step [OF cluster_reach.refl cs])
    have run: "sy_procs sy' i \<noteq> None"
      using st none by (auto simp: e start_member_def split: sum.splits prod.splits option.splits kv_node.splits)
    have "durable_exec ids cl cl' \<and> untouched ids sy' cl'" if u: "untouched ids sy cl"
    proof
      have "keeps_log (Restart i ps (recovered_log (sy_disks sy i)) now rnd) cl"
        using u i none by (simp add: untouched_def)
      from durable_exec.step [OF durable_exec.refl this cs] show "durable_exec ids cl cl'" .
      have "\<forall>j. sy_procs sy j = None \<longrightarrow> sy_procs sy' j = None \<longrightarrow> cl_nodes cl' j = cl_nodes cl j" using rest run by metis
      with keep [OF u] e show "untouched ids sy' cl'" by simp
    qed
    with r closed [OF r sim'] show ?thesis by blast
  next
    case start: False
    show ?thesis
    proof (cases "stops e")
      case True
      with stop_simulated [OF _ adm st] s' closed show ?thesis by blast
    next
      case False
    with start obtain cl' where f: "durable_exec ids cl cl'" "sim ids sy' cl'" "\<forall>j. sy_procs sy j = None \<longrightarrow> cl_nodes cl' j = cl_nodes cl j"
      using event_follows [OF _ adm st] s' unfolding follows_def by blast
    from durable_exec_reach [OF f(1)] closed [OF _ f(2)] keep [of cl'] f show ?thesis by blast
    qed
  qed
qed

lemma init_simulated:
  assumes ids: "valid_ids ids" and fresh: "\<forall>i \<in> set ids. fresh_disk content (disks i)"
  shows "simulated ids (init_system disks) (init_cluster ids rnds)"
    and "untouched ids (init_system disks) (init_cluster ids rnds)"
proof -
  have empty: "content (disks i) k = None" if "i \<in> set ids" "k \<in> key_range logKeyFirst logKeyEnd" for i k
  proof -
    have "(content (disks i) |` key_range logKeyFirst logKeyEnd) k = None"
      using fresh that(1) unfolding fresh_disk_def by metis
    with that(2) show ?thesis by simp
  qed
  have "member_sim (init_system disks) (init_cluster ids rnds) i" if "i \<in> set ids" for i
    using fresh that empty [OF that]
    by (auto simp: member_sim_def init_system_def stored_def key_is_def log_safe_def fresh_disk_def init_cluster_def new_node_def)
  then show "simulated ids (init_system disks) (init_cluster ids rnds)"
    by (simp add: simulated_def sim_def init_cluster_inv [OF ids] init_terms_started) (simp add: init_system_def traffic_def)
  have "sc_kvs (engine_scan (env_db env) logKeyFirst logKeyEnd 100000 (disks i)) = []" if "i \<in> set ids" for i
  proof (rule ccontr)
    assume "sc_kvs (engine_scan (env_db env) logKeyFirst logKeyEnd 100000 (disks i)) \<noteq> []"
    from scan_content [OF hd_in_set [OF this]] empty [OF that] show False by auto
  qed
  then show "untouched ids (init_system disks) (init_cluster ids rnds)"
    by (simp add: untouched_def init_system_def init_cluster_def new_node_def recovered_log_def List.map_filter_def)
qed

lemma reach_simulated:
  assumes "system_reach env bytes ids sy sy'" and "simulated ids sy cl" and "valid_ids ids"
  shows "\<exists>cl'. cluster_reach ids cl cl' \<and> simulated ids sy' cl'"
  using assms
proof (induction rule: system_reach.induct)
  case (refl sy)
  then show ?case using cluster_reach.refl by blast
next
  case (step sy sy1 e sy2)
  then obtain cl1 where "cluster_reach ids cl cl1" "simulated ids sy1 cl1" by blast
  with event_simulated [OF _ step.prems(2) step.hyps(2,3)] show ?case by (meson cluster_reach_trans)
qed

lemma exec_simulated:
  assumes "system_exec env bytes ids sy sy'" and "simulated ids sy cl" and "untouched ids sy cl" and "valid_ids ids"
  shows "\<exists>cl'. durable_exec ids cl cl' \<and> simulated ids sy' cl' \<and> untouched ids sy' cl'"
  using assms
proof (induction rule: system_exec.induct)
  case (begin_exec sy)
  then show ?case using durable_exec.refl by blast
next
  case (next_exec sy sy1 e sy2)
  then obtain cl1 where "durable_exec ids cl cl1" "simulated ids sy1 cl1" "untouched ids sy1 cl1" by blast
  with event_simulated [OF _ next_exec.prems(3) next_exec.hyps(2,4)] next_exec.hyps(3) show ?case
    by (meson durable_exec_trans)
qed

lemma running_node: "simulated ids sy cl \<Longrightarrow> sy_procs sy i = Some rs \<Longrightarrow> i \<in> set ids \<and> rs_raft rs = cl_nodes cl i"
  by (force simp: simulated_def sim_def member_sim_def)

lemma stopped_node:
  "simulated ids sy cl \<Longrightarrow> i \<in> set ids \<Longrightarrow> sy_procs sy i = None \<Longrightarrow> stored (sy_disks sy i) (cl_nodes cl i)"
  by (force simp: simulated_def sim_def member_sim_def)

lemma request_sent:
  assumes "link_ok l" and "f \<in> set (fst (frames_of (bytes (ln_up_buf l) @ ln_up l)))"
  shows "\<exists>m. f = (RAFT_MSG, ser_raft env m) \<and> (ln_from l, ln_to l, m) \<in># link_traffic l"
proof -
  from assms(1) obtain us where us: "stream (up_bytes l) us" "us = decode (up_bytes l)" by (simp add: link_ok_def)
  from assms(2) stream_frames [OF us(1)] us(2) show ?thesis by (auto simp: up_bytes_def link_traffic_def)
qed

lemma response_sent:
  assumes "link_ok l" and "f \<in> set (fst (frames_of (bytes (ln_down_buf l) @ ln_down l)))"
  shows "\<exists>m. f = (RAFT_MSG, ser_raft env m) \<and> (ln_to l, ln_from l, m) \<in># link_traffic l"
proof -
  from assms(1) obtain ds where ds: "stream (down_bytes l) ds" "ds = decode (down_bytes l)" by (simp add: link_ok_def)
  from assms(2) stream_frames [OF ds(1)] ds(2) show ?thesis by (auto simp: down_bytes_def link_traffic_def)
qed

lemma link_messages:
  assumes "simulated ids sy cl" and "l \<in> set (sy_links sy)"
  shows "f \<in> set (fst (frames_of (bytes (ln_up_buf l) @ ln_up l))) \<Longrightarrow>
      \<exists>m. f = (RAFT_MSG, ser_raft env m) \<and> (ln_from l, ln_to l, m) \<in> set (cl_net cl)"
    and "f \<in> set (fst (frames_of (bytes (ln_down_buf l) @ ln_down l))) \<Longrightarrow>
      \<exists>m. f = (RAFT_MSG, ser_raft env m) \<and> (ln_to l, ln_from l, m) \<in> set (cl_net cl)"
proof -
  from assms have "link_ok l" "traffic (sy_links sy) \<subseteq># mset (cl_net cl)" by (simp_all add: simulated_def sim_def)
  moreover have "x \<in> set (cl_net cl)" if "x \<in># link_traffic l" for x
    using that traffic_member [OF assms(2)] calculation(2) by (meson mset_subset_eqD set_mset_mset subset_mset.order_trans in_multiset_in_set)
  ultimately show "f \<in> set (fst (frames_of (bytes (ln_up_buf l) @ ln_up l))) \<Longrightarrow>
      \<exists>m. f = (RAFT_MSG, ser_raft env m) \<and> (ln_from l, ln_to l, m) \<in> set (cl_net cl)"
    and "f \<in> set (fst (frames_of (bytes (ln_down_buf l) @ ln_down l))) \<Longrightarrow>
      \<exists>m. f = (RAFT_MSG, ser_raft env m) \<and> (ln_to l, ln_from l, m) \<in> set (cl_net cl)"
    by (meson request_sent response_sent)+
qed

end

end
