(* ===== verification/System_Props.thy ===== *)
theory System_Props
  imports System_Exec
begin

text \<open>
  What the programs of a cluster do as a whole: the refinement of the cluster of nodes, election safety in
  spite of stops within events and restarts, and leader completeness in the absence of stops; and a concrete run of two of
  three members from their command lines, in which one is elected and replicates the put of a client.
\<close>

subsection \<open>A run of three members\<close>

interpretation ref_members: raft_system ref_env map_of "\<lambda>b. b"
proof (intro raft_system.intro raft_system_axioms.intro ref_store.raft_store_axioms ref_env_wires)
  show "wire_format (ser_raft ref_env) (parse_raft ref_env)"
    by (simp add: ref_env_def raft_message_code.wire_format_axioms)
  show "command_ok ref_env []" by code_simp
qed

definition member_args :: "uint64 \<Rightarrow> string list" where
  "member_args i = [''h'', ''9'', ''db'', dec_string (unat i), ''1:h:11'', ''2:h:12'', ''3:h:13'']"

definition member_table :: "(uint64 \<times> string) list" where
  "member_table = [(1, ''h:11''), (2, ''h:12''), (3, ''h:13'')]"

lemma member_main:
  assumes "i \<in> {1, 2, 3}"
  shows "node_main (member_args i) = Inr ((''h'', 9), ''db'', Cluster i (map_of member_table), True)"
proof -
  have t: "[1 \<mapsto> ''h:11'', 2 \<mapsto> ''h:12'', 3 \<mapsto> ''h:13''] = map_of member_table"
    by (auto simp: member_table_def)
  have d: "dec_string (unat (1::uint64)) = ''1''" "dec_string (unat (2::uint64)) = ''2''" "dec_string (unat (3::uint64)) = ''3''"
    by code_simp+
  have n: "stoull ''1'' = Inr 1" "stoull ''2'' = Inr 2" "stoull ''3'' = Inr 3"
    using stoull_dec_string [of 1] stoull_dec_string [of 2] stoull_dec_string [of 3] unfolding d by blast+
  have o: "stoi ''9'' = Inr 9" by code_simp
  have p: "str_find (CHR '':'') ''1:h:11'' = Some 1" "str_find (CHR '':'') ''2:h:12'' = Some 1" "str_find (CHR '':'') ''3:h:13'' = Some 1"
    by code_simp+
  have r: "read_peers [''1:h:11'', ''2:h:12'', ''3:h:13''] Map.empty = Inr (map_of member_table)"
    by (simp add: p n t)
  have "i \<noteq> 0" "\<exists>a. map_of member_table i = Some a" using assms by (auto simp: member_table_def)
  moreover have "map_of member_table \<noteq> Map.empty" "to_uint16 9 = 9" by (auto simp: member_table_def) code_simp
  ultimately show ?thesis
    by (auto simp: node_main_def read_node_args_def member_args_def stoull_dec_string o r Let_def add_self_def node_mode_def
        default_args_def word_gt_0 simp del: read_peers.simps)
qed

definition fresh_member :: "uint64 \<Rightarrow> (string \<times> string) list raft_service" where
  "fresh_member i = RaftService i member_table [] 0 150"

definition members_up :: "uint64 list \<Rightarrow> ((string \<times> string) list, string) system" where
  "members_up is = (init_system (\<lambda>_. []))\<lparr>sy_procs := (\<lambda>i. if i \<in> set is then Some (fresh_member i) else None)\<rparr>"

lemma member_starts:
  assumes "i \<in> {1, 2, 3}" and "i \<notin> set is"
  shows "system_step ref_env (Start i (member_args i) three 0 150) (members_up is) = Some (members_up (i # is))"
    and "admissible ref_env (\<lambda>b. b) three (Start i (member_args i) three 0 150) (members_up is)"
proof -
  have "\<forall>i \<in> {1, 2, 3}. rs_start (on_disk ref_env []) (fresh_member i) = Inr (fresh_member i)" by code_simp
  then have "rs_start (on_disk ref_env []) (fresh_member i) = Inr (fresh_member i)" using assms(1) by blast
  moreover have "map (\<lambda>p. (p, the (map_of member_table p))) three = member_table" by code_simp
  ultimately have "node_start (on_disk ref_env []) (member_args i) three 0 150 = Inr ((''h'', 9), Some (Replicated (fresh_member i)), True)"
    using assms(1) unfolding node_start_Some [OF member_main [OF assms(1)]] server_start_Some
    by (simp add: DataServer_def fresh_member_def)
  with assms(2) show "system_step ref_env (Start i (member_args i) three 0 150) (members_up is) = Some (members_up (i # is))"
    by (auto simp: start_member_def members_up_def init_system_def fun_eq_iff)
  show "admissible ref_env (\<lambda>b. b) three (Start i (member_args i) three 0 150) (members_up is)"
    using member_main [OF assms(1)] assms(1) by (auto simp: three_def member_table_def)
qed

text \<open>
  Member 2 connects to member 1 and stands for election, gets the vote of member 1, is elected, and takes the
  put of a client, which its next message replicates.
\<close>

definition put_frame :: string where
  "put_frame = frame_bytes list_buffer CLIENT_MSG (ser_rpc ref_env (put_msg ''k'' ''v''))"

definition clock :: "nat \<Rightarrow> int \<times> int \<times> int" where
  "clock k = (ms 200, ms 200, 150)"

definition elect_two :: "string system_event list" where
  "elect_two = [Connect 2 1, Timer 2 (ms 200) (ms 200) 150, Recv_up 0 1000 clock, Recv_down 0 1000 clock]"

definition replicate_put :: "string system_event list" where
  "replicate_put = elect_two @ [Client 2 clock put_frame, Recv_up 0 1000 clock]"

text \<open>What makes these events admissible, in a form that is evaluated along the run.\<close>

fun routine :: "string system_event \<Rightarrow> ((string \<times> string) list, string) system \<Rightarrow> bool" where
  "routine (Timer i now now' rnd) sy = (case sy_procs sy i of None \<Rightarrow> True | Some rs \<Rightarrow> currentTerm (rs_raft rs) \<noteq> - 1)"
| "routine (Client i clk buf) sy = (buf = put_frame
     \<and> (case sy_procs sy i of None \<Rightarrow> True | Some rs \<Rightarrow> length (raftLog (rs_raft rs)) < 5))"
| "routine (Connect i j) sy = True"
| "routine (Recv_up k n clk) sy = True"
| "routine (Recv_down k n clk) sy = True"
| "routine e sy = False"

fun routine_run :: "string system_event list \<Rightarrow> ((string \<times> string) list, string) system
    \<Rightarrow> ((string \<times> string) list, string) system option" where
  "routine_run [] sy = Some sy"
| "routine_run (e # es) sy = (if routine e sy
     then (case system_step ref_env e sy of None \<Rightarrow> None | Some sy' \<Rightarrow> routine_run es sy') else None)"

lemma put_frame_ok:
  "headers_fit put_frame" "list_all (client_frame ref_env) (fst (frames_of put_frame))" "length (fst (frames_of put_frame)) = 1"
proof -
  let ?f = "(CLIENT_MSG, ser_rpc ref_env (put_msg ''k'' ''v''))"
  have "length (ser_rpc ref_env (put_msg ''k'' ''v'')) < 100" by code_simp
  then have l: "length (snd ?f) < 2 ^ 32 - 5" "length (snd ?f) < 2 ^ 32" by simp_all
  have p: "put_frame = encode_frame ?f @ []"
    using net_buffer.frame_bytes_encode [OF ref_env_wires(1)] by (simp add: put_frame_def ref_env_def)
  have e: "frames_of [] = ([], [])" by (subst frames_of.simps) (simp add: split_frame_def)
  have fs: "frames_of put_frame = ([?f], [])" unfolding p using frames_of_encode [OF l(2), of "[]"] by (simp add: e)
  show "headers_fit put_frame" unfolding p using headers_fit_concat [of "[?f]" "[]"] l(1) by (simp add: headers_fit_short)
  have "command_ok ref_env (ser_rpc ref_env (put_msg ''k'' ''v''))"
    by (simp add: command_ok_def wire_format.parse_ser [OF ref_env_wires(2)], code_simp)
  moreover have "CLIENT_MSG \<noteq> RAFT_MSG" by code_simp
  ultimately show "list_all (client_frame ref_env) (fst (frames_of put_frame))" by (simp add: fs client_frame_def)
  show "length (fst (frames_of put_frame)) = 1" by (simp add: fs)
qed

lemma routine_admissible: "routine e sy \<Longrightarrow> admissible ref_env (\<lambda>b. b) ids e sy \<and> \<not> stops e"
  by (cases e) (auto simp: put_frame_ok split: option.splits)

lemma routine_exec: "routine_run es sy = Some sy' \<Longrightarrow> system_exec ref_env (\<lambda>b. b) ids sy0 sy \<Longrightarrow> system_exec ref_env (\<lambda>b. b) ids sy0 sy'"
proof (induction es arbitrary: sy)
  case (Cons e es)
  then obtain m where "routine e sy" "system_step ref_env e sy = Some m" "routine_run es m = Some sy'"
    by (auto split: option.splits if_splits)
  with Cons routine_admissible show ?case by (meson system_exec.next_exec)
qed simp

lemma exec_reach: "system_exec env bytes ids a b \<Longrightarrow> system_reach env bytes ids a b"
  by (induction rule: system_exec.induct) (auto intro: system_reach.intros)

lemma two_members_started: "system_exec ref_env (\<lambda>b. b) three (init_system (\<lambda>_. [])) (members_up [2, 1])"
proof -
  have "system_exec ref_env (\<lambda>b. b) three (members_up []) (members_up [1])"
    by (rule next_exec [OF begin_exec member_starts(2) _ member_starts(1)]) simp_all
  then have "system_exec ref_env (\<lambda>b. b) three (members_up []) (members_up [2, 1])"
    by (rule next_exec [OF _ member_starts(2) _ member_starts(1)]) simp_all
  moreover have "init_system (\<lambda>_. []) = members_up []" by (simp add: members_up_def init_system_def)
  ultimately show ?thesis by simp
qed

text \<open>The same function by a recursion that the evaluation unfolds one entry at a time.\<close>

fun log_puts :: "('db, 'b) raft_env \<Rightarrow> log_entry list \<Rightarrow> (string \<times> string) list" where
  "log_puts env [] = []"
| "log_puts env (e # l) = (encodeLogKey (le_index e), ser_entry env e) # log_puts env l"

lemma log_puts_map: "log_puts env l = map (\<lambda>e. (encodeLogKey (le_index e), ser_entry env e)) l"
  by (induction l) auto

lemma persist_code [code]:
  "persistRaftState env t v l db =
     (let db = snd (engine_put (env_db env) voteKey (dec_string (unat v)) (snd (engine_put (env_db env) termKey (dec_string (unat t)) db)))
      in snd (engine_writeBatch (env_db env) (log_puts env (tl l)) (map fst (sc_kvs (engine_scan (env_db env) logKeyFirst logKeyEnd 100000 db))) db))"
  by (simp add: persistRaftState_def Let_def log_puts_map)

declare frame_loop.simps [code]

lemma elect_two_run:
  "case routine_run elect_two (members_up [2, 1]) of None \<Rightarrow> False
   | Some sy \<Rightarrow> (case sy_procs sy 2 of None \<Rightarrow> False | Some rs \<Rightarrow> rs_isLeader rs \<and> currentTerm (rs_raft rs) = 1)"
  by code_simp

lemma replicate_put_run:
  "case routine_run replicate_put (members_up [2, 1]) of None \<Rightarrow> False
   | Some sy \<Rightarrow> list_all (\<lambda>i. case sy_procs sy i of None \<Rightarrow> False
       | Some rs \<Rightarrow> currentTerm (rs_raft rs) = 1 \<and> length (raftLog (rs_raft rs)) = 2
           \<and> raftLog (rs_raft rs) ! 1 = \<lparr>le_term = 1, le_index = 1, le_command = ser_rpc ref_env (put_msg ''k'' ''v'')\<rparr>) [1, 2]"
  by code_simp

text \<open>
  Member 1 is stopped while it handles the request: after one call the new term is on its disk and no vote
  yet, after five the vote for member 2 is there as well, but the reply has not been sent.
\<close>

lemma stopped_voter_run:
  "case routine_run (take 2 elect_two) (members_up [2, 1]) of None \<Rightarrow> False
   | Some sy \<Rightarrow> list_all (\<lambda>(c, vote). case system_step ref_env (Crash_up 0 1000 0 0 150 c) sy of None \<Rightarrow> False
       | Some sy' \<Rightarrow> map_of (sy_disks sy' 1) termKey = Some ''1'' \<and> map_of (sy_disks sy' 1) voteKey = vote
           \<and> (case sy_procs sy' 1 of None \<Rightarrow> True | Some rs \<Rightarrow> False)) [(1, None), (2, Some ''0''), (4, Some ''0''), (5, Some ''2'')]"
  by code_simp

subsection \<open>The properties of the cluster, of its programs\<close>

text \<open>A number that \<open>recover_number\<close> reads, which is 0 when there is none.\<close>

definition disk_value :: "(string \<rightharpoonup> string) \<Rightarrow> string \<Rightarrow> uint64 \<Rightarrow> bool" where
  "disk_value m k w \<longleftrightarrow> m k = Some (dec_string (unat w)) \<or> m k = None \<and> w = 0"

text \<open>
  C5. The programs implement the cluster. For every execution of the members of a cluster, each started by
  \<open>main\<close> from its arguments and from what its database has, stopped between any two calls to the database
  or to a connection (also within an event, and within \<open>persistRaftState\<close>), started again at any time, with
  their bytes cut and lost by the network in any way, there is an execution of the cluster of Raft nodes in
  which every running program is at its node, every program that is down has the term and the vote of its
  node on its disk, and all that the connections carry are frames of messages in the network.
\<close>

theorem processes_refine_cluster:
  assumes "raft_system env content bytes" and "valid_ids ids" and "\<forall>i \<in> set ids. fresh_disk content (disks i)"
    and "system_reach env bytes ids (init_system disks) sy"
  shows "\<exists>cl. cluster_reach ids (init_cluster ids rnds) cl
    \<and> (\<forall>i rs. sy_procs sy i = Some rs \<longrightarrow> i \<in> set ids \<and> rs_raft rs = cl_nodes cl i)
    \<and> (\<forall>i \<in> set ids. sy_procs sy i = None \<longrightarrow>
         disk_value (content (sy_disks sy i)) termKey (currentTerm (cl_nodes cl i))
       \<and> disk_value (content (sy_disks sy i)) voteKey (votedFor (cl_nodes cl i)))
    \<and> (\<forall>l \<in> set (sy_links sy).
         (\<forall>f \<in> set (fst (frames_of (bytes (ln_up_buf l) @ ln_up l))).
            \<exists>m. f = (RAFT_MSG, ser_raft env m) \<and> (ln_from l, ln_to l, m) \<in> set (cl_net cl))
       \<and> (\<forall>f \<in> set (fst (frames_of (bytes (ln_down_buf l) @ ln_down l))).
            \<exists>m. f = (RAFT_MSG, ser_raft env m) \<and> (ln_to l, ln_from l, m) \<in> set (cl_net cl)))"
proof -
  note rules = raft_system.running_node [OF assms(1)] raft_system.stopped_node [OF assms(1)] raft_system.link_messages [OF assms(1)]
  from raft_system.reach_simulated [OF assms(1,4) raft_system.init_simulated(1) [OF assms(1-3)] assms(2)]
  obtain cl where cl: "cluster_reach ids (init_cluster ids rnds) cl" and s: "raft_system.simulated env content bytes ids sy cl"
    by blast
  have "raft_system.stored content (sy_disks sy i) (cl_nodes cl i)" if "i \<in> set ids" "sy_procs sy i = None" for i
    by (rule rules(2) [OF s that])
  then show ?thesis
    using cl rules(1) [OF s] rules(3) [OF s] rules(4) [OF s]
    by (intro exI [of _ cl] conjI allI impI ballI; (simp add: raft_system.stored_def [OF assms(1)] raft_system.key_is_def [OF assms(1)] disk_value_def)?)
qed

text \<open>The leader of the run is at the node of a cluster.\<close>

theorem processes_refine_cluster_witness:
  "\<exists>sy rs cl. system_reach ref_env (\<lambda>b. b) three (init_system (\<lambda>_. [])) sy \<and> sy_procs sy 2 = Some rs \<and> rs_isLeader rs
     \<and> cluster_reach three start cl \<and> rs_raft rs = cl_nodes cl 2"
proof -
  from elect_two_run obtain sy rs where r: "routine_run elect_two (members_up [2, 1]) = Some sy" "sy_procs sy 2 = Some rs" "rs_isLeader rs"
    by (auto split: option.splits)
  note e = exec_reach [OF routine_exec [OF r(1) two_members_started]]
  have "\<forall>i \<in> set three. fresh_disk map_of ((\<lambda>_. []) i)" by (simp add: fresh_disk_def)
  from processes_refine_cluster [OF ref_members.raft_system_axioms three_valid this e, of "\<lambda>_. 150"] e r(2,3) show ?thesis
    unfolding start_def by blast
qed

text \<open>
  C4. At most one leader per term, for the programs. In any execution of the members of a cluster, as they
  are started from their arguments and disks, stopped between any two calls to the database or to a
  connection, started again, and exchange bytes: when the
  program of member \<open>i\<close> is leader and then, or at any later moment, that of member \<open>j\<close> is leader in
  the same term, they are the same member.
\<close>

theorem processes_elect_one_leader:
  assumes "raft_system env content bytes" and "valid_ids ids" and "\<forall>i \<in> set ids. fresh_disk content (disks i)"
    and "system_reach env bytes ids (init_system disks) sy" and "system_reach env bytes ids sy sy'"
    and "sy_procs sy i = Some rs" and "rs_isLeader rs" and "sy_procs sy' j = Some rs'" and "rs_isLeader rs'"
    and "currentTerm (rs_raft rs) = currentTerm (rs_raft rs')"
  shows "i = j"
proof -
  note sim = raft_system.reach_simulated [OF assms(1)] and node = raft_system.running_node [OF assms(1)]
  from sim [OF assms(4) raft_system.init_simulated(1) [OF assms(1-3)] assms(2)] obtain cl where
    s: "raft_system.simulated env content bytes ids sy cl" by blast
  from sim [OF assms(5) s assms(2)] obtain cl' where r: "cluster_reach ids cl cl'"
    and s': "raft_system.simulated env content bytes ids sy' cl'" by blast
  note inv = s [unfolded raft_system.simulated_def [OF assms(1)]] s' [unfolded raft_system.simulated_def [OF assms(1)]]
  have "(currentTerm (rs_raft rs), i) \<in> cl_elected cl'"
    using leader_elected [of ids cl i] node [OF s assms(6)] assms(7) inv(1) cluster_reach_elected [OF r]
    by (auto simp: rs_isLeader_def isLeader_def)
  moreover have "(currentTerm (rs_raft rs'), j) \<in> cl_elected cl'"
    using leader_elected [of ids cl' j] node [OF s' assms(8)] assms(9) inv(2) by (auto simp: rs_isLeader_def isLeader_def)
  ultimately show ?thesis using elected_unique [OF _ assms(2)] inv(2) assms(10) by metis
qed

theorem processes_elect_one_leader_witness:
  "\<exists>sy rs. system_reach ref_env (\<lambda>b. b) three (init_system (\<lambda>_. [])) sy
     \<and> sy_procs sy 2 = Some rs \<and> rs_isLeader rs \<and> currentTerm (rs_raft rs) = 1
     \<and> (\<forall>sy' j rs'. system_reach ref_env (\<lambda>b. b) three sy sy' \<and> sy_procs sy' j = Some rs' \<and> rs_isLeader rs'
          \<and> currentTerm (rs_raft rs') = 1 \<longrightarrow> j = 2)"
proof -
  from elect_two_run obtain sy rs where r: "routine_run elect_two (members_up [2, 1]) = Some sy" "sy_procs sy 2 = Some rs"
    "rs_isLeader rs" "currentTerm (rs_raft rs) = 1" by (auto split: option.splits)
  note e = exec_reach [OF routine_exec [OF r(1) two_members_started]]
  have d: "\<forall>i \<in> set three. fresh_disk map_of ((\<lambda>_. []) i)" by (simp add: fresh_disk_def)
  have "2 = j" if "system_reach ref_env (\<lambda>b. b) three sy sy'" "sy_procs sy' j = Some rs'" "rs_isLeader rs'"
    "currentTerm (rs_raft rs') = 1" for sy' j rs'
    by (rule processes_elect_one_leader [OF ref_members.raft_system_axioms three_valid d e that(1) r(2,3) that(2,3)])
      (simp add: r(4) that(4))
  with e r show ?thesis by blast
qed

text \<open>
  C6. What a majority has is in the log of every later leader, for the programs. In the executions in
  which no program stops: when a majority \<open>Q\<close> of the members runs in term \<open>t\<close> with an entry of that
  term at index \<open>k\<close> of the log, then every program that is leader in that term or a later one, then or
  at any later moment, has the same entries as they up to that index, commands included.
\<close>

theorem processes_keep_majority_entries:
  assumes "raft_system env content bytes" and "valid_ids ids" and "\<forall>i \<in> set ids. fresh_disk content (disks i)"
    and "system_exec env bytes ids (init_system disks) sy" and "system_exec env bytes ids sy sy'"
    and "Q \<subseteq> set ids" and "2 * card Q > length ids" and "0 < k"
    and "\<forall>v \<in> Q. \<exists>rs. sy_procs sy v = Some rs \<and> currentTerm (rs_raft rs) = t
      \<and> k < length (raftLog (rs_raft rs)) \<and> le_term (raftLog (rs_raft rs) ! k) = t"
    and "sy_procs sy' j = Some rs'" and "rs_isLeader rs'" and "t \<le> currentTerm (rs_raft rs')"
    and "v \<in> Q" and "sy_procs sy v = Some rs"
  shows "k < length (raftLog (rs_raft rs')) \<and> take (Suc k) (raftLog (rs_raft rs')) = take (Suc k) (raftLog (rs_raft rs))"
proof -
  note sim = raft_system.exec_simulated [OF assms(1)] and node = raft_system.running_node [OF assms(1)]
  have inv: "cluster_inv ids (init_cluster ids (\<lambda>_. 0))" by (rule init_cluster_inv [OF assms(2)])
  from sim [OF assms(4) raft_system.init_simulated [OF assms(1-3)] assms(2)] obtain cl where
    e: "durable_exec ids (init_cluster ids (\<lambda>_. 0)) cl"
    and s: "raft_system.simulated env content bytes ids sy cl" "raft_system.untouched env ids sy cl" by blast
  from sim [OF assms(5) s assms(2)] obtain cl' where e': "durable_exec ids cl cl'"
    and s': "raft_system.simulated env content bytes ids sy' cl'" by blast
  from durable_exec_complete [OF e inv assms(2) init_complete [OF assms(2)]] obtain H A C where
    c: "log_inv ids H cl" "complete_inv ids H A C cl" by blast
  have inv': "cluster_inv ids cl" using s(1) by (simp add: raft_system.simulated_def [OF assms(1)])
  have q: "\<forall>v \<in> Q. currentTerm (cl_nodes cl v) = t \<and> k < length (raftLog (cl_nodes cl v)) \<and> le_term (raftLog (cl_nodes cl v) ! k) = t"
    using assms(9) node [OF s(1)] by metis
  show ?thesis
    using complete_leaders [OF inv' assms(2) c e' assms(6-8) q _ _ _ assms(13), of j] node [OF s' assms(10)]
      node [OF s(1) assms(14)] assms(11,12) by (simp add: rs_isLeader_def isLeader_def)
qed

theorem processes_keep_majority_entries_witness:
  "\<exists>sy. system_exec ref_env (\<lambda>b. b) three (init_system (\<lambda>_. [])) sy
     \<and> (\<forall>sy' j rs'. system_exec ref_env (\<lambda>b. b) three sy sy' \<and> sy_procs sy' j = Some rs' \<and> rs_isLeader rs'
          \<and> 1 \<le> currentTerm (rs_raft rs') \<longrightarrow>
          raftLog (rs_raft rs') ! 1 = \<lparr>le_term = 1, le_index = 1, le_command = ser_rpc ref_env (put_msg ''k'' ''v'')\<rparr>)"
proof -
  let ?e = "\<lparr>le_term = 1, le_index = 1, le_command = ser_rpc ref_env (put_msg ''k'' ''v'')\<rparr>"
  from replicate_put_run obtain sy rs where r: "routine_run replicate_put (members_up [2, 1]) = Some sy"
    and q: "\<forall>v \<in> {1, 2}. \<exists>rs. sy_procs sy v = Some rs \<and> currentTerm (rs_raft rs) = 1
      \<and> 1 < length (raftLog (rs_raft rs)) \<and> le_term (raftLog (rs_raft rs) ! 1) = 1"
    and rs: "sy_procs sy 1 = Some rs" "raftLog (rs_raft rs) ! 1 = ?e" "length (raftLog (rs_raft rs)) = 2"
    by (auto split: option.splits)
  note e = routine_exec [OF r two_members_started]
  have d: "\<forall>i \<in> set three. fresh_disk map_of ((\<lambda>_. []) i)" by (simp add: fresh_disk_def)
  have "raftLog (rs_raft rs') ! 1 = ?e" if "system_exec ref_env (\<lambda>b. b) three sy sy'" "sy_procs sy' j = Some rs'" "rs_isLeader rs'"
    "1 \<le> currentTerm (rs_raft rs')" for sy' j rs'
  proof -
    have "1 < length (raftLog (rs_raft rs')) \<and> take (Suc 1) (raftLog (rs_raft rs')) = take (Suc 1) (raftLog (rs_raft rs))"
      by (rule processes_keep_majority_entries [OF ref_members.raft_system_axioms three_valid d e that(1) _ _ _ q that(2-4) _ rs(1)])
        (simp_all add: three_def)
    then show ?thesis using rs(2) by (metis lessI nth_take)
  qed
  with e show ?thesis by blast
qed

end
