(* ===== verification/Spec2Isabelle.thy ===== *)
theory Spec2Isabelle
  imports Codec Leader_Completeness Config_File Sharding_Props Pd_Server Kv_Client_Props Entry_Points Old_Pool Chat_Props
    Client_Props Chat_Server Chat_Delivery Chat_Flow Repo_Tests System_Props
begin

text \<open>
  Verification of the programs of this repository (C++): a distributed key-value store, a chat server
  with its client, and the thread and connection pools they use.

  \<^bold>\<open>The store.\<close> A data node keeps its data in RocksDB (\<open>data_node/rocks_engine.cpp\<close>), replicates writes
  with a simplified Raft (\<open>raft_node.cpp\<close>: the algorithm; \<open>raft_service.cpp\<close>: persistence, apply and
  the messages between nodes), and answers clients (\<open>kv_service.cpp\<close>, \<open>data_server.cpp\<close>) over frames of
  length, type byte and protobuf payload (\<open>common/codec.cpp\<close>). A placement driver (\<open>pd_server/\<close>) keeps
  the nodes and the shards; the client library (\<open>client_sdk/\<close>) routes a call to a node, follows
  redirections and has its own framing over sockets.

  \<^bold>\<open>The chat.\<close> Requests are JSON objects. The server (\<open>chat/src/server/chatserver.cpp\<close>) parses what arrives
  and has a thread pool (\<open>include/threadpool.h\<close>) run the handler of \<open>chatservice.cpp\<close> for it. Handlers read
  and write users, messages and friends in MySQL (\<open>usermodel.cpp\<close>) over connections (\<open>MysqlDB.cpp\<close>) of a
  pool (\<open>ConnectPool.cpp\<close>); a message for a user on another server goes through Redis (\<open>redis.cpp\<close>). The
  client (\<open>chat/src/client/chat_client.cpp\<close>) has a thread that handles what the server sends and a loop
  over the menus. A third project holds an older version of the connection pool.

  \<^bold>\<open>Theories of the store.\<close>
  \<^item> \<open>Prelude\<close>: words, bytes, decimal strings, the exceptions of \<open>std::stoi\<close> and \<open>std::stoull\<close>, helper lemmas.
  \<^item> \<open>Proto\<close>: the messages of \<open>proto/*.proto\<close> as records, with the defaults of unset fields.
  \<^item> \<open>Wire_Ref\<close>: the interface of protobuf serialisation (\<open>wire_format\<close>, \<open>prefix_code\<close>) and an executable
    reference code that satisfies it; it stands for the generated code only in witnesses.
  \<^item> \<open>Codec\<close>: the interface of muduo's \<open>Buffer\<close> (\<open>net_buffer\<close>), \<open>LengthPrefixedCodec\<close> and the receive loop
    that \<open>DataServer\<close>, \<open>RaftService\<close> and \<open>PdServer\<close> share. Frames survive the stream however TCP cuts it;
    a header of \<open>2^32 - 5\<close> or more aborts the server.
  \<^item> \<open>Raft_Node\<close>: every method of \<open>RaftNode\<close> as a function from node to node and the list of its
    callbacks (\<open>Persist\<close>, \<open>Apply\<close>, \<open>Send\<close>) in order. Clock readings and random timeouts are arguments.
  \<^item> \<open>Raft_Log\<close>, \<open>Raft_Inv\<close>, \<open>Raft_Rules\<close>: log lemmas; the invariant of a node, preserved by every event,
    with memory safety, one vote per term, persistence before messages and the order of applied
    entries; the rules of the Raft paper that the operations follow.
  \<^item> \<open>Raft_Message\<close>, \<open>Raft_Cluster\<close>, \<open>Election\<close>: the dispatch of messages, the step relation of a cluster whose
    network may lose, delay and reorder messages, election safety by rule induction, and an execution in
    which no node stops and two nodes apply different commands at the same index.
  \<^item> \<open>Log_Matching\<close>: executions in which nodes stop at any moment and restart with a prefix of the log they had; the
    logs of any two nodes match. The invariant ties logs and requests to the history of each term, the log of its only leader.
  \<^item> \<open>Leader_Completeness\<close>: executions in which nodes restart with their log; an entry that a majority holds
    in its term is in the log of every later leader. The invariant records which node held which entry in
    its term and with which log each candidate campaigned. That a node applies only such entries does
    not follow: an execution in which a heartbeat makes a follower apply another entry.
  \<^item> \<open>Rocks_Engine\<close>: the interface of RocksDB (\<open>rocksdb\<close>, \<open>rocksdb_available\<close>) and the wrapper around it,
    with scans and paging, which with the limit 0 never ends; \<open>al\<close> interprets it on association lists.
  \<^item> \<open>Raft_Service\<close>, \<open>Persistence\<close>: the service, what recovery finds after a restart: a log that is persisted
    for the first time up to 100000 entries, the limit of the scan, and only the new entries of a later one.
  \<^item> \<open>Kv_Service\<close>, \<open>Kv_Props\<close>: handlers and receive loop of a data node; requests and replies, redirection,
    the replicated state machine as a refinement of a map.
  \<^item> \<open>Config_File\<close>: the parser of configuration files.
  \<^item> \<open>Sharding\<close>, \<open>Sharding_Props\<close>, \<open>Pd_Server\<close>: routers, the shard manager, the placement driver.
  \<^item> \<open>Kv_Client\<close>, \<open>Kv_Client_Props\<close>: the client library, and the client together with the servers.
  \<^item> \<open>Entry_Points\<close>: the arguments and modes of the programs, the start of a data node from its arguments, the
    event loops with the signals that end them, the loop of a node whose database does not open, and the commands of the demonstration client.
  \<^item> \<open>Raft_Process\<close>: the members of a cluster as whole programs. The state of the system is the running
    processes, the databases of those that are down and the connections with the bytes under way; an event
    is a program that starts (\<open>node_start\<close>), stops between two events or within one, runs its timer, reads bytes of a client or of a peer
    (\<open>server_onMessage\<close>, \<open>onPeerMessage\<close>), or a connection that is made or lost.
  \<^item> \<open>Raft_System\<close>, \<open>System_Exec\<close>: the simulation of this system by the cluster of \<open>Raft_Cluster\<close>, for the interface
    \<open>raft_system\<close> of database, buffer and serialisation. A stream of whole frames stays one wherever the network
    cuts it; the store of a member knows the term and the vote of its node between two events, and within one
    at least a later term before anything is sent; a program that starts is a node that restarts.
  \<^item> \<open>System_Props\<close>: what follows for the programs: refinement of the cluster, one leader per term in spite of
    restarts, leader completeness while none stops; and a run from three command lines, on the reference
    database and serialisation, in which a member is elected and replicates the put of a client.
  \<^item> \<open>Repo_Tests\<close>: the tests of the repository (\<open>tests/\<close>) as boolean definitions over the model; all of them
    pass for every buffer, serialisation and database with their documented behaviour.

  \<^bold>\<open>Theories of the chat.\<close>
  \<^item> \<open>Thread_Pool\<close>: the critical sections of \<open>threadpool.h\<close> as steps of threads that interleave, sleep on the
    condition variable, are notified, wake up without reason and time out. Counters, the order of the
    tasks, and that the destructor of a pool of fixed size returns after every accepted task was
    executed; in the mode \<open>CACHE\<close> an execution in which it waits for ever.
  \<^item> \<open>Mysql_Db\<close>: \<open>MysqlDB\<close> over the MySQL C API as a record of functions. \<open>Connect_Pool\<close>: the pool, the
    interface of connection handles (\<open>mysql_handles\<close>), exclusive use of connections. \<open>Old_Pool\<close>: the older
    version, what it shares with the newer one and how it runs dry.
  \<^item> \<open>Chat_Model\<close>: \<open>User\<close>, \<open>Message\<close>, \<open>UserModel\<close> with the SQL texts it sends. \<open>Chat_Db\<close>: the interface of the
    database (\<open>chat_database\<close>), what each of these statements (\<open>chat_sql\<close>, the only texts that are assumed to prepare) does to the
    tables, and the effect of every method under it; an insertion may be refused (\<open>insert_accepted\<close>). \<open>Chat_Ref\<close>: a database in memory that satisfies the interface. \<open>Chat_Props\<close>:
    registration, messages that wait, friendship, messages that are too long.
  \<^item> \<open>Redis_Client\<close>: \<open>RedisClient\<close>, whose loop has a program counter and interleaves with the callers.
  \<^item> \<open>Json_Value\<close>: the values of the JSON library and the accesses that throw.
  \<^item> \<open>Json_Text\<close>: the texts of JSON. A grammar of objects (\<open>object_text\<close>) in which no string ends in a backslash, a
    printer in the default layout of the library, and the interfaces \<open>json_printer\<close> (\<open>dump\<close> prints every value whose
    texts are UTF-8; others may throw) and \<open>json_texts\<close> (it prints objects by the grammar), with the printer as instance.
  \<^item> \<open>Chat_Service\<close>, \<open>Service_Props\<close>: the handlers as actions that may throw, over the user model, Redis and
    the table of connections; login, routing of messages, messages between servers, disconnection. The
    properties assume what the code needs: texts in the tables that are UTF-8 (\<open>tables_utf8\<close>) and shorter than the
    buffers of 1024 bytes (\<open>tables_fit\<close>).
  \<^item> \<open>Chat_Threads\<close>, \<open>Chat_Delivery\<close>: \<open>login\<close>, \<open>onemessage\<close> and \<open>clientColse\<close> as programs of sections, a call to
    the database, a block under the mutex, a request to Redis or a text handed to a connection each,
    equal to the handlers when nothing interferes. All interleavings of a login with messages end and
    deliver every message; two logins at once both succeed.
  \<^item> \<open>Chat_Protocol\<close>: the types of the messages of the server, that the handlers send no others and that
    clients handle them; a forged member that ends the client of the receiver.
  \<^item> \<open>Chat_Server\<close>: the callbacks of the server, the class \<open>MySQL\<close>, \<open>main\<close> and the interrupt handler.
  \<^item> \<open>Chat_Client\<close>, \<open>Client_Props\<close>: the client; that it reads a stream of objects of the grammar however it is cut, and how client and
    server disagree on logging out and on repeated applications. \<open>Chat_Flow\<close>: a message from the menu of one
    client to the console of another and its acknowledgement back.

  \<^bold>\<open>Conventions.\<close> \<open>uint64_t\<close>, \<open>uint32_t\<close>, \<open>uint16_t\<close> are words of that width. A method that holds a mutex for
  its whole length is one step; the thread pool, the connection pool and the Redis client are step
  relations over their critical sections. A C++ exception is \<open>Inl\<close>, and so is undefined behaviour such
  as a null pointer that is dereferenced; an assertion of the buffer that fails is a flag of the
  result. In the system of programs a process stops between any two calls to the database or a
  connection; what one call writes to the database is on the disk as a whole. Its clients put
  and delete under the keys of users (the code keeps term, vote and log under keys of the same store) and
  send no frame of the type of Raft messages, no frame has \<open>2^32\<close> bytes, and terms and logs stay below the
  ends of their types (\<open>admissible\<close>, \<open>small_frame\<close>). \<open>frame_loop\<close> is a partial function in the option monad, and the round trip lemmas prove that
  it returns; \<open>scan_pages\<close> takes fuel, and one page more than there are keys is proved to be enough;
  every other loop is total. The unordered maps that the program iterates over take the order of
  iteration as an argument.

  \<^bold>\<open>Not modelled.\<close> Protobuf, RocksDB, muduo, the MySQL C API, hiredis and the JSON library are parameters
  with the documented behaviour as named assumptions. The handlers of the chat
  service besides \<open>login\<close>, \<open>onemessage\<close> and \<open>clientColse\<close> run as one action each, although the pool may run
  them in parallel; in the interleavings a call of the user model is one section, so that handlers do
  not compete for the connections of the pool there (\<open>Connect_Pool\<close> has that). A request to Redis
  in a handler is entered in the queue, and the answer, which the handlers do not use, is not waited
  for. A round of the menu of the client runs without interruption by the receiving thread. Log
  output and the layout of the console are left out, as are event loops, timers and sockets below the
  calls of the program; snapshots, whose messages the store declares but does not handle; generated code,
  build files and the experiments under \<open>test\<close>.
\<close>

end
